(* ===== verification/Prelude.thy ===== *)
theory Prelude
  imports Main
begin

text \<open>
  Shared vocabulary of the development: the fact collections, generic list lemmas and the
  two generic interfaces that several components provide.

  \<^item> \<open>invariant_machine\<close>: a step function and an invariant that every admissible step
    keeps; its clients get the invariant along every run. \<open>growing_machine\<close> adds a preorder
    along which the states only grow.
  \<^item> \<open>hash_chain\<close>: a log whose reader checks, line by line, what its writer sealed;
    its clients get acceptance of everything that was written, the prefix property and the
    composition of two verifications. \<open>binding_chain\<close> adds that accepting a line binds its
    content unless it clashes with the other line (the two hashed texts differ and share a digest),
    and yields the tamper evidence of whole logs: a different log exhibits such a pair of lines.
\<close>

named_theorems cstr_simps \<open>characters that rendered numbers and digests are free of\<close>
named_theorems inv_intros \<open>preservation of component invariants\<close>

section \<open>Lists\<close>

lemma takeWhile_all: "(\<And>x. x \<in> set xs \<Longrightarrow> P x) \<Longrightarrow> takeWhile P xs = xs"
  by (induction xs) auto

lemma takeWhile_stop:
  "(\<And>x. x \<in> set xs \<Longrightarrow> P x) \<Longrightarrow> \<not> P y \<Longrightarrow> takeWhile P (xs @ y # ys) = xs"
  by (induction xs) auto

lemma dropWhile_stop:
  "(\<And>x. x \<in> set xs \<Longrightarrow> P x) \<Longrightarrow> \<not> P y \<Longrightarrow> dropWhile P (xs @ y # ys) = y # ys"
  by (induction xs) auto

lemma length_concat_const:
  "(\<And>x. x \<in> set xs \<Longrightarrow> length (f x) = k) \<Longrightarrow> length (concat (map f xs)) = k * length xs"
  by (induction xs) auto

lemma length_takeWhile_append_le:
  "length (takeWhile P (xs @ ys)) \<ge> length (takeWhile P xs)"
  by (induction xs) auto

section \<open>Machines with an invariant\<close>

locale invariant_machine =
  fixes step :: "'s \<Rightarrow> 'e \<Rightarrow> 's"
    and inv :: "'s \<Rightarrow> bool"
    and admissible :: "'e \<Rightarrow> bool"
  assumes step_inv: "admissible e \<Longrightarrow> inv s \<Longrightarrow> inv (step s e)"
begin

lemma run_inv: "list_all admissible es \<Longrightarrow> inv s \<Longrightarrow> inv (foldl step s es)"
  by (induction es arbitrary: s) (auto simp: step_inv)

lemma run_split_inv:
  "list_all admissible (es @ fs) \<Longrightarrow> inv s \<Longrightarrow> inv (foldl step s es) \<and> inv (foldl step s (es @ fs))"
  using run_inv [of es s] run_inv [of "es @ fs" s] by simp

end

text \<open>A machine whose states only grow in some preorder.\<close>

locale growing_machine = invariant_machine step inv admissible
  for step :: "'s \<Rightarrow> 'e \<Rightarrow> 's" and inv :: "'s \<Rightarrow> bool" and admissible :: "'e \<Rightarrow> bool" +
  fixes below :: "'s \<Rightarrow> 's \<Rightarrow> bool"
  assumes below_refl: "below s s"
    and below_trans: "below s t \<Longrightarrow> below t u \<Longrightarrow> below s u"
    and step_grows: "admissible e \<Longrightarrow> inv s \<Longrightarrow> below s (step s e)"
begin

lemma run_grows: "list_all admissible es \<Longrightarrow> inv s \<Longrightarrow> below s (foldl step s es)"
proof (induction es arbitrary: s)
  case Nil
  then show ?case by (simp add: below_refl)
next
  case (Cons e es)
  have "below s (step s e)" using Cons.prems by (intro step_grows) simp_all
  moreover have "below (step s e) (foldl step (step s e) es)"
    using Cons.prems by (intro Cons.IH step_inv) simp_all
  ultimately show ?case by (auto intro: below_trans)
qed

end

section \<open>Sealed logs\<close>

locale hash_chain =
  fixes check :: "'h \<Rightarrow> 'l \<Rightarrow> 'h option"
    and seal :: "'h \<Rightarrow> 'e \<Rightarrow> 'l"
    and link :: "'h \<Rightarrow> 'e \<Rightarrow> 'h"
    and fit :: "'h \<Rightarrow> 'e \<Rightarrow> bool"
  assumes check_seal: "fit h e \<Longrightarrow> check h (seal h e) = Some (link h e)"
begin

fun verify_all :: "'h \<Rightarrow> 'l list \<Rightarrow> 'h option" where
  "verify_all h [] = Some h"
| "verify_all h (l # ls) = (case check h l of None \<Rightarrow> None | Some h' \<Rightarrow> verify_all h' ls)"

fun seal_all :: "'h \<Rightarrow> 'e list \<Rightarrow> 'l list" where
  "seal_all h [] = []"
| "seal_all h (e # es) = seal h e # seal_all (link h e) es"

fun fit_all :: "'h \<Rightarrow> 'e list \<Rightarrow> bool" where
  "fit_all h [] \<longleftrightarrow> True"
| "fit_all h (e # es) \<longleftrightarrow> fit h e \<and> fit_all (link h e) es"

lemma verify_append:
  "verify_all h (ls @ ms) = (case verify_all h ls of None \<Rightarrow> None | Some k \<Rightarrow> verify_all k ms)"
  by (induction ls arbitrary: h) (auto split: option.splits)

lemma verify_sealed: "fit_all h es \<Longrightarrow> verify_all h (seal_all h es) = Some (foldl link h es)"
  by (induction es arbitrary: h) (auto simp: check_seal)

lemma verify_extend:
  "verify_all g ls = Some h \<Longrightarrow> fit h e \<Longrightarrow> verify_all g (ls @ [seal h e]) = Some (link h e)"
  by (simp add: verify_append check_seal)

lemma verify_prefix: "verify_all h (ls @ ms) \<noteq> None \<Longrightarrow> verify_all h ls \<noteq> None"
  by (auto simp: verify_append split: option.splits)

lemma verify_snoc_iff:
  "verify_all g (ls @ [l]) = Some k \<longleftrightarrow> (\<exists>h. verify_all g ls = Some h \<and> check h l = Some k)"
  by (auto simp: verify_append split: option.splits)

end

locale binding_chain = hash_chain check seal link fit
  for check :: "'h \<Rightarrow> 'l \<Rightarrow> 'h option" and seal :: "'h \<Rightarrow> 'e \<Rightarrow> 'l"
    and link :: "'h \<Rightarrow> 'e \<Rightarrow> 'h" and fit :: "'h \<Rightarrow> 'e \<Rightarrow> bool" +
  fixes body :: "'l \<Rightarrow> 'b" and clash :: "'l \<Rightarrow> 'l \<Rightarrow> bool"
  assumes check_binds:
    "check h l = Some k \<Longrightarrow> check h' l' = Some k \<Longrightarrow> (h = h' \<and> body l = body l') \<or> clash l l'"
begin

lemma verify_binds:
  "length ls = length ms \<Longrightarrow> verify_all g ls = Some k \<Longrightarrow> verify_all g ms = Some k
    \<Longrightarrow> map body ls = map body ms \<or> (\<exists>i < length ls. clash (ls ! i) (ms ! i))"
proof (induction ls arbitrary: ms k rule: rev_induct)
  case Nil
  then show ?case by simp
next
  case (snoc l ls)
  then obtain ms' m where ms: "ms = ms' @ [m]"
    by (cases ms rule: rev_cases) simp_all
  from snoc.prems(1) ms have len: "length ls = length ms'" by simp
  from snoc.prems(2) obtain h where h: "verify_all g ls = Some h" "check h l = Some k"
    by (auto simp: verify_snoc_iff)
  from snoc.prems(3) obtain h' where h': "verify_all g ms' = Some h'" "check h' m = Some k"
    by (auto simp: verify_snoc_iff ms)
  show ?case
  proof (cases "clash l m")
    case True
    then show ?thesis using len ms by (auto simp: nth_append intro!: exI [of _ "length ls"])
  next
    case False
    with check_binds [OF h(2) h'(2)] have eq: "h = h'" "body l = body m" by simp_all
    have "map body ls = map body ms' \<or> (\<exists>i < length ls. clash (ls ! i) (ms' ! i))"
      by (rule snoc.IH [OF len h(1)]) (simp add: eq(1) h'(1))
    then show ?thesis
    proof
      assume "\<exists>i < length ls. clash (ls ! i) (ms' ! i)"
      then obtain i where "i < length ls" "clash (ls ! i) (ms' ! i)" by blast
      then have "clash ((ls @ [l]) ! i) (ms ! i)" using len ms by (simp add: nth_append)
      with \<open>i < length ls\<close> show ?thesis by auto
    qed (simp add: eq(2) ms)
  qed
qed

end

end
