(* ===== verification/CString.thy ===== *)
theory CString
  imports Prelude
begin

text \<open>
  The parts of the C string and stdio libraries that the sources use, on lists of characters.
  A C string is a list without the terminating NUL; a file is the list of its bytes. A buffer
  of \<open>n\<close> bytes holds at most \<open>n - 1\<close> characters: \<open>snprintf_buf\<close> is the truncation that
  \<open>snprintf(buf, n, ...)\<close> performs. \<open>read_lines m\<close> is the loop
  \<open>while (fgets(line, m + 1, f))\<close>.
\<close>

section \<open>Characters\<close>

abbreviation NUL :: char where "NUL \<equiv> CHR 0x00"
abbreviation NL :: char where "NL \<equiv> CHR 0x0A"
abbreviation CR :: char where "CR \<equiv> CHR 0x0D"
abbreviation BAR :: char where "BAR \<equiv> CHR ''|''"
abbreviation COMMA :: char where "COMMA \<equiv> CHR '',''"
abbreviation QUOTE :: char where "QUOTE \<equiv> CHR 0x22"
abbreviation BSLASH :: char where "BSLASH \<equiv> CHR 0x5C"

definition code :: "char \<Rightarrow> nat" where
  "code c = of_char c"

definition c_isspace :: "char \<Rightarrow> bool" where
  "c_isspace c \<longleftrightarrow> c \<in> {CHR 0x20, CHR 0x09, CHR 0x0A, CHR 0x0B, CHR 0x0C, CHR 0x0D}"

definition c_isdigit :: "char \<Rightarrow> bool" where
  "c_isdigit c \<longleftrightarrow> 48 \<le> code c \<and> code c \<le> 57"

definition digit_char :: "nat \<Rightarrow> char" where
  "digit_char n = char_of (48 + n)"

lemma code_digit_char: "n < 10 \<Longrightarrow> code (digit_char n) = 48 + n"
  by (simp add: code_def digit_char_def)

lemma isdigit_digit_char [simp]: "n < 10 \<Longrightarrow> c_isdigit (digit_char n)"
  by (simp add: c_isdigit_def code_digit_char)

lemma isdigit_not_isspace: "c_isdigit c \<Longrightarrow> \<not> c_isspace c"
  by (auto simp: c_isdigit_def c_isspace_def code_def)

lemma isdigit_special [simp]:
  "\<not> c_isdigit NUL" "\<not> c_isdigit NL" "\<not> c_isdigit CR" "\<not> c_isdigit BAR" "\<not> c_isdigit QUOTE"
  "\<not> c_isdigit BSLASH" "\<not> c_isdigit COMMA" "\<not> c_isdigit (CHR ''-'')" "\<not> c_isdigit (CHR ''+'')"
  by (simp_all add: c_isdigit_def code_def)

section \<open>Strings and buffers\<close>

definition cstr :: "string \<Rightarrow> string" where
  \<comment> \<open>what the string functions see of a buffer: everything up to the first NUL\<close>
  "cstr s = takeWhile (\<lambda>c. c \<noteq> NUL) s"

definition snprintf_buf :: "nat \<Rightarrow> string \<Rightarrow> string" where
  "snprintf_buf n s = take (n - 1) s"

definition cut_eol :: "string \<Rightarrow> string" where
  \<comment> \<open>\<open>line[strcspn(line, "\r\n")] = 0\<close>\<close>
  "cut_eol s = takeWhile (\<lambda>c. c \<noteq> CR \<and> c \<noteq> NL) s"

definition starts_with :: "string \<Rightarrow> string \<Rightarrow> bool" where
  \<comment> \<open>\<open>strncmp(s, p, strlen(p)) == 0\<close>\<close>
  "starts_with p s \<longleftrightarrow> take (length p) s = p"

fun c_strstr :: "string \<Rightarrow> string \<Rightarrow> string option" where
  \<comment> \<open>\<open>strstr(s, p)\<close>: the suffix of \<open>s\<close> at the first occurrence of \<open>p\<close>\<close>
  "c_strstr p [] = (if p = [] then Some [] else None)"
| "c_strstr p (c # s) = (if starts_with p (c # s) then Some (c # s) else c_strstr p s)"

lemma snprintf_buf_fits [simp]: "length s < n \<Longrightarrow> snprintf_buf n s = s"
  by (simp add: snprintf_buf_def)

lemma length_snprintf_buf: "0 < n \<Longrightarrow> length (snprintf_buf n s) < n"
  by (auto simp: snprintf_buf_def min_def)

lemma snprintf_buf_idem [simp]: "snprintf_buf n (snprintf_buf n s) = snprintf_buf n s"
  by (simp add: snprintf_buf_def)

lemma set_snprintf_buf: "set (snprintf_buf n s) \<subseteq> set s"
  by (simp add: snprintf_buf_def set_take_subset)

lemma cstr_no_nul [simp]: "NUL \<notin> set s \<Longrightarrow> cstr s = s"
  unfolding cstr_def by (rule takeWhile_all) auto

lemma cut_eol_clean [simp]: "CR \<notin> set s \<Longrightarrow> NL \<notin> set s \<Longrightarrow> cut_eol s = s"
  unfolding cut_eol_def by (rule takeWhile_all) auto

lemma cut_eol_line: "CR \<notin> set s \<Longrightarrow> NL \<notin> set s \<Longrightarrow> cut_eol (s @ [NL]) = s"
  unfolding cut_eol_def by (rule takeWhile_stop) auto

lemma starts_with_append [simp]: "starts_with p (p @ s)"
  by (simp add: starts_with_def)

lemma strstr_here: "starts_with p s \<Longrightarrow> c_strstr p s = Some s"
  by (cases s) (auto simp: starts_with_def)

lemma strstr_skip: "s \<noteq> [] \<Longrightarrow> \<not> starts_with p s \<Longrightarrow> c_strstr p s = c_strstr p (tl s)"
  by (cases s) auto

text \<open>A pattern cannot start inside text that lacks the pattern's first character.\<close>

lemma strstr_skip_free:
  assumes "q \<notin> set xs"
  shows "c_strstr (q # p) (xs @ s) = c_strstr (q # p) s"
  using assms by (induction xs) (auto simp: starts_with_def)

lemma strstr_length: "c_strstr p s = Some t \<Longrightarrow> length p \<le> length s"
proof (induction s)
  case (Cons c s)
  then show ?case
    by (auto simp: starts_with_def split: if_splits dest: arg_cong [where f = length])
qed (auto split: if_splits)

lemma strstr_append: "c_strstr p s = Some t \<Longrightarrow> c_strstr p (s @ u) = Some (t @ u)"
proof (induction s)
  case Nil
  then show ?case by (cases u) (auto simp: starts_with_def split: if_splits)
next
  case (Cons c s)
  from Cons.prems have len: "length p \<le> length (c # s)" by (rule strstr_length)
  then have "take (length p) ((c # s) @ u) = take (length p) (c # s)"
    by (subst take_append) simp
  then have "starts_with p ((c # s) @ u) \<longleftrightarrow> starts_with p (c # s)"
    by (simp only: starts_with_def)
  with Cons show ?case by (simp split: if_splits)
qed

section \<open>fgets\<close>

definition fgets_len :: "nat \<Rightarrow> string \<Rightarrow> nat" where
  "fgets_len m s = min m (Suc (length (takeWhile (\<lambda>c. c \<noteq> NL) s)))"

definition fgets_take :: "nat \<Rightarrow> string \<Rightarrow> string" where
  "fgets_take m s = take (fgets_len m s) s"

definition fgets_rest :: "nat \<Rightarrow> string \<Rightarrow> string" where
  "fgets_rest m s = drop (fgets_len m s) s"

function read_lines :: "nat \<Rightarrow> string \<Rightarrow> string list" where
  "read_lines m s =
     (if s = [] \<or> m = 0 then [] else fgets_take m s # read_lines m (fgets_rest m s))"
  by pat_completeness auto
termination
  by (relation "measure (\<lambda>(m, s). length s)") (auto simp: fgets_rest_def fgets_len_def)

declare read_lines.simps [simp del]

lemma read_lines_Nil [simp]: "read_lines m [] = []"
  by (simp add: read_lines.simps)

lemma fgets_len_line: "NL \<notin> set l \<Longrightarrow> length l < m \<Longrightarrow> fgets_len m (l @ NL # s) = Suc (length l)"
proof -
  assume "NL \<notin> set l" and "length l < m"
  moreover from \<open>NL \<notin> set l\<close> have "takeWhile (\<lambda>c. c \<noteq> NL) (l @ NL # s) = l"
    by (intro takeWhile_stop) auto
  ultimately show ?thesis by (simp add: fgets_len_def)
qed

lemma read_lines_line:
  assumes "NL \<notin> set l" and "length l < m"
  shows "read_lines m (l @ NL # s) = (l @ [NL]) # read_lines m s"
  using fgets_len_line [OF assms, of s] assms
  by (subst read_lines.simps) (auto simp: fgets_take_def fgets_rest_def)

lemma chunk_shape: "r \<in> set (read_lines m s) \<Longrightarrow> NL \<notin> set (butlast r)"
proof (induction m s rule: read_lines.induct)
  case (1 m s)
  let ?n = "length (takeWhile (\<lambda>c. c \<noteq> NL) s)"
  have "butlast (fgets_take m s) = take (length (fgets_take m s) - 1) s"
    by (simp add: fgets_take_def butlast_conv_take)
  moreover have "length (fgets_take m s) - 1 \<le> ?n"
    by (simp add: fgets_take_def fgets_len_def) 
  moreover have "NL \<notin> set (take ?n s)"
    by (metis (mono_tags, lifting) set_takeWhileD takeWhile_eq_take)
  ultimately have "NL \<notin> set (butlast (fgets_take m s))"
    using set_take_subset_set_take [of "length (fgets_take m s) - 1" ?n s] by auto
  with 1 show ?case by (subst (asm) read_lines.simps) (auto split: if_splits)
qed

lemma read_lines_concat: "0 < m \<Longrightarrow> concat (read_lines m s) = s"
proof (induction m s rule: read_lines.induct)
  case (1 m s)
  then show ?case
    by (subst read_lines.simps) (auto simp: fgets_take_def fgets_rest_def)
qed

lemma read_lines_length: "r \<in> set (read_lines m s) \<Longrightarrow> length r \<le> m"
proof (induction m s rule: read_lines.induct)
  case (1 m s)
  then show ?case
    by (subst (asm) read_lines.simps) (auto simp: fgets_take_def fgets_len_def split: if_splits)
qed

lemma cstr_last_NL:
  assumes "NL \<notin> set (butlast r)" and "cstr r \<noteq> []" and "last (cstr r) = NL"
  obtains l where "r = l @ [NL]" and "NUL \<notin> set l" and "NL \<notin> set l"
proof -
  obtain t where t: "r = cstr r @ t"
    by (metis cstr_def takeWhile_dropWhile_id)
  have in_cstr: "NL \<in> set (cstr r)" using assms(2,3) last_in_set by metis
  have t_nil: "t = []"
  proof (rule ccontr)
    assume "t \<noteq> []"
    then have "butlast r = cstr r @ butlast t" by (metis t butlast_append)
    with assms(1) in_cstr show False by simp
  qed
  from assms(2,3) obtain l where l: "cstr r = l @ [NL]" by (metis append_butlast_last_id)
  have "NUL \<notin> set (cstr r)" by (auto simp: cstr_def dest: set_takeWhileD)
  with that [of l] t t_nil l assms(1) show thesis by simp
qed

lemma map_line_inject [simp]:
  "map (\<lambda>l. l @ [NL]) ls = map (\<lambda>l. l @ [NL]) ms \<longleftrightarrow> ls = ms"
  by (rule inj_map_eq_map) (simp add: inj_def)

text \<open>A file that is a sequence of short lines is read back line by line.\<close>

definition short_lines :: "nat \<Rightarrow> string list \<Rightarrow> bool" where
  "short_lines m ls \<longleftrightarrow> (\<forall>l \<in> set ls. NL \<notin> set l \<and> length l < m)"

definition unlines :: "string list \<Rightarrow> string" where
  "unlines ls = concat (map (\<lambda>l. l @ [NL]) ls)"

lemma unlines_simps [simp]:
  "unlines [] = []" "unlines (l # ls) = l @ NL # unlines ls"
  "unlines (ls @ ms) = unlines ls @ unlines ms"
  by (simp_all add: unlines_def)

lemma read_lines_unlines_append:
  "short_lines m ls \<Longrightarrow> read_lines m (unlines ls @ s) = map (\<lambda>l. l @ [NL]) ls @ read_lines m s"
  by (induction ls) (auto simp: short_lines_def read_lines_line)

lemma read_lines_unlines:
  "short_lines m ls \<Longrightarrow> read_lines m (unlines ls) = map (\<lambda>l. l @ [NL]) ls"
  using read_lines_unlines_append [of m ls "[]"] by simp

lemma unlines_inject:
  assumes "short_lines m ls" and "short_lines m ms" and "unlines ls = unlines ms"
  shows "ls = ms"
proof -
  have "map (\<lambda>l. l @ [NL]) ls = map (\<lambda>l. l @ [NL]) ms"
    by (rule trans [OF read_lines_unlines [OF assms(1), symmetric]])
      (subst assms(3), rule read_lines_unlines [OF assms(2)])
  then show ?thesis by (simp only: map_line_inject)
qed

lemma short_lines_append [simp]:
  "short_lines m (ls @ ms) \<longleftrightarrow> short_lines m ls \<and> short_lines m ms"
  by (auto simp: short_lines_def)

lemma short_lines_simps [simp]:
  "short_lines m []" "short_lines m (l # ls) \<longleftrightarrow> NL \<notin> set l \<and> length l < m \<and> short_lines m ls"
  by (auto simp: short_lines_def)

section \<open>Separated fields\<close>

fun split_on :: "char \<Rightarrow> string \<Rightarrow> string list" where
  \<comment> \<open>the tokens that repeated calls of \<open>strsep\<close> with one delimiter return\<close>
  "split_on d [] = [[]]"
| "split_on d (c # s) =
     (if c = d then [] # split_on d s
      else case split_on d s of [] \<Rightarrow> [[c]] | f # fs \<Rightarrow> (c # f) # fs)"

definition strtok_all :: "char \<Rightarrow> string \<Rightarrow> string list" where
  \<comment> \<open>the tokens that repeated calls of \<open>strtok_r\<close> return: empty ones are skipped\<close>
  "strtok_all d s = filter (\<lambda>f. f \<noteq> []) (split_on d s)"

fun join :: "char \<Rightarrow> string list \<Rightarrow> string" where
  "join d [] = []"
| "join d [f] = f"
| "join d (f # g # fs) = f @ d # join d (g # fs)"

lemma split_on_nonempty [simp]: "split_on d s \<noteq> []"
  by (induction s) (auto split: list.splits)

lemma split_on_free: "d \<notin> set f \<Longrightarrow> split_on d f = [f]"
  by (induction f) auto

lemma split_on_field: "d \<notin> set f \<Longrightarrow> split_on d (f @ d # s) = f # split_on d s"
  by (induction f) auto

lemma split_on_join:
  "fs \<noteq> [] \<Longrightarrow> (\<And>f. f \<in> set fs \<Longrightarrow> d \<notin> set f) \<Longrightarrow> split_on d (join d fs) = fs"
  by (induction d fs rule: join.induct) (auto simp: split_on_free split_on_field)

lemma split_on_no_delim: "f \<in> set (split_on d s) \<Longrightarrow> d \<notin> set f"
  by (induction s arbitrary: f) (auto split: if_splits list.splits)

lemma join_split_on: "join d (split_on d s) = s"
proof (induction s)
  case (Cons c s)
  obtain f fs where "split_on d s = f # fs"
    by (cases "split_on d s") auto
  with Cons show ?case by (cases fs) auto
qed simp

lemma strtok_all_join:
  "fs \<noteq> [] \<Longrightarrow> (\<And>f. f \<in> set fs \<Longrightarrow> d \<notin> set f \<and> f \<noteq> []) \<Longrightarrow> strtok_all d (join d fs) = fs"
  by (simp add: strtok_all_def split_on_join filter_id_conv)

lemma set_join: "set (join d fs) \<subseteq> insert d (\<Union> (set ` set fs))"
  by (induction d fs rule: join.induct) auto

section \<open>Decimal numbers\<close>

fun nat_str :: "nat \<Rightarrow> string" where
  "nat_str n = (if n < 10 then [digit_char n] else nat_str (n div 10) @ [digit_char (n mod 10)])"

declare nat_str.simps [simp del]

definition int_str :: "int \<Rightarrow> string" where
  \<comment> \<open>\<open>%d\<close>\<close>
  "int_str i = (if i < 0 then CHR ''-'' # nat_str (nat (- i)) else nat_str (nat i))"

definition digits_val :: "string \<Rightarrow> nat" where
  "digits_val s = foldl (\<lambda>a c. 10 * a + (code c - 48)) 0 s"

lemma nat_str_nonempty [simp]: "nat_str n \<noteq> []"
  by (subst nat_str.simps) simp

lemma nat_str_digits: "c \<in> set (nat_str n) \<Longrightarrow> c_isdigit c"
proof (induction n rule: nat_str.induct)
  case (1 n)
  then show ?case by (subst (asm) nat_str.simps) (auto split: if_splits)
qed

lemma digits_val_nat_str: "digits_val (nat_str n) = n"
proof (induction n rule: nat_str.induct)
  case (1 n)
  then show ?case
    by (subst nat_str.simps) (auto simp: digits_val_def code_digit_char)
qed

lemma nat_str_free [cstr_simps]:
  "\<not> c_isdigit d \<Longrightarrow> d \<notin> set (nat_str n)"
  using nat_str_digits by blast

definition strtol_raw :: "string \<Rightarrow> int" where
  \<comment> \<open>the number \<open>strtol(s, _, 10)\<close> reads, before clamping to the range of \<open>long\<close>\<close>
  "strtol_raw s =
     (let t = dropWhile c_isspace s in
      case t of
        [] \<Rightarrow> 0
      | c # r \<Rightarrow>
          if c = CHR ''-'' then - int (digits_val (takeWhile c_isdigit r))
          else if c = CHR ''+'' then int (digits_val (takeWhile c_isdigit r))
          else int (digits_val (takeWhile c_isdigit t)))"

definition clamp64 :: "int \<Rightarrow> int" where
  "clamp64 i = max (- (2 ^ 63)) (min (2 ^ 63 - 1) i)"

definition wrap32 :: "int \<Rightarrow> int" where
  \<comment> \<open>conversion of a \<open>long\<close> to \<open>int\<close>\<close>
  "wrap32 i = (i + 2 ^ 31) mod 2 ^ 32 - 2 ^ 31"

definition c_atoi :: "string \<Rightarrow> int" where
  \<comment> \<open>\<open>atoi(s) = (int) strtol(s, NULL, 10)\<close>\<close>
  "c_atoi s = wrap32 (clamp64 (strtol_raw s))"

definition c_strtoll :: "string \<Rightarrow> int" where
  "c_strtoll s = clamp64 (strtol_raw s)"

definition strtoll_overflows :: "string \<Rightarrow> bool" where
  \<comment> \<open>\<open>errno == ERANGE\<close> after \<open>strtoll\<close>\<close>
  "strtoll_overflows s \<longleftrightarrow> strtol_raw s \<noteq> clamp64 (strtol_raw s)"

lemma strtol_raw_nat_str: "strtol_raw (nat_str n) = int n"
proof -
  obtain c r where cr: "nat_str n = c # r"
    by (cases "nat_str n") auto
  have all: "\<forall>x \<in> set (nat_str n). c_isdigit x"
    by (simp add: nat_str_digits)
  then have c: "c_isdigit c" using cr by simp
  then have "\<not> c_isspace c" by (rule isdigit_not_isspace)
  moreover from c have "c \<noteq> CHR ''-''" "c \<noteq> CHR ''+''" by auto
  moreover from all have "takeWhile c_isdigit (nat_str n) = nat_str n"
    by (intro takeWhile_all) auto
  ultimately show ?thesis
    using cr digits_val_nat_str [of n] by (simp add: strtol_raw_def)
qed

lemma clamp64_id [simp]: "- (2 ^ 63) \<le> i \<Longrightarrow> i < 2 ^ 63 \<Longrightarrow> clamp64 i = i"
  by (simp add: clamp64_def)

lemma wrap32_id [simp]: "- (2 ^ 31) \<le> i \<Longrightarrow> i < 2 ^ 31 \<Longrightarrow> wrap32 i = i"
  by (simp add: wrap32_def)

lemma wrap32_range: "- (2 ^ 31) \<le> wrap32 i \<and> wrap32 i < 2 ^ 31"
proof -
  have "0 \<le> (i + 2 ^ 31) mod 2 ^ 32" and "(i + 2 ^ 31) mod 2 ^ 32 < (2::int) ^ 32"
    by (rule pos_mod_sign, simp) (rule pos_mod_bound, simp)
  then show ?thesis by (simp add: wrap32_def)
qed

lemma c_atoi_nat_str: "n < 2 ^ 31 \<Longrightarrow> c_atoi (nat_str n) = int n"
  by (simp add: c_atoi_def strtol_raw_nat_str)

lemma int_str_of_nat [simp]: "int_str (int n) = nat_str n"
  by (simp add: int_str_def)

lemma c_atoi_int_str_of_nat: "n < 2 ^ 31 \<Longrightarrow> c_atoi (int_str (int n)) = int n"
  by (simp add: c_atoi_nat_str)

lemma nat_str_length_mono: "n < 10 ^ k \<Longrightarrow> 0 < k \<Longrightarrow> length (nat_str n) \<le> k"
proof (induction n arbitrary: k rule: nat_str.induct)
  case (1 n)
  show ?case
  proof (cases "n < 10")
    case True
    with 1 show ?thesis by (subst nat_str.simps) simp
  next
    case False
    with 1(2) have "k \<noteq> 1" by auto
    with 1(3) obtain j where k: "k = Suc j" and j: "0 < j"
      by (cases k) auto
    with 1(2) have "n div 10 < 10 ^ j" by (simp add: div_less_iff_less_mult mult.commute)
    with 1(1) [OF False this j] False k show ?thesis by (subst nat_str.simps) simp
  qed
qed

section \<open>Hexadecimal\<close>

definition hex_digit :: "nat \<Rightarrow> char" where
  "hex_digit n = (if n < 10 then char_of (48 + n) else char_of (87 + n))"

definition hex_val :: "char \<Rightarrow> nat option" where
  "hex_val c =
     (let k = code c in
      if 48 \<le> k \<and> k \<le> 57 then Some (k - 48)
      else if 97 \<le> k \<and> k \<le> 102 then Some (k - 87)
      else if 65 \<le> k \<and> k \<le> 70 then Some (k - 55)
      else None)"

definition hex2 :: "char \<Rightarrow> string" where
  \<comment> \<open>\<open>%02x\<close> of a byte\<close>
  "hex2 b = [hex_digit (code b div 16), hex_digit (code b mod 16)]"

definition hex_of :: "string \<Rightarrow> string" where
  "hex_of bs = concat (map hex2 bs)"

definition is_lower_hex :: "char \<Rightarrow> bool" where
  "is_lower_hex c \<longleftrightarrow> (48 \<le> code c \<and> code c \<le> 57) \<or> (97 \<le> code c \<and> code c \<le> 102)"

lemma code_lt: "code c < 256"
  unfolding code_def by (rule nat_of_char_less_256)

lemma code_hex_digit: "n < 16 \<Longrightarrow> code (hex_digit n) = (if n < 10 then 48 + n else 87 + n)"
  by (auto simp: hex_digit_def code_def)

lemma is_lower_hex_digit [simp]: "n < 16 \<Longrightarrow> is_lower_hex (hex_digit n)"
  by (auto simp: is_lower_hex_def code_hex_digit)

lemma hex_val_digit [simp]: "n < 16 \<Longrightarrow> hex_val (hex_digit n) = Some n"
  by (auto simp: hex_val_def code_hex_digit Let_def)

lemma length_hex_of [simp]: "length (hex_of bs) = 2 * length bs"
  unfolding hex_of_def by (induction bs) (auto simp: hex2_def)

lemma hex_of_simps [simp]:
  "hex_of [] = []"
  "hex_of (b # bs) = hex_digit (code b div 16) # hex_digit (code b mod 16) # hex_of bs"
  by (simp_all add: hex_of_def hex2_def)

lemma hex_of_lower: "c \<in> set (hex_of bs) \<Longrightarrow> is_lower_hex c"
proof (induction bs)
  case (Cons b bs)
  have "code b div 16 < 16" using code_lt [of b] by simp
  with Cons show ?case by auto
qed simp

lemma is_lower_hex_special [simp]:
  "\<not> is_lower_hex NUL" "\<not> is_lower_hex NL" "\<not> is_lower_hex CR" "\<not> is_lower_hex BAR"
  "\<not> is_lower_hex QUOTE" "\<not> is_lower_hex BSLASH" "\<not> is_lower_hex COMMA"
  by (simp_all add: is_lower_hex_def code_def)

lemma hex_of_free [cstr_simps]: "\<not> is_lower_hex d \<Longrightarrow> d \<notin> set (hex_of bs)"
  using hex_of_lower by blast

lemma code_inject: "code a = code b \<Longrightarrow> a = b"
  by (simp add: code_def of_char_eq_iff)

lemma hex_of_inject: "hex_of as = hex_of bs \<Longrightarrow> as = bs"
proof (induction as arbitrary: bs)
  case Nil
  then show ?case by (cases bs) auto
next
  case (Cons a as)
  then obtain b bs' where bs: "bs = b # bs'" by (cases bs) auto
  have lt: "code a div 16 < 16" "code b div 16 < 16"
    using code_lt [of a] code_lt [of b] by simp_all
  from Cons.prems bs have "hex_val (hex_digit (code a div 16)) = hex_val (hex_digit (code b div 16))"
    and "hex_val (hex_digit (code a mod 16)) = hex_val (hex_digit (code b mod 16))"
    by simp_all
  with lt have "code a div 16 = code b div 16" and "code a mod 16 = code b mod 16"
    by simp_all
  then have "code a = code b" by (metis div_mult_mod_eq)
  with Cons bs show ?case by (auto dest: code_inject)
qed

section \<open>Reading hexadecimal\<close>

fun take_hex :: "string \<Rightarrow> nat list" where
  "take_hex [] = []"
| "take_hex (c # s) = (case hex_val c of None \<Rightarrow> [] | Some v \<Rightarrow> v # take_hex s)"

definition scan_2x :: "string \<Rightarrow> nat option" where
  \<comment> \<open>\<open>sscanf(s, "%2x", &v)\<close>, reduced modulo 256 as the callers store it in a byte: leading
    white space is skipped, then at most two characters are read, of which the first may be
    a sign; a lone \<open>0x\<close> is a prefix of a number but no number, hence a matching failure\<close>
  "scan_2x s =
     (case take 2 (dropWhile c_isspace (cstr s)) of
        [] \<Rightarrow> None
      | c # r \<Rightarrow>
          if c = CHR ''-'' \<or> c = CHR ''+'' then
            (case take_hex r of
               [] \<Rightarrow> None
             | v # _ \<Rightarrow> Some (if c = CHR ''-'' then (256 - v) mod 256 else v))
          else if c = CHR ''0'' \<and> (r = [CHR ''x''] \<or> r = [CHR ''X'']) then None
          else (case take_hex (c # r) of
               [] \<Rightarrow> None
             | [v] \<Rightarrow> Some v
             | v # w # _ \<Rightarrow> Some (16 * v + w)))"

lemma hex_digit_not_space: "n < 16 \<Longrightarrow> \<not> c_isspace (hex_digit n)"
proof -
  assume "n < 16"
  then have "is_lower_hex (hex_digit n)" by simp
  then show ?thesis by (auto simp: is_lower_hex_def c_isspace_def code_def)
qed

lemma scan_2x_hex:
  "m < 16 \<Longrightarrow> n < 16 \<Longrightarrow> scan_2x (hex_digit m # hex_digit n # s) = Some (16 * m + n)"
proof -
  assume mn: "m < 16" "n < 16"
  have h: "is_lower_hex (hex_digit m)" "is_lower_hex (hex_digit n)" using mn by simp_all
  then have "hex_digit m \<noteq> CHR ''-''" "hex_digit m \<noteq> CHR ''+''"
    "hex_digit n \<noteq> CHR ''x''" "hex_digit n \<noteq> CHR ''X''"
    "hex_digit m \<noteq> NUL" "hex_digit n \<noteq> NUL"
    by (auto simp: is_lower_hex_def code_def)
  with mn show ?thesis
    by (simp add: scan_2x_def hex_digit_not_space numeral_2_eq_2 cstr_def)
qed

fun hex_bytes :: "nat \<Rightarrow> string \<Rightarrow> string option" where
  \<comment> \<open>the loop \<open>for (i = 0; i < n; i++) sscanf(hex + 2 * i, "%2x", &v)\<close>\<close>
  "hex_bytes 0 s = Some []"
| "hex_bytes (Suc n) s =
     (case scan_2x s of
        None \<Rightarrow> None
      | Some v \<Rightarrow> map_option (\<lambda>bs. char_of v # bs) (hex_bytes n (drop 2 s)))"

lemma hex_bytes_hex_of: "hex_bytes (length bs) (hex_of bs @ s) = Some bs"
proof (induction bs)
  case (Cons b bs)
  have lt: "code b div 16 < 16" using code_lt [of b] by simp
  have "char_of (16 * (code b div 16) + code b mod 16) = b"
    by (simp add: code_def)
  with Cons lt show ?case by (simp add: scan_2x_hex numeral_2_eq_2)
qed simp

lemmas hex_bytes_roundtrip = hex_bytes_hex_of [where s = "[]", simplified]

text \<open>A function with the shape of a 32-byte digest, for examples.\<close>

definition pad32 :: "string \<Rightarrow> string" where
  "pad32 x = take 32 (x @ replicate 32 NUL)"

lemma length_pad32 [simp]: "length (pad32 x) = 32"
  by (simp add: pad32_def)

end
