(* ===== verification/CTime.thy ===== *)
theory CTime
  imports CString
begin

text \<open>
  Broken-down time and the \<open>strftime\<close> formats of the sources. \<open>strftime\<close> returns 0
  when the buffer is too small: \<open>strftime_buf\<close> is then \<open>None\<close>.
\<close>

record tm =
  tm_year :: nat     \<comment> \<open>the full year\<close>
  tm_mon :: nat      \<comment> \<open>1 to 12\<close>
  tm_mday :: nat
  tm_hour :: nat
  tm_min :: nat
  tm_sec :: nat
  tm_gmtoff :: int   \<comment> \<open>minutes east of UTC\<close>

definition pad2 :: "nat \<Rightarrow> string" where
  "pad2 n = [digit_char (n div 10 mod 10), digit_char (n mod 10)]"

definition fmt_date :: "tm \<Rightarrow> string" where
  \<comment> \<open>\<open>%Y-%m-%d\<close>\<close>
  "fmt_date t = nat_str (tm_year t) @ CHR ''-'' # pad2 (tm_mon t) @ CHR ''-'' # pad2 (tm_mday t)"

definition fmt_clock :: "tm \<Rightarrow> string" where
  \<comment> \<open>\<open>%H:%M:%S\<close>\<close>
  "fmt_clock t = pad2 (tm_hour t) @ CHR '':'' # pad2 (tm_min t) @ CHR '':'' # pad2 (tm_sec t)"

definition fmt_iso :: "tm \<Rightarrow> string" where
  \<comment> \<open>\<open>%Y-%m-%dT%H:%M:%S\<close>\<close>
  "fmt_iso t = fmt_date t @ CHR ''T'' # fmt_clock t"

definition fmt_zone :: "tm \<Rightarrow> string" where
  \<comment> \<open>\<open>%z\<close>\<close>
  "fmt_zone t =
     (let m = nat \<bar>tm_gmtoff t\<bar> in
      (if tm_gmtoff t < 0 then CHR ''-'' else CHR ''+'') # pad2 (m div 60) @ pad2 (m mod 60))"

definition fmt_plain :: "tm \<Rightarrow> string" where
  \<comment> \<open>\<open>%Y-%m-%d %H:%M:%S\<close>\<close>
  "fmt_plain t = fmt_date t @ CHR '' '' # fmt_clock t"

definition strftime_buf :: "nat \<Rightarrow> string \<Rightarrow> string option" where
  "strftime_buf n s = (if length s < n then Some s else None)"

definition stamp_char :: "char \<Rightarrow> bool" where
  "stamp_char c \<longleftrightarrow> c_isdigit c \<or> c \<in> set ''-:T+Z ''"

lemma set_pad2: "c \<in> set (pad2 n) \<Longrightarrow> c_isdigit c"
  by (auto simp: pad2_def)

lemma fmt_date_chars: "c \<in> set (fmt_date t) \<Longrightarrow> stamp_char c"
  by (auto simp: fmt_date_def stamp_char_def dest: set_pad2 nat_str_digits)

lemma fmt_clock_chars: "c \<in> set (fmt_clock t) \<Longrightarrow> stamp_char c"
  by (auto simp: fmt_clock_def stamp_char_def dest: set_pad2)

lemma fmt_zone_chars: "c \<in> set (fmt_zone t) \<Longrightarrow> stamp_char c"
  by (auto simp: fmt_zone_def stamp_char_def Let_def dest: set_pad2 split: if_splits)

lemma fmt_iso_chars: "c \<in> set (fmt_iso t) \<Longrightarrow> stamp_char c"
  by (auto simp: fmt_iso_def dest: fmt_date_chars fmt_clock_chars) (simp add: stamp_char_def)

lemma stamp_char_special [simp]:
  "\<not> stamp_char NUL" "\<not> stamp_char NL" "\<not> stamp_char CR" "\<not> stamp_char BAR"
  "\<not> stamp_char QUOTE" "\<not> stamp_char BSLASH" "\<not> stamp_char COMMA"
  by (simp_all add: stamp_char_def)

lemma fmt_iso_free: "\<not> stamp_char d \<Longrightarrow> d \<notin> set (fmt_iso t)"
  using fmt_iso_chars by blast

lemma fmt_zone_free: "\<not> stamp_char d \<Longrightarrow> d \<notin> set (fmt_zone t)"
  using fmt_zone_chars by blast

lemma length_fmt_clock [simp]: "length (fmt_clock t) = 8"
  by (simp add: fmt_clock_def pad2_def)

lemma length_fmt_date [simp]: "length (fmt_date t) = length (nat_str (tm_year t)) + 6"
  by (simp add: fmt_date_def pad2_def)

lemma length_fmt_zone [simp]: "length (fmt_zone t) = 5"
  by (simp add: fmt_zone_def pad2_def Let_def)

lemma length_fmt_iso [simp]: "length (fmt_iso t) = length (nat_str (tm_year t)) + 15"
  by (simp add: fmt_iso_def)

lemma strftime_buf_Some: "strftime_buf n s = Some r \<longleftrightarrow> r = s \<and> length s < n"
  by (auto simp: strftime_buf_def)

section \<open>strptime\<close>

text \<open>
  The C library's \<open>strptime\<close> for the formats of the sources. A number has a range and a maximal number of
  digits, and takes a further digit only while ten times its value stays in range. The
  fields that were read before a mismatch keep their values, so the broken-down time is a result
  also when the call returns \<open>NULL\<close> (the rest is then \<open>None\<close>).
\<close>

datatype time_item = Year | Month | Day | Hour | Minute | Second | Sep char

definition zero_tm :: tm where
  \<comment> \<open>\<open>struct tm t = {0}\<close>\<close>
  "zero_tm = \<lparr>tm_year = 1900, tm_mon = 1, tm_mday = 0, tm_hour = 0, tm_min = 0, tm_sec = 0, tm_gmtoff = 0\<rparr>"

fun strp_digits :: "nat \<Rightarrow> nat \<Rightarrow> nat \<Rightarrow> string \<Rightarrow> nat \<times> string" where
  "strp_digits n hi v [] = (v, [])"
| "strp_digits n hi v (c # s) =
     (if 0 < n \<and> v * 10 \<le> hi \<and> c_isdigit c then strp_digits (n - 1) hi (10 * v + (code c - 48)) s else (v, c # s))"

definition strp_number :: "nat \<Rightarrow> nat \<Rightarrow> nat \<Rightarrow> string \<Rightarrow> (nat \<times> string) option" where
  "strp_number lo hi n s =
     (let t = dropWhile c_isspace s in
      if t = [] \<or> \<not> c_isdigit (hd t) then None
      else let (v, r) = strp_digits n hi 0 t in if v < lo \<or> hi < v then None else Some (v, r))"

fun strp_item :: "time_item \<Rightarrow> tm \<Rightarrow> string \<Rightarrow> (tm \<times> string) option" where
  "strp_item Year t s = map_option (apfst (\<lambda>v. t\<lparr>tm_year := v\<rparr>)) (strp_number 0 9999 4 s)"
| "strp_item Month t s = map_option (apfst (\<lambda>v. t\<lparr>tm_mon := v\<rparr>)) (strp_number 1 12 2 s)"
| "strp_item Day t s = map_option (apfst (\<lambda>v. t\<lparr>tm_mday := v\<rparr>)) (strp_number 1 31 2 s)"
| "strp_item Hour t s = map_option (apfst (\<lambda>v. t\<lparr>tm_hour := v\<rparr>)) (strp_number 0 23 2 s)"
| "strp_item Minute t s = map_option (apfst (\<lambda>v. t\<lparr>tm_min := v\<rparr>)) (strp_number 0 59 2 s)"
| "strp_item Second t s = map_option (apfst (\<lambda>v. t\<lparr>tm_sec := v\<rparr>)) (strp_number 0 61 2 s)"
| "strp_item (Sep c) t s =
     (if c_isspace c then Some (t, dropWhile c_isspace s)
      else case s of [] \<Rightarrow> None | x # r \<Rightarrow> if x = c then Some (t, r) else None)"

fun strptime_run :: "time_item list \<Rightarrow> tm \<Rightarrow> string \<Rightarrow> tm \<times> string option" where
  "strptime_run [] t s = (t, Some s)"
| "strptime_run (f # fs) t s = (case strp_item f t s of None \<Rightarrow> (t, None) | Some (t, r) \<Rightarrow> strptime_run fs t r)"

definition iso_format :: "char \<Rightarrow> time_item list" where
  \<comment> \<open>\<open>%Y-%m-%d?%H:%M:%S\<close> with a separator between date and clock\<close>
  "iso_format sep = [Year, Sep (CHR ''-''), Month, Sep (CHR ''-''), Day, Sep sep, Hour, Sep (CHR '':''), Minute, Sep (CHR '':''), Second]"

definition strptime_iso :: "string \<Rightarrow> tm \<times> string option" where
  "strptime_iso s = strptime_run (iso_format (CHR ''T'')) zero_tm s"

definition strptime_plain :: "string \<Rightarrow> tm \<times> string option" where
  "strptime_plain s = strptime_run (iso_format (CHR '' '')) zero_tm s"

definition tm_ok :: "tm \<Rightarrow> bool" where
  "tm_ok t \<longleftrightarrow> tm_year t \<le> 9999 \<and> tm_mon t \<in> {1..12} \<and> tm_mday t \<in> {1..31} \<and> tm_hour t \<le> 23 \<and> tm_min t \<le> 59 \<and> tm_sec t \<le> 61"

lemma digit_val_of: "n < 10 \<Longrightarrow> code (digit_char n) - 48 = n"
  by (simp add: code_digit_char)

lemma digit_not_space [simp]: "n < 10 \<Longrightarrow> \<not> c_isspace (digit_char n)"
  by (rule isdigit_not_isspace) simp

lemma strp_number_pad2:
  assumes "n \<le> hi" and "lo \<le> n" and "hi < 100"
  shows "strp_number lo hi 2 (pad2 n @ s) = Some (n, s)"
proof -
  have "n div 10 * 10 \<le> hi" "n div 10 < 10" "n div 10 mod 10 = n div 10" using assms by auto
  moreover have "strp_digits 0 hi n s = (n, s)" by (cases s) auto
  ultimately show ?thesis using assms(1,2) by (simp add: strp_number_def pad2_def numeral_2_eq_2 digit_val_of)
qed

lemma digits_from_ge: "(v::nat) \<le> foldl (\<lambda>a c. 10 * a + (code c - 48)) v ds"
proof (induction ds arbitrary: v)
  case (Cons d ds)
  have "v \<le> 10 * v + (code d - 48)" by simp
  also have "\<dots> \<le> foldl (\<lambda>a c. 10 * a + (code c - 48)) (10 * v + (code d - 48)) ds" by (rule Cons.IH)
  finally show ?case by simp
qed simp

lemma strp_digits_exact:
  assumes "\<forall>c \<in> set ds. c_isdigit c" and "\<not> c_isdigit d" and "length ds \<le> n"
    and "foldl (\<lambda>a c. 10 * a + (code c - 48)) v ds \<le> hi"
  shows "strp_digits n hi v (ds @ d # s) = (foldl (\<lambda>a c. 10 * a + (code c - 48)) v ds, d # s)"
  using assms
proof (induction ds arbitrary: v n)
  case (Cons c ds)
  have "10 * v + (code c - 48) \<le> hi" using digits_from_ge Cons.prems(4) by (auto intro: le_trans)
  with Cons show ?case by simp
qed simp

lemma strp_number_nat:
  assumes "n \<le> hi" and "lo \<le> n" and "length (nat_str n) \<le> k" and "\<not> c_isdigit d"
  shows "strp_number lo hi k (nat_str n @ d # s) = Some (n, d # s)"
proof -
  have digits: "\<forall>c \<in> set (nat_str n). c_isdigit c" by (simp add: nat_str_digits)
  obtain c r where cr: "nat_str n = c # r" by (cases "nat_str n") auto
  then have "c_isdigit c" "\<not> c_isspace c" using digits isdigit_not_isspace by auto
  moreover have "strp_digits k hi 0 (nat_str n @ d # s) = (n, d # s)"
    using strp_digits_exact [OF digits assms(4,3), of 0 hi s] assms(1) digits_val_nat_str [of n] by (simp add: digits_val_def)
  ultimately show ?thesis using assms(1,2) cr by (simp add: strp_number_def)
qed

lemma strptime_fmt:
  assumes "tm_ok t" and "\<not> c_isdigit sep" and "fmt = fmt_date t @ sep # fmt_clock t @ s"
  shows "strptime_run (iso_format sep) zero_tm fmt = (t\<lparr>tm_gmtoff := 0\<rparr>, Some s)"
proof -
  have len: "length (nat_str (tm_year t)) \<le> 4"
    using assms(1) nat_str_length_mono [of "tm_year t" 4] by (simp add: tm_ok_def)
  have hour: "dropWhile c_isspace (pad2 n @ u) = pad2 n @ u" for n u
    by (simp add: pad2_def)
  have seps: "\<not> c_isdigit (CHR '':'')" "\<not> c_isspace (CHR '':'')" "\<not> c_isspace (CHR ''-'')"
    by (simp_all add: c_isdigit_def code_def c_isspace_def)
  show ?thesis
    using assms(1,2) len seps unfolding assms(3) iso_format_def fmt_date_def fmt_clock_def tm_ok_def
    by (cases t) (simp add: strp_number_nat strp_number_pad2 zero_tm_def hour)
qed

lemma strptime_iso_fmt: "tm_ok t \<Longrightarrow> strptime_iso (fmt_iso t @ s) = (t\<lparr>tm_gmtoff := 0\<rparr>, Some s)"
  unfolding strptime_iso_def fmt_iso_def by (rule strptime_fmt) (simp_all add: c_isdigit_def code_def)

lemma strptime_plain_fmt: "tm_ok t \<Longrightarrow> strptime_plain (fmt_plain t @ s) = (t\<lparr>tm_gmtoff := 0\<rparr>, Some s)"
  unfolding strptime_plain_def fmt_plain_def by (rule strptime_fmt) (simp_all add: c_isdigit_def code_def)

lemma length_fmt_year: "tm_ok t \<Longrightarrow> length (nat_str (tm_year t)) \<le> 4"
  using nat_str_length_mono [of "tm_year t" 4] by (simp add: tm_ok_def)

text \<open>A time for examples.\<close>

definition demo_tm :: tm where
  "demo_tm = \<lparr>tm_year = 2026, tm_mon = 1, tm_mday = 2, tm_hour = 3, tm_min = 4, tm_sec = 5, tm_gmtoff = 0\<rparr>"

text \<open>
  The clock of a program: the current time in seconds, and \<open>localtime\<close> and \<open>mktime\<close> of the C library for its
  time zone. The programs read a local time back with \<open>strptime\<close>, which leaves \<open>tm_isdst\<close> at 0, and hand that to \<open>mktime\<close>
  (which ignores \<open>tm_gmtoff\<close>): the fields are taken for standard time. \<open>dst_shift\<close> is by how much the result is late, zero
  for a time of standard time and an hour or so while daylight saving time is in force. \<open>clock_ok\<close> is what the library promises at a
  time of standard time, in particular always in a zone without daylight saving time: the fields are in range, and \<open>mktime\<close> gives the
  time back.
\<close>

record clock =
  ck_now :: int
  ck_localtime :: "int \<Rightarrow> tm"
  ck_mktime :: "tm \<Rightarrow> int"

definition clock_ok :: "clock \<Rightarrow> int \<Rightarrow> bool" where
  "clock_ok ck t \<longleftrightarrow> tm_ok (ck_localtime ck t) \<and> ck_mktime ck ((ck_localtime ck t)\<lparr>tm_gmtoff := 0\<rparr>) = t"

definition dst_shift :: "clock \<Rightarrow> int \<Rightarrow> int" where
  "dst_shift ck t = ck_mktime ck ((ck_localtime ck t)\<lparr>tm_gmtoff := 0\<rparr>) - t"

lemma clock_ok_iff: "clock_ok ck t \<longleftrightarrow> tm_ok (ck_localtime ck t) \<and> dst_shift ck t = 0"
  by (simp add: clock_ok_def dst_shift_def)

definition now_iso_text :: "clock \<Rightarrow> string" where
  "now_iso_text ck = fmt_iso (ck_localtime ck (ck_now ck))"

text \<open>A clock for examples: January 2026, counted from its first second.\<close>

definition demo_clock :: "int \<Rightarrow> clock" where
  "demo_clock now = \<lparr>ck_now = now,
     ck_localtime = (\<lambda>t. let n = nat t in \<lparr>tm_year = 2026, tm_mon = 1, tm_mday = 1 + n div 86400 mod 31,
       tm_hour = n div 3600 mod 24, tm_min = n div 60 mod 60, tm_sec = n mod 60, tm_gmtoff = 0\<rparr>),
     ck_mktime = (\<lambda>t. ((int (tm_mday t) - 1) * 24 + int (tm_hour t)) * 3600 + int (tm_min t) * 60 + int (tm_sec t))\<rparr>"

lemma clock_sum: "(x::nat) * 24 + y = b \<Longrightarrow> b * 60 + z = a \<Longrightarrow> a * 60 + w = n \<Longrightarrow> (x * 24 + y) * 3600 + z * 60 + w = n"
  by (auto simp: algebra_simps)

lemma demo_clock_ok: "0 \<le> t \<Longrightarrow> t < 31 * 86400 \<Longrightarrow> clock_ok (demo_clock now) t"
proof -
  assume t: "0 \<le> t" "t < 31 * 86400"
  obtain n where n: "t = int n" using t(1) nonneg_int_cases by blast
  have "n div 86400 < 31" using t(2) n by simp
  moreover have "(n div 86400 * 24 + n div 3600 mod 24) * 3600 + n div 60 mod 60 * 60 + n mod 60 = n"
  proof -
    have eqs: "n div 86400 = n div 60 div 60 div 24" "n div 3600 = n div 60 div 60" by (simp_all add: div_mult2_eq [symmetric])
    have "n div 60 div 60 div 24 * 24 + n div 60 div 60 mod 24 = n div 60 div 60" "n div 60 div 60 * 60 + n div 60 mod 60 = n div 60"
      "n div 60 * 60 + n mod 60 = n" by (rule div_mult_mod_eq)+
    then show ?thesis unfolding eqs by (rule clock_sum)
  qed
  then have "int ((n div 86400 * 24 + n div 3600 mod 24) * 3600 + n div 60 mod 60 * 60 + n mod 60) = int n" by (simp only:)
  then have sum: "(int (n div 86400) * 24 + int (n div 3600 mod 24)) * 3600 + int (n div 60 mod 60) * 60 + int (n mod 60) = int n"
    by (simp only: of_nat_add of_nat_mult of_nat_numeral)
  moreover have "n div 86400 mod 31 = n div 86400" using \<open>n div 86400 < 31\<close> by simp
  moreover have "n div 3600 mod 24 \<le> 23" "n div 60 mod 60 \<le> 59" "n mod 60 \<le> 61" by (simp_all add: less_Suc_eq_le [symmetric] less_imp_le)
  ultimately show ?thesis
    unfolding clock_ok_def demo_clock_def tm_ok_def Let_def n
    by (simp only: nat_int tm.simps clock.simps of_nat_add of_nat_1 add_diff_cancel_left') simp
qed

lemma demo_clock_now [simp]: "ck_now (demo_clock now) = now"
  by (simp add: demo_clock_def)

end
