(* ===== verification/Ledger.thy ===== *)
theory Ledger
  imports CTime
begin

text \<open>
  \<open>core/chrono_ledger.c\<close>: the hash-chained JSONL audit ledger. The state is the content of
  the ledger file (\<open>None\<close>: the file does not exist). The SHA-256 digest of OpenSSL is the
  parameter \<open>digest\<close>, a function from the hashed bytes to the digest bytes, or \<open>None\<close>
  where a call of the EVP interface fails. The outcome of the system calls is a \<open>ledger_env\<close>.
\<close>

section \<open>Constants and environment\<close>

definition GENESIS_HASH :: string where
  "GENESIS_HASH = replicate 64 (CHR ''0'')"

definition HASH_LEN :: nat where "HASH_LEN = 64"
definition MAX_EVENT :: nat where "MAX_EVENT = 128"
definition MAX_DETAILS :: nat where "MAX_DETAILS = 1024"
definition MAX_LINE :: nat where "MAX_LINE = 4096"

record ledger_env =
  env_mkdir_ok :: bool
  env_open_ok :: bool
  env_lock_ok :: bool
  env_rewind_ok :: bool                \<comment> \<open>\<open>fseek(file, 0, SEEK_SET)\<close>\<close>
  env_tm :: "tm option"                \<comment> \<open>\<open>time\<close> and \<open>localtime_r\<close>\<close>
  env_seek_end_ok :: bool
  env_fprintf_fail :: "nat option"     \<comment> \<open>bytes that reached the file before the failure\<close>
  env_fflush_fail :: "nat option"
  env_fsync_ok :: bool

type_synonym digest = "string \<Rightarrow> string option"

section \<open>Text handling\<close>

definition valid_text :: "string \<Rightarrow> nat \<Rightarrow> bool" where
  "valid_text s max_len \<longleftrightarrow>
     s \<noteq> [] \<and> length s < max_len \<and> (\<forall>c \<in> set s. \<not> code c < 32)"

fun json_escape_loop :: "nat \<Rightarrow> nat \<Rightarrow> string \<Rightarrow> string option" where
  "json_escape_loop output_size j [] = Some []"
| "json_escape_loop output_size j (c # s) =
     (if c = QUOTE \<or> c = BSLASH then
        if j + 2 \<ge> output_size then None
        else map_option (\<lambda>t. BSLASH # c # t) (json_escape_loop output_size (j + 2) s)
      else
        if j + 1 \<ge> output_size then None
        else map_option (\<lambda>t. c # t) (json_escape_loop output_size (j + 1) s))"

definition json_escape :: "string \<Rightarrow> nat \<Rightarrow> string option" where
  "json_escape input output_size =
     (if output_size = 0 then None else json_escape_loop output_size 0 input)"

definition ledger_sha256_hex :: "digest \<Rightarrow> string \<Rightarrow> string option" where
  "ledger_sha256_hex digest input =
     (case digest input of
        None \<Rightarrow> None
      | Some d \<Rightarrow> if length d = 32 then Some (hex_of d) else None)"

definition get_timestamp :: "tm option \<Rightarrow> string option" where
  "get_timestamp now =
     (case now of None \<Rightarrow> None | Some t \<Rightarrow> strftime_buf 32 (fmt_iso t @ fmt_zone t))"

definition json_key :: "string \<Rightarrow> string" where
  \<comment> \<open>the text \<open>"key":"\<close>\<close>
  "json_key k = QUOTE # k @ [QUOTE, CHR '':'', QUOTE]"

section \<open>Records\<close>

definition record_text :: "string \<Rightarrow> string \<Rightarrow> string \<Rightarrow> string \<Rightarrow> string" where
  "record_text ts ev de ph =
     CHR 0x7B # json_key ''timestamp'' @ ts @ [QUOTE, COMMA] @ json_key ''event'' @ ev
       @ [QUOTE, COMMA] @ json_key ''details'' @ de @ [QUOTE, COMMA]
       @ json_key ''previous_hash'' @ ph @ [QUOTE, CHR 0x7D]"

definition build_record ::
  "string \<Rightarrow> string \<Rightarrow> string \<Rightarrow> string \<Rightarrow> nat \<Rightarrow> string option" where
  "build_record timestamp event details previous_hash output_size =
     (case json_escape event (MAX_EVENT * 2 + 1) of
        None \<Rightarrow> None
      | Some event_escaped \<Rightarrow>
          (case json_escape details (MAX_DETAILS * 2 + 1) of
             None \<Rightarrow> None
           | Some details_escaped \<Rightarrow>
               let r = record_text timestamp event_escaped details_escaped previous_hash in
               if length r \<ge> output_size then None else Some r))"

definition record_line :: "string \<Rightarrow> string \<Rightarrow> string" where
  \<comment> \<open>what \<open>fprintf(file, "%s,\"hash\":\"%s\"}\n", ...)\<close> writes, without the newline\<close>
  "record_line r h = r @ COMMA # json_key ''hash'' @ h @ [QUOTE, CHR 0x7D]"

section \<open>Reading\<close>

definition last_hash_step :: "string \<Rightarrow> string \<Rightarrow> string" where
  "last_hash_step output line =
     (case c_strstr (json_key ''hash'') line of
        None \<Rightarrow> output
      | Some marker \<Rightarrow>
          let m = drop 8 marker in
          if length m < HASH_LEN then output
          else let last_hash = take HASH_LEN m in
               if list_all is_lower_hex last_hash then last_hash else output)"

definition get_last_hash :: "bool \<Rightarrow> string \<Rightarrow> string option" where
  "get_last_hash rewind_ok content =
     (if \<not> rewind_ok then None
      else Some (foldl last_hash_step GENESIS_HASH (map cstr (read_lines (MAX_LINE - 1) content))))"

fun scan_value :: "nat \<Rightarrow> nat \<Rightarrow> char option \<Rightarrow> string \<Rightarrow> string option" where
  \<comment> \<open>the copy loop of \<open>extract_field\<close>; \<open>prev\<close> is \<open>start[j - 1]\<close>\<close>
  "scan_value output_size j prev [] = None"
| "scan_value output_size j prev (c # s) =
     (if c = QUOTE \<and> prev \<noteq> Some BSLASH then Some []
      else if j + 1 \<ge> output_size then None
      else map_option (\<lambda>t. c # t) (scan_value output_size (j + 1) (Some c) s))"

definition extract_field :: "string \<Rightarrow> string \<Rightarrow> nat \<Rightarrow> string option" where
  "extract_field line field output_size =
     (let pattern = json_key field in
      if length pattern \<ge> 128 then None
      else case c_strstr pattern line of
             None \<Rightarrow> None
           | Some start \<Rightarrow> scan_value output_size 0 None (drop (length pattern) start))"

section \<open>Append\<close>

definition ledger_append ::
  "digest \<Rightarrow> ledger_env \<Rightarrow> string \<Rightarrow> string \<Rightarrow> string option \<Rightarrow> int \<times> string option" where
  "ledger_append digest env event_type details file =
     (if \<not> valid_text event_type MAX_EVENT \<or> \<not> valid_text details MAX_DETAILS then (2, file)
      else if \<not> env_mkdir_ok env then (3, file)
      else if \<not> env_open_ok env then (4, file)
      else
        let content = (case file of None \<Rightarrow> [] | Some c \<Rightarrow> c) in
        if \<not> env_lock_ok env then (5, Some content)
        else case get_last_hash (env_rewind_ok env) content of
          None \<Rightarrow> (6, Some content)
        | Some previous_hash \<Rightarrow>
          (case get_timestamp (env_tm env) of
             None \<Rightarrow> (7, Some content)
           | Some timestamp \<Rightarrow>
             (case build_record timestamp event_type details previous_hash MAX_LINE of
                None \<Rightarrow> (8, Some content)
              | Some r \<Rightarrow>
                (case ledger_sha256_hex digest r of
                   None \<Rightarrow> (9, Some content)
                 | Some record_hash \<Rightarrow>
                   if \<not> env_seek_end_ok env then (10, Some content)
                   else
                     let line = record_line r record_hash @ [NL] in
                     (case env_fprintf_fail env of
                        Some k \<Rightarrow> (11, Some (content @ take k line))
                      | None \<Rightarrow>
                        (case env_fflush_fail env of
                           Some k \<Rightarrow> (12, Some (content @ take k line))
                         | None \<Rightarrow>
                           if \<not> env_fsync_ok env then (13, Some (content @ line))
                           else (0, Some (content @ line))))))))"

section \<open>Verify\<close>

record verify_state =
  expected_previous :: string
  broken :: bool
  entry_number :: nat

definition extract_all :: "string \<Rightarrow> (string \<times> string \<times> string \<times> string \<times> string) option" where
  "extract_all line =
     (case extract_field line ''timestamp'' 64 of None \<Rightarrow> None | Some timestamp \<Rightarrow>
      (case extract_field line ''event'' (MAX_EVENT * 2 + 1) of None \<Rightarrow> None | Some event \<Rightarrow>
       (case extract_field line ''details'' (MAX_DETAILS * 2 + 1) of None \<Rightarrow> None | Some details \<Rightarrow>
        (case extract_field line ''previous_hash'' (HASH_LEN + 1) of None \<Rightarrow> None
         | Some previous_hash \<Rightarrow>
           (case extract_field line ''hash'' (HASH_LEN + 1) of None \<Rightarrow> None
            | Some stored_hash \<Rightarrow>
                Some (timestamp, event, details, previous_hash, stored_hash))))))"

definition verify_line :: "digest \<Rightarrow> verify_state \<Rightarrow> string \<Rightarrow> verify_state" where
  "verify_line digest st raw =
     (let st = st\<lparr>entry_number := Suc (entry_number st)\<rparr>;
          bad = st\<lparr>broken := True\<rparr>;
          buf = cstr raw in
      if buf = [] \<or> last buf \<noteq> NL then bad
      else
        let line = butlast buf in
        case extract_all line of
          None \<Rightarrow> bad
        | Some (timestamp, event, details, previous_hash, stored_hash) \<Rightarrow>
            let st = (if previous_hash \<noteq> expected_previous st then bad else st) in
            (case build_record timestamp event details previous_hash MAX_LINE of
               None \<Rightarrow> st\<lparr>broken := True\<rparr>
             | Some canonical \<Rightarrow>
                 (case ledger_sha256_hex digest canonical of
                    None \<Rightarrow> st\<lparr>broken := True\<rparr>
                  | Some calculated_hash \<Rightarrow>
                      let st = (if calculated_hash \<noteq> stored_hash then st\<lparr>broken := True\<rparr> else st) in
                      st\<lparr>expected_previous := stored_hash\<rparr>)))"

definition verify_init :: verify_state where
  "verify_init = \<lparr>expected_previous = GENESIS_HASH, broken = False, entry_number = 0\<rparr>"

definition ledger_verdict :: "verify_state \<Rightarrow> int \<times> string list" where
  \<comment> \<open>the exit code and the lines on the console\<close>
  "ledger_verdict st =
     (let count = ''[chrono-ledger] '' @ nat_str (entry_number st) @ '' entradas verificadas.'' in
      if broken st then (1, [count, ''RESULTADO: CADENA COMPROMETIDA - NO CONFIAR EN ESTE HISTORIAL.''])
      else (0, [count, ''RESULTADO: CADENA INTEGRA - historial verificado sin alteraciones.'']))"

lemma ledger_verdict_code [simp]: "fst (ledger_verdict st) = (if broken st then 1 else 0)"
  by (simp add: ledger_verdict_def Let_def)

definition ledger_verify :: "digest \<Rightarrow> bool \<Rightarrow> bool \<Rightarrow> string option \<Rightarrow> int" where
  \<comment> \<open>\<open>open_ok\<close>, \<open>lock_ok\<close>: \<open>fopen\<close> for reading an existing file, \<open>flock\<close>\<close>
  "ledger_verify digest open_ok lock_ok file =
     (case file of
        None \<Rightarrow> 0
      | Some content \<Rightarrow>
          if \<not> open_ok then 2
          else if \<not> lock_ok then 3
          else fst (ledger_verdict (foldl (verify_line digest) verify_init (read_lines (MAX_LINE - 1) content))))"

section \<open>Command line\<close>

definition ledger_main ::
  "digest \<Rightarrow> ledger_env \<Rightarrow> string list \<Rightarrow> string option \<Rightarrow> int \<times> string option" where
  "ledger_main digest env argv file =
     (if length argv < 2 then (1, file)
      else if argv ! 1 = ''append'' then
        if length argv \<noteq> 4 then (1, file)
        else ledger_append digest env (argv ! 2) (argv ! 3) file
      else if argv ! 1 = ''verify'' then
        if length argv \<noteq> 2 then (1, file)
        else (ledger_verify digest (env_open_ok env) (env_lock_ok env) file, file)
      else (1, file))"


section \<open>Escaping\<close>

definition escape_spec :: "string \<Rightarrow> string" where
  "escape_spec s = concat (map (\<lambda>c. if c = QUOTE \<or> c = BSLASH then [BSLASH, c] else [c]) s)"

lemma escape_spec_simps [simp]:
  "escape_spec [] = []"
  "escape_spec (c # s) = (if c = QUOTE \<or> c = BSLASH then [BSLASH, c] else [c]) @ escape_spec s"
  "escape_spec (s @ t) = escape_spec s @ escape_spec t"
  by (simp_all add: escape_spec_def)

lemma json_escape_loop_eq:
  "j < n \<Longrightarrow> json_escape_loop n j s =
     (if j + length (escape_spec s) < n then Some (escape_spec s) else None)"
  by (induction s arbitrary: j) (auto simp: not_less)

lemma json_escape_eq:
  "json_escape s n = (if length (escape_spec s) < n then Some (escape_spec s) else None)"
  by (auto simp: json_escape_def json_escape_loop_eq)

lemma length_escape_spec: "length (escape_spec s) \<le> 2 * length s"
  by (induction s) auto

lemma escape_spec_inject: "escape_spec s = escape_spec t \<Longrightarrow> s = t"
proof (induction s arbitrary: t)
  case Nil
  then show ?case by (cases t) (auto split: if_splits)
next
  case (Cons c s)
  then show ?case by (cases t) (auto split: if_splits)
qed

definition plain_text :: "string \<Rightarrow> bool" where
  "plain_text s \<longleftrightarrow> QUOTE \<notin> set s \<and> BSLASH \<notin> set s"

lemma escape_spec_plain [simp]: "plain_text s \<Longrightarrow> escape_spec s = s"
  by (induction s) (auto simp: plain_text_def)

lemma build_record_eq:
  "build_record ts ev de ph n =
     (let r = record_text ts (escape_spec ev) (escape_spec de) ph in
      if length (escape_spec ev) < 257 \<and> length (escape_spec de) < 2049 \<and> length r < n
      then Some r else None)"
  by (auto simp: build_record_def json_escape_eq MAX_EVENT_def MAX_DETAILS_def Let_def not_less)

section \<open>Finding a field in a line\<close>

text \<open>
  A value as \<open>extract_field\<close> can return it: a quote only after a backslash, and no
  backslash at the end.
\<close>

fun scannable :: "char option \<Rightarrow> string \<Rightarrow> bool" where
  "scannable prev [] \<longleftrightarrow> prev \<noteq> Some BSLASH"
| "scannable prev (c # s) \<longleftrightarrow> \<not> (c = QUOTE \<and> prev \<noteq> Some BSLASH) \<and> scannable (Some c) s"

lemma scan_value_scannable: "scan_value n j prev s = Some v \<Longrightarrow> scannable prev v"
  by (induction n j prev s arbitrary: v rule: scan_value.induct) (auto split: if_splits)

lemma scan_value_fits: "scan_value n j prev s = Some v \<Longrightarrow> v = [] \<or> j + length v < n"
  by (induction n j prev s arbitrary: v rule: scan_value.induct) (auto split: if_splits)

lemma scan_value_read:
  "scannable prev v \<Longrightarrow> j + length v < n \<Longrightarrow> scan_value n j prev (v @ QUOTE # s) = Some v"
  by (induction v arbitrary: j prev) auto

lemma scannable_cancel:
  "scannable prev v \<Longrightarrow> scannable prev w \<Longrightarrow> v @ QUOTE # s = w @ QUOTE # t \<Longrightarrow> v = w \<and> s = t"
proof (induction v arbitrary: prev w)
  case Nil
  then show ?case by (cases w) auto
next
  case (Cons c v)
  then show ?case by (cases w) auto
qed

lemma scannable_plain: "plain_text s \<Longrightarrow> prev \<noteq> Some BSLASH \<Longrightarrow> scannable prev s"
  by (induction s arbitrary: prev) (auto simp: plain_text_def)

lemma scannable_last: "scannable prev s \<Longrightarrow> s \<noteq> [] \<Longrightarrow> last s \<noteq> BSLASH"
  by (induction s arbitrary: prev) (auto split: if_splits)

lemma scannable_escape_last:
  "(s = [] \<Longrightarrow> prev \<noteq> Some BSLASH) \<Longrightarrow> (s \<noteq> [] \<Longrightarrow> last s \<noteq> BSLASH)
    \<Longrightarrow> scannable prev (escape_spec s)"
proof (induction s arbitrary: prev)
  case (Cons c s)
  have "scannable (Some c) (escape_spec s)"
    using Cons.prems(2) by (intro Cons.IH) (auto split: if_splits)
  then show ?case by auto
qed simp

lemma scannable_escape: "scannable None s \<Longrightarrow> scannable None (escape_spec s)"
  by (rule scannable_escape_last) (auto dest: scannable_last)

definition key_name :: "string \<Rightarrow> bool" where
  "key_name k \<longleftrightarrow> k \<noteq> [] \<and> (\<forall>c \<in> set k. c \<notin> {QUOTE, BSLASH, COMMA, CHR '':'', CHR 0x7B, CHR 0x7D})"

definition closer :: "char \<Rightarrow> bool" where
  "closer d \<longleftrightarrow> d = COMMA \<or> d = CHR 0x7D"

lemma starts_with_simps [simp]:
  "starts_with [] s" "\<not> starts_with (c # p) []"
  "starts_with (c # p) (d # s) \<longleftrightarrow> c = d \<and> starts_with p s"
  by (auto simp: starts_with_def)

text \<open>The key pattern does not start in front of a value that a quote and a closer end.\<close>

lemma no_key_in_value:
  assumes "scannable prev v" and "prev \<noteq> Some BSLASH" and "closer d"
    and "QUOTE \<notin> set k" and "BSLASH \<notin> set k"
  shows "\<not> starts_with (k @ [QUOTE, CHR '':'', QUOTE]) (v @ QUOTE # d # s)"
  using assms
proof (induction v arbitrary: prev k)
  case Nil
  then show ?case by (cases k) (auto simp: closer_def)
next
  case (Cons c v)
  then show ?case by (cases k) (auto split: if_splits)
qed

lemma strstr_skip_value:
  assumes "scannable prev v" and "closer d" and "key_name k"
  shows "c_strstr (json_key k) (v @ QUOTE # d # s) = c_strstr (json_key k) s"
  using assms(1)
proof (induction v arbitrary: prev)
  case Nil
  from assms(2,3) show ?case
    by (cases k) (auto simp: json_key_def closer_def key_name_def)
next
  case (Cons c v)
  from assms(3) have "QUOTE \<notin> set k" "BSLASH \<notin> set k" by (auto simp: key_name_def)
  with Cons.prems assms(2) have "\<not> starts_with (json_key k) (c # v @ QUOTE # d # s)"
    using no_key_in_value [of "Some c" v d k s] by (auto simp: json_key_def)
  with Cons show ?case by auto
qed

lemma strstr_skip_opened_value:
  assumes "scannable None v" and "closer d" and "key_name k"
  shows "c_strstr (json_key k) (QUOTE # v @ QUOTE # d # s) = c_strstr (json_key k) s"
proof -
  from assms(3) have "QUOTE \<notin> set k" "BSLASH \<notin> set k" by (auto simp: key_name_def)
  with assms(1,2) have "\<not> starts_with (json_key k) (QUOTE # v @ QUOTE # d # s)"
    using no_key_in_value [of None v d k s] by (auto simp: json_key_def)
  then show ?thesis using strstr_skip_value [OF assms] by simp
qed

lemma other_key_no_match:
  assumes "QUOTE \<notin> set k" and "QUOTE \<notin> set k'" and "k \<noteq> k'"
  shows "\<not> starts_with (k @ QUOTE # p) (k' @ QUOTE # s)"
  using assms
proof (induction k arbitrary: k')
  case Nil
  then show ?case by (cases k') auto
next
  case (Cons a k)
  then show ?case by (cases k') auto
qed

lemma strstr_skip_field:
  assumes "key_name k" and "key_name k'" and "k \<noteq> k'" and "scannable None v" and "closer d"
  shows "c_strstr (json_key k) (json_key k' @ v @ QUOTE # d # s) = c_strstr (json_key k) s"
proof -
  have q: "QUOTE \<notin> set k" "QUOTE \<notin> set k'"
    using assms(1,2) by (auto simp: key_name_def)
  let ?rest = "CHR '':'' # QUOTE # v @ QUOTE # d # s"
  have "c_strstr (json_key k) (json_key k' @ v @ QUOTE # d # s)
      = c_strstr (json_key k) (k' @ QUOTE # ?rest)"
    using other_key_no_match [OF q assms(3)] by (simp add: json_key_def)
  also have "\<dots> = c_strstr (json_key k) (QUOTE # ?rest)"
    using q(2) by (simp add: json_key_def strstr_skip_free)
  also have "\<dots> = c_strstr (json_key k) (QUOTE # v @ QUOTE # d # s)"
    using assms(1) by (cases k) (auto simp: json_key_def key_name_def)
  also have "\<dots> = c_strstr (json_key k) s"
    using assms(4,5,1) by (rule strstr_skip_opened_value)
  finally show ?thesis .
qed

lemma length_json_key: "length (json_key k) = length k + 4"
  by (simp add: json_key_def)

lemma strstr_key_here: "c_strstr (json_key k) (json_key k @ s) = Some (json_key k @ s)"
  by (rule strstr_here) simp

lemma extract_here:
  assumes "scannable None v" and "length v < n" and "length k < 100"
    and "\<exists>s. c_strstr (json_key k) line = Some (json_key k @ v @ QUOTE # s)"
  shows "extract_field line k n = Some v"
  using assms by (auto simp: extract_field_def Let_def scan_value_read length_json_key)

lemma strstr_skip_char: "c \<noteq> QUOTE \<Longrightarrow> c_strstr (json_key k) (c # s) = c_strstr (json_key k) s"
  by (auto simp: json_key_def)

text \<open>All five fields are read back from a line, whatever their scannable contents.\<close>

definition full_line :: "string \<Rightarrow> string \<Rightarrow> string \<Rightarrow> string \<Rightarrow> string \<Rightarrow> string" where
  "full_line ts ev de ph h = record_line (record_text ts ev de ph) h"

lemma full_line_eq:
  "full_line ts ev de ph h =
     CHR 0x7B # json_key ''timestamp'' @ ts @ QUOTE # COMMA # json_key ''event'' @ ev
       @ QUOTE # COMMA # json_key ''details'' @ de @ QUOTE # COMMA
       # json_key ''previous_hash'' @ ph @ QUOTE # CHR 0x7D # COMMA # json_key ''hash'' @ h
       @ QUOTE # CHR 0x7D # []"
  by (simp add: full_line_def record_line_def record_text_def)

lemma key_names [simp]:
  "key_name ''timestamp''" "key_name ''event''" "key_name ''details''"
  "key_name ''previous_hash''" "key_name ''hash''"
  by (simp_all add: key_name_def)

lemma closers [simp]: "closer COMMA" "closer (CHR 0x7D)"
  by (simp_all add: closer_def)

lemmas find_field = full_line_eq strstr_skip_char strstr_skip_field strstr_key_here

lemma extract_full_line:
  assumes "scannable None ts" "scannable None ev" "scannable None de" "scannable None ph"
    "scannable None h" and "length ts < 64" "length ev < 257" "length de < 2049"
    "length ph < 65" "length h < 65"
  shows "extract_all (full_line ts ev de ph h) = Some (ts, ev, de, ph, h)"
proof -
  let ?l = "full_line ts ev de ph h"
  have 1: "extract_field ?l ''timestamp'' 64 = Some ts"
    using assms by (intro extract_here) (simp_all add: find_field del: c_strstr.simps)
  have 2: "extract_field ?l ''event'' 257 = Some ev"
    using assms by (intro extract_here) (simp_all add: find_field del: c_strstr.simps)
  have 3: "extract_field ?l ''details'' 2049 = Some de"
    using assms by (intro extract_here) (simp_all add: find_field del: c_strstr.simps)
  have 4: "extract_field ?l ''previous_hash'' 65 = Some ph"
    using assms by (intro extract_here) (simp_all add: find_field del: c_strstr.simps)
  have 5: "extract_field ?l ''hash'' 65 = Some h"
    using assms by (intro extract_here) (simp_all add: find_field del: c_strstr.simps)
  from 1 2 3 4 5 show ?thesis
    by (simp add: extract_all_def MAX_EVENT_def MAX_DETAILS_def HASH_LEN_def)
qed


section \<open>The chain\<close>

definition ledger_check :: "digest \<Rightarrow> string \<Rightarrow> string \<Rightarrow> string option" where
  \<comment> \<open>one line of \<open>chrono_ledger_verify\<close> that leaves \<open>broken\<close> alone\<close>
  "ledger_check digest h line =
     (case extract_all line of
        None \<Rightarrow> None
      | Some (ts, ev, de, ph, sh) \<Rightarrow>
          if ph \<noteq> h then None
          else case build_record ts ev de ph MAX_LINE of
                 None \<Rightarrow> None
               | Some r \<Rightarrow> if ledger_sha256_hex digest r = Some sh then Some sh else None)"

definition ledger_hash :: "digest \<Rightarrow> string \<Rightarrow> string \<times> string \<times> string \<Rightarrow> string" where
  "ledger_hash digest h e =
     (case e of (ts, ev, de) \<Rightarrow>
        (case ledger_sha256_hex digest (record_text ts ev de h) of None \<Rightarrow> [] | Some x \<Rightarrow> x))"

definition ledger_seal :: "digest \<Rightarrow> string \<Rightarrow> string \<times> string \<times> string \<Rightarrow> string" where
  "ledger_seal digest h e =
     (case e of (ts, ev, de) \<Rightarrow> full_line ts ev de h (ledger_hash digest h e))"

definition hash_ok :: "string \<Rightarrow> bool" where
  "hash_ok h \<longleftrightarrow> length h = 64 \<and> (\<forall>c \<in> set h. is_lower_hex c)"

definition ledger_fit :: "digest \<Rightarrow> string \<Rightarrow> string \<times> string \<times> string \<Rightarrow> bool" where
  "ledger_fit digest h e \<longleftrightarrow>
     (case e of (ts, ev, de) \<Rightarrow>
        hash_ok h \<and> plain_text ts \<and> plain_text ev \<and> plain_text de \<and>
        length ts < 32 \<and> length ev < 128 \<and> length de < 1024 \<and>
        ledger_sha256_hex digest (record_text ts ev de h) \<noteq> None)"

definition hashed_text :: "string \<Rightarrow> string option" where
  \<comment> \<open>the text the verifier hashes for a line\<close>
  "hashed_text line =
     (case extract_all line of
        None \<Rightarrow> None
      | Some (ts, ev, de, ph, sh) \<Rightarrow> build_record ts ev de ph MAX_LINE)"

definition ledger_clash :: "digest \<Rightarrow> string \<Rightarrow> string \<Rightarrow> bool" where
  \<comment> \<open>two lines whose hashed texts are a collision of the digest\<close>
  "ledger_clash digest l l' \<longleftrightarrow>
     (\<exists>r r'. hashed_text l = Some r \<and> hashed_text l' = Some r' \<and> r \<noteq> r' \<and> digest r = digest r' \<and> digest r \<noteq> None)"

lemma sha256_hex_ok: "ledger_sha256_hex digest r = Some h \<Longrightarrow> hash_ok h"
  by (auto simp: ledger_sha256_hex_def hash_ok_def dest: hex_of_lower
      split: option.splits if_splits)

lemma sha256_hex_inject:
  "ledger_sha256_hex digest r = Some h \<Longrightarrow> ledger_sha256_hex digest r' = Some h
    \<Longrightarrow> digest r = digest r' \<and> digest r \<noteq> None"
  by (auto simp: ledger_sha256_hex_def dest: hex_of_inject split: option.splits if_splits)

lemma hash_ok_plain: "hash_ok h \<Longrightarrow> plain_text h"
  by (auto simp: hash_ok_def plain_text_def)

lemma hash_ok_genesis [simp]: "hash_ok GENESIS_HASH"
  by (simp add: hash_ok_def GENESIS_HASH_def) (simp add: is_lower_hex_def code_def)

lemma length_record_text: "length (record_text ts ev de ph)
    = length ts + length ev + length de + length ph + 59"
  by (simp add: record_text_def json_key_def)

lemma length_full_line: "length (full_line ts ev de ph h)
    = length ts + length ev + length de + length ph + length h + 70"
  by (simp add: full_line_def record_line_def length_record_text json_key_def)

lemma record_text_inject:
  assumes "scannable None ts" "scannable None ev" "scannable None de" "scannable None ph"
    and "scannable None ts'" "scannable None ev'" "scannable None de'" "scannable None ph'"
    and "record_text ts (escape_spec ev) (escape_spec de) ph
       = record_text ts' (escape_spec ev') (escape_spec de') ph'"
  shows "ts = ts' \<and> ev = ev' \<and> de = de' \<and> ph = ph'"
proof -
  note esc = scannable_escape [OF assms(2)] scannable_escape [OF assms(3)]
    scannable_escape [OF assms(6)] scannable_escape [OF assms(7)]
  have eq: "ts @ QUOTE # COMMA # json_key ''event'' @ escape_spec ev
       @ QUOTE # COMMA # json_key ''details'' @ escape_spec de @ QUOTE # COMMA
       # json_key ''previous_hash'' @ ph @ QUOTE # CHR 0x7D # [] =
     ts' @ QUOTE # COMMA # json_key ''event'' @ escape_spec ev'
       @ QUOTE # COMMA # json_key ''details'' @ escape_spec de' @ QUOTE # COMMA
       # json_key ''previous_hash'' @ ph' @ QUOTE # CHR 0x7D # []"
    using assms(9) by (simp add: record_text_def)
  from scannable_cancel [OF assms(1) assms(5) eq] have ts: "ts = ts'"
    and eq2: "escape_spec ev @ QUOTE # COMMA # json_key ''details'' @ escape_spec de @ QUOTE # COMMA
       # json_key ''previous_hash'' @ ph @ QUOTE # CHR 0x7D # [] =
      escape_spec ev' @ QUOTE # COMMA # json_key ''details'' @ escape_spec de' @ QUOTE # COMMA
       # json_key ''previous_hash'' @ ph' @ QUOTE # CHR 0x7D # []"
    by simp_all
  from scannable_cancel [OF esc(1) esc(3) eq2] have ev: "ev = ev'"
    and eq3: "escape_spec de @ QUOTE # COMMA # json_key ''previous_hash'' @ ph @ QUOTE # CHR 0x7D # []
      = escape_spec de' @ QUOTE # COMMA # json_key ''previous_hash'' @ ph' @ QUOTE # CHR 0x7D # []"
    by (auto dest: escape_spec_inject)
  from scannable_cancel [OF esc(2) esc(4) eq3] have "de = de'"
    and eq4: "ph @ QUOTE # CHR 0x7D # [] = ph' @ QUOTE # CHR 0x7D # []"
    by (auto dest: escape_spec_inject)
  with scannable_cancel [OF assms(4) assms(8) eq4] ts ev show ?thesis by simp
qed

lemma extract_field_scannable: "extract_field l k n = Some v \<Longrightarrow> scannable None v"
  by (auto simp: extract_field_def Let_def dest: scan_value_scannable split: if_splits option.splits)

lemma extract_all_scannable:
  "extract_all l = Some (ts, ev, de, ph, sh) \<Longrightarrow>
     scannable None ts \<and> scannable None ev \<and> scannable None de \<and> scannable None ph \<and> scannable None sh"
  by (auto simp: extract_all_def dest!: extract_field_scannable split: option.splits)

lemma ledger_check_seal: "ledger_fit digest h e \<Longrightarrow>
    ledger_check digest h (ledger_seal digest h e) = Some (ledger_hash digest h e)"
proof -
  assume fit: "ledger_fit digest h e"
  obtain ts ev de where e: "e = (ts, ev, de)" by (cases e) auto
  from fit e obtain x where x: "ledger_sha256_hex digest (record_text ts ev de h) = Some x"
    by (auto simp: ledger_fit_def)
  have hx: "ledger_hash digest h e = x" by (simp add: ledger_hash_def e x)
  from x have okx: "hash_ok x" by (rule sha256_hex_ok)
  have "extract_all (full_line ts ev de h x) = Some (ts, ev, de, h, x)"
    using fit e okx hash_ok_plain [OF okx]
    by (intro extract_full_line)
      (auto simp: ledger_fit_def hash_ok_def intro!: scannable_plain hash_ok_plain)
  with fit e x hx show ?thesis
    by (simp add: ledger_check_def ledger_seal_def build_record_eq ledger_fit_def Let_def
        length_record_text hash_ok_def MAX_LINE_def)
qed

lemma ledger_check_binds:
  assumes "ledger_check digest h l = Some k" and "ledger_check digest h' l' = Some k"
  shows "(h = h' \<and> extract_all l = extract_all l') \<or> ledger_clash digest l l'"
proof -
  from assms(1) obtain ts ev de r where 1: "extract_all l = Some (ts, ev, de, h, k)"
    "build_record ts ev de h MAX_LINE = Some r" "ledger_sha256_hex digest r = Some k"
    by (auto simp: ledger_check_def split: option.splits if_splits)
  from assms(2) obtain ts' ev' de' r' where 2: "extract_all l' = Some (ts', ev', de', h', k)"
    "build_record ts' ev' de' h' MAX_LINE = Some r'" "ledger_sha256_hex digest r' = Some k"
    by (auto simp: ledger_check_def split: option.splits if_splits)
  show ?thesis
  proof (cases "r = r'")
    case True
    with 1(2) 2(2) have eq: "record_text ts (escape_spec ev) (escape_spec de) h
        = record_text ts' (escape_spec ev') (escape_spec de') h'"
      by (auto simp: build_record_eq Let_def split: if_splits)
    with extract_all_scannable [OF 1(1)] extract_all_scannable [OF 2(1)]
    have "ts = ts' \<and> ev = ev' \<and> de = de' \<and> h = h'" by (intro record_text_inject) simp_all
    with 1(1) 2(1) show ?thesis by simp
  next
    case False
    from sha256_hex_inject [OF 1(3) 2(3)] have "digest r = digest r' \<and> digest r \<noteq> None" .
    moreover have "hashed_text l = Some r" "hashed_text l' = Some r'" using 1(1,2) 2(1,2) by (simp_all add: hashed_text_def)
    ultimately have "ledger_clash digest l l'" using False unfolding ledger_clash_def by blast
    then show ?thesis ..
  qed
qed

interpretation lc: binding_chain "ledger_check digest" "ledger_seal digest" "ledger_hash digest"
    "ledger_fit digest" extract_all "ledger_clash digest" for digest
  by unfold_locales (simp_all add: ledger_check_seal ledger_check_binds)


section \<open>Files\<close>

lemma verify_line_broken: "broken st \<Longrightarrow> broken (verify_line digest st r)"
  by (simp add: verify_line_def Let_def split: option.splits prod.splits)

lemma verify_line_ok:
  assumes "NUL \<notin> set l" and "\<not> broken st"
  shows "\<not> broken (verify_line digest st (l @ [NL])) \<longleftrightarrow>
      ledger_check digest (expected_previous st) l \<noteq> None"
    and "ledger_check digest (expected_previous st) l = Some h \<Longrightarrow>
      expected_previous (verify_line digest st (l @ [NL])) = h"
  using assms
  by (auto simp: verify_line_def ledger_check_def Let_def split: option.splits prod.splits if_splits)

lemma verify_line_not_line:
  assumes "NL \<notin> set (butlast r)" and "\<not> (\<exists>l. r = l @ [NL] \<and> NUL \<notin> set l)"
  shows "broken (verify_line digest st r)"
proof -
  have "cstr r = [] \<or> last (cstr r) \<noteq> NL"
    using assms cstr_last_NL [OF assms(1)] by blast
  then show ?thesis by (auto simp: verify_line_def Let_def)
qed

lemma verify_fold_broken: "broken st \<Longrightarrow> broken (foldl (verify_line digest) st rs)"
  by (induction rs arbitrary: st) (auto simp: verify_line_broken)

text \<open>The loop with its \<open>broken\<close> flag is the chain's verification of the lines.\<close>

definition clean_lines :: "string list \<Rightarrow> bool" where
  "clean_lines ls \<longleftrightarrow> (\<forall>l \<in> set ls. NUL \<notin> set l)"

lemma verify_fold_iff:
  assumes "\<forall>r \<in> set rs. NL \<notin> set (butlast r)" and "\<not> broken st"
  shows "\<not> broken (foldl (verify_line digest) st rs) \<longleftrightarrow>
    (\<exists>ls. rs = map (\<lambda>l. l @ [NL]) ls \<and> clean_lines ls \<and>
       lc.verify_all digest (expected_previous st) ls \<noteq> None)"
  using assms
proof (induction rs arbitrary: st)
  case Nil
  then show ?case by (simp add: clean_lines_def)
next
  case (Cons r rs)
  show ?case
  proof (cases "\<exists>l. r = l @ [NL] \<and> NUL \<notin> set l")
    case False
    with Cons.prems have "broken (verify_line digest st r)"
      by (intro verify_line_not_line) simp_all
    then have "broken (foldl (verify_line digest) st (r # rs))"
      by (simp add: verify_fold_broken)
    with False show ?thesis by (auto simp: clean_lines_def Cons_eq_map_conv)
  next
    case True
    then obtain l where l: "r = l @ [NL]" "NUL \<notin> set l" by blast
    note ok = verify_line_ok [OF l(2) Cons.prems(2), of digest]
    show ?thesis
    proof (cases "ledger_check digest (expected_previous st) l")
      case None
      with ok(1) have "broken (foldl (verify_line digest) st (r # rs))"
        by (simp add: l(1) verify_fold_broken)
      with None l show ?thesis by (auto simp: Cons_eq_map_conv)
    next
      case (Some h)
      with ok have "\<not> broken (verify_line digest st r)"
        and "expected_previous (verify_line digest st r) = h" by (simp_all add: l(1))
      with Cons.IH [of "verify_line digest st r"] Cons.prems(1) Some l show ?thesis
        by (auto simp: Cons_eq_map_conv clean_lines_def)
    qed
  qed
qed

definition ledger_lines :: "digest \<Rightarrow> string \<Rightarrow> string list \<Rightarrow> string \<Rightarrow> bool" where
  \<comment> \<open>the file is the sequence of lines \<open>ls\<close>, which verify and end in the hash \<open>h\<close>\<close>
  "ledger_lines digest content ls h \<longleftrightarrow>
     content = unlines ls \<and> short_lines 4095 ls \<and> clean_lines ls \<and>
     lc.verify_all digest GENESIS_HASH ls = Some h"

lemma ledger_verify_iff:
  "ledger_verify digest True True (Some content) = 0 \<longleftrightarrow> (\<exists>ls h. ledger_lines digest content ls h)"
proof -
  let ?rs = "read_lines 4095 content"
  have shape: "\<forall>r \<in> set ?rs. NL \<notin> set (butlast r)" by (auto dest: chunk_shape)
  have "ledger_verify digest True True (Some content) = 0 \<longleftrightarrow>
      \<not> broken (foldl (verify_line digest) verify_init ?rs)"
    by (simp add: ledger_verify_def MAX_LINE_def)
  also have "\<dots> \<longleftrightarrow> (\<exists>ls. ?rs = map (\<lambda>l. l @ [NL]) ls \<and> clean_lines ls \<and>
       lc.verify_all digest GENESIS_HASH ls \<noteq> None)"
    using verify_fold_iff [OF shape, of verify_init digest] by (simp add: verify_init_def)
  also have "\<dots> \<longleftrightarrow> (\<exists>ls h. ledger_lines digest content ls h)"
  proof
    assume "\<exists>ls. ?rs = map (\<lambda>l. l @ [NL]) ls \<and> clean_lines ls \<and>
       lc.verify_all digest GENESIS_HASH ls \<noteq> None"
    then obtain ls where ls: "?rs = map (\<lambda>l. l @ [NL]) ls" "clean_lines ls"
      "lc.verify_all digest GENESIS_HASH ls \<noteq> None" by blast
    from ls(1) have "content = unlines ls"
      using read_lines_concat [of 4095 content] by (simp add: unlines_def)
    moreover have "short_lines 4095 ls"
      unfolding short_lines_def
    proof
      fix l assume "l \<in> set ls"
      then have "l @ [NL] \<in> set ?rs" by (simp add: ls(1))
      then show "NL \<notin> set l \<and> length l < 4095"
        using shape read_lines_length [of "l @ [NL]" 4095 content] by fastforce
    qed
    ultimately show "\<exists>ls h. ledger_lines digest content ls h"
      using ls(2,3) unfolding ledger_lines_def by blast
  next
    assume "\<exists>ls h. ledger_lines digest content ls h"
    then show "\<exists>ls. ?rs = map (\<lambda>l. l @ [NL]) ls \<and> clean_lines ls \<and>
       lc.verify_all digest GENESIS_HASH ls \<noteq> None"
      by (auto simp: ledger_lines_def read_lines_unlines)
  qed
  finally show ?thesis .
qed


section \<open>Last hash\<close>

lemma ledger_check_Some:
  assumes "ledger_check digest h l = Some k"
  obtains ts ev de r where "extract_all l = Some (ts, ev, de, h, k)"
    and "build_record ts ev de h MAX_LINE = Some r" and "ledger_sha256_hex digest r = Some k"
  using assms by (auto simp: ledger_check_def split: option.splits if_splits)

lemma ledger_check_hash_ok: "ledger_check digest h l = Some k \<Longrightarrow> hash_ok k"
  by (erule ledger_check_Some) (rule sha256_hex_ok)

lemma scan_value_prefix: "scan_value n j prev s = Some v \<Longrightarrow> take (length v) s = v"
  by (induction n j prev s arbitrary: v rule: scan_value.induct) (auto split: if_splits)

lemma last_hash_step_check:
  assumes "ledger_check digest h l = Some k" and "NUL \<notin> set l"
  shows "last_hash_step g (cstr (l @ [NL])) = k"
proof -
  from assms(1) have k: "hash_ok k" by (rule ledger_check_hash_ok)
  from assms(1) obtain ts ev de where "extract_all l = Some (ts, ev, de, h, k)"
    by (rule ledger_check_Some)
  then have "extract_field l ''hash'' 65 = Some k"
    by (auto simp: extract_all_def HASH_LEN_def split: option.splits)
  then obtain st where st: "c_strstr (json_key ''hash'') l = Some st"
    "scan_value 65 0 None (drop 8 st) = Some k"
    by (auto simp: extract_field_def Let_def length_json_key split: option.splits)
  from scan_value_prefix [OF st(2)] k have pre: "take 64 (drop 8 st) = k"
    by (simp add: hash_ok_def)
  then have len: "64 \<le> length (drop 8 st)"
    using k by (metis hash_ok_def length_take min.cobounded1 min_def)
  from st(1) have "c_strstr (json_key ''hash'') (l @ [NL]) = Some (st @ [NL])"
    by (rule strstr_append)
  with assms(2) pre len k show ?thesis
    by (simp add: last_hash_step_def HASH_LEN_def Let_def hash_ok_def list_all_iff)
qed


lemma last_hash_chain:
  "lc.verify_all digest g ls = Some h \<Longrightarrow> clean_lines ls \<Longrightarrow>
     foldl last_hash_step g (map (\<lambda>l. cstr (l @ [NL])) ls) = h"
proof (induction ls arbitrary: g)
  case (Cons l ls)
  from Cons.prems obtain k where k: "ledger_check digest g l = Some k"
    "lc.verify_all digest k ls = Some h" by (auto split: option.splits)
  from Cons.prems(2) have l: "NUL \<notin> set l" and ls: "clean_lines ls"
    by (simp_all add: clean_lines_def)
  have "last_hash_step g (cstr (l @ [NL])) = k"
    by (rule last_hash_step_check [OF k(1) l])
  with Cons.IH [OF k(2) ls] show ?case by simp
qed simp

lemma get_last_hash_lines: "ledger_lines digest content ls h \<Longrightarrow> get_last_hash True content = Some h"
  by (auto simp: ledger_lines_def get_last_hash_def MAX_LINE_def read_lines_unlines comp_def
      intro: last_hash_chain)

lemma last_hash_step_ok: "hash_ok g \<Longrightarrow> hash_ok (last_hash_step g l)"
  by (auto simp: last_hash_step_def hash_ok_def HASH_LEN_def Let_def list_all_iff split: option.splits)

lemma get_last_hash_ok: "get_last_hash rw content = Some h \<Longrightarrow> hash_ok h"
proof -
  have "hash_ok g \<Longrightarrow> hash_ok (foldl last_hash_step g ls)" for g ls
    by (induction ls arbitrary: g) (auto simp: last_hash_step_ok)
  then show "get_last_hash rw content = Some h \<Longrightarrow> hash_ok h"
    by (auto simp: get_last_hash_def split: if_splits)
qed

lemma ledger_lines_hash_ok: "ledger_lines digest content ls h \<Longrightarrow> hash_ok h"
  by (rule get_last_hash_ok) (rule get_last_hash_lines)

section \<open>Appending\<close>

definition env_good :: "ledger_env \<Rightarrow> bool" where
  "env_good env \<longleftrightarrow> env_mkdir_ok env \<and> env_open_ok env \<and> env_lock_ok env \<and> env_rewind_ok env \<and>
     env_seek_end_ok env \<and> env_fprintf_fail env = None \<and> env_fflush_fail env = None \<and>
     env_fsync_ok env \<and> get_timestamp (env_tm env) \<noteq> None"

definition digest_total :: "digest \<Rightarrow> bool" where
  \<comment> \<open>SHA-256 as documented: it never fails and yields 32 bytes\<close>
  "digest_total digest \<longleftrightarrow> (\<forall>x. \<exists>d. digest x = Some d \<and> length d = 32)"

lemma digest_total_sha: "digest_total digest \<Longrightarrow> \<exists>h. ledger_sha256_hex digest x = Some h"
  by (drule digest_total_def [THEN iffD1, THEN spec, of _ x]) (auto simp: ledger_sha256_hex_def)

lemma get_timestamp_plain:
  "get_timestamp now = Some ts \<Longrightarrow> plain_text ts \<and> NL \<notin> set ts \<and> NUL \<notin> set ts \<and> length ts < 32"
  by (auto simp: get_timestamp_def strftime_buf_Some plain_text_def fmt_iso_free fmt_zone_free
      split: option.splits)

lemma valid_text_chars: "valid_text s n \<Longrightarrow> NL \<notin> set s \<and> NUL \<notin> set s \<and> length s < n"
  by (auto simp: valid_text_def code_def)

lemma build_record_fits:
  assumes "valid_text ev MAX_EVENT" and "valid_text de MAX_DETAILS"
    and "length ts < 32" and "length ph = 64"
  shows "build_record ts ev de ph MAX_LINE = Some (record_text ts (escape_spec ev) (escape_spec de) ph)"
proof -
  from assms(1,2) have "length (escape_spec ev) \<le> 254" "length (escape_spec de) \<le> 2046"
    using length_escape_spec [of ev] length_escape_spec [of de]
    by (auto simp: valid_text_def MAX_EVENT_def MAX_DETAILS_def)
  with assms(3,4) show ?thesis
    by (simp add: build_record_eq Let_def length_record_text MAX_LINE_def)
qed

lemma ledger_append_ok:
  assumes "valid_text ev MAX_EVENT" and "valid_text de MAX_DETAILS" and "env_good env"
    and "get_last_hash True (case file of None \<Rightarrow> [] | Some c \<Rightarrow> c) = Some ph"
    and "get_timestamp (env_tm env) = Some ts"
    and "ledger_sha256_hex digest (record_text ts (escape_spec ev) (escape_spec de) ph) = Some h"
  shows "ledger_append digest env ev de file =
    (0, Some ((case file of None \<Rightarrow> [] | Some c \<Rightarrow> c)
        @ full_line ts (escape_spec ev) (escape_spec de) ph h @ [NL]))"
proof -
  have "build_record ts ev de ph MAX_LINE
      = Some (record_text ts (escape_spec ev) (escape_spec de) ph)"
    using get_last_hash_ok [OF assms(4)] get_timestamp_plain [OF assms(5)] assms(1,2)
    by (intro build_record_fits) (auto simp: hash_ok_def)
  with assms show ?thesis
    by (simp add: ledger_append_def env_good_def full_line_def Let_def)
qed

lemma escape_spec_free: "d \<notin> set s \<Longrightarrow> d \<noteq> BSLASH \<Longrightarrow> d \<notin> set (escape_spec s)"
  by (induction s) auto

lemma append_line_clean:
  assumes "valid_text ev MAX_EVENT" and "valid_text de MAX_DETAILS"
    and "get_timestamp now = Some ts" and "hash_ok ph" and "hash_ok h"
  shows "NL \<notin> set (full_line ts (escape_spec ev) (escape_spec de) ph h)"
    and "NUL \<notin> set (full_line ts (escape_spec ev) (escape_spec de) ph h)"
    and "length (full_line ts (escape_spec ev) (escape_spec de) ph h) < 4095"
proof -
  have h: "NL \<notin> set ph \<and> NUL \<notin> set ph \<and> NL \<notin> set h \<and> NUL \<notin> set h"
    using assms(4,5) by (auto simp: hash_ok_def)
  note ts = get_timestamp_plain [OF assms(3)]
  have e: "NL \<notin> set (escape_spec ev) \<and> NUL \<notin> set (escape_spec ev) \<and>
      NL \<notin> set (escape_spec de) \<and> NUL \<notin> set (escape_spec de)"
    using valid_text_chars [OF assms(1)] valid_text_chars [OF assms(2)]
    by (simp add: escape_spec_free)
  show "NL \<notin> set (full_line ts (escape_spec ev) (escape_spec de) ph h)"
    and "NUL \<notin> set (full_line ts (escape_spec ev) (escape_spec de) ph h)"
    using h ts e by (simp_all add: full_line_eq json_key_def)
  have "length (escape_spec ev) \<le> 254" "length (escape_spec de) \<le> 2046"
    using assms(1,2) length_escape_spec [of ev] length_escape_spec [of de]
    by (auto simp: valid_text_def MAX_EVENT_def MAX_DETAILS_def)
  with ts assms(4,5) show "length (full_line ts (escape_spec ev) (escape_spec de) ph h) < 4095"
    by (simp add: length_full_line hash_ok_def)
qed

lemma ledger_lines_snoc:
  assumes "ledger_lines digest content ls h" and "ledger_check digest h l = Some k"
    and "NL \<notin> set l" and "NUL \<notin> set l" and "length l < 4095"
  shows "ledger_lines digest (content @ l @ [NL]) (ls @ [l]) k"
  using assms by (simp add: ledger_lines_def clean_lines_def lc.verify_snoc_iff)

lemma ledger_lines_empty: "ledger_lines digest [] [] GENESIS_HASH"
  by (simp add: ledger_lines_def clean_lines_def)


section \<open>Runs of appends\<close>

definition ledger_step ::
  "digest \<Rightarrow> string option \<Rightarrow> ledger_env \<times> string \<times> string \<Rightarrow> string option" where
  "ledger_step digest file e = (case e of (env, ev, de) \<Rightarrow> snd (ledger_append digest env ev de file))"

definition whole_writes :: "ledger_env \<Rightarrow> bool" where
  \<comment> \<open>a \<open>fprintf\<close> or \<open>fflush\<close> of the record may fail, but then not one byte of it reaches the file\<close>
  "whole_writes env \<longleftrightarrow> env_fprintf_fail env \<in> {None, Some 0} \<and> env_fflush_fail env \<in> {None, Some 0}"

definition untorn :: "ledger_env \<times> string \<times> string \<Rightarrow> bool" where
  \<comment> \<open>the texts need no escaping, and a write that fails leaves nothing in the file\<close>
  "untorn e \<longleftrightarrow> (case e of (env, ev, de) \<Rightarrow> plain_text ev \<and> plain_text de \<and> whole_writes env)"

definition ledger_inv :: "digest \<Rightarrow> string option \<Rightarrow> bool" where
  "ledger_inv digest file \<longleftrightarrow> (\<exists>ls h. ledger_lines digest (case file of None \<Rightarrow> [] | Some c \<Rightarrow> c) ls h)"

lemma ledger_inv_iff: "ledger_inv digest file \<longleftrightarrow> ledger_verify digest True True file = 0"
proof (cases "file")
  case None
  then show ?thesis using ledger_lines_empty by (auto simp: ledger_inv_def ledger_verify_def)
next
  case (Some c)
  then show ?thesis by (simp add: ledger_inv_def ledger_verify_iff)
qed

text \<open>Every result of an append: the code, and what became of the file.\<close>

lemma ledger_append_cases:
  obtains (same) "snd (ledger_append digest env ev de file) = file"
      "fst (ledger_append digest env ev de file) \<in> {2, 3, 4}"
  | (opened) "snd (ledger_append digest env ev de file) = Some (case file of None \<Rightarrow> [] | Some c \<Rightarrow> c)"
      "fst (ledger_append digest env ev de file) \<in> {5, 6, 7, 9, 10}"
  | (written) ph ts h t where "valid_text ev MAX_EVENT" "valid_text de MAX_DETAILS"
      "get_last_hash True (case file of None \<Rightarrow> [] | Some c \<Rightarrow> c) = Some ph"
      "get_timestamp (env_tm env) = Some ts"
      "ledger_sha256_hex digest (record_text ts (escape_spec ev) (escape_spec de) ph) = Some h"
      "snd (ledger_append digest env ev de file) = Some ((case file of None \<Rightarrow> [] | Some c \<Rightarrow> c) @ t)"
      "fst (ledger_append digest env ev de file) \<in> {0, 11, 12, 13}"
      "whole_writes env \<Longrightarrow> t = [] \<or> t = full_line ts (escape_spec ev) (escape_spec de) ph h @ [NL]"
      "env_fprintf_fail env = None \<Longrightarrow> env_fflush_fail env = None \<Longrightarrow>
         t = full_line ts (escape_spec ev) (escape_spec de) ph h @ [NL]"
proof (cases "valid_text ev MAX_EVENT \<and> valid_text de MAX_DETAILS \<and> env_mkdir_ok env \<and> env_open_ok env")
  case False
  then show thesis by (intro same) (auto simp: ledger_append_def)
next
  case True
  let ?c = "case file of None \<Rightarrow> [] | Some c \<Rightarrow> c"
  show thesis
  proof (cases "env_lock_ok env \<and> env_rewind_ok env \<and> get_timestamp (env_tm env) \<noteq> None")
    case False
    with True show thesis
      by (intro opened) (auto simp: ledger_append_def get_last_hash_def Let_def split: option.splits)
  next
    case lock: True
    then obtain ts where ts: "get_timestamp (env_tm env) = Some ts" by auto
    from lock obtain ph where ph: "get_last_hash True ?c = Some ph"
      by (simp add: get_last_hash_def)
    let ?r = "record_text ts (escape_spec ev) (escape_spec de) ph"
    have r: "build_record ts ev de ph MAX_LINE = Some ?r"
      using get_last_hash_ok [OF ph] get_timestamp_plain [OF ts] True
      by (intro build_record_fits) (auto simp: hash_ok_def)
    show thesis
    proof (cases "ledger_sha256_hex digest ?r")
      case None
      with True lock ts ph r show thesis by (intro opened) (simp_all add: ledger_append_def Let_def)
    next
      case (Some h)
      show thesis
      proof (cases "env_seek_end_ok env")
        case False
        with True lock ts ph r Some show thesis
          by (intro opened) (simp_all add: ledger_append_def Let_def)
      next
        case seek: True
        let ?line = "full_line ts (escape_spec ev) (escape_spec de) ph h @ [NL]"
        define t where "t = (case env_fprintf_fail env of Some k \<Rightarrow> take k ?line | None \<Rightarrow>
            (case env_fflush_fail env of Some k \<Rightarrow> take k ?line | None \<Rightarrow> ?line))"
        have "snd (ledger_append digest env ev de file) = Some (?c @ t)"
          and "fst (ledger_append digest env ev de file) \<in> {0, 11, 12, 13}"
          using True lock ts ph r Some seek
          by (simp_all add: ledger_append_def Let_def t_def full_line_def split: option.splits)
        moreover have "whole_writes env \<Longrightarrow> t = [] \<or> t = ?line" by (auto simp: whole_writes_def t_def)
        ultimately show thesis using True ph ts Some by (intro written [of ph ts h t]) (simp_all add: t_def)
      qed
    qed
  qed
qed

lemma ledger_step_inv: "untorn e \<Longrightarrow> ledger_inv digest file \<Longrightarrow> ledger_inv digest (ledger_step digest file e)"
proof -
  assume e: "untorn e" and inv: "ledger_inv digest file"
  obtain env ev de where [simp]: "e = (env, ev, de)" by (cases e) auto
  let ?c = "case file of None \<Rightarrow> [] | Some c \<Rightarrow> c"
  from inv obtain ls h where ls: "ledger_lines digest ?c ls h" by (auto simp: ledger_inv_def)
  show ?thesis
  proof (cases rule: ledger_append_cases [of digest env ev de "file"])
    case same
    with inv show ?thesis by (simp add: ledger_step_def)
  next
    case opened
    with inv show ?thesis by (simp add: ledger_step_def ledger_inv_def)
  next
    case (written ph ts k t)
    from e have plain: "plain_text ev" "plain_text de" by (simp_all add: untorn_def)
    from written(8) e have t: "t = [] \<or> t = full_line ts ev de ph k @ [NL]"
      using plain by (simp add: untorn_def)
    from get_last_hash_lines [OF ls] written(3) have ph: "ph = h" by simp
    have okh: "hash_ok h" using ls by (rule ledger_lines_hash_ok)
    have okk: "hash_ok k" using written(5) by (rule sha256_hex_ok)
    have fit: "ledger_fit digest h (ts, ev, de)"
      using plain okh written(1,2,5) get_timestamp_plain [OF written(4)] ph
      by (auto simp: ledger_fit_def valid_text_def MAX_EVENT_def MAX_DETAILS_def)
    have "ledger_hash digest h (ts, ev, de) = k"
      using written(5) plain ph by (simp add: ledger_hash_def)
    with ledger_check_seal [OF fit] have chk: "ledger_check digest h (full_line ts ev de h k) = Some k"
      by (simp add: ledger_seal_def)
    have "ledger_lines digest (?c @ full_line ts ev de h k @ [NL]) (ls @ [full_line ts ev de h k]) k"
      using append_line_clean [OF written(1,2,4) okh okk] plain
      by (intro ledger_lines_snoc [OF ls chk]) simp_all
    with t ph ls have "ledger_lines digest (?c @ t) ls h \<or> ledger_lines digest (?c @ t) (ls @ [full_line ts ev de h k]) k"
      by auto
    with written(6) show ?thesis by (auto simp: ledger_step_def ledger_inv_def)
  qed
qed

definition extends :: "string option \<Rightarrow> string option \<Rightarrow> bool" where
  "extends f g \<longleftrightarrow> f = None \<or> (\<exists>c t. f = Some c \<and> g = Some (c @ t))"

lemma ledger_step_extends: "extends file (ledger_step digest file e)"
proof -
  obtain env ev de where [simp]: "e = (env, ev, de)" by (cases e) auto
  show ?thesis
    by (cases rule: ledger_append_cases [of digest env ev de "file"])
      (auto simp: ledger_step_def extends_def split: option.splits)
qed



section \<open>Properties\<close>

definition ledger_demo_env :: ledger_env where
  "ledger_demo_env = \<lparr>env_mkdir_ok = True, env_open_ok = True, env_lock_ok = True, env_rewind_ok = True,
     env_tm = Some \<lparr>tm_year = 2026, tm_mon = 8, tm_mday = 13, tm_hour = 18, tm_min = 25, tm_sec = 7, tm_gmtoff = -360\<rparr>,
     env_seek_end_ok = True, env_fprintf_fail = None, env_fflush_fail = None, env_fsync_ok = True\<rparr>"

definition ledger_demo_digest :: digest where
  "ledger_demo_digest x = Some (char_of (length x mod 256) # replicate 31 (CHR ''x''))"

lemma ledger_demo_good: "env_good ledger_demo_env" "digest_total ledger_demo_digest"
  by (simp_all add: env_good_def digest_total_def ledger_demo_env_def ledger_demo_digest_def get_timestamp_def
      strftime_buf_def nat_str.simps)

lemma ledger_inv_None: "ledger_inv digest None"
  using ledger_lines_empty by (auto simp: ledger_inv_def)



text \<open>C3: Appending is exact: on a ledger that verifies, with texts free of quotes and backslashes, an
  environment without failures and a working digest, \<open>append\<close> returns 0 and adds one line, from which the
  verifier reads back the timestamp, event and details unchanged together with the previous head of the
  chain; the new head is the SHA-256 of exactly these fields.\<close>

theorem ledger_append_roundtrip:
  assumes "ledger_verify digest True True (Some c) = 0" and "digest_total digest" and "env_good env"
    and "valid_text ev MAX_EVENT" and "valid_text de MAX_DETAILS" and "plain_text ev" and "plain_text de"
  shows "\<exists>l ts ph h. ledger_append digest env ev de (Some c) = (0, Some (c @ l @ [NL])) \<and>
    get_timestamp (env_tm env) = Some ts \<and> get_last_hash True c = Some ph \<and>
    extract_all l = Some (ts, ev, de, ph, h) \<and>
    ledger_sha256_hex digest (record_text ts ev de ph) = Some h \<and> get_last_hash True (c @ l @ [NL]) = Some h"
proof -
  from assms(1) obtain ls ph where ls: "ledger_lines digest c ls ph" by (auto simp: ledger_verify_iff)
  from assms(3) obtain ts where ts: "get_timestamp (env_tm env) = Some ts" by (auto simp: env_good_def)
  from digest_total_sha [OF assms(2)] obtain h where h: "ledger_sha256_hex digest (record_text ts ev de ph) = Some h" by blast
  let ?l = "full_line ts ev de ph h"
  have okp: "hash_ok ph" using ls by (rule ledger_lines_hash_ok)
  have okh: "hash_ok h" using h by (rule sha256_hex_ok)
  note tp = get_timestamp_plain [OF ts]
  have a: "ledger_append digest env ev de (Some c) = (0, Some (c @ ?l @ [NL]))"
    using ledger_append_ok [OF assms(4,5,3), of "Some c" ph ts digest h] get_last_hash_lines [OF ls] ts h assms(6,7)
    by simp
  have x: "extract_all ?l = Some (ts, ev, de, ph, h)"
    using tp assms(4-7) okp okh
    by (intro extract_full_line)
      (auto simp: valid_text_def hash_ok_def MAX_EVENT_def MAX_DETAILS_def intro!: scannable_plain hash_ok_plain)
  have fit: "ledger_fit digest ph (ts, ev, de)"
    using tp assms(4-7) okp h by (auto simp: ledger_fit_def valid_text_def MAX_EVENT_def MAX_DETAILS_def)
  from ledger_check_seal [OF fit] h have "ledger_check digest ph ?l = Some h"
    by (simp add: ledger_seal_def ledger_hash_def)
  then have "ledger_lines digest (c @ ?l @ [NL]) (ls @ [?l]) h"
    using append_line_clean [OF assms(4,5) ts okp okh] assms(6,7) by (intro ledger_lines_snoc [OF ls]) simp_all
  from get_last_hash_lines [OF this] get_last_hash_lines [OF ls] a x ts h show ?thesis by blast
qed

theorem ledger_append_roundtrip_witness:
  "\<exists>l. ledger_append ledger_demo_digest ledger_demo_env ''BOOT'' ''kernel up'' (Some []) = (0, Some (l @ [NL]))"
proof -
  have "ledger_verify ledger_demo_digest True True (Some []) = 0"
    by (simp add: ledger_verify_def verify_init_def)
  moreover have "valid_text ''BOOT'' MAX_EVENT" "valid_text ''kernel up'' MAX_DETAILS"
    by (simp_all add: valid_text_def MAX_EVENT_def MAX_DETAILS_def code_def)
  moreover have "plain_text ''BOOT''" "plain_text ''kernel up''" by (simp_all add: plain_text_def)
  ultimately have "\<exists>l ts ph h. ledger_append ledger_demo_digest ledger_demo_env ''BOOT'' ''kernel up'' (Some []) = (0, Some ([] @ l @ [NL])) \<and>
    get_timestamp (env_tm ledger_demo_env) = Some ts \<and> get_last_hash True [] = Some ph \<and>
    extract_all l = Some (ts, ''BOOT'', ''kernel up'', ph, h) \<and>
    ledger_sha256_hex ledger_demo_digest (record_text ts ''BOOT'' ''kernel up'' ph) = Some h \<and> get_last_hash True ([] @ l @ [NL]) = Some h"
    using ledger_demo_good by (intro ledger_append_roundtrip)
  then show ?thesis by auto
qed

definition ledger_entries :: "string \<Rightarrow> string list" where
  \<comment> \<open>the lines of a ledger file as the verifier reads them, without their newlines\<close>
  "ledger_entries c = map butlast (read_lines (MAX_LINE - 1) c)"

lemma ledger_entries_lines: "ledger_lines digest c ls h \<Longrightarrow> ledger_entries c = ls"
  by (simp add: ledger_entries_def ledger_lines_def MAX_LINE_def read_lines_unlines comp_def)

text \<open>C2: The ledger is tamper evident: two ledgers of the same length that both verify and end in the
  same hash hold the same records, field by field, unless two lines at the same position exhibit a
  collision of SHA-256: their hashed texts differ and have the same digest. A changed, exchanged or
  replaced record therefore shows as a failed verification or as a different head.\<close>

theorem ledger_tamper_evident:
  assumes "ledger_verify digest True True (Some c) = 0" and "ledger_verify digest True True (Some d) = 0"
    and "length (ledger_entries c) = length (ledger_entries d)"
    and "get_last_hash True c = get_last_hash True d"
  shows "map extract_all (ledger_entries c) = map extract_all (ledger_entries d) \<or>
    (\<exists>i < length (ledger_entries c). ledger_clash digest (ledger_entries c ! i) (ledger_entries d ! i))"
proof -
  from assms(1,2) obtain ls h ms k where l: "ledger_lines digest c ls h" and m: "ledger_lines digest d ms k"
    by (auto simp: ledger_verify_iff)
  from assms(4) have "k = h" using get_last_hash_lines [OF l] get_last_hash_lines [OF m] by simp
  with l m have v: "lc.verify_all digest GENESIS_HASH ls = Some h" "lc.verify_all digest GENESIS_HASH ms = Some h"
    by (simp_all add: ledger_lines_def)
  have "length ls = length ms" using assms(3) ledger_entries_lines [OF l] ledger_entries_lines [OF m] by simp
  from lc.verify_binds [OF this v] show ?thesis
    using ledger_entries_lines [OF l] ledger_entries_lines [OF m] by simp
qed

theorem ledger_tamper_evident_witness:
  "\<exists>c. c \<noteq> [] \<and> (map extract_all (ledger_entries c) = map extract_all (ledger_entries c) \<or>
    (\<exists>i < length (ledger_entries c). ledger_clash ledger_demo_digest (ledger_entries c ! i) (ledger_entries c ! i)))"
proof -
  let ?e = "(ledger_demo_env, ''BOOT'', ''kernel up'')"
  have "untorn ?e" by (simp add: untorn_def whole_writes_def plain_text_def ledger_demo_env_def)
  then have "ledger_inv ledger_demo_digest (ledger_step ledger_demo_digest None ?e)"
    by (rule ledger_step_inv [OF _ ledger_inv_None])
  moreover obtain c where c: "ledger_step ledger_demo_digest None ?e = Some c" "c \<noteq> []"
  proof -
    obtain h where h: "ledger_sha256_hex ledger_demo_digest (record_text (the (get_timestamp (env_tm ledger_demo_env)))
        (escape_spec ''BOOT'') (escape_spec ''kernel up'') GENESIS_HASH) = Some h"
      using digest_total_sha [OF ledger_demo_good(2)] by blast
    have "get_timestamp (env_tm ledger_demo_env) = Some (the (get_timestamp (env_tm ledger_demo_env)))"
      using ledger_demo_good(1) by (auto simp: env_good_def)
    moreover have "valid_text ''BOOT'' MAX_EVENT" "valid_text ''kernel up'' MAX_DETAILS"
      by (simp_all add: valid_text_def MAX_EVENT_def MAX_DETAILS_def code_def)
    ultimately have "snd (ledger_append ledger_demo_digest ledger_demo_env ''BOOT'' ''kernel up'' None) \<noteq> Some []"
      "snd (ledger_append ledger_demo_digest ledger_demo_env ''BOOT'' ''kernel up'' None) \<noteq> None"
      using h ledger_append_ok [OF _ _ ledger_demo_good(1), of "''BOOT''" "''kernel up''" None GENESIS_HASH _ ledger_demo_digest h]
      by (auto simp: get_last_hash_def)
    then obtain y where "snd (ledger_append ledger_demo_digest ledger_demo_env ''BOOT'' ''kernel up'' None) = Some y" "y \<noteq> []"
      by auto
    then show thesis by (intro that [of y]) (simp_all add: ledger_step_def)
  qed
  ultimately have "ledger_verify ledger_demo_digest True True (Some c) = 0" by (simp add: ledger_inv_iff)
  from ledger_tamper_evident [OF this this] c(2) show ?thesis by blast
qed

text \<open>The ledger file only grows: whatever entries are appended and whatever fails, even in the
  middle of a write, the content before is a prefix of the content after.\<close>

theorem ledger_append_only:
  assumes "foldl (ledger_step digest) None es = Some c"
  shows "\<exists>t. foldl (ledger_step digest) None (es @ fs) = Some (c @ t)"
proof -
  have "extends (Some c) (foldl (ledger_step digest) (Some c) fs)"
  proof (induction fs rule: rev_induct)
    case (snoc e fs)
    with ledger_step_extends [of "foldl (ledger_step digest) (Some c) fs" digest e] show ?case
      by (auto simp: extends_def)
  qed (simp add: extends_def)
  with assms show ?thesis by (auto simp: extends_def)
qed

theorem ledger_append_only_witness:
  "\<exists>t. foldl (ledger_step ledger_demo_digest) None
     ([(ledger_demo_env\<lparr>env_lock_ok := False\<rparr>, ''BOOT'', ''up'')] @ [(ledger_demo_env, ''ALERT'', ''x'')]) = Some ([] @ t)"
  by (rule ledger_append_only)
    (simp add: ledger_step_def ledger_append_def ledger_demo_env_def valid_text_def code_def MAX_EVENT_def MAX_DETAILS_def)

lemma escape_longer: "length s \<le> length (escape_spec s)" "\<not> plain_text s \<Longrightarrow> length s < length (escape_spec s)"
  by (induction s) (auto simp: plain_text_def)

lemma plain_escape: "plain_text (escape_spec s) \<longleftrightarrow> plain_text s"
  by (induction s) (auto simp: plain_text_def)

lemma ledger_line_rejected:
  assumes "ledger_lines digest c ls h" and "short_lines 4095 [l]" and "ledger_check digest h l = None"
  shows "ledger_verify digest True True (Some (c @ (l @ [NL]) @ t)) = 1"
proof (rule ccontr)
  assume "ledger_verify digest True True (Some (c @ (l @ [NL]) @ t)) \<noteq> 1"
  then have "ledger_verify digest True True (Some (c @ (l @ [NL]) @ t)) = 0"
    by (simp add: ledger_verify_def split: if_splits)
  then obtain ms k where m: "ledger_lines digest (c @ (l @ [NL]) @ t) ms k" by (auto simp: ledger_verify_iff)
  have c: "c = unlines ls" and sl: "short_lines 4095 (ls @ [l])" and v: "lc.verify_all digest GENESIS_HASH ls = Some h"
    using assms(1,2) by (auto simp: ledger_lines_def short_lines_def)
  from m have mm: "unlines (ls @ [l]) @ t = unlines ms" "short_lines 4095 ms" "lc.verify_all digest GENESIS_HASH ms = Some k"
    by (auto simp: ledger_lines_def c)
  have "map (\<lambda>l. l @ [NL]) ms = map (\<lambda>l. l @ [NL]) (ls @ [l]) @ read_lines 4095 t"
    using read_lines_unlines_append [OF sl, of t] read_lines_unlines [OF mm(2)] mm(1) by simp
  then obtain ns where "ms = (ls @ [l]) @ ns"
    by (auto simp: map_eq_append_conv simp del: map_append dest!: map_injective [rotated])
  with mm(3) lc.verify_prefix [of digest GENESIS_HASH "ls @ [l]" ns] have "lc.verify_all digest GENESIS_HASH (ls @ [l]) \<noteq> None"
    by simp
  then obtain k' where "lc.verify_all digest GENESIS_HASH (ls @ [l]) = Some k'" by blast
  with v assms(3) show False by (simp add: lc.verify_snoc_iff)
qed

text \<open>The verifier escapes the stored texts a second time: one successful append of a valid text
  that holds a quote or a backslash (not as its last character) to a ledger that verifies makes every
  later verification fail, whatever is appended after it; the only exception is that the record escaped
  once and the different record escaped twice have the same digest.\<close>

theorem ledger_quote_breaks_verify:
  assumes "ledger_verify digest True True (Some c) = 0" and "digest_total digest" and "env_good env"
    and "valid_text ev MAX_EVENT" and "valid_text de MAX_DETAILS" and "\<not> (plain_text ev \<and> plain_text de)"
    and "last ev \<noteq> BSLASH" and "last de \<noteq> BSLASH"
    and "get_timestamp (env_tm env) = Some ts" and "get_last_hash True c = Some ph"
    and "once = record_text ts (escape_spec ev) (escape_spec de) ph"
    and "twice = record_text ts (escape_spec (escape_spec ev)) (escape_spec (escape_spec de)) ph"
  shows "\<exists>d. ledger_append digest env ev de (Some c) = (0, Some d) \<and>
    ((\<forall>t. ledger_verify digest True True (Some (d @ t)) = 1) \<or> once \<noteq> twice \<and> digest once = digest twice)"
proof -
  let ?ev = "escape_spec ev" and ?de = "escape_spec de"
  from assms(1) obtain ls h0 where ls: "ledger_lines digest c ls h0" by (auto simp: ledger_verify_iff)
  then have ls: "ledger_lines digest c ls ph" using get_last_hash_lines [OF ls] assms(10) by simp
  from digest_total_sha [OF assms(2)] obtain h where h: "ledger_sha256_hex digest once = Some h" by blast
  let ?l = "full_line ts ?ev ?de ph h"
  have okp: "hash_ok ph" using ls by (rule ledger_lines_hash_ok)
  have okh: "hash_ok h" using h by (rule sha256_hex_ok)
  note tp = get_timestamp_plain [OF assms(9)]
  have a: "ledger_append digest env ev de (Some c) = (0, Some (c @ ?l @ [NL]))"
    using ledger_append_ok [OF assms(4,5,3), of "Some c" ph ts digest h] assms(9-11) h by simp
  have le: "length ?ev \<le> 254" "length ?de \<le> 2046"
    using assms(4,5) length_escape_spec [of ev] length_escape_spec [of de]
    by (auto simp: valid_text_def MAX_EVENT_def MAX_DETAILS_def)
  have "scannable None ?ev" "scannable None ?de"
    using assms(7,8) by (simp_all add: scannable_escape_last)
  moreover have "scannable None ts" "scannable None ph" "scannable None h"
    using tp okp okh by (auto intro!: scannable_plain dest: hash_ok_plain)
  ultimately have x: "extract_all ?l = Some (ts, ?ev, ?de, ph, h)"
    using le tp okp okh by (intro extract_full_line) (auto simp: hash_ok_def)
  have "length ?ev + length ?de < length (escape_spec ?ev) + length (escape_spec ?de)"
    using assms(6) escape_longer [of ?ev] escape_longer [of ?de] plain_escape [of ev] plain_escape [of de] by auto
  then have ne: "once \<noteq> twice"
    using length_record_text [of ts "escape_spec ?ev" "escape_spec ?de" ph] length_record_text [of ts ?ev ?de ph]
    by (auto simp: assms(11,12))
  show ?thesis
  proof (cases "digest once = digest twice")
    case False
    then have "ledger_sha256_hex digest twice \<noteq> Some h" using sha256_hex_inject [OF h] by metis
    then have chk: "ledger_check digest ph ?l = None"
      by (simp add: ledger_check_def x build_record_eq Let_def assms(12))
    have "short_lines 4095 [?l]" using append_line_clean [OF assms(4,5,9) okp okh] by (simp add: short_lines_def)
    from ledger_line_rejected [OF ls this chk] a show ?thesis by auto
  qed (use a ne in auto)
qed

theorem ledger_quote_breaks_verify_witness:
  "\<exists>d. ledger_append ledger_demo_digest ledger_demo_env ''NOTE'' [CHR ''a'', QUOTE, CHR ''b''] (Some []) = (0, Some d) \<and>
    ledger_verify ledger_demo_digest True True (Some d) = 1"
proof -
  let ?de = "[CHR ''a'', QUOTE, CHR ''b'']"
  let ?r = "\<lambda>ts ev de. record_text ts ev de GENESIS_HASH"
  have v: "ledger_verify ledger_demo_digest True True (Some []) = 0"
    by (simp add: ledger_verify_def verify_init_def)
  obtain ts where ts: "get_timestamp (env_tm ledger_demo_env) = Some ts" "length ts < 32"
    using ledger_demo_good(1) get_timestamp_plain by (auto simp: env_good_def)
  have p: "valid_text ''NOTE'' MAX_EVENT" "valid_text ?de MAX_DETAILS" "\<not> (plain_text ''NOTE'' \<and> plain_text ?de)"
    "last ''NOTE'' \<noteq> BSLASH" "last ?de \<noteq> BSLASH" "get_last_hash True [] = Some GENESIS_HASH"
    by (simp_all add: valid_text_def MAX_EVENT_def MAX_DETAILS_def code_def plain_text_def get_last_hash_def)
  from ledger_quote_breaks_verify [OF v ledger_demo_good(2,1) p(1-5) ts(1) p(6) refl refl]
  obtain d where d: "ledger_append ledger_demo_digest ledger_demo_env ''NOTE'' ?de (Some []) = (0, Some d)"
    "(\<forall>t. ledger_verify ledger_demo_digest True True (Some (d @ t)) = 1) \<or>
      ledger_demo_digest (?r ts (escape_spec ''NOTE'') (escape_spec ?de))
        = ledger_demo_digest (?r ts (escape_spec (escape_spec ''NOTE'')) (escape_spec (escape_spec ?de)))"
    by blast
  have "length GENESIS_HASH = 64" by (simp add: GENESIS_HASH_def)
  with ts(2) have "ledger_demo_digest (?r ts (escape_spec ''NOTE'') (escape_spec ?de))
      \<noteq> ledger_demo_digest (?r ts (escape_spec (escape_spec ''NOTE'')) (escape_spec (escape_spec ?de)))"
    by (simp add: ledger_demo_digest_def length_record_text)
  with d have "ledger_verify ledger_demo_digest True True (Some (d @ [])) = 1" by blast
  with d(1) show ?thesis by auto
qed

end
