(* ===== verification/Continuum.thy ===== *)
theory Continuum
  imports CTime
begin

text \<open>
  \<open>core/continuum/chrono_continuum.c\<close>: the continuity log. Under a root directory the program
  keeps three files: \<open>identity\<close>, \<open>state\<close> (the head of the chain) and \<open>events.log\<close> (one
  \<open>|\<close>-separated line per event, each with the hash of its predecessor and its own hash).
  The state of the model is the part of the file system the program sees: a map from paths to
  file contents and the set of directories. The digest function of OpenSSL (\<open>SHA256\<close>) is the
  parameter \<open>H\<close>; what the system calls answer is a \<open>cont_env\<close>. The code ignores the results of
  \<open>fprintf\<close>, \<open>fflush\<close> and \<open>fclose\<close>: \<open>ce_room\<close> says how much of what is written to a file reaches it.
\<close>

section \<open>State and environment\<close>

record cont_fs =
  cf_files :: "string \<Rightarrow> string option"
  cf_dirs :: "string \<Rightarrow> bool"

datatype open_mode = ReadMode | WriteMode | AppendMode

datatype mkdir_result = MkdirOk | MkdirExists | MkdirFail

record cont_env =
  ce_open :: "string \<Rightarrow> open_mode \<Rightarrow> bool"   \<comment> \<open>permission to open a file\<close>
  ce_room :: "string \<Rightarrow> nat option"            \<comment> \<open>bytes that can still be written to a file, \<open>None\<close>: all\<close>
  ce_mkdir :: mkdir_result
  ce_random :: "string option"                  \<comment> \<open>what one read of \<open>/dev/urandom\<close> returns\<close>
  ce_time :: nat                                \<comment> \<open>\<open>time(NULL)\<close>\<close>
  ce_tm :: "tm option"                          \<comment> \<open>\<open>time\<close> and \<open>gmtime_r\<close>\<close>

definition cont_path :: "string \<Rightarrow> string \<Rightarrow> string" where
  "cont_path root name = snprintf_buf 1024 (root @ CHR ''/'' # name)"

definition IDENTITY_FILE :: string where "IDENTITY_FILE = ''identity''"
definition STATE_FILE :: string where "STATE_FILE = ''state''"
definition EVENTS_FILE :: string where "EVENTS_FILE = ''events.log''"
definition LINE_SIZE :: nat where "LINE_SIZE = 8192"
definition GENESIS :: string where "GENESIS = ''GENESIS''"

definition path_exists :: "cont_fs \<Rightarrow> string \<Rightarrow> bool" where
  \<comment> \<open>\<open>access(path, F_OK) == 0\<close>\<close>
  "path_exists s p \<longleftrightarrow> cf_files s p \<noteq> None \<or> cf_dirs s p"

definition open_read :: "cont_env \<Rightarrow> cont_fs \<Rightarrow> string \<Rightarrow> string option" where
  "open_read env s p = (if ce_open env p ReadMode then cf_files s p else None)"

definition open_write :: "cont_env \<Rightarrow> cont_fs \<Rightarrow> string \<Rightarrow> open_mode \<Rightarrow> bool" where
  "open_write env s p m \<longleftrightarrow> ce_open env p m \<and> \<not> cf_dirs s p"

definition put_file :: "cont_fs \<Rightarrow> string \<Rightarrow> string \<Rightarrow> cont_fs" where
  "put_file s p c = s\<lparr>cf_files := (cf_files s)(p \<mapsto> c)\<rparr>"

definition stored :: "cont_env \<Rightarrow> string \<Rightarrow> string \<Rightarrow> string" where
  \<comment> \<open>the part of a text that reaches the file it is written to\<close>
  "stored env p t = (case ce_room env p of None \<Rightarrow> t | Some k \<Rightarrow> take k t)"

definition all_room :: "cont_env \<Rightarrow> bool" where
  "all_room env \<longleftrightarrow> (\<forall>p. ce_room env p = None)"

lemma stored_all [simp]: "all_room env \<Longrightarrow> stored env p t = t"
  by (simp add: stored_def all_room_def)

lemma stored_Nil [simp]: "stored env p [] = []"
  by (simp add: stored_def split: option.split)

section \<open>Helpers\<close>

definition ensure_layout :: "cont_env \<Rightarrow> string \<Rightarrow> cont_fs \<Rightarrow> int \<times> cont_fs" where
  "ensure_layout env root s =
     (if root = [] then (-1, s)
      else if path_exists s root then (if cf_dirs s root then (0, s) else (-1, s))
      else case ce_mkdir env of
             MkdirOk \<Rightarrow> (0, s\<lparr>cf_dirs := (cf_dirs s)(root := True)\<rparr>)
           | MkdirExists \<Rightarrow> (0, s)
           | MkdirFail \<Rightarrow> (-1, s))"

definition cont_sha256_hex :: "(string \<Rightarrow> string) \<Rightarrow> string \<Rightarrow> string" where
  "cont_sha256_hex H data = hex_of (H data)"

definition random_hex :: "cont_env \<Rightarrow> nat \<Rightarrow> string option" where
  "random_hex env bytes =
     (case ce_random env of
        None \<Rightarrow> None
      | Some b \<Rightarrow> if bytes > 64 \<or> length b \<noteq> bytes then None else Some (hex_of b))"

definition now_iso :: "cont_env \<Rightarrow> string option" where
  "now_iso env = (case ce_tm env of None \<Rightarrow> None | Some t \<Rightarrow> strftime_buf 64 (fmt_iso t @ ''Z''))"

definition valid_field :: "string \<Rightarrow> bool" where
  "valid_field v \<longleftrightarrow> v \<noteq> [] \<and> BAR \<notin> set v \<and> NL \<notin> set v \<and> CR \<notin> set v"

fun head_hash_of :: "string list \<Rightarrow> string" where
  "head_hash_of [] = GENESIS"
| "head_hash_of (raw # raws) =
     (let line = cstr raw in
      if starts_with ''head_hash='' line \<and> length (cut_eol (drop 10 line)) = 64
      then cut_eol (drop 10 line) else head_hash_of raws)"

definition read_state_hash :: "cont_env \<Rightarrow> cont_fs \<Rightarrow> string \<Rightarrow> string" where
  "read_state_hash env s root =
     (case open_read env s (cont_path root STATE_FILE) of
        None \<Rightarrow> GENESIS
      | Some c \<Rightarrow> head_hash_of (read_lines 255 c))"

definition count_events :: "cont_env \<Rightarrow> cont_fs \<Rightarrow> string \<Rightarrow> nat" where
  "count_events env s root =
     (case open_read env s (cont_path root EVENTS_FILE) of
        None \<Rightarrow> 0
      | Some c \<Rightarrow> length (read_lines (LINE_SIZE - 1) c))"

section \<open>Operations\<close>

definition identity_text :: "string \<Rightarrow> nat \<Rightarrow> string" where
  "identity_text ident t =
     unlines [''continuum_version=1.0'', ''continuity_id=CHRONO-'' @ ident, ''created='' @ nat_str t]"

definition fresh_state_text :: string where
  "fresh_state_text =
     unlines [''continuum_version=1.0'', ''state=INITIALIZED'', ''sequence=0'', ''head_hash='' @ GENESIS]"

definition active_state_text :: "nat \<Rightarrow> string \<Rightarrow> string" where
  "active_state_text sequence hash =
     unlines [''continuum_version=1.0'', ''state=ACTIVE'', ''sequence='' @ int_str (int sequence),
       ''head_hash='' @ hash]"

definition init_identity :: "cont_env \<Rightarrow> string \<Rightarrow> cont_fs \<Rightarrow> int \<times> cont_fs" where
  "init_identity env root s =
     (let path = cont_path root IDENTITY_FILE in
      if path_exists s path then (0, s)
      else case random_hex env 16 of
             None \<Rightarrow> (-1, s)
           | Some ident \<Rightarrow>
               if \<not> open_write env s path WriteMode then (-1, s)
               else (0, put_file s path (stored env path (identity_text ident (ce_time env)))))"

definition init_file :: "cont_env \<Rightarrow> string \<Rightarrow> string \<Rightarrow> cont_fs \<Rightarrow> int \<times> cont_fs" where
  \<comment> \<open>create a missing file with the given content\<close>
  "init_file env path content s =
     (if path_exists s path then (0, s)
      else if \<not> open_write env s path WriteMode then (-1, s)
      else (0, put_file s path (stored env path content)))"

definition continuum_init :: "cont_env \<Rightarrow> string \<Rightarrow> cont_fs \<Rightarrow> int \<times> cont_fs" where
  "continuum_init env root s =
     (let (r, s) = ensure_layout env root s in
      if r < 0 then (-1, s)
      else let (r, s) = init_identity env root s in
      if r < 0 then (-1, s)
      else let (r, s) = init_file env (cont_path root STATE_FILE) fresh_state_text s in
      if r < 0 then (-1, s)
      else init_file env (cont_path root EVENTS_FILE) [] s)"

definition event_canonical :: "nat \<Rightarrow> string \<Rightarrow> string \<Rightarrow> string \<Rightarrow> string \<Rightarrow> string \<Rightarrow> string" where
  "event_canonical sequence timestamp event_type actor details previous_hash =
     snprintf_buf LINE_SIZE
       (join BAR [int_str (int sequence), timestamp, event_type, actor, details, previous_hash])"

definition event_line ::
  "(string \<Rightarrow> string) \<Rightarrow> nat \<Rightarrow> string \<Rightarrow> string \<Rightarrow> string \<Rightarrow> string \<Rightarrow> string \<Rightarrow> string" where
  "event_line H sequence timestamp event_type actor details previous_hash =
     join BAR [int_str (int sequence), timestamp, event_type, actor, details, previous_hash,
       cont_sha256_hex H (event_canonical sequence timestamp event_type actor details previous_hash)]"

definition continuum_event ::
  "(string \<Rightarrow> string) \<Rightarrow> cont_env \<Rightarrow> string \<Rightarrow> string \<Rightarrow> string \<Rightarrow> string \<Rightarrow> cont_fs \<Rightarrow> int \<times> cont_fs"
where
  "continuum_event H env root event_type actor details s =
     (if \<not> valid_field event_type \<or> \<not> valid_field actor \<or> \<not> valid_field details then (-1, s)
      else let (r, s) = continuum_init env root s in
      if r < 0 then (-1, s)
      else
        let previous_hash = read_state_hash env s root;
            sequence = count_events env s root + 1 in
        case now_iso env of
          None \<Rightarrow> (-1, s)
        | Some timestamp \<Rightarrow>
            let path = cont_path root EVENTS_FILE in
            if \<not> open_write env s path AppendMode then (-1, s)
            else
              let old = (case cf_files s path of None \<Rightarrow> [] | Some c \<Rightarrow> c);
                  hash = cont_sha256_hex H
                    (event_canonical sequence timestamp event_type actor details previous_hash);
                  s = put_file s path (old @ stored env path
                    (event_line H sequence timestamp event_type actor details previous_hash @ [NL]));
                  spath = cont_path root STATE_FILE in
              if \<not> open_write env s spath WriteMode then (-1, s)
              else (0, put_file s spath (stored env spath (active_state_text sequence hash))))"

section \<open>Verification\<close>

datatype verdict =
    VerifyEmpty
  | InvalidEventFormat
  | SequenceGap
  | ChainBreak
  | HashMismatch int
  | Verified nat string

definition cont_check ::
  "(string \<Rightarrow> string) \<Rightarrow> int \<times> string \<Rightarrow> string \<Rightarrow> verdict + int \<times> string" where
  \<comment> \<open>one iteration of the loop; the state is \<open>expected_sequence\<close> and \<open>previous_hash\<close>\<close>
  "cont_check H st raw =
     (let line = cut_eol (cstr raw);
          fields = take 7 (split_on BAR line) in
      if length fields \<noteq> 7 then Inl InvalidEventFormat
      else if c_atoi (fields ! 0) \<noteq> fst st then Inl SequenceGap
      else if fields ! 5 \<noteq> snd st then Inl ChainBreak
      else
        let canonical = snprintf_buf LINE_SIZE (join BAR (take 6 fields)) in
        if cont_sha256_hex H canonical \<noteq> fields ! 6 then Inl (HashMismatch (c_atoi (fields ! 0)))
        else Inr (fst st + 1, take 64 (fields ! 6)))"

fun verify_loop :: "(string \<Rightarrow> string) \<Rightarrow> int \<times> string \<Rightarrow> nat \<Rightarrow> string list \<Rightarrow> verdict" where
  "verify_loop H st verified [] = Verified verified (snd st)"
| "verify_loop H st verified (raw # raws) =
     (case cont_check H st raw of
        Inl v \<Rightarrow> v
      | Inr st' \<Rightarrow> verify_loop H st' (Suc verified) raws)"

definition continuum_verify :: "(string \<Rightarrow> string) \<Rightarrow> cont_env \<Rightarrow> string \<Rightarrow> cont_fs \<Rightarrow> verdict" where
  "continuum_verify H env root s =
     (case open_read env s (cont_path root EVENTS_FILE) of
        None \<Rightarrow> VerifyEmpty
      | Some c \<Rightarrow> verify_loop H (1, GENESIS) 0 (read_lines (LINE_SIZE - 1) c))"

fun verdict_code :: "verdict \<Rightarrow> int" where
  "verdict_code VerifyEmpty = 0"
| "verdict_code (Verified n h) = 0"
| "verdict_code _ = 1"

section \<open>Reports and command line\<close>

definition copy_out :: "nat \<Rightarrow> string \<Rightarrow> string" where
  \<comment> \<open>\<open>while (fgets(line, sizeof(line), fp)) fputs(line, stdout)\<close>\<close>
  "copy_out n c = concat (map cstr (read_lines (n - 1) c))"

definition continuum_state :: "cont_env \<Rightarrow> string \<Rightarrow> cont_fs \<Rightarrow> int \<times> string" where
  "continuum_state env root s =
     (case open_read env s (cont_path root STATE_FILE) of
        None \<Rightarrow> (1, unlines [''CONTINUUM_STATE=UNINITIALIZED''])
      | Some c \<Rightarrow> (0, unlines [''CHRONO CONTINUUM STATE''] @ copy_out 512 c))"

definition continuum_passport :: "cont_env \<Rightarrow> string \<Rightarrow> cont_fs \<Rightarrow> int \<times> string" where
  "continuum_passport env root s =
     (case open_read env s (cont_path root IDENTITY_FILE) of
        None \<Rightarrow> (1, unlines [''CHRONO INFRASTRUCTURE PASSPORT'', ''status=UNINITIALIZED''])
      | Some c \<Rightarrow>
          (0, unlines [replicate 40 (CHR ''=''), '' CHRONO INFRASTRUCTURE PASSPORT'', replicate 40 (CHR ''='')]
              @ copy_out 512 c @ unlines [''events='' @ int_str (int (count_events env s root))]))"

definition continuum_main ::
  "(string \<Rightarrow> string) \<Rightarrow> cont_env \<Rightarrow> string list \<Rightarrow> cont_fs \<Rightarrow> int \<times> cont_fs" where
  "continuum_main H env argv s =
     (let root = (if length argv \<ge> 3 then argv ! 2 else ''.'') in
      if length argv < 2 then (2, s)
      else if argv ! 1 = ''init'' then continuum_init env root s
      else if argv ! 1 = ''event'' then
        (if length argv \<noteq> 6 then (2, s)
         else continuum_event H env (argv ! 2) (argv ! 3) (argv ! 4) (argv ! 5) s)
      else if argv ! 1 = ''verify'' then (verdict_code (continuum_verify H env root s), s)
      else if argv ! 1 = ''state'' then (fst (continuum_state env root s), s)
      else if argv ! 1 = ''passport'' then (fst (continuum_passport env root s), s)
      else (2, s))"


section \<open>The chain of events\<close>

definition fields6 :: "string \<Rightarrow> string list" where
  \<comment> \<open>the hashed fields of a line as the verifier splits it\<close>
  "fields6 raw = take 6 (split_on BAR (cut_eol (cstr raw)))"

definition cont_chk :: "(string \<Rightarrow> string) \<Rightarrow> int \<times> string \<Rightarrow> string \<Rightarrow> (int \<times> string) option" where
  "cont_chk H st raw =
     (if length raw < LINE_SIZE then (case cont_check H st raw of Inl _ \<Rightarrow> None | Inr st' \<Rightarrow> Some st')
      else None)"

definition event_hash :: "(string \<Rightarrow> string) \<Rightarrow> int \<times> string \<Rightarrow> string \<times> string \<times> string \<times> string \<Rightarrow> string" where
  "event_hash H st e = (case e of (ts, ty, ac, de) \<Rightarrow>
     cont_sha256_hex H (event_canonical (nat (fst st)) ts ty ac de (snd st)))"

definition event_seal :: "(string \<Rightarrow> string) \<Rightarrow> int \<times> string \<Rightarrow> string \<times> string \<times> string \<times> string \<Rightarrow> string" where
  "event_seal H st e = (case e of (ts, ty, ac, de) \<Rightarrow>
     event_line H (nat (fst st)) ts ty ac de (snd st) @ [NL])"

definition clean_field :: "string \<Rightarrow> bool" where
  "clean_field v \<longleftrightarrow> BAR \<notin> set v \<and> NL \<notin> set v \<and> CR \<notin> set v \<and> NUL \<notin> set v"

definition event_fit :: "(string \<Rightarrow> string) \<Rightarrow> int \<times> string \<Rightarrow> string \<times> string \<times> string \<times> string \<Rightarrow> bool" where
  "event_fit H st e \<longleftrightarrow> (case e of (ts, ty, ac, de) \<Rightarrow>
     1 \<le> fst st \<and> fst st < 2 ^ 31 \<and> clean_field ts \<and> clean_field ty \<and> clean_field ac \<and>
     clean_field de \<and> clean_field (snd st) \<and> length (event_hash H st e) = 64 \<and>
     length (event_line H (nat (fst st)) ts ty ac de (snd st)) < 8191)"

definition event_clash :: "(string \<Rightarrow> string) \<Rightarrow> string \<Rightarrow> string \<Rightarrow> bool" where
  \<comment> \<open>two lines whose hashed texts differ but whose digests agree on the 32 bytes of a SHA-256 digest\<close>
  "event_clash H raw raw' \<longleftrightarrow> join BAR (fields6 raw) \<noteq> join BAR (fields6 raw') \<and>
     take 32 (H (join BAR (fields6 raw))) = take 32 (H (join BAR (fields6 raw')))"

definition log_clash :: "(string \<Rightarrow> string) \<Rightarrow> string \<Rightarrow> bool" where
  \<comment> \<open>a log that holds two such lines\<close>
  "log_clash H c \<longleftrightarrow> (\<exists>a \<in> set (read_lines (LINE_SIZE - 1) c). \<exists>b \<in> set (read_lines (LINE_SIZE - 1) c). event_clash H a b)"

lemma take_hex_of: "take (2 * n) (hex_of bs) = hex_of (take n bs)"
proof (induction bs arbitrary: n)
  case (Cons b bs)
  then show ?case by (cases n) simp_all
qed simp

lemma clean_field_nat_str [simp]: "clean_field (nat_str n)"
  by (simp add: clean_field_def cstr_simps)

lemma clean_field_hex [simp]: "clean_field (hex_of bs)"
  by (simp add: clean_field_def cstr_simps)

lemma clean_field_genesis [simp]: "clean_field GENESIS"
  by (simp add: clean_field_def GENESIS_def)

lemma event_line_clean:
  assumes "clean_field ts" "clean_field ty" "clean_field ac" "clean_field de" "clean_field ph"
  shows "NL \<notin> set (event_line H n ts ty ac de ph)" "CR \<notin> set (event_line H n ts ty ac de ph)"
    "NUL \<notin> set (event_line H n ts ty ac de ph)"
  using assms by (simp_all add: event_line_def clean_field_def cont_sha256_hex_def cstr_simps)

lemma cut_eol_nl: "NL \<notin> set l \<Longrightarrow> CR \<notin> set l \<Longrightarrow> NUL \<notin> set l \<Longrightarrow> cut_eol (cstr (l @ [NL])) = l"
  by (simp add: cut_eol_line)

lemma split_event_line:
  assumes "clean_field ts" "clean_field ty" "clean_field ac" "clean_field de" "clean_field ph"
  shows "split_on BAR (event_line H n ts ty ac de ph)
    = [nat_str n, ts, ty, ac, de, ph, cont_sha256_hex H (event_canonical n ts ty ac de ph)]"
  unfolding event_line_def
  using assms by (subst split_on_join) (auto simp: clean_field_def cont_sha256_hex_def cstr_simps)

lemma cont_chk_seal: "event_fit H st e \<Longrightarrow> cont_chk H st (event_seal H st e) = Some (fst st + 1, event_hash H st e)"
proof -
  assume fit: "event_fit H st e"
  obtain ts ty ac de where e: "e = (ts, ty, ac, de)" by (cases e) auto
  obtain k ph where st: "st = (k, ph)" by (cases st)
  from fit e st have c: "clean_field ts" "clean_field ty" "clean_field ac" "clean_field de" "clean_field ph"
    and k: "1 \<le> k" "k < 2 ^ 31" and len: "length (event_line H (nat k) ts ty ac de ph) < 8191"
    and h: "length (event_hash H st e) = 64"
    by (auto simp: event_fit_def)
  from k obtain n where n: "k = int n" "n < 2 ^ 31" by (metis nonneg_int_cases of_nat_less_numeral_power_cancel_iff order_trans zero_le_one)
  have "c_atoi (nat_str n) = int n" using n by (simp add: c_atoi_nat_str)
  moreover have "take 64 (event_hash H st e) = event_hash H st e" using h by simp
  ultimately show ?thesis
    using len k n
    by (simp add: cont_chk_def cont_check_def Let_def e st event_seal_def event_hash_def LINE_SIZE_def
        cut_eol_nl [OF event_line_clean [OF c]] split_event_line [OF c] event_canonical_def)
qed

lemma length_join_take: "length (join d (take n fs)) \<le> length (join d fs)"
proof (induction d fs arbitrary: n rule: join.induct)
  case (2 d f)
  then show ?case by (cases n) auto
next
  case (3 d f g fs)
  show ?case
  proof (cases n)
    case (Suc m)
    with "3.IH" [of m] show ?thesis by (cases m) auto
  qed simp
qed simp

lemma length_cut: "length (cut_eol (cstr raw)) \<le> length raw"
  unfolding cut_eol_def cstr_def using length_takeWhile_le order_trans by blast

lemma cont_chk_Some:
  assumes "cont_chk H st raw = Some k"
  shows "length (fields6 raw) = 6" and "fields6 raw ! 5 = snd st" and "fst k = fst st + 1"
    and "snd k = hex_of (take 32 (H (join BAR (fields6 raw))))"
proof -
  let ?fs = "split_on BAR (cut_eol (cstr raw))"
  from assms have raw: "length raw < 8192" and c: "cont_check H st raw = Inr k"
    by (auto simp: cont_chk_def LINE_SIZE_def split: if_splits sum.splits)
  from c have len: "7 \<le> length ?fs" and f5: "take 7 ?fs ! 5 = snd st"
    and f6: "take 7 ?fs ! 6 = cont_sha256_hex H (snprintf_buf LINE_SIZE (join BAR (take 6 (take 7 ?fs))))"
    and k: "k = (fst st + 1, take 64 (take 7 ?fs ! 6))"
    by (auto simp: cont_check_def Let_def split: if_splits)
  have t6: "take 6 (take 7 ?fs) = fields6 raw" by (simp add: fields6_def take_take min_def)
  have "length (join BAR (fields6 raw)) \<le> length raw"
    using length_join_take [of BAR 6 ?fs] length_cut [of raw]
    by (simp add: fields6_def join_split_on)
  with raw have "snprintf_buf LINE_SIZE (join BAR (fields6 raw)) = join BAR (fields6 raw)"
    by (simp add: LINE_SIZE_def)
  with f6 t6 k show "snd k = hex_of (take 32 (H (join BAR (fields6 raw))))"
    using take_hex_of [of 32 "H (join BAR (fields6 raw))"] by (simp add: cont_sha256_hex_def)
  show "length (fields6 raw) = 6" using len by (simp add: fields6_def)
  show "fields6 raw ! 5 = snd st" using f5 len by (simp add: fields6_def)
  show "fst k = fst st + 1" by (simp add: k)
qed

lemma fields6_rejoin: "fields6 raw \<noteq> [] \<Longrightarrow> split_on BAR (join BAR (fields6 raw)) = fields6 raw"
  by (rule split_on_join) (auto simp: fields6_def dest: in_set_takeD split_on_no_delim)

lemma cont_chk_binds:
  assumes "cont_chk H st raw = Some k" and "cont_chk H st' raw' = Some k"
  shows "(st = st' \<and> fields6 raw = fields6 raw') \<or> event_clash H raw raw'"
proof (cases "join BAR (fields6 raw) = join BAR (fields6 raw')")
  case True
  note 1 = cont_chk_Some [OF assms(1)] and 2 = cont_chk_Some [OF assms(2)]
  have ne: "fields6 raw \<noteq> []" "fields6 raw' \<noteq> []" using 1(1) 2(1) by auto
  have "fields6 raw = split_on BAR (join BAR (fields6 raw))" using ne(1) by (simp add: fields6_rejoin)
  also have "\<dots> = fields6 raw'" using ne(2) by (simp add: True fields6_rejoin)
  finally have "fields6 raw = fields6 raw'" .
  with 1(2,3) 2(2,3) show ?thesis by (auto simp: prod_eq_iff)
next
  case False
  from cont_chk_Some(4) [OF assms(1)] cont_chk_Some(4) [OF assms(2)]
  have "take 32 (H (join BAR (fields6 raw))) = take 32 (H (join BAR (fields6 raw')))"
    by (metis hex_of_inject)
  with False show ?thesis by (simp add: event_clash_def)
qed

interpretation cc: binding_chain "cont_chk H" "event_seal H" "\<lambda>st e. (fst st + 1, event_hash H st e)"
    "event_fit H" fields6 "event_clash H" for H
  by unfold_locales (simp_all add: cont_chk_seal cont_chk_binds)

lemma verify_loop_Verified:
  assumes "\<forall>raw \<in> set raws. length raw < LINE_SIZE"
  shows "verify_loop H st n raws = Verified m h \<longleftrightarrow>
    m = n + length raws \<and> (\<exists>k. cc.verify_all H st raws = Some (k, h))"
  using assms
proof (induction H st n raws rule: verify_loop.induct)
  case (2 H st n raw raws)
  show ?case
  proof (cases "cont_check H st raw")
    case (Inl v)
    then have "v \<noteq> Verified m h" by (auto simp: cont_check_def Let_def split: if_splits)
    moreover have "cont_chk H st raw = None" using Inl by (simp add: cont_chk_def)
    ultimately show ?thesis using Inl by simp
  next
    case (Inr st')
    moreover have "cont_chk H st raw = Some st'" using Inr 2(2) by (simp add: cont_chk_def)
    ultimately show ?thesis using 2 by auto
  qed
qed auto

lemma cont_verify_count: "cc.verify_all H st raws = Some k \<Longrightarrow> fst k = fst st + int (length raws)"
  by (induction raws arbitrary: st) (auto dest!: cont_chk_Some(3) split: option.splits)

lemma cont_verify_clean:
  "cc.verify_all H st raws = Some k \<Longrightarrow> clean_field (snd st) \<Longrightarrow> clean_field (snd k)"
  by (induction raws arbitrary: st) (auto dest!: cont_chk_Some(4) split: option.splits)

lemma read_lines_size: "raw \<in> set (read_lines (LINE_SIZE - 1) c) \<Longrightarrow> length raw < LINE_SIZE"
  by (auto dest!: read_lines_length simp: LINE_SIZE_def)


section \<open>The log on disk\<close>

definition cont_root :: "string \<Rightarrow> bool" where
  "cont_root root \<longleftrightarrow> root \<noteq> [] \<and> length root < 1000"

lemma cont_path_short:
  assumes "cont_root root"
  shows "cont_path root STATE_FILE = root @ ''/state''"
    "cont_path root EVENTS_FILE = root @ ''/events.log''"
    "cont_path root IDENTITY_FILE = root @ ''/identity''"
  using assms by (simp_all add: cont_root_def cont_path_def STATE_FILE_def EVENTS_FILE_def IDENTITY_FILE_def)

definition chain_lines :: "(string \<Rightarrow> string) \<Rightarrow> string list \<Rightarrow> string \<Rightarrow> bool" where
  "chain_lines H ls h \<longleftrightarrow>
     cc.verify_all H (1, GENESIS) (map (\<lambda>l. l @ [NL]) ls) = Some (1 + int (length ls), h)"

definition log_lines :: "cont_fs \<Rightarrow> string \<Rightarrow> string list \<Rightarrow> bool" where
  "log_lines s root ls \<longleftrightarrow>
     (case cf_files s (cont_path root EVENTS_FILE) of None \<Rightarrow> ls = [] | Some c \<Rightarrow> c = unlines ls)
     \<and> short_lines (LINE_SIZE - 1) ls"

definition state_head :: "cont_fs \<Rightarrow> string \<Rightarrow> string" where
  "state_head s root = (case cf_files s (cont_path root STATE_FILE) of
     None \<Rightarrow> GENESIS | Some c \<Rightarrow> head_hash_of (read_lines 255 c))"

definition not_dirs :: "cont_fs \<Rightarrow> string \<Rightarrow> bool" where
  "not_dirs s root \<longleftrightarrow> \<not> cf_dirs s (cont_path root STATE_FILE)
     \<and> \<not> cf_dirs s (cont_path root EVENTS_FILE) \<and> \<not> cf_dirs s (cont_path root IDENTITY_FILE)"

definition logged_event :: "string \<Rightarrow> string \<times> string \<times> string" where
  "logged_event l = (let fs = split_on BAR l in (fs ! 2, fs ! 3, fs ! 4))"

type_synonym cont_trace = "cont_fs \<times> (string \<times> string \<times> string) list"

definition cont_inv :: "(string \<Rightarrow> string) \<Rightarrow> string \<Rightarrow> cont_trace \<Rightarrow> bool" where
  \<comment> \<open>the log holds the sealed events \<open>snd sn\<close>, and the state file its head\<close>
  "cont_inv H root sn \<longleftrightarrow> not_dirs (fst sn) root \<and>
     (\<exists>ls. log_lines (fst sn) root ls \<and> map logged_event ls = snd sn \<and>
        chain_lines H ls (state_head (fst sn) root))"

lemma head_fresh: "head_hash_of (read_lines 255 fresh_state_text) = GENESIS"
proof -
  have "read_lines 255 fresh_state_text = map (\<lambda>l. l @ [NL]) [''continuum_version=1.0'',
      ''state=INITIALIZED'', ''sequence=0'', ''head_hash='' @ GENESIS]"
    unfolding fresh_state_text_def by (rule read_lines_unlines) (simp_all add: GENESIS_def)
  then show ?thesis by (simp add: GENESIS_def starts_with_def cut_eol_def)
qed

lemma head_active:
  assumes "length h = 64" and "clean_field h" and "n < 10 ^ 100"
  shows "head_hash_of (read_lines 255 (active_state_text n h)) = h"
proof -
  have n: "length (nat_str n) \<le> 100" by (rule nat_str_length_mono) (use assms in auto)
  have "read_lines 255 (active_state_text n h) = map (\<lambda>l. l @ [NL]) [''continuum_version=1.0'',
      ''state=ACTIVE'', ''sequence='' @ nat_str n, ''head_hash='' @ h]"
    unfolding active_state_text_def int_str_of_nat
    by (rule read_lines_unlines) (use n assms in \<open>auto simp: clean_field_def cstr_simps\<close>)
  moreover have "cut_eol (cstr (h @ [NL])) = h" using assms(2) by (intro cut_eol_nl) (auto simp: clean_field_def)
  ultimately show ?thesis using assms
    by (simp add: clean_field_def starts_with_def cstr_simps cut_eol_line)
qed


section \<open>Initialisation keeps the log\<close>

definition preserves :: "cont_fs \<Rightarrow> cont_fs \<Rightarrow> bool" where
  \<comment> \<open>no existing file is modified\<close>
  "preserves s t \<longleftrightarrow> (\<forall>p c. cf_files s p = Some c \<longrightarrow> cf_files t p = Some c)"

lemma preserves_refl [simp]: "preserves s s"
  by (simp add: preserves_def)

lemma preserves_trans: "preserves s t \<Longrightarrow> preserves t u \<Longrightarrow> preserves s u"
  by (auto simp: preserves_def)

lemma ensure_layout_files [simp]: "cf_files (snd (ensure_layout env root s)) = cf_files s"
  by (simp add: ensure_layout_def split: mkdir_result.split)

lemma ensure_layout_dirs: "p \<noteq> root \<Longrightarrow> cf_dirs (snd (ensure_layout env root s)) p = cf_dirs s p"
  by (simp add: ensure_layout_def split: mkdir_result.split)

lemma ensure_layout_not_dirs:
  "cont_root root \<Longrightarrow> not_dirs s root \<Longrightarrow> not_dirs (snd (ensure_layout env root s)) root"
  by (simp add: not_dirs_def cont_path_short ensure_layout_dirs)

lemma init_identity_file: "init_identity env root s = (case random_hex env 16 of
    None \<Rightarrow> (if path_exists s (cont_path root IDENTITY_FILE) then (0, s) else (-1, s))
  | Some ident \<Rightarrow> init_file env (cont_path root IDENTITY_FILE) (identity_text ident (ce_time env)) s)"
  by (simp add: init_identity_def init_file_def Let_def split: option.split)

lemma init_file_cases:
  obtains "init_file env p c s = (0, s)" "path_exists s p"
  | "init_file env p c s = (-1, s)" "cf_files s p = None"
  | "init_file env p c s = (0, put_file s p (stored env p c))" "cf_files s p = None"
  by (cases "path_exists s p"; cases "open_write env s p WriteMode")
    (auto simp: init_file_def path_exists_def)

lemma init_file_preserves: "preserves r s \<Longrightarrow> preserves r (snd (init_file env p c s))"
  by (cases rule: init_file_cases [of env p c s]) (auto simp: preserves_def put_file_def)

lemma init_identity_preserves: "preserves r s \<Longrightarrow> preserves r (snd (init_identity env root s))"
  by (auto simp: init_identity_file init_file_preserves split: option.split)

lemma init_file_dirs [simp]: "cf_dirs (snd (init_file env p c s)) = cf_dirs s"
  by (cases rule: init_file_cases [of env p c s]) (auto simp: put_file_def)

lemma init_identity_dirs [simp]: "cf_dirs (snd (init_identity env root s)) = cf_dirs s"
  by (auto simp: init_identity_file split: option.split)

lemma continuum_init_preserves: "preserves s (snd (continuum_init env root s))"
proof -
  have "preserves s (snd (ensure_layout env root s))" by (simp add: preserves_def)
  then show ?thesis
    unfolding continuum_init_def
    by (auto simp: Let_def split_beta intro!: init_identity_preserves init_file_preserves)
qed

lemma init_file_other: "q \<noteq> p \<Longrightarrow> cf_files (snd (init_file env p c s)) q = cf_files s q"
  by (cases rule: init_file_cases [of env p c s]) (auto simp: put_file_def)

lemma init_identity_other:
  "q \<noteq> cont_path root IDENTITY_FILE \<Longrightarrow> cf_files (snd (init_identity env root s)) q = cf_files s q"
  by (auto simp: init_identity_file init_file_other split: option.split)

lemma inv_files_cong:
  assumes "cont_inv H root (s, n)" and "not_dirs t root"
    and "cf_files t (cont_path root STATE_FILE) = cf_files s (cont_path root STATE_FILE)"
    and "cf_files t (cont_path root EVENTS_FILE) = cf_files s (cont_path root EVENTS_FILE)"
  shows "cont_inv H root (t, n)"
  using assms by (simp add: cont_inv_def log_lines_def state_head_def)

lemma inv_ensure_layout:
  "cont_root root \<Longrightarrow> cont_inv H root (s, n) \<Longrightarrow> cont_inv H root (snd (ensure_layout env root s), n)"
  by (rule inv_files_cong) (simp_all add: ensure_layout_not_dirs cont_inv_def)

lemma inv_init_identity:
  "cont_root root \<Longrightarrow> cont_inv H root (s, n) \<Longrightarrow> cont_inv H root (snd (init_identity env root s), n)"
  by (rule inv_files_cong) (simp_all add: init_identity_other cont_path_short cont_inv_def not_dirs_def)

lemma inv_init_state:
  assumes "cont_root root" and "cont_inv H root (s, n)" and "all_room env"
  shows "cont_inv H root (snd (init_file env (cont_path root STATE_FILE) fresh_state_text s), n)"
proof (cases rule: init_file_cases [of env "cont_path root STATE_FILE" fresh_state_text s])
  case 3
  let ?t = "put_file s (cont_path root STATE_FILE) fresh_state_text"
  have "state_head ?t root = state_head s root"
    using 3 by (simp add: state_head_def put_file_def head_fresh)
  moreover have "log_lines ?t root = log_lines s root"
    using assms(1) by (auto simp: log_lines_def put_file_def cont_path_short)
  moreover have "not_dirs ?t root = not_dirs s root" by (simp add: not_dirs_def put_file_def)
  ultimately have "cont_inv H root (?t, n)" using assms(2) by (simp add: cont_inv_def)
  with 3 assms(3) show ?thesis by simp
qed (use assms in auto)

lemma inv_init_events:
  assumes "cont_root root" and "cont_inv H root (s, n)"
  shows "cont_inv H root (snd (init_file env (cont_path root EVENTS_FILE) [] s), n)"
proof (cases rule: init_file_cases [of env "cont_path root EVENTS_FILE" "[]" s])
  case 3
  let ?t = "put_file s (cont_path root EVENTS_FILE) []"
  have "state_head ?t root = state_head s root"
    using assms(1) by (simp add: state_head_def put_file_def cont_path_short)
  moreover have "log_lines s root ls \<Longrightarrow> log_lines ?t root ls" for ls
    using 3 by (auto simp: log_lines_def put_file_def)
  moreover have "not_dirs ?t root = not_dirs s root" by (simp add: not_dirs_def put_file_def)
  ultimately have "cont_inv H root (?t, n)" using assms(2) by (auto simp: cont_inv_def)
  with 3 show ?thesis by simp
qed (use assms in auto)

lemma inv_continuum_init:
  "cont_root root \<Longrightarrow> all_room env \<Longrightarrow> cont_inv H root (s, n) \<Longrightarrow> cont_inv H root (snd (continuum_init env root s), n)"
  unfolding continuum_init_def
  by (auto simp: Let_def split_beta intro!: inv_init_events inv_init_state inv_init_identity inv_ensure_layout)

lemma continuum_init_present:
  assumes "cont_root root" and "not_dirs s root" and "continuum_init env root s = (0, t)"
  shows "cf_files t (cont_path root STATE_FILE) \<noteq> None" "cf_files t (cont_path root EVENTS_FILE) \<noteq> None"
    "cf_files t (cont_path root IDENTITY_FILE) \<noteq> None" "not_dirs t root"
proof -
  have created: "cf_files (snd (init_file env p c u)) p \<noteq> None"
    if "\<not> cf_dirs u p" "\<not> fst (init_file env p c u) < 0" for p c u
    using that by (auto simp: init_file_def put_file_def path_exists_def split: if_splits)
  define u where "u = snd (ensure_layout env root s)"
  define v where "v = snd (init_identity env root u)"
  define w where "w = snd (init_file env (cont_path root STATE_FILE) fresh_state_text v)"
  have r: "\<not> fst (init_identity env root u) < 0"
      "\<not> fst (init_file env (cont_path root STATE_FILE) fresh_state_text v) < 0"
      "init_file env (cont_path root EVENTS_FILE) [] w = (0, t)"
    using assms(3) by (auto simp: continuum_init_def Let_def split_beta u_def v_def w_def split: if_splits)
  have u: "not_dirs u root" unfolding u_def by (rule ensure_layout_not_dirs) (use assms in auto)
  have v: "not_dirs v root" using u by (simp add: v_def not_dirs_def)
  have w: "not_dirs w root" using v by (simp add: w_def not_dirs_def)
  have t: "t = snd (init_file env (cont_path root EVENTS_FILE) [] w)" using r(3) by simp
  show "not_dirs t root" using w by (simp add: t not_dirs_def)
  show "cf_files t (cont_path root EVENTS_FILE) \<noteq> None"
    unfolding t by (rule created) (use w r in \<open>auto simp: not_dirs_def\<close>)
  have "cf_files w (cont_path root STATE_FILE) \<noteq> None"
    unfolding w_def by (rule created) (use v r in \<open>auto simp: not_dirs_def\<close>)
  then show "cf_files t (cont_path root STATE_FILE) \<noteq> None"
    using assms(1) by (simp add: t init_file_other cont_path_short)
  have "cf_files v (cont_path root IDENTITY_FILE) \<noteq> None"
    using r(1) u created [of u "cont_path root IDENTITY_FILE"]
    by (auto simp: v_def init_identity_file not_dirs_def path_exists_def split: option.splits if_splits)
  then show "cf_files t (cont_path root IDENTITY_FILE) \<noteq> None"
    using assms(1) by (simp add: t w_def init_file_other cont_path_short)
qed


section \<open>Recording an event\<close>

lemma state_head_read: "ce_open env (cont_path root STATE_FILE) ReadMode \<Longrightarrow> read_state_hash env s root = state_head s root"
  by (simp add: read_state_hash_def open_read_def state_head_def)

lemma count_log_lines:
  "log_lines s root ls \<Longrightarrow> ce_open env (cont_path root EVENTS_FILE) ReadMode \<Longrightarrow> count_events env s root = length ls"
  by (auto simp: count_events_def open_read_def log_lines_def read_lines_unlines split: option.splits)

lemma now_iso_clean: "now_iso env = Some ts \<Longrightarrow> clean_field ts \<and> length ts < 64"
  by (auto simp: now_iso_def strftime_buf_Some clean_field_def fmt_iso_free split: option.splits)

definition hash32 :: "(string \<Rightarrow> string) \<Rightarrow> bool" where
  \<comment> \<open>SHA-256 yields 32 bytes\<close>
  "hash32 H \<longleftrightarrow> (\<forall>x. length (H x) = 32)"

lemma length_event_line:
  "length (event_line H n ts ty ac de ph) = length (nat_str n) + length ts + length ty + length ac
     + length de + length ph + 2 * length (H (event_canonical n ts ty ac de ph)) + 6"
  by (simp add: event_line_def cont_sha256_hex_def)

lemma chain_lines_snoc:
  assumes "chain_lines H ls h" and "event_fit H (1 + int (length ls), h) (ts, ty, ac, de)"
  shows "chain_lines H (ls @ [event_line H (Suc (length ls)) ts ty ac de h])
    (cont_sha256_hex H (event_canonical (Suc (length ls)) ts ty ac de h))"
  using cc.verify_extend [OF assms(1) [unfolded chain_lines_def] assms(2)]
  by (simp add: chain_lines_def event_seal_def event_hash_def nat_add_distrib)

lemma chain_lines_hash:
  assumes "chain_lines H ls h" and "hash32 H"
  shows "clean_field h" and "length h \<le> 64" and "ls \<noteq> [] \<Longrightarrow> length h = 64" and "ls = [] \<Longrightarrow> h = GENESIS"
proof -
  show "clean_field h"
    using cont_verify_clean [OF assms(1) [unfolded chain_lines_def]] by simp
  have "length h = 64" if "ls \<noteq> []"
  proof -
    from that obtain ms l where ls: "ls = ms @ [l]" by (cases ls rule: rev_cases) simp_all
    from assms(1) obtain st where "cont_chk H st (l @ [NL]) = Some (1 + int (length ls), h)"
      by (auto simp: chain_lines_def ls cc.verify_snoc_iff)
    from cont_chk_Some(4) [OF this] assms(2) show ?thesis by (simp add: hash32_def)
  qed
  moreover show "h = GENESIS" if "ls = []" using assms(1) that by (simp add: chain_lines_def)
  ultimately show "length h \<le> 64" "ls \<noteq> [] \<Longrightarrow> length h = 64"
    by (cases "ls = []", auto simp: GENESIS_def)
qed

lemma continuum_event_cases:
  obtains (rejected) "continuum_event H env root ty ac de s = (-1, s)"
  | (init_only) "continuum_event H env root ty ac de s = (-1, snd (continuum_init env root s))"
  | (logged) t ts where "continuum_init env root s = (0, t)" "valid_field ty" "valid_field ac" "valid_field de"
      "now_iso env = Some ts" "open_write env t (cont_path root EVENTS_FILE) AppendMode"
proof -
  have r: "fst (continuum_init env root s) < 0 \<or> fst (continuum_init env root s) = 0"
    by (auto simp: continuum_init_def init_file_def Let_def split_beta)
  obtain r t where rt: "continuum_init env root s = (r, t)" by (cases "continuum_init env root s")
  show thesis
  proof (cases "valid_field ty \<and> valid_field ac \<and> valid_field de")
    case False
    then show thesis by (intro rejected) (auto simp: continuum_event_def)
  next
    case v: True
    show thesis
    proof (cases "r = 0 \<and> now_iso env \<noteq> None \<and> open_write env t (cont_path root EVENTS_FILE) AppendMode")
      case True
      with v rt show thesis by (auto intro: logged)
    next
      case False
      with v r rt show thesis
        by (intro init_only) (auto simp: continuum_event_def Let_def split: option.splits)
    qed
  qed
qed

lemma continuum_event_logged:
  assumes "continuum_init env root s = (0, t)" "valid_field ty" "valid_field ac" "valid_field de"
    "now_iso env = Some ts" "open_write env t (cont_path root EVENTS_FILE) AppendMode"
    and ls: "log_lines t root ls" and h: "state_head t root = h"
    and rd: "ce_open env (cont_path root EVENTS_FILE) ReadMode" "ce_open env (cont_path root STATE_FILE) ReadMode"
    and ne: "cf_files t (cont_path root EVENTS_FILE) \<noteq> None" and room: "all_room env"
  shows "continuum_event H env root ty ac de s =
    (let n = Suc (length ls); l = event_line H n ts ty ac de h;
         u = put_file t (cont_path root EVENTS_FILE) (unlines (ls @ [l])) in
     if open_write env u (cont_path root STATE_FILE) WriteMode
     then (0, put_file u (cont_path root STATE_FILE)
            (active_state_text n (cont_sha256_hex H (event_canonical n ts ty ac de h))))
     else (-1, u))"
proof -
  have "cf_files t (cont_path root EVENTS_FILE) = Some (unlines ls)"
    using ls ne by (auto simp: log_lines_def split: option.splits)
  with assms show ?thesis
    by (simp add: continuum_event_def Let_def count_log_lines state_head_read)
qed


section \<open>Runs of events\<close>

type_synonym cont_op = "cont_env \<times> string \<times> string \<times> string"

definition cont_admissible :: "cont_op \<Rightarrow> bool" where
  \<comment> \<open>every file can be opened, all that is written reaches it, and the line fits the reader's buffer\<close>
  "cont_admissible e \<longleftrightarrow> (case e of (env, ty, ac, de) \<Rightarrow> (\<forall>p m. ce_open env p m) \<and> all_room env \<and>
     NUL \<notin> set ty \<and> NUL \<notin> set ac \<and> NUL \<notin> set de \<and> length ty + length ac + length de \<le> 7900)"

definition cont_step ::
  "(string \<Rightarrow> string) \<Rightarrow> string \<Rightarrow> cont_trace \<Rightarrow> cont_op \<Rightarrow> cont_trace" where
  \<comment> \<open>one call of \<open>continuum_event\<close>; the second component collects the events of the calls
    that returned 0\<close>
  "cont_step H root sn e = (case e of (env, ty, ac, de) \<Rightarrow>
     (let (r, t) = continuum_event H env root ty ac de (fst sn) in
      (t, if r = 0 then snd sn @ [(ty, ac, de)] else snd sn)))"

lemma event_fit_fields:
  assumes c: "clean_field ts" "clean_field ty" "clean_field ac" "clean_field de"
    and len: "length ts < 64" "length ty + length ac + length de \<le> 7900"
    and H: "hash32 H" and ch: "chain_lines H ls h" and n: "Suc (length ls) < 2 ^ 31"
  shows "event_fit H (1 + int (length ls), h) (ts, ty, ac, de)"
    and "length (event_line H (Suc (length ls)) ts ty ac de h) < 8191"
    and "clean_field h"
proof -
  note h = chain_lines_hash [OF ch H]
  have "length (nat_str (Suc (length ls))) \<le> 10"
    by (rule nat_str_length_mono) (use n in simp_all)
  with len H h(2) show l: "length (event_line H (Suc (length ls)) ts ty ac de h) < 8191"
    by (simp add: length_event_line hash32_def)
  from h(1) show "clean_field h" .
  from c h(1) l H n show "event_fit H (1 + int (length ls), h) (ts, ty, ac, de)"
    by (simp add: event_fit_def event_hash_def cont_sha256_hex_def hash32_def nat_add_distrib)
qed

lemma event_fit_admissible:
  assumes "cont_admissible (env, ty, ac, de)" and "valid_field ty" "valid_field ac" "valid_field de"
    and "now_iso env = Some ts" and "hash32 H" and "chain_lines H ls h" and "Suc (length ls) < 2 ^ 31"
  shows "event_fit H (1 + int (length ls), h) (ts, ty, ac, de)"
    and "length (event_line H (Suc (length ls)) ts ty ac de h) < 8191"
    and "clean_field h \<and> clean_field ts \<and> clean_field ty \<and> clean_field ac \<and> clean_field de"
proof -
  have c: "clean_field ty" "clean_field ac" "clean_field de"
    using assms(1-4) by (simp_all add: cont_admissible_def valid_field_def clean_field_def)
  have ts: "clean_field ts" "length ts < 64" using now_iso_clean [OF assms(5)] by simp_all
  have "length ty + length ac + length de \<le> 7900" using assms(1) by (simp add: cont_admissible_def)
  note fit = event_fit_fields [OF ts(1) c ts(2) this assms(6-8)]
  from fit c ts show "event_fit H (1 + int (length ls), h) (ts, ty, ac, de)"
    "length (event_line H (Suc (length ls)) ts ty ac de h) < 8191"
    "clean_field h \<and> clean_field ts \<and> clean_field ty \<and> clean_field ac \<and> clean_field de"
    by simp_all
qed

lemma log_lines_written:
  assumes "cont_root root" and "short_lines 8191 ls"
  shows "log_lines (put_file (put_file t (cont_path root EVENTS_FILE) (unlines ls)) (cont_path root STATE_FILE) c) root ls"
    and "log_lines (put_file t (cont_path root EVENTS_FILE) (unlines ls)) root ls"
  using assms by (simp_all add: log_lines_def put_file_def cont_path_short LINE_SIZE_def)

lemma cont_step_inv:
  assumes root: "cont_root root" and H: "hash32 H" and adm: "cont_admissible e"
    and inv: "cont_inv H root sn" and small: "length (snd sn) < 2 ^ 31 - 1"
  shows "cont_inv H root (cont_step H root sn e)"
proof -
  obtain env ty ac de where e: "e = (env, ty, ac, de)" by (cases e) auto
  obtain s n where sn: "sn = (s, n)" by (cases sn)
  have room: "all_room env" using adm e by (simp add: cont_admissible_def)
  have init: "cont_inv H root (snd (continuum_init env root s), n)"
    using root inv sn room by (simp add: inv_continuum_init)
  show ?thesis
  proof (cases rule: continuum_event_cases [of H env root ty ac de s])
    case rejected
    with inv e sn show ?thesis by (simp add: cont_step_def)
  next
    case init_only
    with init e sn show ?thesis by (simp add: cont_step_def)
  next
    case (logged t ts)
    from init logged(1) have it: "cont_inv H root (t, n)" by simp
    have nd: "not_dirs s root" using inv sn by (simp add: cont_inv_def)
    note pres = continuum_init_present [OF root nd logged(1)]
    from it small sn obtain ls where ls: "log_lines t root ls" "map logged_event ls = n"
      and ch: "chain_lines H ls (state_head t root)"
      by (auto simp: cont_inv_def)
    define h where "h = state_head t root"
    define l where "l = event_line H (Suc (length ls)) ts ty ac de h"
    define k where "k = cont_sha256_hex H (event_canonical (Suc (length ls)) ts ty ac de h)"
    define u where "u = put_file t (cont_path root EVENTS_FILE) (unlines (ls @ [l]))"
    define w where "w = put_file u (cont_path root STATE_FILE) (active_state_text (Suc (length ls)) k)"
    from adm e have open_all: "ce_open env p m" for p m by (simp add: cont_admissible_def)
    have ev: "continuum_event H env root ty ac de s = (0, w)"
      using continuum_event_logged [where H = H, OF logged ls(1) refl open_all open_all pres(2) room] pres(4) open_all
      by (simp add: Let_def h_def l_def k_def u_def w_def open_write_def put_file_def not_dirs_def)
    have n: "Suc (length ls) < 2 ^ 31" using small sn ls(2) by auto
    note fit = event_fit_admissible [OF adm [unfolded e] logged(2-5) H ch n]
    have chl: "chain_lines H (ls @ [l]) k"
      using chain_lines_snoc [OF ch fit(1)] by (simp add: l_def k_def h_def)
    have "NL \<notin> set l" using fit(3) by (simp add: l_def h_def event_line_clean)
    then have short: "short_lines 8191 (ls @ [l])"
      using ls(1) fit(2) by (simp add: log_lines_def LINE_SIZE_def l_def h_def)
    have k: "length k = 64" "clean_field k" using H by (simp_all add: k_def cont_sha256_hex_def hash32_def)
    have "head_hash_of (read_lines 255 (active_state_text (Suc (length ls)) k)) = k"
      by (rule head_active [OF k]) (use n in simp)
    then have "state_head w root = k" by (simp add: state_head_def w_def put_file_def)
    moreover have "not_dirs w root" using pres(4) by (simp add: not_dirs_def w_def u_def put_file_def)
    moreover have "log_lines w root (ls @ [l])"
      unfolding w_def u_def by (rule log_lines_written(1) [OF root short])
    moreover have "logged_event l = (ty, ac, de)"
      using fit(3) by (simp add: logged_event_def l_def h_def split_event_line)
    ultimately have "cont_inv H root (w, n @ [(ty, ac, de)])"
      using chl ls(2) unfolding cont_inv_def by (auto intro!: exI [of _ "ls @ [l]"])
    with ev e sn show ?thesis by (simp add: cont_step_def)
  qed
qed


definition cont_ok :: "(string \<Rightarrow> string) \<Rightarrow> string \<Rightarrow> cont_trace \<Rightarrow> bool" where
  \<comment> \<open>sequence numbers are read back with \<open>atoi\<close>: the bound keeps them in an \<open>int\<close>\<close>
  "cont_ok H root sn \<longleftrightarrow> cont_root root \<and> hash32 H \<and>
     (length (snd sn) < 2 ^ 31 - 1 \<longrightarrow> cont_inv H root sn)"

lemma cont_step_counts: "length (snd sn) \<le> length (snd (cont_step H root sn e))"
  by (simp add: cont_step_def split_beta Let_def)

lemma cont_step_ok: "cont_admissible e \<Longrightarrow> cont_ok H root sn \<Longrightarrow> cont_ok H root (cont_step H root sn e)"
  using cont_step_counts [of sn H root e] by (auto simp: cont_ok_def intro: cont_step_inv)

interpretation cm: invariant_machine "cont_step H root" "cont_ok H root" cont_admissible for H root
  by unfold_locales (rule cont_step_ok)


lemma verify_log_lines:
  assumes "log_lines s root ls" and "cf_files s (cont_path root EVENTS_FILE) \<noteq> None"
    and "ce_open env (cont_path root EVENTS_FILE) ReadMode"
  shows "continuum_verify H env root s = verify_loop H (1, GENESIS) 0 (map (\<lambda>l. l @ [NL]) ls)"
  using assms by (auto simp: continuum_verify_def open_read_def log_lines_def read_lines_unlines)

lemma short_lines_size: "short_lines (LINE_SIZE - 1) ls \<Longrightarrow> \<forall>raw \<in> set (map (\<lambda>l. l @ [NL]) ls). length raw < LINE_SIZE"
  by (auto simp: short_lines_def LINE_SIZE_def)

lemma verify_chain_lines:
  assumes "log_lines s root ls" and "cf_files s (cont_path root EVENTS_FILE) \<noteq> None"
    and "ce_open env (cont_path root EVENTS_FILE) ReadMode" and "chain_lines H ls h"
  shows "continuum_verify H env root s = Verified (length ls) h"
proof -
  have "\<forall>raw \<in> set (map (\<lambda>l. l @ [NL]) ls). length raw < LINE_SIZE"
    by (rule short_lines_size) (use assms(1) in \<open>simp add: log_lines_def\<close>)
  with assms(4) have "verify_loop H (1, GENESIS) 0 (map (\<lambda>l. l @ [NL]) ls) = Verified (length ls) h"
    by (simp add: verify_loop_Verified chain_lines_def)
  with verify_log_lines [OF assms(1-3)] show ?thesis by simp
qed

lemma verified_iff:
  assumes "open_read env s (cont_path root EVENTS_FILE) = Some c"
  shows "continuum_verify H env root s = Verified n h \<longleftrightarrow> n = length (read_lines (LINE_SIZE - 1) c) \<and>
    (\<exists>k. cc.verify_all H (1, GENESIS) (read_lines (LINE_SIZE - 1) c) = Some (k, h))"
proof -
  have "\<forall>raw \<in> set (read_lines (LINE_SIZE - 1) c). length raw < LINE_SIZE"
    using read_lines_size by blast
  from verify_loop_Verified [OF this, of H "(1, GENESIS)" 0 n h] assms show ?thesis
    by (simp add: continuum_verify_def)
qed

definition cont_blank :: "string \<Rightarrow> cont_fs \<Rightarrow> bool" where
  \<comment> \<open>nothing of the log exists yet\<close>
  "cont_blank root s \<longleftrightarrow> not_dirs s root \<and> cf_files s (cont_path root STATE_FILE) = None \<and>
     cf_files s (cont_path root EVENTS_FILE) = None"

lemma cont_blank_inv: "cont_blank root s \<Longrightarrow> cont_inv H root (s, [])"
  by (auto simp: cont_blank_def cont_inv_def log_lines_def state_head_def chain_lines_def)

text \<open>C4: Starting from nothing under a non-empty root of less than 1000 bytes, after any sequence of \<open>continuum_event\<close> calls
  whose files can be opened, whose writes reach the disk and whose lines fit the reader's buffer (calls with invalid fields,
  a failing clock, random source or mkdir included), as long as fewer than 2147483647 events are recorded, the log holds
  exactly the events of the calls that returned 0, in order, \<open>continuum_verify\<close> accepts it with their number, and the head it
  reports is the one the state file holds. (The code does not look at the results of its writes: see
  \<open>continuum_unwritten_event\<close>.)\<close>

theorem continuum_runs_verify:
  assumes "cont_root root" and "hash32 H" and "cont_blank root s"
    and "list_all cont_admissible es"
    and "foldl (cont_step H root) (s, []) es = (t, evs)" and "length evs < 2 ^ 31 - 1"
    and "ce_open env (cont_path root EVENTS_FILE) ReadMode"
  shows "\<exists>ls. log_lines t root ls \<and> map logged_event ls = evs \<and>
    (continuum_verify H env root t = Verified (length evs) (state_head t root)
      \<or> (evs = [] \<and> continuum_verify H env root t = VerifyEmpty))"
proof -
  have "cont_ok H root (s, [])" using assms(1-3) by (simp add: cont_ok_def cont_blank_inv)
  from cm.run_inv [OF assms(4) this] assms(5,6) have "cont_inv H root (t, evs)"
    by (simp add: cont_ok_def)
  then obtain ls where ls: "log_lines t root ls" "map logged_event ls = evs"
    "chain_lines H ls (state_head t root)" "length ls = length evs"
    by (auto simp: cont_inv_def)
  show ?thesis
  proof (cases "cf_files t (cont_path root EVENTS_FILE)")
    case None
    with ls show ?thesis by (auto simp: log_lines_def continuum_verify_def open_read_def)
  next
    case (Some c)
    with ls assms(7) show ?thesis by (auto simp: verify_chain_lines)
  qed
qed

definition demo_env :: cont_env where
  "demo_env = \<lparr>ce_open = \<lambda>_ _. True, ce_room = \<lambda>_. None, ce_mkdir = MkdirOk, ce_random = Some (replicate 16 (CHR ''R'')),
     ce_time = 7, ce_tm = Some \<lparr>tm_year = 2026, tm_mon = 1, tm_mday = 2, tm_hour = 3, tm_min = 4,
       tm_sec = 5, tm_gmtoff = 0\<rparr>\<rparr>"

definition demo_fs :: cont_fs where
  "demo_fs = \<lparr>cf_files = \<lambda>_. None, cf_dirs = \<lambda>_. False\<rparr>"

definition demo_H :: "string \<Rightarrow> string" where
  \<comment> \<open>a stand-in for the digest that depends on its input\<close>
  "demo_H x = take 32 (rev x @ replicate 32 (CHR ''z''))"

lemma demo_H_32: "hash32 demo_H"
  by (auto simp: hash32_def demo_H_def min_def)

lemma demo_setting: "cont_root ''r''" "cont_blank ''r'' demo_fs" "ce_open demo_env p m"
  "cont_admissible (demo_env, ''A'', ''b'', ''c'')"
  by (simp_all add: cont_root_def cont_blank_def not_dirs_def demo_fs_def demo_env_def cont_admissible_def all_room_def)

lemma demo_run:
  obtains t evs where "foldl (cont_step demo_H ''r'') (demo_fs, []) [(demo_env, ''A'', ''b'', ''c'')] = (t, evs)"
    "length evs \<le> 1"
  by (cases "foldl (cont_step demo_H ''r'') (demo_fs, []) [(demo_env, ''A'', ''b'', ''c'')]")
    (auto simp: cont_step_def split_beta Let_def split: if_splits)

theorem continuum_runs_verify_witness:
  "let (t, evs) = foldl (cont_step demo_H ''r'') (demo_fs, []) [(demo_env, ''A'', ''b'', ''c'')] in
   \<exists>ls. log_lines t ''r'' ls \<and> map logged_event ls = evs \<and>
    (continuum_verify demo_H demo_env ''r'' t = Verified (length evs) (state_head t ''r'')
      \<or> (evs = [] \<and> continuum_verify demo_H demo_env ''r'' t = VerifyEmpty))"
proof (rule demo_run)
  fix t and evs :: "(string \<times> string \<times> string) list"
  assume run: "foldl (cont_step demo_H ''r'') (demo_fs, []) [(demo_env, ''A'', ''b'', ''c'')] = (t, evs)"
    and len: "length evs \<le> 1"
  have "\<exists>ls. log_lines t ''r'' ls \<and> map logged_event ls = evs \<and>
    (continuum_verify demo_H demo_env ''r'' t = Verified (length evs) (state_head t ''r'')
      \<or> (evs = [] \<and> continuum_verify demo_H demo_env ''r'' t = VerifyEmpty))"
    by (rule continuum_runs_verify [OF demo_setting(1) demo_H_32 demo_setting(2) _ run _ demo_setting(3)])
      (use len demo_setting(4) in simp_all)
  with run show ?thesis by simp
qed

text \<open>C5: Tamper evidence: two event logs that \<open>continuum_verify\<close> accepts with the same count and
  the same head hash have the same hashed fields in every line (sequence number, time, type, actor,
  details and previous hash), unless two lines at the same position are a SHA-256 collision: their hashed
  texts differ and have the same digest. Altering a log thus needs an explicit collision.\<close>

theorem continuum_tamper_evident:
  assumes "open_read env s (cont_path root EVENTS_FILE) = Some c"
    and "open_read env' s' (cont_path root' EVENTS_FILE) = Some c'"
    and "continuum_verify H env root s = Verified n h"
    and "continuum_verify H env' root' s' = Verified n h"
  shows "map fields6 (read_lines (LINE_SIZE - 1) c) = map fields6 (read_lines (LINE_SIZE - 1) c')
    \<or> (\<exists>i < n. event_clash H (read_lines (LINE_SIZE - 1) c ! i) (read_lines (LINE_SIZE - 1) c' ! i))"
proof -
  obtain k k' where k: "cc.verify_all H (1, GENESIS) (read_lines (LINE_SIZE - 1) c) = Some (k, h)"
      "cc.verify_all H (1, GENESIS) (read_lines (LINE_SIZE - 1) c') = Some (k', h)"
    and n: "n = length (read_lines (LINE_SIZE - 1) c)" "n = length (read_lines (LINE_SIZE - 1) c')"
    using assms(3,4) by (auto simp: verified_iff [OF assms(1)] verified_iff [OF assms(2)])
  have "k = k'" using cont_verify_count [OF k(1)] cont_verify_count [OF k(2)] n by simp
  with cc.verify_binds [OF _ k(1), of "read_lines (LINE_SIZE - 1) c'"] k(2) n show ?thesis by simp
qed

lemma demo_chain: "chain_lines demo_H [event_line demo_H 1 ''t'' ''A'' ''b'' ''c'' GENESIS]
    (cont_sha256_hex demo_H (event_canonical 1 ''t'' ''A'' ''b'' ''c'' GENESIS))"
proof -
  have "chain_lines demo_H [] GENESIS" by (simp add: chain_lines_def)
  from chain_lines_snoc [OF this, of "''t''" "''A''" "''b''" "''c''"] show ?thesis
    using demo_H_32
    by (simp add: event_fit_def event_hash_def cont_sha256_hex_def hash32_def clean_field_def
        length_event_line nat_str.simps GENESIS_def)
qed

definition demo_log :: cont_fs where
  "demo_log = put_file demo_fs (cont_path ''r'' EVENTS_FILE)
     (unlines [event_line demo_H 1 ''t'' ''A'' ''b'' ''c'' GENESIS])"

lemma demo_log_verified: "continuum_verify demo_H demo_env ''r'' demo_log
    = Verified 1 (cont_sha256_hex demo_H (event_canonical 1 ''t'' ''A'' ''b'' ''c'' GENESIS))"
proof -
  have "short_lines (LINE_SIZE - 1) [event_line demo_H 1 ''t'' ''A'' ''b'' ''c'' GENESIS]"
    using demo_H_32
    by (simp add: LINE_SIZE_def length_event_line hash32_def nat_str.simps GENESIS_def
        event_line_clean clean_field_def)
  then have "log_lines demo_log ''r'' [event_line demo_H 1 ''t'' ''A'' ''b'' ''c'' GENESIS]"
    by (simp add: log_lines_def demo_log_def put_file_def)
  from verify_chain_lines [OF this _ demo_setting(3) demo_chain] show ?thesis
    by (simp add: demo_log_def put_file_def)
qed

theorem continuum_tamper_evident_witness:
  "\<exists>c. open_read demo_env demo_log (cont_path ''r'' EVENTS_FILE) = Some c \<and>
    (map fields6 (read_lines (LINE_SIZE - 1) c) = map fields6 (read_lines (LINE_SIZE - 1) c)
      \<or> (\<exists>i < 1. event_clash demo_H (read_lines (LINE_SIZE - 1) c ! i) (read_lines (LINE_SIZE - 1) c ! i)))"
proof -
  have o: "open_read demo_env demo_log (cont_path ''r'' EVENTS_FILE)
      = Some (unlines [event_line demo_H 1 ''t'' ''A'' ''b'' ''c'' GENESIS])"
    by (simp add: open_read_def demo_env_def demo_log_def put_file_def)
  from continuum_tamper_evident [OF o o demo_log_verified demo_log_verified] o show ?thesis by blast
qed


text \<open>A log holding several lines is verified line after line.\<close>

lemma verify_loop_append:
  assumes "\<forall>raw \<in> set raws. length raw < LINE_SIZE" and "cc.verify_all H st raws = Some st'"
  shows "verify_loop H st n (raws @ rest) = verify_loop H st' (n + length raws) rest"
  using assms
proof (induction raws arbitrary: st n)
  case (Cons raw raws)
  from Cons.prems obtain k where k: "cont_chk H st raw = Some k" "cc.verify_all H k raws = Some st'"
    by (auto split: option.splits)
  from k(1) have "cont_check H st raw = Inr k" by (auto simp: cont_chk_def split: if_splits sum.splits)
  with Cons.IH [OF _ k(2), of "Suc n"] Cons.prems show ?case by simp
qed simp

lemma verify_after_chain:
  assumes "log_lines s root ls" and "chain_lines H ls h"
    and "open_read env t (cont_path root EVENTS_FILE) = Some (unlines ls @ c)"
  shows "continuum_verify H env root t
    = verify_loop H (1 + int (length ls), h) (length ls) (read_lines (LINE_SIZE - 1) c)"
proof -
  have sh: "short_lines (LINE_SIZE - 1) ls" using assms(1) by (simp add: log_lines_def)
  have "verify_loop H (1, GENESIS) 0 (map (\<lambda>l. l @ [NL]) ls @ read_lines (LINE_SIZE - 1) c)
      = verify_loop H (1 + int (length ls), h) (0 + length (map (\<lambda>l. l @ [NL]) ls)) (read_lines (LINE_SIZE - 1) c)"
    by (rule verify_loop_append [OF short_lines_size [OF sh] assms(2) [unfolded chain_lines_def]])
  with assms(3) show ?thesis
    by (simp only: continuum_verify_def read_lines_unlines_append [OF sh] option.case length_map add_0)
qed

lemma length_split_on: "length (split_on d s) = Suc (count_list s d)"
  by (induction s) (auto split: list.splits)

lemma count_list_take_le: "count_list (take n s) d \<le> count_list s d"
proof (induction s arbitrary: n)
  case (Cons c s)
  show ?case
  proof (cases n)
    case (Suc m)
    with Cons [of m] show ?thesis by simp
  qed simp
qed simp

lemma count_list_free: "d \<notin> set s \<Longrightarrow> count_list s d = 0"
  by (induction s) auto

lemma event_writes:
  assumes "cont_root root" and "cont_inv H root (s, evs)" and "continuum_init env root s = (0, t)"
    and "valid_field ty" "valid_field ac" "valid_field de" and "now_iso env = Some ts"
    and "ce_open env (cont_path root EVENTS_FILE) AppendMode"
    and "ce_open env (cont_path root EVENTS_FILE) ReadMode"
    and "ce_open env (cont_path root STATE_FILE) ReadMode" and "all_room env"
  obtains ls h l where "log_lines t root ls" "chain_lines H ls h" "length ls = length evs" "h = state_head t root"
    "l = event_line H (Suc (length ls)) ts ty ac de h" "not_dirs t root"
    "continuum_event H env root ty ac de s =
       (let u = put_file t (cont_path root EVENTS_FILE) (unlines (ls @ [l])) in
        if ce_open env (cont_path root STATE_FILE) WriteMode
        then (0, put_file u (cont_path root STATE_FILE) (active_state_text (Suc (length ls))
               (cont_sha256_hex H (event_canonical (Suc (length ls)) ts ty ac de h))))
        else (-1, u))"
proof -
  have "cont_inv H root (t, evs)" using inv_continuum_init [OF assms(1,11,2)] assms(3) by simp
  then obtain ls where ls: "log_lines t root ls" "map logged_event ls = evs" "chain_lines H ls (state_head t root)"
    by (auto simp: cont_inv_def)
  have "not_dirs s root" using assms(2) by (simp add: cont_inv_def)
  note pres = continuum_init_present [OF assms(1) this assms(3)]
  have "open_write env t (cont_path root EVENTS_FILE) AppendMode"
    using assms(8) pres(4) by (simp add: open_write_def not_dirs_def)
  from continuum_event_logged [where H = H, OF assms(3-7) this ls(1) refl assms(9,10) pres(2) assms(11)]
  show thesis using pres(4) ls
    by (intro that [of ls "state_head t root"])
      (auto simp: Let_def open_write_def put_file_def not_dirs_def)
qed

lemma take_prefix: "m \<le> length p \<Longrightarrow> take m (p @ q) = take m p"
  by simp

lemma first_chunk_long:
  assumes "NL \<notin> set l" and "m \<le> length l" and "0 < m"
  shows "\<exists>r. read_lines m (l @ s) = take m l # r"
proof -
  have "takeWhile (\<lambda>c. c \<noteq> NL) l = l" using assms(1) by (intro takeWhile_all) auto
  then have "length l \<le> length (takeWhile (\<lambda>c. c \<noteq> NL) (l @ s))"
    using length_takeWhile_append_le [of "\<lambda>c. c \<noteq> NL" l s] by simp
  then have "fgets_len m (l @ s) = m" using assms(2) by (simp add: fgets_len_def)
  then have "fgets_take m (l @ s) = take m l" using assms(2) by (simp add: fgets_take_def)
  moreover have "l @ s \<noteq> []" using assms(2,3) by auto
  ultimately show ?thesis using assms(3) by (subst read_lines.simps) simp
qed

lemma long_line_invalid:
  assumes "clean_field ts" "clean_field ty" "clean_field ac" "clean_field de" "clean_field h"
    and "LINE_SIZE \<le> length de"
  shows "verify_loop H st n (read_lines (LINE_SIZE - 1) (event_line H k ts ty ac de h @ [NL])) = InvalidEventFormat"
proof -
  let ?l = "event_line H k ts ty ac de h"
  let ?p = "join BAR [nat_str k, ts, ty, ac, de]"
  have "LINE_SIZE - 1 \<le> length ?p" using assms(6) by simp
  from take_prefix [OF this] have "take (LINE_SIZE - 1) (?p @ q) = take (LINE_SIZE - 1) ?p" for q .
  moreover have "\<exists>q. ?l = ?p @ q" by (simp add: event_line_def)
  ultimately have tk: "take (LINE_SIZE - 1) ?l = take (LINE_SIZE - 1) ?p" by metis
  have cl: "NL \<notin> set ?l" "CR \<notin> set ?l" "NUL \<notin> set ?l"
    using event_line_clean [OF assms(1-5)] by simp_all
  have "LINE_SIZE - 1 \<le> length ?l" using assms(6) by (simp add: length_event_line)
  then obtain r where r: "read_lines (LINE_SIZE - 1) (?l @ [NL]) = take (LINE_SIZE - 1) ?p # r"
    using first_chunk_long [of ?l "LINE_SIZE - 1" "[NL]"] cl tk by (auto simp: LINE_SIZE_def)
  have "set (take (LINE_SIZE - 1) ?p) \<subseteq> set ?l" using tk set_take_subset by metis
  then have "cut_eol (cstr (take (LINE_SIZE - 1) ?p)) = take (LINE_SIZE - 1) ?p"
    using cl by (subst cstr_no_nul) (blast, rule cut_eol_clean, blast+)
  moreover have "count_list ?p BAR = 4"
    using assms by (simp add: clean_field_def count_list_free cstr_simps)
  then have "length (split_on BAR (take (LINE_SIZE - 1) ?p)) \<le> 5"
    using count_list_take_le [of "LINE_SIZE - 1" ?p BAR] by (simp add: length_split_on)
  ultimately have "cont_check H st (take (LINE_SIZE - 1) ?p) = Inl InvalidEventFormat"
    by (simp add: cont_check_def Let_def)
  with r show ?thesis by simp
qed

text \<open>The writer accepts what the reader cannot read: an event whose details are longer than the
  verifier's line buffer is recorded with result 0, and from then on \<open>continuum_verify\<close> rejects the
  log with \<open>invalid_event_format\<close>, whatever it held before.\<close>

theorem continuum_long_event_breaks:
  assumes "cont_root root" and "hash32 H" and "cont_inv H root (s, evs)"
    and env: "\<forall>p m. ce_open env p m" "all_room env" and init: "fst (continuum_init env root s) = 0" "now_iso env = Some ts"
    and f: "valid_field ty" "valid_field ac" "valid_field de" "NUL \<notin> set ty" "NUL \<notin> set ac" "NUL \<notin> set de"
    and long: "LINE_SIZE \<le> length de"
  shows "fst (continuum_event H env root ty ac de s) = 0 \<and>
    continuum_verify H env root (snd (continuum_event H env root ty ac de s)) = InvalidEventFormat"
proof -
  obtain t where t: "continuum_init env root s = (0, t)" using init(1) by (cases "continuum_init env root s") auto
  from event_writes [OF assms(1,3) t f(1-3) init(2)] env obtain ls h l where
    ls: "log_lines t root ls" "chain_lines H ls h" and l: "l = event_line H (Suc (length ls)) ts ty ac de h"
    and ev: "continuum_event H env root ty ac de s =
       (let u = put_file t (cont_path root EVENTS_FILE) (unlines (ls @ [l])) in
        if ce_open env (cont_path root STATE_FILE) WriteMode
        then (0, put_file u (cont_path root STATE_FILE) (active_state_text (Suc (length ls))
               (cont_sha256_hex H (event_canonical (Suc (length ls)) ts ty ac de h))))
        else (-1, u))" by metis
  have "cf_files (snd (continuum_event H env root ty ac de s)) (cont_path root EVENTS_FILE) = Some (unlines ls @ l @ [NL])"
    using assms(1) env by (simp add: ev Let_def put_file_def cont_path_short)
  then have rd: "open_read env (snd (continuum_event H env root ty ac de s)) (cont_path root EVENTS_FILE)
      = Some (unlines ls @ l @ [NL])" using env by (simp add: open_read_def)
  have c: "clean_field ts" "clean_field ty" "clean_field ac" "clean_field de" "clean_field h"
    using now_iso_clean [OF init(2)] f chain_lines_hash(1) [OF ls(2) assms(2)]
    by (auto simp: clean_field_def valid_field_def)
  have "fst (continuum_event H env root ty ac de s) = 0" using env by (simp add: ev Let_def)
  moreover have "continuum_verify H env root (snd (continuum_event H env root ty ac de s)) = InvalidEventFormat"
    unfolding verify_after_chain [OF ls rd] l by (rule long_line_invalid [OF c long])
  ultimately show ?thesis by simp
qed


lemma init_demo: "fst (continuum_init demo_env ''r'' demo_fs) = 0"
  by (simp add: continuum_init_def ensure_layout_def path_exists_def demo_fs_def demo_env_def Let_def
      split_beta init_identity_def init_file_def open_write_def put_file_def random_hex_def cont_path_short
      cont_root_def)

lemma now_iso_demo: "now_iso demo_env = Some (fmt_iso \<lparr>tm_year = 2026, tm_mon = 1, tm_mday = 2,
    tm_hour = 3, tm_min = 4, tm_sec = 5, tm_gmtoff = 0\<rparr> @ ''Z'')"
  by (simp add: now_iso_def demo_env_def strftime_buf_def fmt_iso_def fmt_date_def fmt_clock_def pad2_def nat_str.simps)

theorem continuum_long_event_breaks_witness:
  "fst (continuum_event demo_H demo_env ''r'' ''A'' ''b'' (replicate 9000 (CHR ''x'')) demo_fs) = 0"
proof -
  have v: "valid_field ''A''" "valid_field ''b''" "valid_field (replicate 9000 (CHR ''x''))"
      "NUL \<notin> set ''A''" "NUL \<notin> set ''b''" "NUL \<notin> set (replicate 9000 (CHR ''x''))"
    by (auto simp: valid_field_def)
  have env: "\<forall>p m. ce_open demo_env p m" "all_room demo_env" by (simp_all add: demo_env_def all_room_def)
  have "LINE_SIZE \<le> length (replicate 9000 (CHR ''x''))" by (simp add: LINE_SIZE_def)
  from continuum_long_event_breaks [OF demo_setting(1) demo_H_32 cont_blank_inv [OF demo_setting(2)] env
      init_demo now_iso_demo v this]
  show ?thesis by simp
qed


text \<open>The writer does not look whether its event was written: on a full disk the call returns 0 and the state file, if there is room
  for it, names the event as the head, but the log is the one it was.\<close>

theorem continuum_unwritten_event:
  assumes "cont_root root" and "not_dirs s root" and "continuum_init env root s = (0, t)" and "now_iso env = Some ts"
    and "valid_field ty" "valid_field ac" "valid_field de" and "\<forall>p m. ce_open env p m"
    and "ce_room env (cont_path root EVENTS_FILE) = Some 0"
  shows "fst (continuum_event H env root ty ac de s) = 0 \<and>
    cf_files (snd (continuum_event H env root ty ac de s)) (cont_path root EVENTS_FILE) = cf_files t (cont_path root EVENTS_FILE)"
proof -
  note pres = continuum_init_present [OF assms(1-3)]
  then obtain c where "cf_files t (cont_path root EVENTS_FILE) = Some c" by blast
  with assms pres(4) show ?thesis
    by (simp add: continuum_event_def Let_def open_write_def put_file_def stored_def not_dirs_def cont_path_short)
qed

text \<open>A lost update of the state file.\<close>

lemma cont_chk_seq: "cont_chk H st raw = Some k \<Longrightarrow> c_atoi (fields6 raw ! 0) = fst st"
  by (auto simp: cont_chk_def cont_check_def Let_def fields6_def split: if_splits sum.splits)

lemma fields6_event_line:
  assumes "clean_field ts" "clean_field ty" "clean_field ac" "clean_field de" "clean_field h"
  shows "fields6 (event_line H n ts ty ac de h @ [NL]) = [nat_str n, ts, ty, ac, de, h]"
  by (simp add: fields6_def cut_eol_nl [OF event_line_clean [OF assms]] split_event_line [OF assms])

lemma head_moves:
  assumes "chain_lines H ls h" and "hash32 H" and "Suc (length ls) < 2 ^ 31"
    and c: "clean_field ts" "clean_field ty" "clean_field ac" "clean_field de"
    and short: "length (event_canonical (Suc (length ls)) ts ty ac de h) < LINE_SIZE - 1"
  shows "h \<noteq> cont_sha256_hex H (event_canonical (Suc (length ls)) ts ty ac de h) \<or>
    (\<exists>l \<in> set ls. event_clash H (l @ [NL]) (event_line H (Suc (length ls)) ts ty ac de h @ [NL]))"
proof (cases "ls = []")
  case True
  then have "h = GENESIS" by (rule chain_lines_hash(4) [OF assms(1,2)])
  then have "length h \<noteq> length (cont_sha256_hex H x)" for x
    using assms(2) by (simp add: GENESIS_def cont_sha256_hex_def hash32_def)
  then show ?thesis by metis
next
  case False
  let ?j = "join BAR [nat_str (Suc (length ls)), ts, ty, ac, de, h]"
  from False obtain ms l where ls: "ls = ms @ [l]" by (cases ls rule: rev_cases) simp_all
  from assms(1) obtain st where st: "cc.verify_all H (1, GENESIS) (map (\<lambda>l. l @ [NL]) ms) = Some st"
    and l: "cont_chk H st (l @ [NL]) = Some (1 + int (length ls), h)"
    by (auto simp: chain_lines_def ls cc.verify_snoc_iff)
  have seq: "c_atoi (fields6 (l @ [NL]) ! 0) = int (length ls)"
    using cont_chk_seq [OF l] cont_verify_count [OF st] by (simp add: ls)
  have h: "h = hex_of (take 32 (H (join BAR (fields6 (l @ [NL])))))"
    using cont_chk_Some(4) [OF l] by simp
  have j: "event_canonical (Suc (length ls)) ts ty ac de h = ?j"
    using short unfolding event_canonical_def int_str_of_nat by (rule_tac snprintf_buf_fits) (simp add: snprintf_buf_def LINE_SIZE_def min_def split: if_splits)
  show ?thesis
  proof (cases "join BAR (fields6 (l @ [NL])) = ?j")
    case True
    have "fields6 (l @ [NL]) \<noteq> []" using cont_chk_Some(1) [OF l] by auto
    then have "fields6 (l @ [NL]) = split_on BAR ?j"
      using True by (metis fields6_rejoin)
    also have "\<dots> = [nat_str (Suc (length ls)), ts, ty, ac, de, h]"
      using c chain_lines_hash(1) [OF assms(1,2)]
      by (intro split_on_join) (auto simp: clean_field_def cstr_simps)
    finally have "c_atoi (nat_str (Suc (length ls))) = int (length ls)" using seq by simp
    with assms(3) show ?thesis by (simp add: c_atoi_nat_str)
  next
    case neq: False
    have "h \<noteq> cont_sha256_hex H ?j \<or> take 32 (H (join BAR (fields6 (l @ [NL])))) = take 32 (H ?j)"
      using h assms(2) by (metis cont_sha256_hex_def hash32_def hex_of_inject order_refl take_all)
    moreover have "fields6 (event_line H (Suc (length ls)) ts ty ac de h @ [NL]) = [nat_str (Suc (length ls)), ts, ty, ac, de, h]"
      using c chain_lines_hash(1) [OF assms(1,2)] by (rule fields6_event_line)
    ultimately show ?thesis using neq j by (auto simp: event_clash_def ls)
  qed
qed


lemma length_canonical_le: "length (event_canonical n ts ty ac de h) < length (event_line H n ts ty ac de h)"
proof -
  have "length (snprintf_buf m x) \<le> length x" for m x by (simp add: snprintf_buf_def)
  then have "length (event_canonical n ts ty ac de h) \<le> length (join BAR [int_str (int n), ts, ty, ac, de, h])"
    unfolding event_canonical_def .
  then show ?thesis by (simp add: event_line_def)
qed

lemma check_wrong_head:
  assumes "clean_field ts" "clean_field ty" "clean_field ac" "clean_field de" "clean_field h"
    and "1 \<le> k" "k < 2 ^ 31" and "h \<noteq> h'"
  shows "cont_check H (int k, h') (event_line H k ts ty ac de h @ [NL]) = Inl ChainBreak"
  using assms(6-8)
  by (simp add: cont_check_def Let_def cut_eol_nl [OF event_line_clean [OF assms(1-5)]]
      split_event_line [OF assms(1-5)] c_atoi_nat_str)

lemma preserved_view:
  assumes "preserves u v" and "cf_files u (cont_path root STATE_FILE) \<noteq> None"
    and "cf_files u (cont_path root EVENTS_FILE) \<noteq> None"
  shows "state_head v root = state_head u root" and "log_lines v root ls = log_lines u root ls"
    and "cf_files v (cont_path root EVENTS_FILE) \<noteq> None"
  using assms by (auto simp: preserves_def state_head_def log_lines_def)

lemma lost_state_log:
  assumes root: "cont_root root" and H: "hash32 H" and inv: "cont_inv H root (s, evs)"
    and small: "length evs < 2 ^ 31 - 2"
    and env: "\<forall>p m. ce_open env p m \<longleftrightarrow> \<not> (p = cont_path root STATE_FILE \<and> m = WriteMode)" and room: "all_room env"
    and init: "continuum_init env root s = (0, t)" and ts: "now_iso env = Some ts"
    and f: "valid_field ty" "valid_field ac" "valid_field de" "NUL \<notin> set (ty @ ac @ de)"
    and len: "length (ty @ ac @ de) \<le> 7900"
    and ev: "continuum_event H env root ty ac de s = (r, u)"
  obtains ls h h' where "r = -1" "log_lines u root ls" "chain_lines H ls h'" "state_head u root = h"
    "h \<noteq> h' \<or> log_clash H (unlines ls)" "length ls = Suc (length evs)" "clean_field h" "length h \<le> 64"
    "not_dirs u root" "cf_files u (cont_path root STATE_FILE) \<noteq> None"
    "cf_files u (cont_path root EVENTS_FILE) \<noteq> None"
proof -
  let ?sp = "cont_path root STATE_FILE" and ?ep = "cont_path root EVENTS_FILE"
  have ne: "?sp \<noteq> ?ep" using root by (simp add: cont_path_short)
  from env ne have o: "ce_open env ?ep m" "ce_open env ?sp ReadMode" "\<not> ce_open env ?sp WriteMode" for m
    by auto
  obtain ls h l where ls: "log_lines t root ls" "chain_lines H ls h" "length ls = length evs"
    and h: "h = state_head t root" and l: "l = event_line H (Suc (length ls)) ts ty ac de h"
    and nd: "not_dirs t root" and ev': "continuum_event H env root ty ac de s =
       (let u = put_file t ?ep (unlines (ls @ [l])) in
        if ce_open env ?sp WriteMode
        then (0, put_file u ?sp (active_state_text (Suc (length ls))
               (cont_sha256_hex H (event_canonical (Suc (length ls)) ts ty ac de h))))
        else (-1, u))"
    by (rule event_writes [OF root inv init f(1-3) ts o(1) o(1) o(2) room])
  from ev' ev o(3) have r: "r = -1" and u: "u = put_file t ?ep (unlines (ls @ [l]))"
    by (simp_all add: Let_def)
  let ?h = "cont_sha256_hex H (event_canonical (Suc (length ls)) ts ty ac de h)"
  have c: "clean_field ts" "clean_field ty" "clean_field ac" "clean_field de" "length ts < 64"
    using now_iso_clean [OF ts] f by (auto simp: clean_field_def valid_field_def)
  have n: "Suc (length ls) < 2 ^ 31" using small ls(3) by simp
  have fit: "event_fit H (1 + int (length ls), h) (ts, ty, ac, de)" "length l < 8191" "clean_field h"
    using event_fit_fields [OF c _ H ls(2) n] len by (simp_all add: l)
  have ch: "chain_lines H (ls @ [l]) ?h"
    using chain_lines_snoc [OF ls(2) fit(1)] by (simp add: l)
  have "NL \<notin> set l" using c fit(3) by (simp add: l event_line_clean)
  then have "short_lines 8191 (ls @ [l])" using ls(1) fit(2) by (simp add: log_lines_def LINE_SIZE_def)
  then have log: "log_lines u root (ls @ [l])" unfolding u by (rule log_lines_written(2) [OF root])
  have "cf_files t ?sp \<noteq> None"
    using continuum_init_present(1) [OF root _ init] inv by (simp add: cont_inv_def)
  then have p: "state_head u root = h" "cf_files u ?sp \<noteq> None" "cf_files u ?ep \<noteq> None" "not_dirs u root"
    using ne nd by (simp_all add: h state_head_def u put_file_def not_dirs_def)
  have rl: "read_lines (LINE_SIZE - 1) (unlines (ls @ [l])) = map (\<lambda>l. l @ [NL]) (ls @ [l])"
    using log by (intro read_lines_unlines) (simp add: log_lines_def)
  have "h \<noteq> ?h \<or> (\<exists>k \<in> set ls. event_clash H (k @ [NL]) (l @ [NL]))"
    using head_moves [OF ls(2) H n c(1-4)] fit(2)
      length_canonical_le [of "Suc (length ls)" ts ty ac de h H] by (auto simp: l LINE_SIZE_def)
  then have "h \<noteq> ?h \<or> log_clash H (unlines (ls @ [l]))" unfolding log_clash_def rl by auto
  moreover have "length (ls @ [l]) = Suc (length evs)" using ls(3) by simp
  ultimately show thesis using that [OF r log ch p(1)] p fit(3) chain_lines_hash(2) [OF ls(2) H] by metis
qed

lemma stale_head_breaks:
  assumes root: "cont_root root" and H: "hash32 H" and log: "log_lines u root ls" and ch: "chain_lines H ls h'"
    and head: "state_head u root = h" "h \<noteq> h'" "clean_field h" "length h \<le> 64"
    and n: "Suc (length ls) < 2 ^ 31" and nd: "not_dirs u root"
    and pu: "cf_files u (cont_path root STATE_FILE) \<noteq> None" "cf_files u (cont_path root EVENTS_FILE) \<noteq> None"
    and adm: "cont_admissible (env, ty, ac, de)" and init: "continuum_init env root u = (0, v)"
    and ts: "now_iso env = Some ts" and f: "valid_field ty" "valid_field ac" "valid_field de"
    and ev: "continuum_event H env root ty ac de u = (r, w)"
  shows "r = 0 \<and> continuum_verify H env root w = ChainBreak"
proof -
  let ?sp = "cont_path root STATE_FILE" and ?ep = "cont_path root EVENTS_FILE"
  have ne: "?sp \<noteq> ?ep" using root by (simp add: cont_path_short)
  have "preserves u v" using continuum_init_preserves [of u env root] init by simp
  note v = preserved_view [OF this pu]
  from adm have o: "ce_open env p m" and room: "all_room env" for p m by (simp_all add: cont_admissible_def)
  have ndv: "not_dirs v root" by (rule continuum_init_present(4) [OF root nd init])
  define l where "l = event_line H (Suc (length ls)) ts ty ac de h"
  have ew: "open_write env v ?ep AppendMode" using o ndv by (simp add: open_write_def not_dirs_def)
  have "log_lines v root ls" "state_head v root = h" using v log head by simp_all
  from continuum_event_logged [where H = H, OF init f ts ew this o o v(3) room] ev o ndv ne
  have r: "r = 0" "cf_files w ?ep = Some (unlines ls @ l @ [NL])"
    by (auto simp: Let_def open_write_def put_file_def not_dirs_def l_def)
  have rd: "open_read env w ?ep = Some (unlines ls @ l @ [NL])" using r(2) o by (simp add: open_read_def)
  have c: "clean_field ts" "clean_field ty" "clean_field ac" "clean_field de" "length ts < 64"
      "length ty + length ac + length de \<le> 7900"
    using now_iso_clean [OF ts] f adm by (auto simp: clean_field_def valid_field_def cont_admissible_def)
  have "length (nat_str (Suc (length ls))) \<le> 10"
    by (rule nat_str_length_mono) (use n in simp_all)
  then have l: "length l < LINE_SIZE - 1" "NL \<notin> set l"
    using c H head by (simp_all add: l_def length_event_line hash32_def LINE_SIZE_def event_line_clean)
  have "cont_check H (1 + int (length ls), h') (l @ [NL]) = Inl ChainBreak"
    using check_wrong_head [OF c(1-4) head(3) _ n head(2), of H] by (simp add: l_def)
  with verify_after_chain [OF log ch rd] read_lines_line [OF l(2,1), of "[]"] r(1)
  show ?thesis by simp
qed

text \<open>The two files of the log are not updated together: when the event line has been appended
  and the state file then cannot be written, the call fails, but the line stays; the next successful
  event links to the old head, and \<open>continuum_verify\<close> reports a chain break for good (unless
  two lines of the log are a collision of the digest).\<close>

theorem continuum_lost_state_breaks:
  assumes root: "cont_root root" and H: "hash32 H" and inv: "cont_inv H root (s, evs)"
    and small: "length evs < 2 ^ 31 - 2"
    and env1: "\<forall>p m. ce_open env1 p m \<longleftrightarrow> \<not> (p = cont_path root STATE_FILE \<and> m = WriteMode)" "all_room env1"
    and init1: "continuum_init env1 root s = (0, t)" and ts1: "now_iso env1 = Some ts1"
    and f1: "valid_field ty1" "valid_field ac1" "valid_field de1" "NUL \<notin> set (ty1 @ ac1 @ de1)"
    and len1: "length (ty1 @ ac1 @ de1) \<le> 7900"
    and ev1: "continuum_event H env1 root ty1 ac1 de1 s = (r1, u)"
    and adm2: "cont_admissible (env2, ty2, ac2, de2)"
    and init2: "continuum_init env2 root u = (0, v)" and ts2: "now_iso env2 = Some ts2"
    and f2: "valid_field ty2" "valid_field ac2" "valid_field de2"
    and ev2: "continuum_event H env2 root ty2 ac2 de2 u = (r2, w)"
  shows "r1 = -1 \<and> r2 = 0 \<and> continuum_verify H env2 root w = ChainBreak
    \<or> (\<exists>c. cf_files u (cont_path root EVENTS_FILE) = Some c \<and> log_clash H c)"
proof (rule lost_state_log [OF root H inv small env1 init1 ts1 f1 len1 ev1])
  fix ls h h'
  assume 1: "r1 = -1" "log_lines u root ls" "chain_lines H ls h'" "state_head u root = h"
    "h \<noteq> h' \<or> log_clash H (unlines ls)" "length ls = Suc (length evs)" "clean_field h" "length h \<le> 64"
    "not_dirs u root" "cf_files u (cont_path root STATE_FILE) \<noteq> None"
    "cf_files u (cont_path root EVENTS_FILE) \<noteq> None"
  have n: "Suc (length ls) < 2 ^ 31" using 1(6) small by simp
  show ?thesis
  proof (cases "h = h'")
    case False
    from stale_head_breaks [OF root H 1(2-4) False 1(7,8) n 1(9-11) adm2 init2 ts2 f2 ev2] 1(1)
    show ?thesis by simp
  next
    case True
    obtain c where "cf_files u (cont_path root EVENTS_FILE) = Some c" using 1(11) by blast
    with 1(2,5) True show ?thesis by (simp add: log_lines_def)
  qed
qed


lemma continuum_init_again:
  assumes "root \<noteq> []" and "cf_dirs s root" and "cf_files s (cont_path root STATE_FILE) \<noteq> None"
    and "cf_files s (cont_path root EVENTS_FILE) \<noteq> None" and "cf_files s (cont_path root IDENTITY_FILE) \<noteq> None"
  shows "continuum_init env root s = (0, s)"
  using assms
  by (simp add: continuum_init_def ensure_layout_def init_identity_def init_file_def path_exists_def Let_def)

definition demo_ready :: cont_fs where
  "demo_ready = snd (continuum_init demo_env ''r'' demo_fs)"

lemma demo_init: "continuum_init demo_env ''r'' demo_fs = (0, demo_ready)"
  using init_demo by (simp add: demo_ready_def prod_eq_iff)

lemma demo_ready_dir: "cf_dirs demo_ready ''r''"
  by (simp add: demo_ready_def continuum_init_def ensure_layout_def path_exists_def demo_fs_def demo_env_def
      Let_def split_beta)

lemma demo_ready_inv: "cont_inv demo_H ''r'' (demo_ready, [])"
  using inv_continuum_init [OF demo_setting(1) _ cont_blank_inv [OF demo_setting(2)], of demo_env demo_H]
  by (simp add: demo_ready_def demo_env_def all_room_def)

lemma demo_ready_present:
  "cf_files demo_ready (cont_path ''r'' STATE_FILE) \<noteq> None" "cf_files demo_ready (cont_path ''r'' EVENTS_FILE) \<noteq> None"
  "cf_files demo_ready (cont_path ''r'' IDENTITY_FILE) \<noteq> None" "not_dirs demo_ready ''r''"
  using continuum_init_present [OF demo_setting(1) _ demo_init] demo_setting(2) by (simp_all add: cont_blank_def)

lemma demo_init_again: "continuum_init env ''r'' demo_ready = (0, demo_ready)"
  by (rule continuum_init_again) (simp_all add: demo_ready_present [unfolded not_None_eq] demo_ready_dir)

definition demo_stuck :: cont_env where
  "demo_stuck = demo_env\<lparr>ce_open := \<lambda>p m. \<not> (p = cont_path ''r'' STATE_FILE \<and> m = WriteMode)\<rparr>"

lemma demo_stuck_open:
  "\<forall>p m. ce_open demo_stuck p m \<longleftrightarrow> \<not> (p = cont_path ''r'' STATE_FILE \<and> m = WriteMode)"
  by (simp add: demo_stuck_def)

lemma demo_stuck_room: "all_room demo_stuck"
  by (simp add: demo_stuck_def demo_env_def all_room_def)

lemma now_iso_stuck: "now_iso demo_stuck = now_iso demo_env"
  by (simp add: now_iso_def demo_stuck_def)

lemma demo_fields: "valid_field ''A''" "valid_field ''b''" "valid_field ''c''" "NUL \<notin> set (''A'' @ ''b'' @ ''c'')"
  "length (''A'' @ ''b'' @ ''c'') \<le> 7900"
  by (simp_all add: valid_field_def)

lemma preserves_files:
  assumes "preserves u v" and "cf_files u (cont_path root STATE_FILE) \<noteq> None"
    "cf_files u (cont_path root EVENTS_FILE) \<noteq> None" "cf_files u (cont_path root IDENTITY_FILE) \<noteq> None"
  shows "cf_files v (cont_path root STATE_FILE) \<noteq> None" "cf_files v (cont_path root EVENTS_FILE) \<noteq> None"
    "cf_files v (cont_path root IDENTITY_FILE) \<noteq> None"
  using assms by (auto simp: preserves_def)

lemma demo_next: "continuum_init demo_env ''r'' (snd (continuum_event demo_H demo_stuck ''r'' ''A'' ''b'' ''c'' demo_ready))
    = (0, snd (continuum_event demo_H demo_stuck ''r'' ''A'' ''b'' ''c'' demo_ready))"
proof (rule continuum_init_again)
  show "cf_dirs (snd (continuum_event demo_H demo_stuck ''r'' ''A'' ''b'' ''c'' demo_ready)) ''r''"
    by (simp add: continuum_event_def demo_init_again put_file_def demo_ready_dir Let_def split: option.split)
qed (auto simp: continuum_event_def demo_init_again put_file_def demo_ready_present [unfolded not_None_eq]
    Let_def split: option.split)

theorem continuum_lost_state_breaks_witness:
  "let u = snd (continuum_event demo_H demo_stuck ''r'' ''A'' ''b'' ''c'' demo_ready);
       w = snd (continuum_event demo_H demo_env ''r'' ''A'' ''b'' ''c'' u) in
   continuum_verify demo_H demo_env ''r'' w = ChainBreak
     \<or> (\<exists>c. cf_files u (cont_path ''r'' EVENTS_FILE) = Some c \<and> log_clash demo_H c)"
proof -
  let ?e1 = "continuum_event demo_H demo_stuck ''r'' ''A'' ''b'' ''c'' demo_ready"
  let ?e2 = "continuum_event demo_H demo_env ''r'' ''A'' ''b'' ''c'' (snd ?e1)"
  have n: "length ([] :: (string \<times> string \<times> string) list) < 2 ^ 31 - 2" by simp
  have "fst ?e1 = -1 \<and> fst ?e2 = 0 \<and> continuum_verify demo_H demo_env ''r'' (snd ?e2) = ChainBreak
    \<or> (\<exists>c. cf_files (snd ?e1) (cont_path ''r'' EVENTS_FILE) = Some c \<and> log_clash demo_H c)"
    by (rule continuum_lost_state_breaks [OF demo_setting(1) demo_H_32 demo_ready_inv n demo_stuck_open demo_stuck_room
          demo_init_again now_iso_stuck [unfolded now_iso_demo] demo_fields _ demo_setting(4) demo_next
          now_iso_demo demo_fields(1-3)])
      simp_all
  then show ?thesis by (auto simp: Let_def)
qed


section \<open>What verification does not cover\<close>

lemma take_split_on_append:
  "n \<le> length (split_on BAR l) \<Longrightarrow> take n (split_on BAR (l @ BAR # junk)) = take n (split_on BAR l)"
proof (induction l arbitrary: n)
  case (Cons c l)
  show ?case
  proof (cases n)
    case (Suc m)
    obtain f fs where 1: "split_on BAR l = f # fs" by (cases "split_on BAR l") simp_all
    obtain g gs where 2: "split_on BAR (l @ BAR # junk) = g # gs"
      by (cases "split_on BAR (l @ BAR # junk)") simp_all
    from Cons.prems Suc 1 have m: "c \<noteq> BAR \<Longrightarrow> Suc m \<le> length (f # fs)" "c = BAR \<Longrightarrow> m \<le> length (split_on BAR l)"
      by simp_all
    show ?thesis
    proof (cases "c = BAR")
      case True
      with Cons.IH [of m] m(2) Suc show ?thesis by simp
    next
      case False
      from Cons.IH [of "Suc m"] m(1) [OF False] 1 2 have "g = f" "take m gs = take m fs" by simp_all
      with False Suc 1 2 show ?thesis by simp
    qed
  qed simp
next
  case Nil
  then show ?case by (cases n) auto
qed

lemma cont_check_fields:
  "take 7 (split_on BAR (cut_eol (cstr raw))) = take 7 (split_on BAR (cut_eol (cstr raw')))
    \<Longrightarrow> cont_check H st raw = cont_check H st raw'"
  unfolding cont_check_def Let_def by (simp only:)

lemma cont_check_extra:
  assumes "NL \<notin> set l" "CR \<notin> set l" "NUL \<notin> set l" "NL \<notin> set junk" "CR \<notin> set junk" "NUL \<notin> set junk"
    and "cont_check H st (l @ [NL]) = Inr st'"
  shows "cont_check H st ((l @ BAR # junk) @ [NL]) = Inr st'"
proof -
  have "7 \<le> length (split_on BAR l)"
    using assms(7) by (auto simp: cont_check_def Let_def cut_eol_nl [OF assms(1-3)] split: if_splits)
  then have "take 7 (split_on BAR (l @ BAR # junk)) = take 7 (split_on BAR l)" by (rule take_split_on_append)
  moreover have "cut_eol (cstr ((l @ BAR # junk) @ [NL])) = l @ BAR # junk"
    by (rule cut_eol_nl) (use assms(1-6) in simp_all)
  ultimately have "cont_check H st ((l @ BAR # junk) @ [NL]) = cont_check H st (l @ [NL])"
    by (intro cont_check_fields) (simp only: cut_eol_nl [OF assms(1-3)])
  with assms(7) show ?thesis by simp
qed

text \<open>The hash of a line covers its first six fields, and the verifier does not look past the
  seventh: text appended to a verified line as an eighth field goes unnoticed, wherever the line
  stands in the log; the verdict, its count and its head hash stay the same.\<close>

theorem continuum_extra_field_unnoticed:
  assumes "open_read env s (cont_path root EVENTS_FILE) = Some (unlines (ls @ l # ms))"
    and "open_read env s' (cont_path root EVENTS_FILE) = Some (unlines (ls @ (l @ BAR # junk) # ms))"
    and "short_lines (LINE_SIZE - 1) (ls @ l # ms)" and "length (l @ BAR # junk) < LINE_SIZE - 1"
    and "CR \<notin> set l" "NUL \<notin> set l" "NL \<notin> set junk" "CR \<notin> set junk" "NUL \<notin> set junk"
    and "continuum_verify H env root s = Verified n h"
  shows "continuum_verify H env root s' = Verified n h"
proof -
  have sh: "short_lines (LINE_SIZE - 1) (ls @ (l @ BAR # junk) # ms)"
    using assms(3,4,7) by simp
  have l: "NL \<notin> set l" using assms(3) by simp
  note rl = read_lines_unlines [OF assms(3)] and rl' = read_lines_unlines [OF sh]
  from verified_iff [OF assms(1), of H n h] assms(10) rl obtain k where
    n: "n = length (ls @ l # ms)" and k: "cc.verify_all H (1, GENESIS) (map (\<lambda>l. l @ [NL]) (ls @ l # ms)) = Some (k, h)"
    by auto
  from k obtain st st' where st: "cc.verify_all H (1, GENESIS) (map (\<lambda>l. l @ [NL]) ls) = Some st"
    "cont_chk H st (l @ [NL]) = Some st'" "cc.verify_all H st' (map (\<lambda>l. l @ [NL]) ms) = Some (k, h)"
    by (auto simp: cc.verify_append split: option.splits)
  from st(2) have "cont_check H st (l @ [NL]) = Inr st'" by (auto simp: cont_chk_def split: if_splits sum.splits)
  from cont_check_extra [OF l assms(5,6,7,8,9) this] assms(4)
  have "cont_chk H st ((l @ BAR # junk) @ [NL]) = Some st'" by (simp add: cont_chk_def LINE_SIZE_def)
  with st have "cc.verify_all H (1, GENESIS) (map (\<lambda>l. l @ [NL]) (ls @ (l @ BAR # junk) # ms)) = Some (k, h)"
    by (simp add: cc.verify_append)
  with n show ?thesis using verified_iff [OF assms(2), of H n h] rl' by auto
qed

definition demo_line :: string where
  "demo_line = event_line demo_H 1 ''t'' ''A'' ''b'' ''c'' GENESIS"

theorem continuum_extra_field_unnoticed_witness:
  "\<exists>n h. continuum_verify demo_H demo_env ''r''
     (put_file demo_fs (cont_path ''r'' EVENTS_FILE) (unlines [demo_line @ BAR # ''forged''])) = Verified n h"
proof -
  have c: "clean_field ''t''" "clean_field ''A''" "clean_field ''b''" "clean_field ''c''" "clean_field GENESIS"
    by (simp_all add: clean_field_def GENESIS_def)
  note l = event_line_clean [OF c, of demo_H 1, folded demo_line_def]
  have len: "length demo_line < 8000"
    using demo_H_32 by (simp add: demo_line_def length_event_line hash32_def nat_str.simps GENESIS_def)
  have 1: "open_read demo_env demo_log (cont_path ''r'' EVENTS_FILE) = Some (unlines ([] @ demo_line # []))"
    by (simp add: open_read_def demo_env_def demo_log_def put_file_def demo_line_def)
  have 2: "open_read demo_env (put_file demo_fs (cont_path ''r'' EVENTS_FILE) (unlines [demo_line @ BAR # ''forged'']))
      (cont_path ''r'' EVENTS_FILE) = Some (unlines ([] @ (demo_line @ BAR # ''forged'') # []))"
    by (simp add: open_read_def demo_env_def put_file_def)
  from continuum_extra_field_unnoticed [OF 1 2 _ _ l(2,3) _ _ _ demo_log_verified] l(1) len
  show ?thesis by (auto simp: LINE_SIZE_def)
qed

section \<open>Initialisation and growth\<close>

text \<open>\<open>continuum_init\<close> never modifies an existing file, whatever the system calls answer, and once
  it has succeeded and the root is a directory, running it again succeeds and changes nothing.\<close>

theorem continuum_init_safe:
  assumes "cont_root root" and "not_dirs s root" and "continuum_init env root s = (r, t)"
  shows "preserves s t \<and> (r = 0 \<longrightarrow> cf_dirs t root \<longrightarrow> continuum_init env' root t = (0, t))"
proof -
  have "preserves s t" using continuum_init_preserves [of s env root] assms(3) by simp
  moreover have "continuum_init env' root t = (0, t)" if "r = 0" "cf_dirs t root"
    using continuum_init_present [OF assms(1,2)] assms(3) that assms(1)
    by (intro continuum_init_again) (simp_all add: cont_root_def)
  ultimately show ?thesis by simp
qed

theorem continuum_init_safe_witness: "continuum_init demo_env ''r'' demo_ready = (0, demo_ready)"
proof -
  have "not_dirs demo_fs ''r''" using demo_setting(2) by (simp add: cont_blank_def)
  from continuum_init_safe [OF demo_setting(1) this demo_init, of demo_env] demo_ready_dir show ?thesis by simp
qed

definition cont_below :: "string \<Rightarrow> cont_trace \<Rightarrow> cont_trace \<Rightarrow> bool" where
  \<comment> \<open>the event file is only extended, the identity is never rewritten\<close>
  "cont_below root sn tm \<longleftrightarrow>
     (\<forall>c. cf_files (fst sn) (cont_path root EVENTS_FILE) = Some c \<longrightarrow>
        (\<exists>d. cf_files (fst tm) (cont_path root EVENTS_FILE) = Some (c @ d))) \<and>
     (\<forall>c. cf_files (fst sn) (cont_path root IDENTITY_FILE) = Some c \<longrightarrow>
        cf_files (fst tm) (cont_path root IDENTITY_FILE) = Some c)"

lemma cont_below_refl: "cont_below root s s"
  by (auto simp: cont_below_def)

lemma cont_below_trans: "cont_below root s t \<Longrightarrow> cont_below root t u \<Longrightarrow> cont_below root s u"
  by (fastforce simp: cont_below_def)

lemma preserves_below: "preserves s t \<Longrightarrow> cont_below root (s, a) (t, b)"
  by (auto simp: preserves_def cont_below_def)

lemma cont_event_below:
  assumes "cont_root root"
  shows "cont_below root (s, a) (snd (continuum_event H env root ty ac de s), b)"
proof (cases rule: continuum_event_cases [of H env root ty ac de s])
  case rejected
  then show ?thesis by (simp add: preserves_below)
next
  case init_only
  then show ?thesis by (simp add: preserves_below continuum_init_preserves)
next
  case (logged t ts)
  have "cont_below root (s, a) (t, b)"
    using preserves_below [OF continuum_init_preserves, of root s a env root b] logged(1) by simp
  moreover have "cont_below root (t, b) (snd (continuum_event H env root ty ac de s), b)"
    using assms logged
    by (auto simp: continuum_event_def Let_def cont_below_def put_file_def cont_path_short split: option.splits)
  ultimately show ?thesis by (rule cont_below_trans)
qed

lemma cont_step_below: "cont_root root \<Longrightarrow> cont_below root sn (cont_step H root sn e)"
proof -
  assume root: "cont_root root"
  obtain env ty ac de where e: "e = (env, ty, ac, de)" by (cases e) auto
  show ?thesis
    using cont_event_below [OF root, of "fst sn" "snd sn" H env ty ac de]
    by (simp add: cont_step_def e split_beta Let_def)
qed

interpretation cg: growing_machine "cont_step H root" "\<lambda>_. cont_root root" "\<lambda>_. True" "cont_below root" for H root
  by unfold_locales (auto intro: cont_below_refl cont_below_trans cont_step_below)

text \<open>The event log is append-only and the identity is permanent: under any sequence of
  \<open>continuum_event\<close> calls, with any failures of the system calls, what the log holds stays a prefix of
  what it holds later, and an existing identity file is never changed.\<close>

theorem continuum_append_only:
  assumes "cont_root root" and "foldl (cont_step H root) (s, a) es = (t, b)"
    and "cf_files s (cont_path root EVENTS_FILE) = Some c" and "cf_files s (cont_path root IDENTITY_FILE) = Some i"
  shows "(\<exists>d. cf_files t (cont_path root EVENTS_FILE) = Some (c @ d)) \<and> cf_files t (cont_path root IDENTITY_FILE) = Some i"
  using cg.run_grows [of es root "(s, a)" H] assms by (auto simp: cont_below_def list_all_iff)

theorem continuum_append_only_witness:
  "\<exists>c d. cf_files (fst (cont_step demo_H ''r'' (demo_ready, []) (demo_env, ''A'', ''b'', ''c''))) (cont_path ''r'' EVENTS_FILE) = Some (c @ d)"
proof -
  obtain c i where c: "cf_files demo_ready (cont_path ''r'' EVENTS_FILE) = Some c" "cf_files demo_ready (cont_path ''r'' IDENTITY_FILE) = Some i"
    using demo_ready_present by blast
  obtain t b where run: "foldl (cont_step demo_H ''r'') (demo_ready, []) [(demo_env, ''A'', ''b'', ''c'')] = (t, b)"
    by (cases "foldl (cont_step demo_H ''r'') (demo_ready, []) [(demo_env, ''A'', ''b'', ''c'')]")
  from continuum_append_only [OF demo_setting(1) run c] run show ?thesis by auto
qed

end
