(* ===== verification/ChronoExec.thy ===== *)
theory ChronoExec
  imports CString
begin

text \<open>
  \<open>core/common/chrono_exec.c\<close> and \<open>chrono_shell_guard.c\<close>: running a program without a shell, the
  client side of the audit ledger built on it, and the disabled shell entry points. The kernel's
  answers are parameters: whether \<open>fork\<close> succeeds and the successive results of \<open>waitpid\<close>.
  A result of \<open>None\<close> is a call that is still waiting when the given results are used up.
\<close>

datatype wait_status = Exited nat | Signaled nat | OtherStatus

datatype wait_result = WaitDone wait_status | WaitEINTR | WaitError

record exec_env =
  xe_fork_ok :: bool
  xe_waits :: "wait_result list"

type_synonym exec_call = "string \<times> string list"

fun exit_code :: "wait_status \<Rightarrow> int" where
  "exit_code (Exited n) = int n"
| "exit_code (Signaled n) = 128 + int n"
| "exit_code OtherStatus = -1"

fun wait_loop :: "wait_result list \<Rightarrow> int option" where
  "wait_loop [] = None"
| "wait_loop (WaitDone st # rs) = Some (exit_code st)"
| "wait_loop (WaitEINTR # rs) = wait_loop rs"
| "wait_loop (WaitError # rs) = Some (-1)"

definition chrono_exec_direct ::
  "exec_env \<Rightarrow> string option \<Rightarrow> string list option \<Rightarrow> int option \<times> exec_call list" where
  \<comment> \<open>the result and the program started; \<open>argv[0] == NULL\<close> is an empty vector\<close>
  "chrono_exec_direct env program argv =
     (case (program, argv) of
        (Some p, Some (a # as)) \<Rightarrow>
          if \<not> xe_fork_ok env then (Some (-1), []) else (wait_loop (xe_waits env), [(p, a # as)])
      | _ \<Rightarrow> (Some (-1), []))"

definition LEDGER_PROGRAM :: string where
  "LEDGER_PROGRAM = ''./bin/chrono-ledger''"

definition chrono_ledger_append ::
  "exec_env \<Rightarrow> string option \<Rightarrow> string option \<Rightarrow> int option \<times> exec_call list" where
  "chrono_ledger_append env event_type details =
     (case (event_type, details) of
        (Some ev, Some de) \<Rightarrow>
          if ev = [] \<or> de = [] then (Some (-1), [])
          else chrono_exec_direct env (Some LEDGER_PROGRAM) (Some [LEDGER_PROGRAM, ''append'', ev, de])
      | _ \<Rightarrow> (Some (-1), []))"

definition chrono_system_disabled :: "string option \<Rightarrow> int" where
  "chrono_system_disabled command = -1"

definition chrono_popen_disabled :: "string option \<Rightarrow> string option \<Rightarrow> string option" where
  \<comment> \<open>\<open>NULL\<close>, never a stream\<close>
  "chrono_popen_disabled command mode = None"

lemma wait_loop_eintr: "wait_loop (replicate n WaitEINTR @ rs) = wait_loop rs"
  by (induction n) simp_all

lemma ledger_call_cases:
  "snd (chrono_ledger_append env (Some ev) (Some de)) =
     (if ev = [] \<or> de = [] \<or> \<not> xe_fork_ok env then [] else [(LEDGER_PROGRAM, [LEDGER_PROGRAM, ''append'', ev, de])])"
  by (simp add: chrono_ledger_append_def chrono_exec_direct_def)

text \<open>A ledger entry requested through \<open>chrono_ledger_append\<close> reaches the ledger program verbatim:
  with non-empty texts and a successful \<open>fork\<close> exactly one program is started, its argument vector
  holds the event and the details unchanged as single arguments (no shell splits or expands them), and
  the result is the exit code of the child however often \<open>waitpid\<close> is interrupted by a signal.\<close>

theorem exec_ledger_verbatim:
  assumes "xe_fork_ok env" and "xe_waits env = replicate n WaitEINTR @ WaitDone (Exited k) # rs"
    and "ev \<noteq> []" and "de \<noteq> []"
  shows "chrono_ledger_append env (Some ev) (Some de)
    = (Some (int k), [(LEDGER_PROGRAM, [LEDGER_PROGRAM, ''append'', ev, de])])"
  using assms by (simp add: chrono_ledger_append_def chrono_exec_direct_def wait_loop_eintr)

theorem exec_ledger_verbatim_witness:
  "chrono_ledger_append \<lparr>xe_fork_ok = True, xe_waits = [WaitEINTR, WaitEINTR, WaitDone (Exited 0)]\<rparr>
     (Some ''A; rm'') (Some ''b c'')
   = (Some 0, [(LEDGER_PROGRAM, [LEDGER_PROGRAM, ''append'', ''A; rm'', ''b c''])])"
  using exec_ledger_verbatim [of "\<lparr>xe_fork_ok = True, xe_waits = [WaitEINTR, WaitEINTR, WaitDone (Exited 0)]\<rparr>"
      2 0 "[]" "''A; rm''" "''b c''"]
  by (simp add: numeral_2_eq_2)

end
