(* ===== verification/Community.thy ===== *)
theory Community
  imports CTime ChronoExec
begin

text \<open>
  \<open>core/community/chrono_community_alert.c\<close>: authenticated emergency alerts between the nodes of
  a local mesh. A node keeps its authorised peers, the file of used nonces, its alert log and the
  entries it sent to the ledger. HMAC-SHA256 is the parameter \<open>hmac\<close> (\<open>None\<close>: the call fails),
  random bytes, the clock and the outcome of the file and socket calls are an \<open>alert_env\<close>.
  The buffers the callers pass are never \<open>NULL\<close>, so the \<open>NULL\<close> guards have no counterpart.
\<close>

section \<open>Constants and state\<close>

definition MAX_PEERS :: nat where "MAX_PEERS = 32"
definition MAX_ALERT :: nat where "MAX_ALERT = 300"
definition MAX_TYPE :: nat where "MAX_TYPE = 64"
definition MAX_LABEL :: nat where "MAX_LABEL = 64"
definition MAX_CLOCK_SKEW :: int where "MAX_CLOCK_SKEW = 300"
definition MAX_SEEN_NONCES :: nat where "MAX_SEEN_NONCES = 4096"
definition INET_ADDRSTRLEN :: nat where "INET_ADDRSTRLEN = 16"

record peer =
  p_ip :: string
  p_label :: string

record alert_node =
  peers :: "peer list"
  nonces :: "string option"          \<comment> \<open>\<open>community_alert_nonces.log\<close>\<close>
  alerts :: "string option"          \<comment> \<open>\<open>community_alerts.log\<close>\<close>
  ledger_calls :: "exec_call list"

record alert_env =
  ae_time :: int                     \<comment> \<open>\<open>time(NULL)\<close>\<close>
  ae_tm :: "tm option"               \<comment> \<open>\<open>localtime_r\<close>\<close>
  ae_random :: "string option"       \<comment> \<open>\<open>RAND_bytes\<close> of 16 bytes\<close>
  ae_nonce_read :: bool              \<comment> \<open>\<open>fopen(NONCE_STATE, "r")\<close> of an existing file\<close>
  ae_nonce_append :: bool
  ae_nonce_torn :: "nat option"      \<comment> \<open>a failing \<open>fprintf\<close> or \<open>fflush\<close>: bytes that were written\<close>
  ae_nonce_fsync :: bool
  ae_log_open :: bool
  ae_exec :: exec_env
  ae_send :: "nat \<Rightarrow> bool \<times> bool"    \<comment> \<open>per peer: \<open>socket\<close> succeeds, \<open>sendto\<close> sends\<close>

type_synonym hmac = "string \<Rightarrow> string \<Rightarrow> string option"

section \<open>Keys, digests and peers\<close>

definition load_key :: "string option \<Rightarrow> string option" where
  \<comment> \<open>\<open>fread\<close> of 64 bytes, then 32 times \<open>sscanf("%2x")\<close>\<close>
  "load_key file = (case file of None \<Rightarrow> None
     | Some c \<Rightarrow> if length c < 64 then None else hex_bytes 32 (take 64 c))"

definition hex_to_bytes :: "string \<Rightarrow> nat \<Rightarrow> string option" where
  "hex_to_bytes hex out_len = (if length hex \<noteq> out_len * 2 then None else hex_bytes out_len hex)"

definition HEX_DIGITS :: string where "HEX_DIGITS = ''0123456789abcdef''"

definition bytes_into_hex :: "string \<Rightarrow> nat \<Rightarrow> string \<Rightarrow> string" where
  \<comment> \<open>\<open>bytes_to_hex\<close>: the string in \<open>out\<close> afterwards; a buffer that is too small is left as it was\<close>
  "bytes_into_hex bs out_size out =
     (if out_size < length bs * 2 + 1 then out
      else concat (map (\<lambda>b. [HEX_DIGITS ! (code b div 16 mod 16), HEX_DIGITS ! (code b mod 16)]) bs))"

lemma HEX_DIGITS_nth: "n < 16 \<Longrightarrow> HEX_DIGITS ! n = hex_digit n"
proof -
  have "list_all (\<lambda>n. HEX_DIGITS ! n = hex_digit n) [0..<16]" by code_simp
  then show "n < 16 \<Longrightarrow> HEX_DIGITS ! n = hex_digit n" by (simp add: list_all_length)
qed

text \<open>The node's own printer of digests and nonces is \<open>%02x\<close> of each byte, for the buffers the node has for them.\<close>

lemma bytes_into_hex_of: "2 * length bs < out_size \<Longrightarrow> bytes_into_hex bs out_size out = hex_of bs"
proof -
  have "code b div 16 < 16" for b using code_lt [of b] by simp
  then show "2 * length bs < out_size \<Longrightarrow> bytes_into_hex bs out_size out = hex_of bs"
    by (simp add: bytes_into_hex_def hex_of_def hex2_def [abs_def] HEX_DIGITS_nth)
qed

definition make_hmac :: "hmac \<Rightarrow> string \<Rightarrow> string \<Rightarrow> string option" where
  "make_hmac hmac key canonical =
     (case hmac key canonical of None \<Rightarrow> None | Some m \<Rightarrow> if length m = 32 then Some m else None)"

definition peer_allowed :: "alert_node \<Rightarrow> string \<Rightarrow> bool" where
  "peer_allowed w ip \<longleftrightarrow> list_ex (\<lambda>p. p_ip p = ip) (peers w)"

definition nonce_seen :: "alert_env \<Rightarrow> alert_node \<Rightarrow> string \<Rightarrow> bool" where
  "nonce_seen env w nonce \<longleftrightarrow>
     (case nonces w of
        None \<Rightarrow> False
      | Some c \<Rightarrow> ae_nonce_read env \<and>
          list_ex (\<lambda>line. cut_eol (cstr line) = nonce) (take MAX_SEEN_NONCES (read_lines 127 c)))"

definition remember_nonce :: "alert_env \<Rightarrow> string \<Rightarrow> alert_node \<Rightarrow> int \<times> alert_node" where
  "remember_nonce env nonce w =
     (if \<not> ae_nonce_append env then (-1, w)
      else
        let old = (case nonces w of None \<Rightarrow> [] | Some c \<Rightarrow> c) in
        case ae_nonce_torn env of
          Some k \<Rightarrow> (-1, w\<lparr>nonces := Some (old @ take k (nonce @ [NL]))\<rparr>)
        | None \<Rightarrow>
            let w = w\<lparr>nonces := Some (old @ nonce @ [NL])\<rparr> in
            if \<not> ae_nonce_fsync env then (-1, w) else (0, w))"

section \<open>Logging\<close>

definition log_stamp :: "alert_env \<Rightarrow> string" where
  \<comment> \<open>a 32-byte buffer holds the formatted time of every \<open>struct tm\<close>\<close>
  "log_stamp env = (case ae_tm env of Some t \<Rightarrow> fmt_plain t | None \<Rightarrow> ''unknown-time'')"

definition log_alert :: "alert_env \<Rightarrow> string \<Rightarrow> string \<Rightarrow> string \<Rightarrow> alert_node \<Rightarrow> alert_node" where
  "log_alert env type origin message w =
     (let w = (if ae_log_open env
               then w\<lparr>alerts := Some ((case alerts w of None \<Rightarrow> [] | Some c \<Rightarrow> c)
                   @ ''['' @ log_stamp env @ ''] tipo='' @ type @ '' origen='' @ origin
                   @ '' mensaje='' @ message @ [NL])\<rparr>
               else w) in
      w\<lparr>ledger_calls := ledger_calls w
          @ snd (chrono_ledger_append (ae_exec env) (Some ''COMMUNITY_ALERT'') (Some type))\<rparr>)"

section \<open>Packets\<close>

definition ALERT_VERSION :: string where "ALERT_VERSION = ''CHRONO_ALERT_V1''"

definition build_packet ::
  "hmac \<Rightarrow> alert_env \<Rightarrow> string \<Rightarrow> string \<Rightarrow> string \<Rightarrow> string \<Rightarrow> nat \<Rightarrow> string option" where
  "build_packet hmac env key alert_type message my_label packet_size =
     (if packet_size = 0 then None
      else if BAR \<in> set alert_type \<or> BAR \<in> set message \<or> BAR \<in> set my_label then None
      else case ae_random env of
        None \<Rightarrow> None
      | Some nonce \<Rightarrow>
          if ae_time env < 0 then None
          else
            let canonical = join BAR [ALERT_VERSION, int_str (ae_time env), hex_of nonce,
                  alert_type, my_label, message] in
            if length canonical \<ge> 768 then None
            else case make_hmac hmac key canonical of
              None \<Rightarrow> None
            | Some mac \<Rightarrow>
                let packet = canonical @ BAR # hex_of mac in
                if length packet \<ge> packet_size then None else Some packet)"

datatype alert_result =
    Rejected int
  | Accepted string string string   \<comment> \<open>type, origin, message\<close>

definition packet_fields :: "string \<Rightarrow> string list" where
  "packet_fields packet = take 7 (strtok_all BAR packet)"

definition verify_packet ::
  "hmac \<Rightarrow> alert_env \<Rightarrow> string \<Rightarrow> string \<Rightarrow> string \<Rightarrow> alert_node \<Rightarrow> int" where
  \<comment> \<open>the checks of \<open>parse_and_verify_packet\<close>, up to \<open>remember_nonce\<close>; 0 when they pass\<close>
  "verify_packet hmac env key packet from_ip w =
     (if \<not> peer_allowed w from_ip then -2
      else if length packet \<ge> 1024 then -1
      else
        let fields = packet_fields packet in
        if length fields \<noteq> 7 then -1
        else if fields ! 0 \<noteq> ALERT_VERSION then -1
        else if length (fields ! 2) \<noteq> 32 \<or> length (fields ! 6) \<noteq> 64 then -1
        else if hex_to_bytes (fields ! 2) 16 = None then -1
        else if strtoll_overflows (fields ! 1) then -1
        else
          let timestamp = c_strtoll (fields ! 1); now = ae_time env in
          if now < 0 then -1
          else if timestamp > now + MAX_CLOCK_SKEW \<or> timestamp < now - MAX_CLOCK_SKEW then -3
          else if nonce_seen env w (fields ! 2) then -4
          else
            let canonical = join BAR (take 6 fields) in
            if length canonical \<ge> 768 then -1
            else case hex_to_bytes (fields ! 6) 32 of
              None \<Rightarrow> -1
            | Some received_mac \<Rightarrow>
                (case make_hmac hmac key canonical of
                   None \<Rightarrow> -1
                 | Some calculated_mac \<Rightarrow> if received_mac \<noteq> calculated_mac then -5 else 0))"

definition parse_and_verify_packet ::
  "hmac \<Rightarrow> alert_env \<Rightarrow> string \<Rightarrow> string \<Rightarrow> string \<Rightarrow> nat \<Rightarrow> nat \<Rightarrow> nat \<Rightarrow> alert_node
    \<Rightarrow> alert_result \<times> alert_node" where
  "parse_and_verify_packet hmac env key packet from_ip type_size origin_size message_size w =
     (let r = verify_packet hmac env key packet from_ip w; fields = packet_fields packet in
      if r \<noteq> 0 then (Rejected r, w)
      else
        let (s, w) = remember_nonce env (fields ! 2) w in
        if s \<noteq> 0 then (Rejected (-1), w)
        else if length (fields ! 3) \<ge> type_size \<or> length (fields ! 4) \<ge> origin_size
             \<or> length (fields ! 5) \<ge> message_size then (Rejected (-1), w)
        else (Accepted (fields ! 3) (fields ! 4) (fields ! 5), w))"

section \<open>Peer configuration\<close>

definition inet_pton4 :: "string \<Rightarrow> bool" where
  \<comment> \<open>\<open>inet_pton(AF_INET, s, _) == 1\<close>: four decimal octets without leading zeros\<close>
  "inet_pton4 s \<longleftrightarrow>
     (let os = split_on (CHR ''.'') s in
      length os = 4 \<and> list_all (\<lambda>d. d \<noteq> [] \<and> length d \<le> 3 \<and> list_all c_isdigit d \<and>
        digits_val d \<le> 255 \<and> (hd d = CHR ''0'' \<longrightarrow> length d = 1)) os)"

definition scan_peer :: "string \<Rightarrow> (string \<times> string) option" where
  \<comment> \<open>\<open>sscanf(line, "%15[^,],%63[^\n]", ip, label) == 2\<close>\<close>
  "scan_peer line =
     (let ip = take 15 (takeWhile (\<lambda>c. c \<noteq> COMMA) line) in
      if ip = [] then None
      else case drop (length ip) line of
        [] \<Rightarrow> None
      | c # r \<Rightarrow>
          if c \<noteq> COMMA then None
          else let label = take 63 (takeWhile (\<lambda>c. c \<noteq> NL) r) in
            if label = [] then None else Some (ip, label))"

definition peer_of_line :: "string \<Rightarrow> peer option" where
  "peer_of_line raw =
     (let line = cstr raw in
      if line \<noteq> [] \<and> (hd line = CHR ''#'' \<or> hd line = NL) then None
      else case scan_peer line of
        None \<Rightarrow> None
      | Some (ip, label) \<Rightarrow>
          if \<not> inet_pton4 ip then None
          else Some \<lparr>p_ip = take (INET_ADDRSTRLEN - 1) ip, p_label = take (MAX_LABEL - 1) label\<rparr>)"

fun load_peer_lines :: "peer list \<Rightarrow> string list \<Rightarrow> peer list" where
  "load_peer_lines ps [] = ps"
| "load_peer_lines ps (raw # raws) =
     (if length ps < MAX_PEERS
      then load_peer_lines (case peer_of_line raw of None \<Rightarrow> ps | Some p \<Rightarrow> ps @ [p]) raws
      else ps)"

definition load_peers :: "string option \<Rightarrow> alert_node \<Rightarrow> alert_node" where
  "load_peers config w = (case config of None \<Rightarrow> w
     | Some c \<Rightarrow> w\<lparr>peers := load_peer_lines (peers w) (read_lines 127 c)\<rparr>)"

section \<open>Sending and listening\<close>

definition send_one :: "alert_env \<Rightarrow> nat \<Rightarrow> peer \<Rightarrow> bool" where
  "send_one env i p \<longleftrightarrow> fst (ae_send env i) \<and> inet_pton4 (p_ip p) \<and> snd (ae_send env i)"

definition broadcast_alert ::
  "hmac \<Rightarrow> alert_env \<Rightarrow> string \<Rightarrow> string \<Rightarrow> string \<Rightarrow> string \<Rightarrow> alert_node
    \<Rightarrow> (string \<times> string list \<times> nat) option \<times> alert_node" where
  \<comment> \<open>the packet, the addresses it reached and the number of peers that it did not reach\<close>
  "broadcast_alert hmac env key alert_type message my_label w =
     (case build_packet hmac env key alert_type message my_label 1024 of
        None \<Rightarrow> (None, w)
      | Some packet \<Rightarrow>
          let ips = enumerate 0 (peers w) in
          (Some (packet, map (p_ip \<circ> snd) (filter (\<lambda>(i, p). send_one env i p) ips),
              length (filter (\<lambda>(i, p). \<not> send_one env i p) ips)),
           log_alert env alert_type my_label message w))"

fun reject_reason :: "int \<Rightarrow> string" where
  "reject_reason r =
     (if r = -2 then ''UNAUTHORIZED_PEER''
      else if r = -3 then ''TIMESTAMP_REJECTED''
      else if r = -4 then ''REPLAY_REJECTED''
      else if r = -5 then ''AUTHENTICATION_FAILED''
      else ''INVALID'')"

definition listen_step ::
  "hmac \<Rightarrow> string \<Rightarrow> alert_node \<Rightarrow> alert_env \<times> string option \<times> string option
    \<Rightarrow> alert_result option \<times> alert_node" where
  \<comment> \<open>one turn of the loop of \<open>listen_mode\<close>: the bytes received (\<open>None\<close>: \<open>n <= 0\<close>) and the
    sender's address as \<open>inet_ntop\<close> prints it\<close>
  "listen_step hmac key w e =
     (case e of
        (env, Some data, Some from_ip) \<Rightarrow>
          if data = [] then (None, w)
          else
            (case parse_and_verify_packet hmac env key (cstr (take 1023 data)) from_ip
                MAX_TYPE MAX_LABEL MAX_ALERT w of
               (Rejected r, w) \<Rightarrow>
                 (Some (Rejected r), log_alert env ''COMMUNITY_ALERT_REJECTED'' from_ip (reject_reason r) w)
             | (Accepted ty origin message, w) \<Rightarrow>
                 (Some (Accepted ty origin message), log_alert env ty origin message w))
      | _ \<Rightarrow> (None, w))"

definition listen_start :: "alert_env \<Rightarrow> bool \<Rightarrow> bool \<Rightarrow> string \<Rightarrow> alert_node \<Rightarrow> bool \<times> alert_node" where
  \<comment> \<open>\<open>socket\<close> and \<open>bind\<close>, then the announcement of the node; the loop runs when the first
    component holds\<close>
  "listen_start env socket_ok bind_ok my_label w =
     (if \<not> socket_ok \<or> \<not> bind_ok then (False, w)
      else (True, log_alert env ''NODE_ONLINE'' my_label ''nodo activo y escuchando'' w))"

datatype alert_mode = UsageError | NoKey | Listen string string | Send string string string string | BadArguments

definition alert_main :: "string list \<Rightarrow> string option \<Rightarrow> string option \<Rightarrow> alert_node \<Rightarrow> alert_mode \<times> alert_node" where
  "alert_main argv key_file config w =
     (if length argv < 2 then (UsageError, w)
      else case load_key key_file of
        None \<Rightarrow> (NoKey, w)
      | Some key \<Rightarrow>
          let w = load_peers config w in
          if argv ! 1 = ''listen'' \<and> length argv \<ge> 3 then (Listen key (argv ! 2), w)
          else if argv ! 1 = ''send'' \<and> length argv \<ge> 5
            then (Send key (argv ! 2) (argv ! 3) (argv ! 4), w)
          else (BadArguments, w))"


section \<open>Built packets\<close>

definition alert_canonical :: "int \<Rightarrow> string \<Rightarrow> string \<Rightarrow> string \<Rightarrow> string \<Rightarrow> string" where
  "alert_canonical ts nonce ty lab msg = join BAR [ALERT_VERSION, int_str ts, nonce, ty, lab, msg]"

lemma build_packet_Some:
  assumes "build_packet hmac env key ty msg lab sz = Some packet"
  obtains n t mac where "ae_random env = Some n" "ae_time env = int t"
    "BAR \<notin> set ty" "BAR \<notin> set msg" "BAR \<notin> set lab"
    "make_hmac hmac key (alert_canonical (int t) (hex_of n) ty lab msg) = Some mac"
    "length (alert_canonical (int t) (hex_of n) ty lab msg) < 768"
    "packet = alert_canonical (int t) (hex_of n) ty lab msg @ BAR # hex_of mac" "length packet < sz"
proof -
  from assms have "0 \<le> ae_time env" by (auto simp: build_packet_def Let_def split: if_splits option.splits)
  then obtain t where t: "ae_time env = int t" by (metis nonneg_int_cases)
  with assms show thesis
    by (auto simp: build_packet_def alert_canonical_def Let_def split: if_splits option.splits
        intro!: that [OF _ t])
qed

lemma make_hmac_length: "make_hmac hmac key c = Some mac \<Longrightarrow> length mac = 32"
  by (auto simp: make_hmac_def split: option.splits if_splits)

lemma BAR_not_version: "BAR \<notin> set ALERT_VERSION" "ALERT_VERSION \<noteq> []"
  by (simp_all add: ALERT_VERSION_def)

lemma alert_packet_join:
  "alert_canonical (int t) n ty lab msg @ BAR # m = join BAR [ALERT_VERSION, nat_str t, n, ty, lab, msg, m]"
  by (simp add: alert_canonical_def)

lemma alert_fields:
  assumes "BAR \<notin> set n" "BAR \<notin> set ty" "BAR \<notin> set lab" "BAR \<notin> set msg" "BAR \<notin> set m"
  shows "split_on BAR (alert_canonical (int t) n ty lab msg @ BAR # m)
    = [ALERT_VERSION, nat_str t, n, ty, lab, msg, m]"
  unfolding alert_packet_join
  by (rule split_on_join) (use assms BAR_not_version in \<open>auto simp: cstr_simps\<close>)

lemma alert_packet_fields:
  assumes "BAR \<notin> set n" "BAR \<notin> set ty" "BAR \<notin> set lab" "BAR \<notin> set msg" "BAR \<notin> set m"
    and "n \<noteq> []" "ty \<noteq> []" "lab \<noteq> []" "msg \<noteq> []" "m \<noteq> []"
  shows "packet_fields (alert_canonical (int t) n ty lab msg @ BAR # m)
    = [ALERT_VERSION, nat_str t, n, ty, lab, msg, m]"
  unfolding packet_fields_def strtok_all_def alert_fields [OF assms(1-5)]
  using assms(6-) BAR_not_version by simp

lemma hex_to_bytes_hex: "length bs = n \<Longrightarrow> hex_to_bytes (hex_of bs) n = Some bs"
  using hex_bytes_roundtrip [of bs] by (simp add: hex_to_bytes_def)

lemma strtoll_nat_str: "t < 2 ^ 63 \<Longrightarrow> c_strtoll (nat_str t) = int t \<and> \<not> strtoll_overflows (nat_str t)"
  by (simp add: c_strtoll_def strtoll_overflows_def strtol_raw_nat_str)

lemma hex_of_nonempty: "length bs \<noteq> 0 \<Longrightarrow> hex_of bs \<noteq> []"
  by (cases bs) simp_all

lemma hex_of_no_bar: "BAR \<notin> set (hex_of bs)"
  by (rule hex_of_free) simp

text \<open>What the checks say of a packet that \<open>build_packet\<close> made.\<close>

lemma verify_built:
  assumes mac: "make_hmac hmac key (alert_canonical (int t) (hex_of n) ty lab msg) = Some mac"
    and len: "length (alert_canonical (int t) (hex_of n) ty lab msg) < 768"
    and f: "BAR \<notin> set ty" "BAR \<notin> set lab" "BAR \<notin> set msg" "ty \<noteq> []" "lab \<noteq> []" "msg \<noteq> []"
    and n: "length n = 16" and t: "t < 2 ^ 63"
    and w: "peer_allowed w ip" "\<not> nonce_seen env w (hex_of n)"
    and now: "0 \<le> ae_time env" "\<bar>ae_time env - int t\<bar> \<le> 300"
  shows "verify_packet hmac env key (alert_canonical (int t) (hex_of n) ty lab msg @ BAR # hex_of mac) ip w = 0"
    and "packet_fields (alert_canonical (int t) (hex_of n) ty lab msg @ BAR # hex_of mac)
      = [ALERT_VERSION, nat_str t, hex_of n, ty, lab, msg, hex_of mac]"
proof -
  note m = make_hmac_length [OF mac]
  have ne: "hex_of n \<noteq> []" "hex_of mac \<noteq> []" using n m by (simp_all add: hex_of_nonempty)
  show fs: "packet_fields (alert_canonical (int t) (hex_of n) ty lab msg @ BAR # hex_of mac)
      = [ALERT_VERSION, nat_str t, hex_of n, ty, lab, msg, hex_of mac]"
    using f ne by (intro alert_packet_fields) (simp_all add: hex_of_no_bar)
  have can: "join BAR [ALERT_VERSION, nat_str t, hex_of n, ty, lab, msg] = alert_canonical (int t) (hex_of n) ty lab msg"
    by (simp add: alert_canonical_def)
  have win: "\<not> ae_time env + 300 < int t" "\<not> int t < ae_time env - 300" using now(2) by linarith+
  have "length (alert_canonical (int t) (hex_of n) ty lab msg @ BAR # hex_of mac) < 1024"
    using len m by simp
  then show "verify_packet hmac env key (alert_canonical (int t) (hex_of n) ty lab msg @ BAR # hex_of mac) ip w = 0"
    using strtoll_nat_str [OF t] n m w now(1) win len mac
    by (simp add: verify_packet_def fs Let_def can hex_to_bytes_hex MAX_CLOCK_SKEW_def del: join.simps)
qed

definition storage_good :: "alert_env \<Rightarrow> bool" where
  "storage_good env \<longleftrightarrow> ae_nonce_append env \<and> ae_nonce_torn env = None \<and> ae_nonce_fsync env"

lemma remember_good: "storage_good env \<Longrightarrow> remember_nonce env n w
    = (0, w\<lparr>nonces := Some ((case nonces w of None \<Rightarrow> [] | Some c \<Rightarrow> c) @ n @ [NL])\<rparr>)"
  by (simp add: storage_good_def remember_nonce_def Let_def)

lemma parse_built:
  assumes built: "build_packet hmac env key ty msg lab 1024 = Some packet"
    and "ae_random env = Some n" "length n = 16" "ae_time env < 2 ^ 63"
    and "ty \<noteq> []" "lab \<noteq> []" "msg \<noteq> []" "length ty < MAX_TYPE" "length lab < MAX_LABEL" "length msg < MAX_ALERT"
    and "peer_allowed w ip" "\<not> nonce_seen env' w (hex_of n)" "storage_good env'"
    and "0 \<le> ae_time env'" "\<bar>ae_time env' - ae_time env\<bar> \<le> MAX_CLOCK_SKEW"
  shows "parse_and_verify_packet hmac env' key packet ip MAX_TYPE MAX_LABEL MAX_ALERT w =
    (Accepted ty lab msg, w\<lparr>nonces := Some ((case nonces w of None \<Rightarrow> [] | Some c \<Rightarrow> c) @ hex_of n @ [NL])\<rparr>)"
proof (rule build_packet_Some [OF built])
  fix n' t mac
  assume 1: "ae_random env = Some n'" "ae_time env = int t" "BAR \<notin> set ty" "BAR \<notin> set msg" "BAR \<notin> set lab"
    "make_hmac hmac key (alert_canonical (int t) (hex_of n') ty lab msg) = Some mac"
    "length (alert_canonical (int t) (hex_of n') ty lab msg) < 768"
    "packet = alert_canonical (int t) (hex_of n') ty lab msg @ BAR # hex_of mac"
  with assms(2) have n: "n' = n" by simp
  have "t < 2 ^ 63" using 1(2) assms(4) by simp
  moreover have "\<bar>ae_time env' - int t\<bar> \<le> 300" using assms(15) 1(2) by (simp add: MAX_CLOCK_SKEW_def)
  ultimately have v: "verify_packet hmac env' key packet ip w = 0"
    "packet_fields packet = [ALERT_VERSION, nat_str t, hex_of n, ty, lab, msg, hex_of mac]"
    using verify_built [OF 1(6,7,3,5,4) assms(5-7) _ _ assms(11) _ assms(14)] assms(3,12) 1(8) n by simp_all
  show ?thesis
    using assms(8-10) by (simp add: parse_and_verify_packet_def v Let_def remember_good [OF assms(13)])
qed


text \<open>C8: Round trip: a packet that a node built for an alert whose type, origin and message are not empty and shorter than 64, 64 and 300
  bytes, with a nonce of 16 bytes and at a time of the clock below \<open>2 ^ 63\<close>, is accepted by every peer that lists the sender, whose
  clock is not negative and within 300 seconds of the sender's, that has not seen the nonce and can store it, and yields exactly the
  type, origin and message that were sent; the only change of the receiver is the appended nonce.\<close>

theorem alert_roundtrip:
  assumes built: "build_packet hmac env key ty msg lab 1024 = Some packet"
    and "ae_random env = Some n" "length n = 16" "ae_time env < 2 ^ 63"
    and "ty \<noteq> []" "lab \<noteq> []" "msg \<noteq> []" "length ty < MAX_TYPE" "length lab < MAX_LABEL" "length msg < MAX_ALERT"
    and "peer_allowed w ip" "\<not> nonce_seen env' w (hex_of n)" "storage_good env'"
    and "0 \<le> ae_time env'" "\<bar>ae_time env' - ae_time env\<bar> \<le> MAX_CLOCK_SKEW"
  shows "parse_and_verify_packet hmac env' key packet ip MAX_TYPE MAX_LABEL MAX_ALERT w =
    (Accepted ty lab msg, w\<lparr>nonces := Some ((case nonces w of None \<Rightarrow> [] | Some c \<Rightarrow> c) @ hex_of n @ [NL])\<rparr>)"
  using assms by (rule parse_built)

section \<open>The nonce file\<close>

definition nonce_recorded :: "string \<Rightarrow> alert_node \<Rightarrow> bool" where
  \<comment> \<open>among the lines that \<open>nonce_seen\<close> reads\<close>
  "nonce_recorded n w \<longleftrightarrow> (\<exists>ls d. nonces w = Some (unlines ls @ d) \<and> short_lines 127 ls \<and>
     n \<in> set (take MAX_SEEN_NONCES ls))"

lemma nonce_line: "NL \<notin> set n \<Longrightarrow> CR \<notin> set n \<Longrightarrow> NUL \<notin> set n \<Longrightarrow> cut_eol (cstr (n @ [NL])) = n"
  by (simp add: cut_eol_line)

lemma nonce_recorded_seen:
  assumes "nonce_recorded n w" and "NL \<notin> set n" "CR \<notin> set n" "NUL \<notin> set n" and "ae_nonce_read env"
  shows "nonce_seen env w n"
proof -
  from assms(1) obtain ls d where c: "nonces w = Some (unlines ls @ d)" and sh: "short_lines 127 ls"
    and n: "n \<in> set (take MAX_SEEN_NONCES ls)" by (auto simp: nonce_recorded_def)
  have "set (map (\<lambda>l. l @ [NL]) (take MAX_SEEN_NONCES ls))
      \<subseteq> set (take MAX_SEEN_NONCES (read_lines 127 (unlines ls @ d)))"
    unfolding read_lines_unlines_append [OF sh] take_append take_map by auto
  with n have "n @ [NL] \<in> set (take MAX_SEEN_NONCES (read_lines 127 (unlines ls @ d)))" by auto
  then have "list_ex (\<lambda>line. cut_eol (cstr line) = n) (take MAX_SEEN_NONCES (read_lines 127 (unlines ls @ d)))"
    unfolding list_ex_iff using nonce_line [OF assms(2-4)] by blast
  with c assms(5) show ?thesis by (simp add: nonce_seen_def)
qed

definition node_below :: "alert_node \<Rightarrow> alert_node \<Rightarrow> bool" where
  "node_below s t \<longleftrightarrow> peers t = peers s \<and>
     (\<forall>c. nonces s = Some c \<longrightarrow> (\<exists>d. nonces t = Some (c @ d)))"

definition node_step :: "hmac \<Rightarrow> string \<Rightarrow> alert_node \<Rightarrow> alert_env \<times> string option \<times> string option \<Rightarrow> alert_node" where
  "node_step hmac key w e = snd (listen_step hmac key w e)"

lemma node_below_refl: "node_below s s"
  by (simp add: node_below_def)

lemma node_below_trans: "node_below s t \<Longrightarrow> node_below t u \<Longrightarrow> node_below s u"
  by (fastforce simp: node_below_def)

lemma log_alert_keeps [simp]: "nonces (log_alert env ty orig msg w) = nonces w"
  "peers (log_alert env ty orig msg w) = peers w"
  by (simp_all add: log_alert_def Let_def)

lemma remember_below: "node_below w (snd (remember_nonce env n w))"
  by (auto simp: remember_nonce_def node_below_def Let_def split: option.splits)

lemma parse_below: "node_below w (snd (parse_and_verify_packet hmac env key p ip a b c w))"
  using remember_below [of w env "packet_fields p ! 2"]
  by (auto simp: parse_and_verify_packet_def Let_def split_beta node_below_refl)

lemma node_step_below: "node_below w (node_step hmac key w e)"
proof -
  have log: "node_below w (log_alert env ty orig msg v)" if "node_below w v" for env ty orig msg v
    using that by (simp add: node_below_def)
  obtain env data ip where e: "e = (env, data, ip)" by (cases e) auto
  show ?thesis
  proof (cases "data = None \<or> data = Some [] \<or> ip = None")
    case True
    then show ?thesis
      by (cases data; cases ip) (auto simp: node_step_def listen_step_def e node_below_refl)
  next
    case False
    then obtain d i where di: "data = Some d" "ip = Some i" "d \<noteq> []" by auto
    obtain r v where rv: "parse_and_verify_packet hmac env key (cstr (take 1023 d)) i MAX_TYPE MAX_LABEL MAX_ALERT w = (r, v)"
      by (cases "parse_and_verify_packet hmac env key (cstr (take 1023 d)) i MAX_TYPE MAX_LABEL MAX_ALERT w")
    have "node_below w v" using parse_below [of w hmac env key "cstr (take 1023 d)" i MAX_TYPE MAX_LABEL MAX_ALERT] rv by simp
    with di rv show ?thesis by (cases r) (simp_all add: node_step_def listen_step_def e log)
  qed
qed

interpretation am: growing_machine "node_step hmac key" "\<lambda>_. True" "\<lambda>_. True" node_below for hmac key
  by unfold_locales (auto intro: node_below_refl node_below_trans node_step_below)

lemma nonce_recorded_below: "nonce_recorded n s \<Longrightarrow> node_below s t \<Longrightarrow> nonce_recorded n t"
  by (fastforce simp: nonce_recorded_def node_below_def)

lemma verify_seen_nonzero:
  "nonce_seen env w (packet_fields p ! 2) \<Longrightarrow> verify_packet hmac env key p ip w \<noteq> 0"
  by (auto simp: verify_packet_def Let_def)

lemma parse_Accepted:
  assumes "parse_and_verify_packet hmac env key p ip a b c w = (Accepted ty orig msg, w')"
  shows "verify_packet hmac env key p ip w = 0"
    and "remember_nonce env (packet_fields p ! 2) w = (0, w')"
    and "ty = packet_fields p ! 3" "orig = packet_fields p ! 4" "msg = packet_fields p ! 5"
    and "length ty < a" "length orig < b" "length msg < c"
  using assms by (auto simp: parse_and_verify_packet_def Let_def split: if_splits prod.splits)

lemma remember_zero: "remember_nonce env n w = (0, w') \<Longrightarrow>
    w' = w\<lparr>nonces := Some ((case nonces w of None \<Rightarrow> [] | Some c \<Rightarrow> c) @ n @ [NL])\<rparr>"
  by (auto simp: remember_nonce_def Let_def split: option.splits if_splits)

lemma verify_zero_nonce: "verify_packet hmac env key p ip w = 0 \<Longrightarrow> length (packet_fields p ! 2) = 32"
  by (auto simp: verify_packet_def Let_def split: if_splits)

text \<open>C9: Replay protection: once a node has accepted a packet while its nonce file held fewer than
  4096 complete lines, no packet that carries the same nonce is accepted again: not after any number of
  further datagrams (with any failures of storage), not at any later time, not from any peer, as long
  as the nonce file can be read. The nonce is assumed free of line breaks, as every honest sender's is.\<close>

theorem alert_replay_rejected:
  assumes acc: "parse_and_verify_packet hmac env key p ip a b c w = (Accepted ty orig msg, w')"
    and "(case nonces w of None \<Rightarrow> [] | Some c \<Rightarrow> c) = unlines ls" and "short_lines 127 ls"
    and "length ls < MAX_SEEN_NONCES"
    and n: "NL \<notin> set (packet_fields p ! 2)" "CR \<notin> set (packet_fields p ! 2)" "NUL \<notin> set (packet_fields p ! 2)"
    and run: "foldl (node_step hmac key) w' es = w''"
    and same: "packet_fields p' ! 2 = packet_fields p ! 2" and rd: "ae_nonce_read env'"
  shows "\<exists>r. parse_and_verify_packet hmac env' key p' ip' a' b' c' w'' = (Rejected r, w'')"
proof -
  note pa = parse_Accepted [OF acc]
  let ?n = "packet_fields p ! 2"
  have "nonces w' = Some (unlines (ls @ [?n]) @ [])"
    using remember_zero [OF pa(2)] assms(2) by simp
  moreover have "short_lines 127 (ls @ [?n])"
    using assms(3) n verify_zero_nonce [OF pa(1)] by simp
  moreover have "?n \<in> set (take MAX_SEEN_NONCES (ls @ [?n]))" using assms(4) by simp
  ultimately have "nonce_recorded ?n w'" unfolding nonce_recorded_def by blast
  moreover have "node_below w' w''"
    using am.run_grows [of es w' hmac key] run by (simp add: list_all_iff)
  ultimately have "nonce_recorded ?n w''" by (rule nonce_recorded_below)
  then have "nonce_seen env' w'' (packet_fields p' ! 2)"
    unfolding same by (rule nonce_recorded_seen) (use n rd in auto)
  then have "verify_packet hmac env' key p' ip' w'' \<noteq> 0" by (rule verify_seen_nonzero)
  then show ?thesis by (simp add: parse_and_verify_packet_def Let_def)
qed

text \<open>The replay window is bounded by the wrong end of the file: \<open>nonce_seen\<close> reads the first
  4096 lines, but nonces are appended at the end. Once the file holds 4096 lines, a packet that has
  just been accepted is accepted a second time, unchanged, from the same peer at the same time.\<close>

theorem alert_replay_accepted_when_full:
  assumes acc: "parse_and_verify_packet hmac env key p ip a b c w = (Accepted ty orig msg, w')"
    and "nonces w = Some (unlines ls)" and sh: "short_lines 127 ls" and "MAX_SEEN_NONCES \<le> length ls"
  shows "fst (parse_and_verify_packet hmac env key p ip a b c w') = Accepted ty orig msg"
proof -
  note pa = parse_Accepted [OF acc]
  note w' = remember_zero [OF pa(2)]
  have "take MAX_SEEN_NONCES (read_lines 127 (unlines ls @ d)) = map (\<lambda>l. l @ [NL]) (take MAX_SEEN_NONCES ls)" for d
    using assms(4) unfolding read_lines_unlines_append [OF sh] by (simp add: take_map)
  from this this [of "[]"] have seen: "nonce_seen env w' n = nonce_seen env w n" for n
    using assms(2) by (simp add: nonce_seen_def w')
  have "peer_allowed w' ip = peer_allowed w ip" by (simp add: peer_allowed_def w')
  then have "verify_packet hmac env key p ip w' = verify_packet hmac env key p ip w"
    unfolding verify_packet_def seen by (simp only:)
  moreover obtain w2 where "remember_nonce env (packet_fields p ! 2) w' = (0, w2)"
    using pa(2) by (auto simp: remember_nonce_def Let_def split: option.splits if_splits)
  ultimately show ?thesis
    using pa(1,3-8) by (simp add: parse_and_verify_packet_def Let_def not_le)
qed


text \<open>C10: Authenticity: whatever bytes arrive, an alert is accepted only if the sender's address is an
  authorised peer, the packet's time stamp is within 300 seconds of the clock, its nonce was not seen,
  and its last field spells the HMAC, under the node's key, of the canonical text of exactly the type,
  origin and message that are reported.\<close>

theorem alert_accept_sound:
  assumes "parse_and_verify_packet hmac env key p ip a b c w = (Accepted ty orig msg, w')"
  shows "peer_allowed w ip \<and> \<not> nonce_seen env w (packet_fields p ! 2) \<and>
    \<bar>c_strtoll (packet_fields p ! 1) - ae_time env\<bar> \<le> MAX_CLOCK_SKEW \<and>
    (\<exists>mac. hex_to_bytes (packet_fields p ! 6) 32 = Some mac \<and>
       make_hmac hmac key (join BAR [ALERT_VERSION, packet_fields p ! 1, packet_fields p ! 2, ty, orig, msg]) = Some mac)"
proof -
  note pa = parse_Accepted [OF assms]
  let ?fs = "packet_fields p"
  have v: "length ?fs = 7" "?fs ! 0 = ALERT_VERSION" "peer_allowed w ip" "\<not> nonce_seen env w (?fs ! 2)"
    "\<not> c_strtoll (?fs ! 1) > ae_time env + MAX_CLOCK_SKEW" "\<not> c_strtoll (?fs ! 1) < ae_time env - MAX_CLOCK_SKEW"
    "\<exists>mac. hex_to_bytes (?fs ! 6) 32 = Some mac \<and> make_hmac hmac key (join BAR (take 6 ?fs)) = Some mac"
    using pa(1) by (auto simp: verify_packet_def Let_def split: if_splits option.splits)
  obtain f0 f1 f2 f3 f4 f5 f6 where "?fs = [f0, f1, f2, f3, f4, f5, f6]"
    using v(1) by (auto simp: length_Suc_conv numeral_eq_Suc)
  with v pa(3-5) show ?thesis by (auto simp: abs_le_iff)
qed

lemma verify_zero_seven: "verify_packet hmac env key p ip w = 0 \<Longrightarrow> length (packet_fields p) = 7"
  by (auto simp: verify_packet_def Let_def split: if_splits)

text \<open>Senders can build alerts that nobody accepts: \<open>build_packet\<close> checks neither for empty fields
  (which \<open>strtok_r\<close> skips on the other side) nor for the sizes of the receiver's buffers. Every packet
  built from an empty or over-long type, label or message is refused by every node in every state.\<close>

theorem alert_unreadable_packets:
  assumes built: "build_packet hmac env key ty msg lab 1024 = Some packet" and "ae_random env = Some n" "length n = 16"
    and bad: "ty = [] \<or> lab = [] \<or> msg = [] \<or> length ty \<ge> MAX_TYPE \<or> length lab \<ge> MAX_LABEL \<or> length msg \<ge> MAX_ALERT"
  shows "\<exists>r. fst (parse_and_verify_packet hmac' env' key' packet ip MAX_TYPE MAX_LABEL MAX_ALERT w) = Rejected r"
proof (rule build_packet_Some [OF built])
  fix n' t mac
  assume 1: "ae_random env = Some n'" "ae_time env = int t" "BAR \<notin> set ty" "BAR \<notin> set msg" "BAR \<notin> set lab"
    "make_hmac hmac key (alert_canonical (int t) (hex_of n') ty lab msg) = Some mac"
    "packet = alert_canonical (int t) (hex_of n') ty lab msg @ BAR # hex_of mac"
  have ne: "hex_of n' \<noteq> []" "hex_of mac \<noteq> []"
    using make_hmac_length [OF 1(6)] assms(2,3) 1(1) by (simp_all add: hex_of_nonempty)
  show ?thesis
  proof (cases "parse_and_verify_packet hmac' env' key' packet ip MAX_TYPE MAX_LABEL MAX_ALERT w")
    case (Pair r w')
    show ?thesis
    proof (cases r)
      case (Accepted ty' orig' msg')
      note pa = parse_Accepted [OF Pair [unfolded Accepted]]
      let ?fs = "[ALERT_VERSION, nat_str t, hex_of n', ty, lab, msg, hex_of mac]"
      have sp: "split_on BAR packet = ?fs" unfolding 1(7) by (rule alert_fields) (use 1 in \<open>auto simp: hex_of_no_bar\<close>)
      show ?thesis
      proof (cases "[] \<in> set ?fs")
        case True
        then have "length (packet_fields packet) < length ?fs"
          unfolding packet_fields_def strtok_all_def sp
          using length_filter_less [of "[]" ?fs "\<lambda>f. f \<noteq> []"] by simp
        with verify_zero_seven [OF pa(1)] show ?thesis by simp
      next
        case False
        then have f: "ty \<noteq> []" "lab \<noteq> []" "msg \<noteq> []" by auto
        have "packet_fields packet = ?fs"
          unfolding 1(7) by (rule alert_packet_fields) (use 1 ne f in \<open>auto simp: hex_of_no_bar\<close>)
        with pa(3-8) bad f show ?thesis by simp
      qed
    qed (simp add: Pair)
  qed
qed

section \<open>Authorised peers\<close>

definition peer_ok :: "peer \<Rightarrow> bool" where
  "peer_ok p \<longleftrightarrow> inet_pton4 (p_ip p) \<and> length (p_ip p) < INET_ADDRSTRLEN \<and>
     p_label p \<noteq> [] \<and> length (p_label p) < MAX_LABEL"

lemma peer_of_line_ok: "peer_of_line raw = Some p \<Longrightarrow> peer_ok p"
proof -
  assume "peer_of_line raw = Some p"
  then obtain ip label where s: "scan_peer (cstr raw) = Some (ip, label)" and v: "inet_pton4 ip"
    and p: "p = \<lparr>p_ip = take 15 ip, p_label = take 63 label\<rparr>"
    by (auto simp: peer_of_line_def Let_def INET_ADDRSTRLEN_def MAX_LABEL_def split: option.splits if_splits)
  from s have "length ip \<le> 15" "length label \<le> 63" "label \<noteq> []"
    by (auto simp: scan_peer_def Let_def split: list.splits if_splits)
  with v p show ?thesis by (simp add: peer_ok_def INET_ADDRSTRLEN_def MAX_LABEL_def)
qed

lemma load_peer_lines_ok:
  "list_all peer_ok ps \<Longrightarrow> length ps \<le> MAX_PEERS \<Longrightarrow>
     list_all peer_ok (load_peer_lines ps raws) \<and> length (load_peer_lines ps raws) \<le> MAX_PEERS"
  by (induction ps raws rule: load_peer_lines.induct)
    (auto simp: peer_of_line_ok split: option.splits)

text \<open>Whatever the configuration file holds, a node never has more than 32 peers, each with a valid
  IPv4 address in its 16-byte buffer and a non-empty label in its 64-byte buffer; in a later broadcast
  the address conversion therefore never fails, and a peer is missed only by the network.\<close>

theorem alert_peers_bounded:
  assumes "list_all peer_ok (peers w)" and "length (peers w) \<le> MAX_PEERS"
  shows "length (peers (load_peers config w)) \<le> MAX_PEERS \<and> list_all peer_ok (peers (load_peers config w)) \<and>
    list_all (\<lambda>(i, p). send_one env i p = (fst (ae_send env i) \<and> snd (ae_send env i)))
      (enumerate 0 (peers (load_peers config w)))"
proof -
  have ok: "list_all peer_ok (peers (load_peers config w)) \<and> length (peers (load_peers config w)) \<le> MAX_PEERS"
    using load_peer_lines_ok [OF assms] assms by (auto simp: load_peers_def split: option.split)
  moreover have "list_all (\<lambda>(i, p). send_one env i p = (fst (ae_send env i) \<and> snd (ae_send env i))) (enumerate 0 ps)"
    if "list_all peer_ok ps" for ps
    using that by (auto simp: list_all_iff send_one_def peer_ok_def in_set_enumerate_eq)
  ultimately show ?thesis by blast
qed


section \<open>Examples\<close>

definition demo_hmac :: hmac where
  "demo_hmac key c = Some (replicate 32 (CHR ''K''))"

definition demo_key :: string where
  "demo_key = replicate 32 (CHR ''k'')"

definition alert_env0 :: alert_env where
  "alert_env0 = \<lparr>ae_time = 1000, ae_tm = None, ae_random = Some (replicate 16 (CHR ''N'')), ae_nonce_read = True,
     ae_nonce_append = True, ae_nonce_torn = None, ae_nonce_fsync = True, ae_log_open = True,
     ae_exec = \<lparr>xe_fork_ok = True, xe_waits = [WaitDone (Exited 0)]\<rparr>, ae_send = \<lambda>_. (True, True)\<rparr>"

definition alert_node0 :: "string option \<Rightarrow> alert_node" where
  "alert_node0 ns = \<lparr>peers = [\<lparr>p_ip = ''10.0.0.1'', p_label = ''b''\<rparr>], nonces = ns, alerts = None, ledger_calls = []\<rparr>"

definition demo_packet :: "string \<Rightarrow> string" where
  "demo_packet msg = alert_canonical 1000 (hex_of (replicate 16 (CHR ''N''))) ''FIRE'' ''a'' msg
     @ BAR # hex_of (replicate 32 (CHR ''K''))"

lemma demo_built:
  assumes "BAR \<notin> set msg" and "length msg < 500"
  shows "build_packet demo_hmac alert_env0 key ''FIRE'' msg ''a'' 1024 = Some (demo_packet msg)"
proof -
  have i: "int_str 1000 = nat_str 1000" using int_str_of_nat [of 1000] by simp
  have n: "length (nat_str 1000) \<le> 4" by (rule nat_str_length_mono) simp_all
  let ?c = "join BAR [ALERT_VERSION, nat_str 1000, hex_of (replicate 16 (CHR ''N'')), ''FIRE'', ''a'', msg]"
  have l: "length ?c < 700" using n assms(2) by (simp add: ALERT_VERSION_def)
  then have "\<not> 768 \<le> length ?c" "\<not> 1024 \<le> length (?c @ BAR # hex_of (replicate 32 (CHR ''K'')))"
    by simp_all
  then show ?thesis using assms(1)
    by (simp add: build_packet_def alert_env0_def make_hmac_def demo_hmac_def Let_def i demo_packet_def
        alert_canonical_def del: join.simps hex_of_simps)
qed

lemma demo_env0: "ae_random alert_env0 = Some (replicate 16 (CHR ''N''))" "length (replicate 16 (CHR ''N'')) = 16"
  "ae_time alert_env0 < 2 ^ 63" "storage_good alert_env0" "0 \<le> ae_time alert_env0"
  "\<bar>ae_time alert_env0 - ae_time alert_env0\<bar> \<le> MAX_CLOCK_SKEW" "peer_allowed (alert_node0 ns) ''10.0.0.1''"
  "length ''FIRE'' < MAX_TYPE" "length ''a'' < MAX_LABEL" "length ''go'' < MAX_ALERT" "ae_nonce_read alert_env0"
  by (simp_all add: alert_env0_def storage_good_def MAX_CLOCK_SKEW_def peer_allowed_def alert_node0_def
      MAX_TYPE_def MAX_LABEL_def MAX_ALERT_def)

lemma demo_unseen: "\<not> nonce_seen alert_env0 (alert_node0 (Some (unlines (replicate k ''x'')))) (hex_of (replicate 16 (CHR ''N'')))"
proof -
  have "short_lines 127 (replicate k ''x'')" by (simp add: short_lines_def)
  note r = read_lines_unlines [OF this]
  have "length (cut_eol (cstr (''x'' @ [NL]))) \<noteq> length (hex_of (replicate 16 (CHR ''N'')))"
    by (simp add: cut_eol_def)
  then show ?thesis
    by (auto simp: nonce_seen_def alert_node0_def r list_ex_iff dest!: in_set_takeD simp del: hex_of_simps)
qed

lemma demo_accept: "\<exists>w'. parse_and_verify_packet demo_hmac alert_env0 key (demo_packet ''go'') ''10.0.0.1''
    MAX_TYPE MAX_LABEL MAX_ALERT (alert_node0 (Some (unlines (replicate k ''x'')))) = (Accepted ''FIRE'' ''a'' ''go'', w')"
  using parse_built [OF demo_built [of "''go''"] demo_env0(1-3) _ _ _ demo_env0(8-10) demo_env0(7) demo_unseen [of k]
      demo_env0(4-6)] by simp

theorem alert_roundtrip_witness:
  "fst (parse_and_verify_packet demo_hmac alert_env0 demo_key (demo_packet ''go'') ''10.0.0.1''
     MAX_TYPE MAX_LABEL MAX_ALERT (alert_node0 (Some (unlines (replicate 1 ''x''))))) = Accepted ''FIRE'' ''a'' ''go''"
  using alert_roundtrip [OF demo_built [of "''go''" demo_key] demo_env0(1-3) _ _ _ demo_env0(8-10) demo_env0(7) demo_unseen [of 1]
      demo_env0(4-6)] by simp

lemma demo_nonce: "packet_fields (demo_packet ''go'') ! 2 = hex_of (replicate 16 (CHR ''N''))"
proof -
  have "hex_of (replicate 16 (CHR ''N'')) \<noteq> []" "hex_of (replicate 32 (CHR ''K'')) \<noteq> []"
    by (simp_all add: hex_of_nonempty del: hex_of_simps)
  then have "packet_fields (alert_canonical (int 1000) (hex_of (replicate 16 (CHR ''N''))) ''FIRE'' ''a'' ''go''
      @ BAR # hex_of (replicate 32 (CHR ''K'')))
    = [ALERT_VERSION, nat_str 1000, hex_of (replicate 16 (CHR ''N'')), ''FIRE'', ''a'', ''go'', hex_of (replicate 32 (CHR ''K''))]"
    by (intro alert_packet_fields) (simp_all add: hex_of_no_bar del: hex_of_simps)
  then show ?thesis by (simp add: demo_packet_def del: hex_of_simps)
qed

theorem alert_replay_rejected_witness:
  "let w' = snd (parse_and_verify_packet demo_hmac alert_env0 demo_key (demo_packet ''go'') ''10.0.0.1''
       MAX_TYPE MAX_LABEL MAX_ALERT (alert_node0 (Some (unlines (replicate 1 ''x''))))) in
   \<exists>r. fst (parse_and_verify_packet demo_hmac alert_env0 demo_key (demo_packet ''go'') ''10.0.0.1''
     MAX_TYPE MAX_LABEL MAX_ALERT w') = Rejected r"
proof -
  obtain w' where acc: "parse_and_verify_packet demo_hmac alert_env0 demo_key (demo_packet ''go'') ''10.0.0.1''
      MAX_TYPE MAX_LABEL MAX_ALERT (alert_node0 (Some (unlines (replicate 1 ''x'')))) = (Accepted ''FIRE'' ''a'' ''go'', w')"
    using demo_accept by blast
  have c: "(case nonces (alert_node0 (Some (unlines (replicate 1 ''x'')))) of None \<Rightarrow> [] | Some c \<Rightarrow> c) = unlines [''x'']"
    by (simp add: alert_node0_def)
  have n: "NL \<notin> set (packet_fields (demo_packet ''go'') ! 2)" "CR \<notin> set (packet_fields (demo_packet ''go'') ! 2)"
    "NUL \<notin> set (packet_fields (demo_packet ''go'') ! 2)"
    unfolding demo_nonce by (simp_all add: cstr_simps del: hex_of_simps)
  have run: "foldl (node_step demo_hmac demo_key) w' [] = w'" by simp
  have ls: "short_lines 127 [''x'']" "length [''x''] < MAX_SEEN_NONCES" by (simp_all add: MAX_SEEN_NONCES_def)
  obtain r where "parse_and_verify_packet demo_hmac alert_env0 demo_key (demo_packet ''go'') ''10.0.0.1''
      MAX_TYPE MAX_LABEL MAX_ALERT w' = (Rejected r, w')"
    using alert_replay_rejected [OF acc c ls n run refl demo_env0(11)] by blast
  then show ?thesis unfolding acc Let_def snd_conv by (intro exI [of _ r]) (simp only: fst_conv)
qed

theorem alert_replay_accepted_when_full_witness:
  "let w' = snd (parse_and_verify_packet demo_hmac alert_env0 demo_key (demo_packet ''go'') ''10.0.0.1''
       MAX_TYPE MAX_LABEL MAX_ALERT (alert_node0 (Some (unlines (replicate 4096 ''x''))))) in
   fst (parse_and_verify_packet demo_hmac alert_env0 demo_key (demo_packet ''go'') ''10.0.0.1''
     MAX_TYPE MAX_LABEL MAX_ALERT w') = Accepted ''FIRE'' ''a'' ''go''"
proof -
  define k :: nat where "k = 4096"
  obtain w' where acc: "parse_and_verify_packet demo_hmac alert_env0 demo_key (demo_packet ''go'') ''10.0.0.1''
      MAX_TYPE MAX_LABEL MAX_ALERT (alert_node0 (Some (unlines (replicate k ''x'')))) = (Accepted ''FIRE'' ''a'' ''go'', w')"
    using demo_accept by blast
  have "nonces (alert_node0 (Some (unlines (replicate k ''x'')))) = Some (unlines (replicate k ''x''))"
    by (simp add: alert_node0_def)
  moreover have "short_lines 127 (replicate k ''x'')" by (simp add: short_lines_def)
  moreover have "MAX_SEEN_NONCES \<le> length (replicate k ''x'')" by (simp add: MAX_SEEN_NONCES_def k_def)
  ultimately have "fst (parse_and_verify_packet demo_hmac alert_env0 demo_key (demo_packet ''go'') ''10.0.0.1''
     MAX_TYPE MAX_LABEL MAX_ALERT w') = Accepted ''FIRE'' ''a'' ''go''"
    by (rule alert_replay_accepted_when_full [OF acc])
  with acc show ?thesis unfolding k_def by (simp only: Let_def snd_conv)
qed

theorem alert_accept_sound_witness:
  "peer_allowed (alert_node0 (Some (unlines (replicate 1 ''x'')))) ''10.0.0.1''"
proof -
  obtain w' where "parse_and_verify_packet demo_hmac alert_env0 ''k'' (demo_packet ''go'') ''10.0.0.1''
      MAX_TYPE MAX_LABEL MAX_ALERT (alert_node0 (Some (unlines (replicate 1 ''x'')))) = (Accepted ''FIRE'' ''a'' ''go'', w')"
    using demo_accept by blast
  from alert_accept_sound [OF this] show ?thesis by blast
qed

theorem alert_unreadable_packets_witness:
  "\<exists>r. fst (parse_and_verify_packet demo_hmac alert_env0 ''k'' (demo_packet (replicate 400 (CHR ''m''))) ''10.0.0.1''
     MAX_TYPE MAX_LABEL MAX_ALERT (alert_node0 None)) = Rejected r"
proof -
  have "build_packet demo_hmac alert_env0 ''k'' ''FIRE'' (replicate 400 (CHR ''m'')) ''a'' 1024
      = Some (demo_packet (replicate 400 (CHR ''m'')))" by (rule demo_built) simp_all
  from alert_unreadable_packets [OF this demo_env0(1,2)] show ?thesis by (simp add: MAX_ALERT_def)
qed

theorem alert_peers_bounded_witness:
  "length (peers (load_peers (Some ''10.0.0.2,c'') (alert_node0 None))) \<le> MAX_PEERS"
proof -
  have "list_all peer_ok (peers (alert_node0 None))" by code_simp
  moreover have "length (peers (alert_node0 None)) \<le> MAX_PEERS" by (simp add: alert_node0_def MAX_PEERS_def)
  ultimately show ?thesis using alert_peers_bounded [of "alert_node0 None" "Some ''10.0.0.2,c''"] by blast
qed

end
