(* ===== verification/ServiceRegistry.thy ===== *)
theory ServiceRegistry
  imports CTime
begin

text \<open>
  \<open>init/src/service_registry.c\<close>: the parser of \<open>services.conf\<close>, one service per line as
  \<open>name | executable | restart policy | max restarts\<close>, into a table of at most 32 services with
  fixed-size text fields; and \<open>init/src/logger.c\<close>, the log of the init process. The registry is
  the list of its first \<open>count\<close> entries. The pointers the callers pass are never \<open>NULL\<close>.
\<close>

definition CHRONO_MAX_SERVICES :: nat where "CHRONO_MAX_SERVICES = 32"
definition CHRONO_NAME_MAX :: nat where "CHRONO_NAME_MAX = 64"
definition CHRONO_PATH_MAX :: nat where "CHRONO_PATH_MAX = 256"
definition CHRONO_POLICY_MAX :: nat where "CHRONO_POLICY_MAX = 32"

record service =
  s_name :: string
  s_executable :: string
  s_restart_policy :: string
  s_max_restarts :: int

type_synonym registry = "service list"

section \<open>Parsing\<close>

definition trim_text :: "string \<Rightarrow> string" where
  "trim_text text = rev (dropWhile c_isspace (rev (dropWhile c_isspace text)))"

definition service_of_fields :: "string \<Rightarrow> string \<Rightarrow> string \<Rightarrow> string \<Rightarrow> service option" where
  \<comment> \<open>the length checks and the copy into an entry\<close>
  "service_of_fields name executable policy max_restarts =
     (if length name \<ge> CHRONO_NAME_MAX \<or> length executable \<ge> CHRONO_PATH_MAX \<or> length policy \<ge> CHRONO_POLICY_MAX
      then None
      else Some \<lparr>s_name = snprintf_buf CHRONO_NAME_MAX name,
                 s_executable = snprintf_buf CHRONO_PATH_MAX executable,
                 s_restart_policy = snprintf_buf CHRONO_POLICY_MAX policy,
                 s_max_restarts = (if c_atoi max_restarts < 0 then 0 else c_atoi max_restarts)\<rparr>)"

fun load_services :: "registry \<Rightarrow> string list \<Rightarrow> registry" where
  \<comment> \<open>the loop of \<open>service_registry_load\<close> over the lines \<open>fgets\<close> returns\<close>
  "load_services reg [] = reg"
| "load_services reg (raw # raws) =
     (let clean = trim_text (cstr raw) in
      if clean = [] \<or> hd clean = CHR ''#'' then load_services reg raws
      else
        let fields = map trim_text (take 4 (strtok_all BAR clean)) in
        if length fields < 4 then load_services reg raws
        else if length reg \<ge> CHRONO_MAX_SERVICES then reg
        else case service_of_fields (fields ! 0) (fields ! 1) (fields ! 2) (fields ! 3) of
               None \<Rightarrow> load_services reg raws
             | Some service \<Rightarrow> load_services (reg @ [service]) raws)"

definition service_registry_load :: "string option \<Rightarrow> int \<times> registry" where
  "service_registry_load file =
     (case file of
        None \<Rightarrow> (-1, [])
      | Some c \<Rightarrow> (let reg = load_services [] (read_lines 511 c) in (int (length reg), reg)))"

definition service_line :: "service \<Rightarrow> string" where
  "service_line s = s_name s @ '' | '' @ s_executable s @ '' | '' @ s_restart_policy s @ '' | '' @ int_str (s_max_restarts s)"

definition service_registry_print :: "registry \<Rightarrow> string" where
  "service_registry_print reg =
     ''Services loaded: '' @ int_str (int (length reg)) @ [NL]
     @ concat (map (\<lambda>s. ''SERVICE: '' @ s_name s @ '' | '' @ s_executable s @ '' | '' @ s_restart_policy s
         @ '' | max='' @ int_str (s_max_restarts s) @ [NL]) reg)"

section \<open>The init log\<close>

definition chrono_log :: "bool \<Rightarrow> tm \<Rightarrow> string \<Rightarrow> string \<Rightarrow> string \<Rightarrow> string option \<Rightarrow> string option" where
  \<comment> \<open>\<open>open_ok\<close>: \<open>fopen(LOG_FILE, "a")\<close>\<close>
  "chrono_log open_ok now level component message log =
     (if \<not> open_ok then log
      else Some ((case log of None \<Rightarrow> [] | Some c \<Rightarrow> c) @ fmt_plain now @ '' ['' @ level @ ''] ['' @ component
        @ ''] '' @ message @ [NL]))"

section \<open>Well-formed registries\<close>

definition service_ok :: "service \<Rightarrow> bool" where
  "service_ok s \<longleftrightarrow> length (s_name s) < CHRONO_NAME_MAX \<and> length (s_executable s) < CHRONO_PATH_MAX \<and>
     length (s_restart_policy s) < CHRONO_POLICY_MAX \<and> 0 \<le> s_max_restarts s \<and> s_max_restarts s < 2 ^ 31"

definition registry_ok :: "registry \<Rightarrow> bool" where
  "registry_ok reg \<longleftrightarrow> length reg \<le> CHRONO_MAX_SERVICES \<and> list_all service_ok reg"

lemma c_atoi_less: "c_atoi s < 2 ^ 31"
  using wrap32_range by (simp add: c_atoi_def)

lemma service_of_fields_ok: "service_of_fields n e p m = Some s \<Longrightarrow> service_ok s"
  using c_atoi_less [of m]
  by (auto simp: service_of_fields_def service_ok_def CHRONO_NAME_MAX_def CHRONO_PATH_MAX_def
      CHRONO_POLICY_MAX_def snprintf_buf_def split: if_splits)

lemma load_services_ok: "registry_ok reg \<Longrightarrow> registry_ok (load_services reg raws)"
proof (induction reg raws rule: load_services.induct)
  case (2 reg raw raws)
  show ?case
    using 2 by (auto simp: Let_def registry_ok_def service_of_fields_ok split: option.split)
qed simp

text \<open>Whatever \<open>services.conf\<close> holds, loading it returns -1 with an empty registry (the file cannot
  be opened) or the number of loaded services, at most 32; every entry fits its fixed-size text fields
  and has a restart limit between 0 and \<open>INT_MAX\<close>.\<close>

theorem registry_load_ok:
  "registry_ok (snd (service_registry_load file)) \<and>
   fst (service_registry_load file) = (if file = None then -1 else int (length (snd (service_registry_load file))))"
  using load_services_ok [of "[]"]
  by (auto simp: service_registry_load_def registry_ok_def Let_def split: option.split)

section \<open>Round trip\<close>

definition plain_field :: "string \<Rightarrow> bool" where
  \<comment> \<open>a text that survives the parser\<close>
  "plain_field f \<longleftrightarrow> f \<noteq> [] \<and> \<not> c_isspace (hd f) \<and> \<not> c_isspace (last f) \<and> BAR \<notin> set f \<and> NUL \<notin> set f \<and> NL \<notin> set f"

definition plain_service :: "service \<Rightarrow> bool" where
  "plain_service s \<longleftrightarrow> plain_field (s_name s) \<and> plain_field (s_executable s) \<and> plain_field (s_restart_policy s) \<and>
     hd (s_name s) \<noteq> CHR ''#'' \<and> service_ok s"

lemma dropWhile_hd: "f \<noteq> [] \<Longrightarrow> \<not> P (hd f) \<Longrightarrow> dropWhile P (f @ g) = f @ g"
  by (cases f) auto

lemma trim_solid:
  assumes "f \<noteq> []" "\<not> c_isspace (hd f)" "\<not> c_isspace (last f)"
    and "\<forall>c \<in> set a. c_isspace c" "\<forall>c \<in> set b. c_isspace c"
  shows "trim_text (a @ f @ b) = f"
proof -
  have "dropWhile c_isspace (a @ f @ b) = f @ b"
    using assms dropWhile_hd [of f c_isspace b] by (simp add: dropWhile_append2)
  moreover have "dropWhile c_isspace (rev b @ rev f) = rev f"
    using assms dropWhile_hd [of "rev f" c_isspace "[]"] by (subst dropWhile_append2) (simp_all add: hd_rev)
  ultimately show ?thesis by (simp add: trim_text_def)
qed

lemma nat_str_solid: "\<not> c_isspace (hd (nat_str n))" "\<not> c_isspace (last (nat_str n))"
  by (meson hd_in_set isdigit_not_isspace last_in_set nat_str_digits nat_str_nonempty)+

lemma load_service_line:
  assumes "plain_service s" and "length reg < CHRONO_MAX_SERVICES"
  shows "load_services reg ((service_line s @ [NL]) # raws) = load_services (reg @ [s]) raws"
proof -
  define m where "m = nat (s_max_restarts s)"
  have m: "s_max_restarts s = int m" "m < 2 ^ 31" using assms(1) by (auto simp: plain_service_def service_ok_def m_def)
  let ?sp = "CHR '' ''"
  have p: "plain_field (s_name s)" "plain_field (s_executable s)" "plain_field (s_restart_policy s)"
    and h: "hd (s_name s) \<noteq> CHR ''#''" and ok: "service_ok s" using assms(1) by (simp_all add: plain_service_def)
  have sp: "c_isspace ?sp" "c_isspace NL" by (simp_all add: c_isspace_def)
  let ?fs = "[s_name s @ [?sp], ?sp # s_executable s @ [?sp], ?sp # s_restart_policy s @ [?sp], ?sp # nat_str m]"
  have line: "service_line s = join BAR ?fs" by (simp add: service_line_def m)
  have nul: "NUL \<notin> set (service_line s @ [NL])" using p by (simp add: service_line_def m plain_field_def cstr_simps)
  have clean: "trim_text (cstr (service_line s @ [NL])) = service_line s"
  proof -
    have "trim_text ([] @ service_line s @ [NL]) = service_line s"
      using p nat_str_solid sp(2) by (intro trim_solid) (auto simp: service_line_def m plain_field_def)
    with nul show ?thesis by simp
  qed
  have "strtok_all BAR (service_line s) = ?fs"
    unfolding line by (rule strtok_all_join) (use p in \<open>auto simp: plain_field_def cstr_simps\<close>)
  moreover have "trim_text (s_name s @ [?sp]) = s_name s"
    using trim_solid [of "s_name s" "[]" "[?sp]"] p sp by (simp add: plain_field_def)
  moreover have "trim_text (?sp # f @ [?sp]) = f" if "plain_field f" for f
    using trim_solid [of f "[?sp]" "[?sp]"] that sp by (simp add: plain_field_def)
  moreover have "trim_text (?sp # nat_str m) = nat_str m"
    using trim_solid [of "nat_str m" "[?sp]" "[]"] sp nat_str_solid by simp
  ultimately have fs: "map trim_text (take 4 (strtok_all BAR (service_line s)))
      = [s_name s, s_executable s, s_restart_policy s, nat_str m]" using p by simp
  have "service_of_fields (s_name s) (s_executable s) (s_restart_policy s) (nat_str m) = Some s"
    using ok m by (simp add: service_of_fields_def service_ok_def c_atoi_nat_str)
  moreover have "service_line s \<noteq> []" "hd (service_line s) \<noteq> CHR ''#''"
    using p(1) h by (simp_all add: service_line_def plain_field_def)
  ultimately show ?thesis
    using assms(2) by (simp add: clean fs Let_def)
qed

lemma load_service_lines:
  "list_all plain_service ss \<Longrightarrow> length reg + length ss \<le> CHRONO_MAX_SERVICES \<Longrightarrow>
     load_services reg (map (\<lambda>s. service_line s @ [NL]) ss) = reg @ ss"
  by (induction ss arbitrary: reg) (simp_all add: load_service_line del: load_services.simps(2))

lemma service_line_short:
  assumes "plain_service s" shows "length (service_line s) < 511 \<and> NL \<notin> set (service_line s)"
proof -
  define m where "m = nat (s_max_restarts s)"
  have m: "s_max_restarts s = int m" "m < 2 ^ 31" using assms by (auto simp: plain_service_def service_ok_def m_def)
  have "length (nat_str m) \<le> 10" by (rule nat_str_length_mono) (use m in auto)
  then show ?thesis using assms m
    by (auto simp: plain_service_def service_ok_def service_line_def plain_field_def cstr_simps
        CHRONO_NAME_MAX_def CHRONO_PATH_MAX_def CHRONO_POLICY_MAX_def)
qed

text \<open>Round trip: a file of at most 32 lines in the documented format
  \<open>name | executable | restart policy | max restarts\<close>, whose texts are non-empty, fit their fields and
  neither contain the separator nor begin or end with white space, is loaded entry by entry, in order,
  without loss.\<close>

theorem registry_roundtrip:
  assumes "list_all plain_service ss" and "length ss \<le> CHRONO_MAX_SERVICES"
  shows "service_registry_load (Some (unlines (map service_line ss))) = (int (length ss), ss)"
proof -
  have "short_lines 511 (map service_line ss)"
    using assms(1) by (auto simp: short_lines_def list_all_iff dest: service_line_short)
  then have "read_lines 511 (unlines (map service_line ss)) = map (\<lambda>s. service_line s @ [NL]) ss"
    by (simp add: read_lines_unlines)
  with assms show ?thesis by (simp add: service_registry_load_def load_service_lines Let_def)
qed

theorem registry_roundtrip_witness:
  "service_registry_load (Some (unlines (map service_line
     [\<lparr>s_name = ''chronod'', s_executable = ''../services/chronod/chronod'', s_restart_policy = ''on-failure'', s_max_restarts = 3\<rparr>])))
   = (1, [\<lparr>s_name = ''chronod'', s_executable = ''../services/chronod/chronod'', s_restart_policy = ''on-failure'', s_max_restarts = 3\<rparr>])"
  by (subst registry_roundtrip)
    (simp_all add: plain_service_def plain_field_def service_ok_def CHRONO_MAX_SERVICES_def CHRONO_NAME_MAX_def
      CHRONO_PATH_MAX_def CHRONO_POLICY_MAX_def c_isspace_def)

end
