(* ===== verification/Supervisor.thy ===== *)
theory Supervisor
  imports ServiceRegistry ChronoExec
begin

text \<open>
  \<open>init/supervisor/service_supervisor.c\<close> and the main loop of \<open>init/src/main.c\<close>: the supervisor
  starts every registered service as a child process, polls the children, restarts failed services
  under their policy and stops everything on shutdown. The supervisor is the list of its first
  \<open>count\<close> runtimes; the kernel's side is the table of the init process's children. A \<open>fork\<close> asks
  the kernel's allocator for a process id (\<open>None\<close>: it fails), a parameter of the operations.
\<close>

datatype service_state = STOPPED | STARTING | RUNNING | FAILED

record runtime =
  r_config :: service
  r_state :: service_state
  r_restart_count :: int
  r_pid :: int

datatype proc = Alive | Zombie wait_status

type_synonym proc_table = "int \<Rightarrow> proc option"
type_synonym fork_alloc = "proc_table \<Rightarrow> int option"
type_synonym sup_state = "runtime list \<times> proc_table"

section \<open>Operations\<close>

fun state_name :: "service_state \<Rightarrow> string" where
  "state_name STOPPED = ''STOPPED''"
| "state_name STARTING = ''STARTING''"
| "state_name RUNNING = ''RUNNING''"
| "state_name FAILED = ''FAILED''"

definition supervisor_init :: "registry \<Rightarrow> runtime list" where
  "supervisor_init reg =
     map (\<lambda>c. \<lparr>r_config = c, r_state = STOPPED, r_restart_count = 0, r_pid = -1\<rparr>) reg"

definition valid_index :: "runtime list \<Rightarrow> int \<Rightarrow> bool" where
  "valid_index svs index \<longleftrightarrow> \<not> (index < 0 \<or> index \<ge> int (length svs))"

definition supervisor_start :: "fork_alloc \<Rightarrow> int \<Rightarrow> sup_state \<Rightarrow> int \<times> sup_state" where
  "supervisor_start fork index st =
     (case st of (svs, os) \<Rightarrow>
        if \<not> valid_index svs index then (-1, svs, os)
        else
          let i = nat index; service = svs ! i in
          if r_state service = RUNNING then (0, svs, os)
          else case fork os of
            None \<Rightarrow> (-1, svs[i := service\<lparr>r_state := FAILED\<rparr>], os)
          | Some pid \<Rightarrow> (0, svs[i := service\<lparr>r_state := RUNNING, r_pid := pid\<rparr>], os(pid \<mapsto> Alive)))"

definition poll_one :: "nat \<Rightarrow> sup_state \<Rightarrow> sup_state" where
  \<comment> \<open>one turn of the loop of \<open>supervisor_poll\<close>, with \<open>waitpid(pid, &status, WNOHANG)\<close>\<close>
  "poll_one i st =
     (case st of (svs, os) \<Rightarrow>
        let service = svs ! i in
        if r_pid service \<le> 0 then (svs, os)
        else if r_state service \<noteq> RUNNING then (svs, os)
        else case os (r_pid service) of
          Some Alive \<Rightarrow> (svs, os)
        | None \<Rightarrow> (svs[i := service\<lparr>r_state := FAILED, r_pid := -1\<rparr>], os)
        | Some (Zombie status) \<Rightarrow>
            (svs[i := service\<lparr>r_pid := -1, r_state := FAILED\<rparr>], os(r_pid service := None)))"

definition supervisor_poll :: "sup_state \<Rightarrow> int \<times> sup_state" where
  "supervisor_poll st = (0, foldl (\<lambda>st i. poll_one i st) st [0..<length (fst st)])"

datatype stop_answer = Ends | Interrupted | Ignores
  \<comment> \<open>what the blocking \<open>waitpid\<close> after \<open>SIGTERM\<close> does for a living child\<close>

definition supervisor_stop :: "stop_answer \<Rightarrow> int \<Rightarrow> sup_state \<Rightarrow> (int \<times> sup_state) option" where
  \<comment> \<open>\<open>None\<close>: the call does not return\<close>
  "supervisor_stop ans index st =
     (case st of (svs, os) \<Rightarrow>
        if \<not> valid_index svs index then Some (-1, svs, os)
        else
          let i = nat index; service = svs ! i;
              stopped = svs[i := service\<lparr>r_pid := -1, r_state := STOPPED\<rparr>] in
          if r_pid service > 0 then
            (case os (r_pid service) of
               None \<Rightarrow> Some (0, stopped, os)
             | Some (Zombie status) \<Rightarrow> Some (0, stopped, os(r_pid service := None))
             | Some Alive \<Rightarrow>
                 (case ans of
                    Ends \<Rightarrow> Some (0, stopped, os(r_pid service := None))
                  | Interrupted \<Rightarrow> Some (0, stopped, os)
                  | Ignores \<Rightarrow> None))
          else Some (0, stopped, os))"

definition supervisor_restart :: "fork_alloc \<Rightarrow> int \<Rightarrow> sup_state \<Rightarrow> int \<times> sup_state" where
  "supervisor_restart fork index st =
     (case st of (svs, os) \<Rightarrow>
        if \<not> valid_index svs index then (-1, svs, os)
        else
          let i = nat index; service = svs ! i in
          if r_restart_count service \<ge> s_max_restarts (r_config service)
          then (-1, svs[i := service\<lparr>r_state := FAILED\<rparr>], os)
          else supervisor_start fork index
            (svs[i := service\<lparr>r_restart_count := r_restart_count service + 1, r_state := STOPPED\<rparr>], os))"

definition handle_one :: "fork_alloc \<Rightarrow> nat \<Rightarrow> sup_state \<Rightarrow> sup_state" where
  \<comment> \<open>one turn of the loop of \<open>supervisor_handle_failures\<close>\<close>
  "handle_one fork i st =
     (case st of (svs, os) \<Rightarrow>
        let service = svs ! i in
        if r_state service \<noteq> FAILED then (svs, os)
        else if s_restart_policy (r_config service) \<noteq> ''on-failure'' then (svs, os)
        else if r_restart_count service \<ge> s_max_restarts (r_config service)
        then (svs[i := service\<lparr>r_config := (r_config service)\<lparr>s_restart_policy := ''none''\<rparr>\<rparr>], os)
        else snd (supervisor_restart fork (int i) (svs, os)))"

definition supervisor_handle_failures :: "fork_alloc \<Rightarrow> sup_state \<Rightarrow> int \<times> sup_state" where
  "supervisor_handle_failures fork st = (0, foldl (\<lambda>st i. handle_one fork i st) st [0..<length (fst st)])"

definition pad_right :: "nat \<Rightarrow> string \<Rightarrow> string" where
  \<comment> \<open>\<open>%-16s\<close>\<close>
  "pad_right n s = s @ replicate (n - length s) (CHR '' '')"

definition supervisor_status :: "runtime list \<Rightarrow> string" where
  "supervisor_status svs =
     [NL] @ ''=== ChronoOS Service Supervisor ==='' @ [NL]
     @ concat (map (\<lambda>s. pad_right 16 (s_name (r_config s)) @ '' '' @ pad_right 10 (state_name (r_state s))
         @ '' PID='' @ int_str (r_pid s) @ '' restarts='' @ int_str (r_restart_count s) @ ''/''
         @ int_str (s_max_restarts (r_config s)) @ [NL]) svs)
     @ ''===================================='' @ [NL, NL]"

section \<open>The init process\<close>

fun start_all :: "fork_alloc \<Rightarrow> nat list \<Rightarrow> sup_state \<Rightarrow> bool \<times> sup_state" where
  \<comment> \<open>the start loop of \<open>main\<close>; \<open>False\<close>: it returned \<open>EXIT_FAILURE\<close>\<close>
  "start_all fork [] st = (True, st)"
| "start_all fork (i # is) st =
     (let (r, st) = supervisor_start fork (int i) st in
      if r < 0 then (False, st) else start_all fork is st)"

definition init_boot :: "bool \<Rightarrow> string option \<Rightarrow> fork_alloc \<Rightarrow> proc_table \<Rightarrow> bool \<times> sup_state" where
  \<comment> \<open>\<open>main\<close> up to the supervision loop; \<open>handlers_ok\<close>: \<open>install_signal_handlers\<close>\<close>
  "init_boot handlers_ok config fork os =
     (if \<not> handlers_ok then (False, [], os)
      else
        let (service_count, reg) = service_registry_load config in
        if service_count < 0 then (False, [], os)
        else start_all fork [0..<length reg] (supervisor_init reg, os))"

datatype init_event = ChildEnds int wait_status | Cycle fork_alloc

definition init_step :: "sup_state \<Rightarrow> init_event \<Rightarrow> sup_state" where
  \<comment> \<open>a child process ends, or one turn of the supervision loop runs\<close>
  "init_step st e =
     (case e of
        ChildEnds pid status \<Rightarrow>
          (fst st, if snd st pid = Some Alive then (snd st)(pid \<mapsto> Zombie status) else snd st)
      | Cycle fork \<Rightarrow> snd (supervisor_handle_failures fork (snd (supervisor_poll st))))"

fun stop_all :: "(nat \<Rightarrow> stop_answer) \<Rightarrow> nat list \<Rightarrow> sup_state \<Rightarrow> sup_state option" where
  "stop_all ans [] st = Some st"
| "stop_all ans (i # is) st =
     (if r_pid (fst st ! i) > 0 then
        (case supervisor_stop (ans i) (int i) st of None \<Rightarrow> None | Some (r, st) \<Rightarrow> stop_all ans is st)
      else stop_all ans is st)"

definition init_main ::
  "bool \<Rightarrow> string option \<Rightarrow> fork_alloc \<Rightarrow> proc_table \<Rightarrow> init_event list \<Rightarrow> (nat \<Rightarrow> stop_answer)
    \<Rightarrow> (int \<times> sup_state) option" where
  \<comment> \<open>the exit code and the final state, for the events before the first \<open>SIGINT\<close> or \<open>SIGTERM\<close>\<close>
  "init_main handlers_ok config fork os es ans =
     (let (ok, st) = init_boot handlers_ok config fork os in
      if \<not> ok then Some (1, st)
      else
        let st = foldl init_step st es in
        map_option (\<lambda>st. (0, st)) (stop_all ans [0..<length (fst st)] st))"


section \<open>The invariant\<close>

definition kernel_ok :: "fork_alloc \<Rightarrow> bool" where
  \<comment> \<open>\<open>fork\<close> returns a positive process id that no child has\<close>
  "kernel_ok fork \<longleftrightarrow> (\<forall>os p. fork os = Some p \<longrightarrow> 0 < p \<and> os p = None)"

definition svc_inv :: "proc_table \<Rightarrow> runtime \<Rightarrow> bool" where
  "svc_inv os s \<longleftrightarrow> 0 \<le> r_restart_count s \<and> r_restart_count s \<le> s_max_restarts (r_config s) \<and>
     (if r_state s = RUNNING then 0 < r_pid s \<and> os (r_pid s) \<noteq> None else r_pid s = -1)"

definition sup_inv :: "sup_state \<Rightarrow> bool" where
  \<comment> \<open>every service is in order, no two share a process, and no process is without a service\<close>
  "sup_inv st \<longleftrightarrow> (case st of (svs, os) \<Rightarrow>
     (\<forall>i < length svs. svc_inv os (svs ! i)) \<and>
     (\<forall>i < length svs. \<forall>j < length svs. i \<noteq> j \<longrightarrow> r_state (svs ! i) = RUNNING \<longrightarrow> r_state (svs ! j) = RUNNING \<longrightarrow>
        r_pid (svs ! i) \<noteq> r_pid (svs ! j)) \<and>
     (\<forall>p. os p \<noteq> None \<longrightarrow> (\<exists>i < length svs. r_state (svs ! i) = RUNNING \<and> r_pid (svs ! i) = p)))"

lemma sup_inv_idle:
  assumes "sup_inv (svs, os)" and "i < length svs" and "r_state (svs ! i) \<noteq> RUNNING"
    and "svc_inv os s" and "r_state s \<noteq> RUNNING"
  shows "sup_inv (svs[i := s], os)"
  using assms unfolding sup_inv_def by (auto simp: nth_list_update)

lemma sup_inv_spawn:
  assumes "sup_inv (svs, os)" and "i < length svs" and "r_state (svs ! i) \<noteq> RUNNING"
    and "os (r_pid s) = None" and "svc_inv (os(r_pid s \<mapsto> Alive)) s" and "r_state s = RUNNING"
  shows "sup_inv (svs[i := s], os(r_pid s \<mapsto> Alive))"
proof -
  have 1: "svc_inv os t \<Longrightarrow> svc_inv (os(r_pid s \<mapsto> Alive)) t" for t by (auto simp: svc_inv_def split: if_splits)
  have 2: "r_pid (svs ! j) \<noteq> r_pid s" if "j < length svs" "r_state (svs ! j) = RUNNING" for j
    using assms(1,4) that by (auto simp: sup_inv_def svc_inv_def)
  show ?thesis
    using assms 1 2 unfolding sup_inv_def by (simp add: nth_list_update) (metis)
qed

lemma sup_inv_reap:
  assumes "sup_inv (svs, os)" and "i < length svs" and "r_state (svs ! i) = RUNNING"
    and "svc_inv os s" and "r_state s \<noteq> RUNNING"
  shows "sup_inv (svs[i := s], os(r_pid (svs ! i) := None))"
proof -
  have 1: "svc_inv (os(r_pid (svs ! i) := None)) (svs ! j)" if "j < length svs" "j \<noteq> i" for j
    using assms(1-3) that by (auto simp: sup_inv_def svc_inv_def split: if_splits)
  have 2: "svc_inv (os(r_pid (svs ! i) := None)) s" using assms(4,5) by (simp add: svc_inv_def)
  show ?thesis
    using assms 1 2 unfolding sup_inv_def by (simp add: nth_list_update) (metis)
qed

lemmas sup_inv_cases = sup_inv_idle sup_inv_spawn sup_inv_reap

lemma sup_inv_svc: "sup_inv (svs, os) \<Longrightarrow> i < length svs \<Longrightarrow> svc_inv os (svs ! i)"
  by (simp add: sup_inv_def)

lemma start_length: "length (fst (snd (supervisor_start fork i st))) = length (fst st)"
  by (simp add: supervisor_start_def Let_def split: prod.split option.split)

lemma start_inv:
  assumes "kernel_ok fork" and "sup_inv st"
  shows "sup_inv (snd (supervisor_start fork index st))"
proof -
  obtain svs os where st: "st = (svs, os)" by (cases st)
  show ?thesis
  proof (cases "valid_index svs index \<and> r_state (svs ! nat index) \<noteq> RUNNING")
    case True
    then have i: "nat index < length svs" by (auto simp: valid_index_def)
    note svc = sup_inv_svc [OF assms(2) [unfolded st] i]
    show ?thesis
    proof (cases "fork os")
      case None
      with True assms(2) i svc st show ?thesis
        by (auto simp: supervisor_start_def Let_def svc_inv_def intro!: sup_inv_idle)
    next
      case (Some p)
      then have "0 < p" "os p = None" using assms(1) by (auto simp: kernel_ok_def)
      with True assms(2) i svc Some st
        sup_inv_spawn [of svs os "nat index" "(svs ! nat index)\<lparr>r_state := RUNNING, r_pid := p\<rparr>"]
      show ?thesis by (auto simp: supervisor_start_def Let_def svc_inv_def)
    qed
  qed (use assms(2) st in \<open>auto simp: supervisor_start_def Let_def\<close>)
qed

lemma poll_one_inv:
  assumes "sup_inv st" and "i < length (fst st)"
  shows "sup_inv (poll_one i st)" and "length (fst (poll_one i st)) = length (fst st)"
proof -
  obtain svs os where st: "st = (svs, os)" by (cases st)
  note svc = sup_inv_svc [OF assms(1) [unfolded st], of i]
  show "sup_inv (poll_one i st)"
    using assms svc st sup_inv_reap [of svs os i "(svs ! i)\<lparr>r_pid := -1, r_state := FAILED\<rparr>"]
    by (auto simp: poll_one_def Let_def svc_inv_def split: option.split proc.split)
  show "length (fst (poll_one i st)) = length (fst st)"
    by (simp add: poll_one_def st Let_def split: option.split proc.split)
qed

lemma restart_inv:
  assumes "kernel_ok fork" and "sup_inv st" and "nat index < length (fst st)"
    and "r_state (fst st ! nat index) \<noteq> RUNNING"
  shows "sup_inv (snd (supervisor_restart fork index st))"
proof -
  obtain svs os where st: "st = (svs, os)" by (cases st)
  note svc = sup_inv_svc [OF assms(2) [unfolded st]]
  let ?s = "(svs ! nat index)\<lparr>r_restart_count := r_restart_count (svs ! nat index) + 1, r_state := STOPPED\<rparr>"
  have f: "sup_inv (svs[nat index := (svs ! nat index)\<lparr>r_state := FAILED\<rparr>], os)"
    using assms(2-4) svc st by (intro sup_inv_idle) (auto simp: svc_inv_def)
  have "sup_inv (svs[nat index := ?s], os)"
    if "\<not> r_restart_count (svs ! nat index) \<ge> s_max_restarts (r_config (svs ! nat index))"
    using assms(2-4) svc st that by (intro sup_inv_idle) (auto simp: svc_inv_def)
  with f assms(2) st show ?thesis
    by (auto simp: supervisor_restart_def Let_def intro: start_inv [OF assms(1)])
qed

lemma handle_one_inv:
  assumes "kernel_ok fork" and "sup_inv st" and "i < length (fst st)"
  shows "sup_inv (handle_one fork i st)" and "length (fst (handle_one fork i st)) = length (fst st)"
proof -
  obtain svs os where st: "st = (svs, os)" by (cases st)
  note svc = sup_inv_svc [OF assms(2) [unfolded st], of i]
  have "sup_inv (svs[i := (svs ! i)\<lparr>r_config := (r_config (svs ! i))\<lparr>s_restart_policy := ''none''\<rparr>\<rparr>], os)"
    if "r_state (svs ! i) = FAILED"
    using assms(2,3) svc st that by (intro sup_inv_idle) (auto simp: svc_inv_def)
  with assms restart_inv [OF assms(1,2), of "int i"] st show "sup_inv (handle_one fork i st)"
    by (auto simp: handle_one_def Let_def)
  show "length (fst (handle_one fork i st)) = length (fst st)"
    using start_length by (simp add: handle_one_def st Let_def supervisor_restart_def split_beta)
qed

lemma foldl_range_inv:
  assumes "\<And>st i. sup_inv st \<Longrightarrow> i < length (fst st) \<Longrightarrow> sup_inv (f st i) \<and> length (fst (f st i)) = length (fst st)"
    and "sup_inv st" and "\<forall>i \<in> set is. i < length (fst st)"
  shows "sup_inv (foldl f st is) \<and> length (fst (foldl f st is)) = length (fst st)"
  using assms(2,3)
proof (induction "is" arbitrary: st)
  case (Cons i "is")
  from Cons.prems assms(1) [of st i] have "sup_inv (f st i)" "length (fst (f st i)) = length (fst st)" by simp_all
  with Cons show ?case by simp
qed simp

lemma poll_inv [inv_intros]: "sup_inv st \<Longrightarrow> sup_inv (snd (supervisor_poll st)) \<and> length (fst (snd (supervisor_poll st))) = length (fst st)"
  unfolding supervisor_poll_def snd_conv
  by (rule foldl_range_inv) (auto simp: poll_one_inv)

lemma handle_inv [inv_intros]: "kernel_ok fork \<Longrightarrow> sup_inv st \<Longrightarrow> sup_inv (snd (supervisor_handle_failures fork st)) \<and>
    length (fst (snd (supervisor_handle_failures fork st))) = length (fst st)"
  unfolding supervisor_handle_failures_def snd_conv
  by (rule foldl_range_inv) (auto simp: handle_one_inv)

fun event_ok :: "init_event \<Rightarrow> bool" where
  "event_ok (ChildEnds pid status) = True"
| "event_ok (Cycle fork) = kernel_ok fork"

lemma child_ends_inv [inv_intros]: "sup_inv (svs, os) \<Longrightarrow> os p = Some Alive \<Longrightarrow> sup_inv (svs, os(p \<mapsto> Zombie status))"
  unfolding sup_inv_def svc_inv_def by (auto split: if_splits)

lemma init_step_inv: "event_ok e \<Longrightarrow> sup_inv st \<Longrightarrow> sup_inv (init_step st e)"
proof (cases e)
  case (ChildEnds p status)
  assume "sup_inv st"
  with ChildEnds show ?thesis by (cases st) (auto simp: init_step_def inv_intros)
next
  case (Cycle fork)
  assume "event_ok e" "sup_inv st"
  with Cycle show ?thesis by (simp add: init_step_def inv_intros)
qed

interpretation si: invariant_machine init_step sup_inv event_ok
  by unfold_locales (rule init_step_inv)


section \<open>The supervised life of the services\<close>

lemma start_all_inv:
  "kernel_ok fork \<Longrightarrow> sup_inv st \<Longrightarrow> start_all fork is st = (ok, st') \<Longrightarrow> sup_inv st' \<and> length (fst st') = length (fst st)"
proof (induction fork "is" st rule: start_all.induct)
  case (2 fork i "is" st)
  obtain r st1 where r: "supervisor_start fork (int i) st = (r, st1)" by (cases "supervisor_start fork (int i) st")
  have "sup_inv st1" "length (fst st1) = length (fst st)"
    using start_inv [OF 2(2,3), of "int i"] start_length [of fork "int i" st] r by simp_all
  with 2 r show ?case by (auto split: if_splits)
qed auto

lemma boot_inv:
  assumes "kernel_ok fork" and "init_boot h config fork (\<lambda>_. None) = (ok, st)"
  shows "sup_inv st"
proof -
  have init: "sup_inv (supervisor_init reg, \<lambda>_. None)" if "registry_ok reg" for reg
    using that by (auto simp: sup_inv_def supervisor_init_def svc_inv_def registry_ok_def service_ok_def list_all_length)
  have "registry_ok (snd (service_registry_load config))"
    using load_services_ok [of "[]"] by (auto simp: service_registry_load_def registry_ok_def Let_def split: option.split)
  moreover have "sup_inv ([], \<lambda>_. None)" by (simp add: sup_inv_def)
  ultimately show ?thesis
    using assms start_all_inv [OF assms(1) init]
    by (cases "service_registry_load config") (auto simp: init_boot_def split: if_splits)
qed

text \<open>C6: From boot on, under any interleaving of ending child processes and supervision cycles, whether
  forks succeed or fail: no restart counter exceeds its service's limit, a service is \<open>RUNNING\<close> exactly
  when it has a process, no two services share one, and every child process belongs to a service, so
  none is leaked.\<close>

theorem supervisor_reachable_ok:
  assumes "kernel_ok fork" and "init_boot h config fork (\<lambda>_. None) = (ok, st)" and "list_all event_ok es"
  shows "sup_inv (foldl init_step st es)"
  using si.run_inv [OF assms(3) boot_inv [OF assms(1,2)]] .

definition demo_config :: string where
  "demo_config = unlines [''a | b | on-failure | 3'']"

definition demo_alloc :: fork_alloc where
  "demo_alloc os = (if os 100 = None then Some 100 else None)"

lemma demo_alloc_ok: "kernel_ok demo_alloc"
  by (simp add: kernel_ok_def demo_alloc_def)

theorem supervisor_reachable_ok_witness:
  "sup_inv (foldl init_step (snd (init_boot True (Some demo_config) demo_alloc (\<lambda>_. None)))
     [ChildEnds 100 (Exited 1), Cycle demo_alloc, Cycle demo_alloc])"
  by (rule supervisor_reachable_ok [OF demo_alloc_ok prod.collapse [symmetric]]) (simp add: demo_alloc_ok)

section \<open>Shutdown\<close>

lemma stop_one:
  assumes "sup_inv (svs, os)" and "i < length svs" and "r_pid (svs ! i) > 0"
  shows "\<exists>s os'. supervisor_stop Ends (int i) (svs, os) = Some (0, svs[i := s], os') \<and> sup_inv (svs[i := s], os') \<and> r_state s \<noteq> RUNNING"
proof -
  note svc = sup_inv_svc [OF assms(1,2)]
  then have run: "r_state (svs ! i) = RUNNING" using assms(3) by (auto simp: svc_inv_def split: if_splits)
  let ?s = "(svs ! i)\<lparr>r_pid := -1, r_state := STOPPED\<rparr>"
  have "sup_inv (svs[i := ?s], os(r_pid (svs ! i) := None))"
    using svc by (intro sup_inv_reap [OF assms(1,2) run]) (simp_all add: svc_inv_def)
  moreover have "supervisor_stop Ends (int i) (svs, os) = Some (0, svs[i := ?s], os(r_pid (svs ! i) := None))"
    using svc run assms(2,3) by (auto simp: supervisor_stop_def valid_index_def Let_def svc_inv_def split: proc.split)
  ultimately show ?thesis by (intro exI [of _ ?s] exI) simp
qed

lemma stop_all_clears:
  assumes "sup_inv (svs, os)" and "i \<le> length svs" and "\<forall>j < i. r_state (svs ! j) \<noteq> RUNNING"
  shows "\<exists>svs' os'. stop_all (\<lambda>_. Ends) [i..<length svs] (svs, os) = Some (svs', os') \<and> sup_inv (svs', os') \<and>
    (\<forall>j < length svs'. r_state (svs' ! j) \<noteq> RUNNING)"
  using assms
proof (induction "length svs - i" arbitrary: i svs os)
  case 0
  then show ?case by (intro exI [of _ svs] exI [of _ os]) auto
next
  case (Suc n)
  then have i: "i < length svs" and n: "n = length svs - Suc i" by simp_all
  then have up: "[i..<length svs] = i # [Suc i..<length svs]" by (simp add: upt_conv_Cons)
  show ?case
  proof (cases "r_pid (svs ! i) > 0")
    case True
    from stop_one [OF Suc.prems(1) i True] obtain s os1 where
      st: "supervisor_stop Ends (int i) (svs, os) = Some (0, svs[i := s], os1)" "sup_inv (svs[i := s], os1)" "r_state s \<noteq> RUNNING"
      by blast
    have "\<forall>j < Suc i. r_state (svs[i := s] ! j) \<noteq> RUNNING"
      using Suc.prems(3) st(3) i by (auto simp: less_Suc_eq nth_list_update)
    from Suc.hyps(1) [OF _ st(2) _ this] n i st True show ?thesis by (simp add: up)
  next
    case False
    then have "r_state (svs ! i) \<noteq> RUNNING" using sup_inv_svc [OF Suc.prems(1) i] by (auto simp: svc_inv_def)
    with Suc.prems(3) have "\<forall>j < Suc i. r_state (svs ! j) \<noteq> RUNNING" by (auto simp: less_Suc_eq)
    from Suc.hyps(1) [OF n Suc.prems(1) _ this] i False show ?thesis by (simp add: up)
  qed
qed

text \<open>C7: Shutdown is complete: when every child obeys \<open>SIGTERM\<close>, the init process returns
  \<open>EXIT_SUCCESS\<close> after any supervised run, and no child process is left, alive or zombie.\<close>

theorem init_shutdown_complete:
  assumes "kernel_ok fork" and "init_boot h config fork (\<lambda>_. None) = (True, st)" and "list_all event_ok es"
  shows "\<exists>svs. init_main h config fork (\<lambda>_. None) es (\<lambda>_. Ends) = Some (0, svs, \<lambda>_. None)"
proof -
  obtain svs os where run: "foldl init_step st es = (svs, os)" by (cases "foldl init_step st es")
  have inv: "sup_inv (svs, os)" using si.run_inv [OF assms(3) boot_inv [OF assms(1,2)]] run by simp
  from stop_all_clears [OF inv, of 0] obtain svs' os' where
    s: "stop_all (\<lambda>_. Ends) [0..<length svs] (svs, os) = Some (svs', os')" "sup_inv (svs', os')"
    "\<forall>j < length svs'. r_state (svs' ! j) \<noteq> RUNNING" by auto
  from s(2,3) have "os' p = None" for p by (auto simp: sup_inv_def)
  then have "os' = (\<lambda>_. None)" by blast
  with s(1) assms(2) run show ?thesis by (simp add: init_main_def)
qed

lemma demo_boot: "\<exists>st. init_boot True (Some demo_config) demo_alloc (\<lambda>_. None) = (True, st)"
proof -
  have "service_registry_load (Some demo_config) = (1, [\<lparr>s_name = ''a'', s_executable = ''b'', s_restart_policy = ''on-failure'', s_max_restarts = 3\<rparr>])"
    by code_simp
  then show ?thesis
    by (simp add: init_boot_def supervisor_init_def supervisor_start_def valid_index_def Let_def demo_alloc_def)
qed

theorem init_shutdown_complete_witness:
  "\<exists>svs. init_main True (Some demo_config) demo_alloc (\<lambda>_. None) [Cycle demo_alloc] (\<lambda>_. Ends) = Some (0, svs, \<lambda>_. None)"
proof -
  obtain st where "init_boot True (Some demo_config) demo_alloc (\<lambda>_. None) = (True, st)" using demo_boot by blast
  from init_shutdown_complete [OF demo_alloc_ok this, of "[Cycle demo_alloc]"] demo_alloc_ok show ?thesis by simp
qed

section \<open>Giving up\<close>

definition given_up :: "nat \<Rightarrow> runtime \<Rightarrow> sup_state \<Rightarrow> bool" where
  "given_up i s st \<longleftrightarrow> i < length (fst st) \<and> fst st ! i = s"

lemma poll_one_other: "r_state s = FAILED \<Longrightarrow> given_up i s st \<Longrightarrow> given_up i s (poll_one j st)"
  by (cases st, cases "i = j") (auto simp: given_up_def poll_one_def Let_def nth_list_update split: option.split proc.split)

lemma start_other: "j \<noteq> int i \<Longrightarrow> given_up i s st \<Longrightarrow> given_up i s (snd (supervisor_start fork j st))"
  by (cases st) (auto simp: given_up_def supervisor_start_def valid_index_def Let_def nth_list_update split: option.split)

lemma handle_one_apart: "i \<noteq> j \<Longrightarrow> given_up i s st \<Longrightarrow> given_up i s (handle_one fork j st)"
proof -
  assume ij: "i \<noteq> j" and g: "given_up i s st"
  then have "given_up i s ((fst st)[j := t], snd st)" for t by (simp add: given_up_def)
  from this start_other [of "int j" i s, OF _ this] ij g show ?thesis
    by (cases st) (auto simp: handle_one_def supervisor_restart_def Let_def)
qed

lemma handle_one_other:
  assumes "r_state s = FAILED" "s_restart_policy (r_config s) \<noteq> ''on-failure''" "given_up i s st"
  shows "given_up i s (handle_one fork j st)"
  using assms handle_one_apart [of i j s st fork] by (cases "i = j"; cases st) (simp_all add: given_up_def handle_one_def Let_def)

lemma foldl_keeps: "(\<And>st j. P st \<Longrightarrow> P (f st j)) \<Longrightarrow> P st \<Longrightarrow> P (foldl f st js)"
  by (induction js arbitrary: st) auto

definition disabled :: "runtime \<Rightarrow> runtime" where
  "disabled s = s\<lparr>r_config := (r_config s)\<lparr>s_restart_policy := ''none''\<rparr>\<rparr>"

definition exhausted :: "runtime \<Rightarrow> bool" where
  \<comment> \<open>a failed service under the policy \<open>on-failure\<close> with its restarts used up\<close>
  "exhausted s \<longleftrightarrow> r_state s = FAILED \<and> s_restart_policy (r_config s) = ''on-failure'' \<and> r_restart_count s \<ge> s_max_restarts (r_config s)"

lemma failures_disable:
  assumes "exhausted s" and "given_up i s st"
  shows "given_up i (disabled s) (snd (supervisor_handle_failures fork st))"
proof -
  let ?f = "\<lambda>st i. handle_one fork i st"
  have "i < length (fst st)" using assms(2) by (simp add: given_up_def)
  then have upt: "[0..<length (fst st)] = [0..<i] @ i # [Suc i..<length (fst st)]"
    using upt_add_eq_append [of 0 i "length (fst st) - i"] by (simp add: upt_conv_Cons)
  have "given_up i s (foldl ?f st js)" if "i \<notin> set js" for js
    using that assms(2)
  proof (induction js arbitrary: st)
    case (Cons j js)
    then have "given_up i s (handle_one fork j st)" by (intro handle_one_apart) simp_all
    with Cons show ?case by simp
  qed simp
  then have before: "given_up i s (foldl ?f st [0..<i])" by simp
  obtain svs os where so: "foldl ?f st [0..<i] = (svs, os)" by fastforce
  have "given_up i (disabled s) (handle_one fork i (svs, os))"
    using before [unfolded so] assms(1) by (simp add: given_up_def handle_one_def exhausted_def disabled_def Let_def)
  then have "given_up i (disabled s) (foldl ?f (handle_one fork i (svs, os)) [Suc i..<length (fst st)])"
    by (rule foldl_keeps [where P = "given_up i (disabled s)", rotated], intro handle_one_other)
      (use assms(1) in \<open>simp_all add: exhausted_def disabled_def\<close>)
  then show ?thesis by (simp add: supervisor_handle_failures_def upt so)
qed

lemma poll_keeps_failed: "r_state s = FAILED \<Longrightarrow> given_up i s st \<Longrightarrow> given_up i s (snd (supervisor_poll st))"
  unfolding supervisor_poll_def snd_conv by (rule foldl_keeps [where P = "given_up i s"], rule poll_one_other)

text \<open>C33: The restart limit is final: once a service under the policy \<open>on-failure\<close> is \<open>FAILED\<close> with its restarts used up,
  wherever it stands in the list of services, the next supervision cycle disables its policy and changes nothing else of its record,
  and from then on no sequence of ends of processes and cycles starts it again or changes its record in any way.\<close>

theorem supervisor_gives_up:
  assumes "i < length svs" and "r_state (svs ! i) = FAILED" and "s_restart_policy (r_config (svs ! i)) = ''on-failure''"
    and "r_restart_count (svs ! i) \<ge> s_max_restarts (r_config (svs ! i))"
  shows "let s = (svs ! i)\<lparr>r_config := (r_config (svs ! i))\<lparr>s_restart_policy := ''none''\<rparr>\<rparr> in
    fst (init_step (svs, os) (Cycle fork)) ! i = s \<and>
    fst (foldl init_step (init_step (svs, os) (Cycle fork)) es) ! i = s"
proof -
  let ?s = "disabled (svs ! i)"
  have ex: "exhausted (svs ! i)" using assms by (simp add: exhausted_def)
  have s: "r_state ?s = FAILED" "s_restart_policy (r_config ?s) \<noteq> ''on-failure''" using assms(2) by (simp_all add: disabled_def)
  have step: "given_up i ?s (init_step st e)" if "given_up i ?s st" for st e
  proof (cases e)
    case (ChildEnds p status)
    with that show ?thesis by (simp add: init_step_def given_up_def)
  next
    case (Cycle k)
    have "given_up i ?s (snd (supervisor_handle_failures k (snd (supervisor_poll st))))"
      unfolding supervisor_handle_failures_def snd_conv
      by (rule foldl_keeps [where P = "given_up i ?s", rotated], rule poll_keeps_failed [OF s(1) that], intro handle_one_other [OF s])
    with Cycle show ?thesis by (simp add: init_step_def)
  qed
  have "given_up i (svs ! i) (svs, os)" using assms(1) by (simp add: given_up_def)
  from failures_disable [OF ex poll_keeps_failed [OF assms(2) this], of fork]
  have first: "given_up i ?s (init_step (svs, os) (Cycle fork))" by (simp add: init_step_def)
  then have "given_up i ?s (foldl init_step (init_step (svs, os) (Cycle fork)) es)"
    by (rule foldl_keeps [where P = "given_up i ?s", rotated], intro step)
  with first show ?thesis by (simp add: given_up_def disabled_def)
qed

definition demo_service :: "service_state \<Rightarrow> int \<Rightarrow> int \<Rightarrow> runtime" where
  "demo_service st count pid = \<lparr>r_config = \<lparr>s_name = ''a'', s_executable = ''b'', s_restart_policy = ''on-failure'', s_max_restarts = 3\<rparr>,
     r_state = st, r_restart_count = count, r_pid = pid\<rparr>"

theorem supervisor_gives_up_witness:
  "s_restart_policy (r_config (fst (foldl init_step (init_step ([demo_service FAILED 0 (-1), demo_service FAILED 3 (-1)], \<lambda>_. None) (Cycle demo_alloc))
     [Cycle demo_alloc]) ! 1)) = ''none''"
  using supervisor_gives_up [of 1 "[demo_service FAILED 0 (-1), demo_service FAILED 3 (-1)]" "\<lambda>_. None" demo_alloc "[Cycle demo_alloc]"]
  by (simp add: demo_service_def Let_def)


section \<open>Behaviour at the edges\<close>

text \<open>A clean exit counts as a failure: a supervised \<open>on-failure\<close> service whose process ends with
  exit code 0 is restarted by the next cycle exactly as after a crash, and a restart is charged to
  its limit.\<close>

theorem supervisor_restarts_clean_exit:
  assumes "r_state s = RUNNING" and "0 < r_pid s" and "os (r_pid s) = Some Alive"
    and "s_restart_policy (r_config s) = ''on-failure''" and "r_restart_count s < s_max_restarts (r_config s)"
    and "fork (os(r_pid s := None)) = Some p"
  shows "foldl init_step ([s], os) [ChildEnds (r_pid s) (Exited 0), Cycle fork]
    = ([s\<lparr>r_state := RUNNING, r_restart_count := r_restart_count s + 1, r_pid := p\<rparr>], (os(r_pid s := None))(p \<mapsto> Alive))"
  using assms
  by (simp add: init_step_def supervisor_poll_def poll_one_def supervisor_handle_failures_def handle_one_def
      supervisor_restart_def supervisor_start_def valid_index_def Let_def)

theorem supervisor_restarts_clean_exit_witness:
  "r_restart_count (fst (foldl init_step ([demo_service RUNNING 0 100], (\<lambda>_. None)(100 \<mapsto> Alive))
     [ChildEnds 100 (Exited 0), Cycle demo_alloc]) ! 0) = 1"
  using supervisor_restarts_clean_exit [of "demo_service RUNNING 0 100" "(\<lambda>_. None)(100 \<mapsto> Alive)" demo_alloc 100]
  by (simp add: demo_service_def demo_alloc_def)

text \<open>\<open>supervisor_restart\<close> on a running service leaks its process: it resets the state without
  stopping the child, so the old process stays alive in the process table while the service already
  owns another one; the state it reaches violates the supervisor's invariant.\<close>

theorem supervisor_restart_leaks:
  assumes "kernel_ok fork" and "i < length svs" and "r_state (svs ! i) = RUNNING" and "sup_inv (svs, os)"
    and "r_restart_count (svs ! i) < s_max_restarts (r_config (svs ! i))" and "fork os = Some p"
    and "supervisor_restart fork (int i) (svs, os) = (r, svs', os')"
  shows "r = 0 \<and> os' (r_pid (svs ! i)) \<noteq> None \<and> r_pid (svs' ! i) = p \<and> p \<noteq> r_pid (svs ! i) \<and> \<not> sup_inv (svs', os')"
proof -
  let ?s = "(svs ! i)\<lparr>r_restart_count := r_restart_count (svs ! i) + 1, r_state := RUNNING, r_pid := p\<rparr>"
  have old: "os (r_pid (svs ! i)) \<noteq> None"
    using sup_inv_svc [OF assms(4,2)] assms(3) by (simp add: svc_inv_def)
  have p: "0 < p" "os p = None" using assms(1,6) by (auto simp: kernel_ok_def)
  have r: "r = 0" "svs' = svs[i := ?s]" "os' = os(p \<mapsto> Alive)"
    using assms(2,5,6,7) by (simp_all add: supervisor_restart_def supervisor_start_def valid_index_def Let_def)
  have ne: "p \<noteq> r_pid (svs ! i)" using p old by auto
  have "\<not> sup_inv (svs', os')"
  proof
    assume "sup_inv (svs', os')"
    moreover have "os' (r_pid (svs ! i)) \<noteq> None" using old r(3) ne by auto
    ultimately obtain j where j: "j < length svs'" "r_state (svs' ! j) = RUNNING" "r_pid (svs' ! j) = r_pid (svs ! i)"
      unfolding sup_inv_def by auto
    have "j \<noteq> i" using j r(2) ne assms(2) by auto
    with j r(2) have "j < length svs" "r_state (svs ! j) = RUNNING" "r_pid (svs ! j) = r_pid (svs ! i)" by simp_all
    with \<open>j \<noteq> i\<close> assms(2-4) show False unfolding sup_inv_def by blast
  qed
  with r old ne assms(2) show ?thesis by auto
qed

lemma demo_running_inv: "sup_inv ([demo_service RUNNING 0 100], (\<lambda>_. None)(100 \<mapsto> Alive))"
  by (auto simp: sup_inv_def svc_inv_def demo_service_def)

theorem supervisor_restart_leaks_witness:
  "\<exists>fork r svs' os'. supervisor_restart fork 0 ([demo_service RUNNING 0 100], (\<lambda>_. None)(100 \<mapsto> Alive)) = (r, svs', os') \<and> \<not> sup_inv (svs', os')"
proof -
  define fork :: fork_alloc where "fork = (\<lambda>os. if os 200 = None then Some 200 else None)"
  have k: "kernel_ok fork" by (simp add: kernel_ok_def fork_def)
  obtain r svs' os' where r: "supervisor_restart fork (int 0) ([demo_service RUNNING 0 100], (\<lambda>_. None)(100 \<mapsto> Alive)) = (r, svs', os')"
    by (cases "supervisor_restart fork (int 0) ([demo_service RUNNING 0 100], (\<lambda>_. None)(100 \<mapsto> Alive))") auto
  have "fork ((\<lambda>_. None)(100 \<mapsto> Alive)) = Some 200" by (simp add: fork_def)
  from supervisor_restart_leaks [OF k _ _ demo_running_inv _ this r] have "\<not> sup_inv (svs', os')"
    by (simp add: demo_service_def)
  with r show ?thesis by auto
qed

text \<open>A failed boot abandons what it started: when the \<open>fork\<close> for the second service fails, the init
  process exits with \<open>EXIT_FAILURE\<close> without stopping the first service, whose process stays alive with
  nobody supervising it.\<close>

theorem init_boot_abandons:
  assumes "service_registry_load config = (2, [a, b])" and "fork (\<lambda>_. None) = Some p"
    and "fork ((\<lambda>_. None)(p \<mapsto> Alive)) = None"
  shows "\<exists>svs. init_main True config fork (\<lambda>_. None) es ans = Some (1, svs, (\<lambda>_. None)(p \<mapsto> Alive))"
  using assms
  by (simp add: init_main_def init_boot_def supervisor_init_def supervisor_start_def valid_index_def Let_def
      numeral_2_eq_2)

theorem init_boot_abandons_witness:
  "\<exists>svs. init_main True (Some (unlines [''a|b|none|0'', ''c|d|none|0''])) demo_alloc (\<lambda>_. None) [] (\<lambda>_. Ends)
     = Some (1, svs, (\<lambda>_. None)(100 \<mapsto> Alive))"
proof (rule init_boot_abandons)
  show "service_registry_load (Some (unlines [''a|b|none|0'', ''c|d|none|0''])) =
      (2, [\<lparr>s_name = ''a'', s_executable = ''b'', s_restart_policy = ''none'', s_max_restarts = 0\<rparr>,
           \<lparr>s_name = ''c'', s_executable = ''d'', s_restart_policy = ''none'', s_max_restarts = 0\<rparr>])"
    by code_simp
qed (simp_all add: demo_alloc_def)

end
