(* ===== verification/Subscriber5G.thy ===== *)
theory Subscriber5G
  imports CTime ChronoExec
begin

text \<open>
  \<open>core/network5g/chrono_5g_manager.c\<close>: registration and revocation of 5G subscribers. The state is
  the local subscriber file and the list of programs started so far, each with its argument vector.
  An operation results in \<open>None\<close> and the state reached so far when it is still waiting for a child
  process. The environment gives, for each argument vector, what \<open>fork\<close> and \<open>waitpid\<close> answer.
\<close>

definition MAX_IMSI :: nat where "MAX_IMSI = 32"
definition MAX_KEY :: nat where "MAX_KEY = 128"
definition MAX_OPC :: nat where "MAX_OPC = 128"
definition MAX_DEVICE_LABEL :: nat where "MAX_DEVICE_LABEL = 128"
definition OPEN5GS_DBCTL :: string where "OPEN5GS_DBCTL = ''open5gs-dbctl''"
definition SYSTEMCTL :: string where "SYSTEMCTL = ''systemctl''"

record g5_state =
  g5_db :: "string option"
  g5_calls :: "exec_call list"

record g5_env =
  ge_mkdir_ok :: bool
  ge_append :: bool                  \<comment> \<open>\<open>fopen(SUBSCRIBER_DB, "a")\<close>\<close>
  ge_read :: bool                    \<comment> \<open>\<open>fopen(SUBSCRIBER_DB, "r")\<close> of an existing file\<close>
  ge_tm :: "tm option"
  ge_torn :: "nat option"            \<comment> \<open>a failing \<open>fflush\<close> or \<open>fclose\<close>: bytes that were written\<close>
  ge_exec :: "string list \<Rightarrow> exec_env"

section \<open>Validation\<close>

definition bad_token_char :: "char \<Rightarrow> bool" where
  "bad_token_char c \<longleftrightarrow> code c < 32 \<or> code c = 127 \<or>
     c \<in> {QUOTE, CHR 0x27, CHR 0x60, CHR '';'', BAR, CHR ''&'', CHR ''$'', CHR ''('', CHR '')'', CHR ''<'', CHR ''>'', BSLASH}"

definition valid_token :: "string \<Rightarrow> nat \<Rightarrow> bool" where
  "valid_token value max_len \<longleftrightarrow> value \<noteq> [] \<and> length value \<le> max_len \<and> \<not> list_ex bad_token_char value"

definition valid_imsi :: "string \<Rightarrow> bool" where
  "valid_imsi imsi \<longleftrightarrow> valid_token imsi MAX_IMSI \<and> \<not> (length imsi < 1 \<or> length imsi > 15) \<and> list_all c_isdigit imsi"

definition valid_secret_token :: "string \<Rightarrow> nat \<Rightarrow> bool" where
  "valid_secret_token value max_len = valid_token value max_len"

section \<open>Programs\<close>

definition run_direct :: "g5_env \<Rightarrow> string list \<Rightarrow> g5_state \<Rightarrow> int option \<times> g5_state" where
  "run_direct env argv st =
     (if \<not> xe_fork_ok (ge_exec env argv) then (Some (-1), st)
      else (wait_loop (xe_waits (ge_exec env argv)), st\<lparr>g5_calls := g5_calls st @ [(hd argv, argv)]\<rparr>))"

definition g5_log_ledger :: "g5_env \<Rightarrow> string \<Rightarrow> string \<Rightarrow> g5_state \<Rightarrow> int option \<times> g5_state" where
  "g5_log_ledger env event_type details st =
     (if \<not> valid_token event_type 128 \<or> \<not> valid_token details 512 then (Some (-1), st)
      else run_direct env [LEDGER_PROGRAM, ''append'', event_type, details] st)"

definition subscriber_line :: "string \<Rightarrow> string \<Rightarrow> string \<Rightarrow> string" where
  "subscriber_line imsi device_label tbuf = imsi @ COMMA # device_label @ COMMA # tbuf @ '',ACTIVE''"

definition append_local_subscriber :: "g5_env \<Rightarrow> string \<Rightarrow> string \<Rightarrow> g5_state \<Rightarrow> int \<times> g5_state" where
  "append_local_subscriber env imsi device_label st =
     (if \<not> ge_append env then (-1, st)
      else
        let old = (case g5_db st of None \<Rightarrow> [] | Some c \<Rightarrow> c) in
        case ge_tm env of
          None \<Rightarrow> (-1, st\<lparr>g5_db := Some old\<rparr>)
        | Some t \<Rightarrow>
            (case strftime_buf 32 (fmt_iso t) of
               None \<Rightarrow> (-1, st\<lparr>g5_db := Some old\<rparr>)
             | Some tbuf \<Rightarrow>
                 let line = subscriber_line imsi device_label tbuf @ [NL] in
                 (case ge_torn env of
                    Some k \<Rightarrow> (-1, st\<lparr>g5_db := Some (old @ take k line)\<rparr>)
                  | None \<Rightarrow> (0, st\<lparr>g5_db := Some (old @ line)\<rparr>))))"

section \<open>Operations\<close>

definition register_subscriber ::
  "g5_env \<Rightarrow> string \<Rightarrow> string \<Rightarrow> string \<Rightarrow> string \<Rightarrow> g5_state \<Rightarrow> int option \<times> g5_state" where
  "register_subscriber env imsi device_label key opc st =
     (if \<not> valid_imsi imsi then (Some 1, st)
      else if \<not> valid_token device_label MAX_DEVICE_LABEL then (Some 1, st)
      else if \<not> valid_secret_token key MAX_KEY then (Some 1, st)
      else if \<not> valid_secret_token opc MAX_OPC then (Some 1, st)
      else
        let (r, st) = append_local_subscriber env imsi device_label st in
        if r \<noteq> 0 then (Some 1, st)
        else case run_direct env [OPEN5GS_DBCTL, ''add'', imsi, key, opc] st of
          (None, st) \<Rightarrow> (None, st)
        | (Some rc, st) \<Rightarrow>
            if rc \<noteq> 0 then
              (case g5_log_ledger env ''5G_SUBSCRIBER_REGISTER_ATTEMPT''
                  (snprintf_buf 512 (''imsi='' @ imsi @ '' dispositivo='' @ device_label @ '' open5gs_rc='' @ int_str rc)) st of
                 (None, st) \<Rightarrow> (None, st)
               | (Some _, st) \<Rightarrow> (Some 1, st))
            else
              (case g5_log_ledger env ''5G_SUBSCRIBER_REGISTERED''
                  (snprintf_buf 512 (''imsi='' @ imsi @ '' dispositivo='' @ device_label)) st of
                 (None, st) \<Rightarrow> (None, st)
               | (Some _, st) \<Rightarrow> (Some 0, st)))"

definition revoke_subscriber :: "g5_env \<Rightarrow> string \<Rightarrow> g5_state \<Rightarrow> int option \<times> g5_state" where
  "revoke_subscriber env imsi st =
     (if \<not> valid_imsi imsi then (Some 1, st)
      else case run_direct env [OPEN5GS_DBCTL, ''remove'', imsi] st of
        (None, st) \<Rightarrow> (None, st)
      | (Some rc, st) \<Rightarrow>
          if rc \<noteq> 0 then
            (case g5_log_ledger env ''5G_SUBSCRIBER_REVOKE_ATTEMPT''
                (snprintf_buf 256 (''imsi='' @ imsi @ '' open5gs_rc='' @ int_str rc)) st of
               (None, st) \<Rightarrow> (None, st)
             | (Some _, st) \<Rightarrow> (Some 1, st))
          else
            (case g5_log_ledger env ''5G_SUBSCRIBER_REVOKED'' imsi st of
               (None, st) \<Rightarrow> (None, st)
             | (Some _, st) \<Rightarrow> (Some 0, st)))"

definition stop_open5gs_service :: "g5_env \<Rightarrow> string \<Rightarrow> g5_state \<Rightarrow> int option \<times> g5_state" where
  "stop_open5gs_service env service st =
     (if \<not> valid_token service 64 then (Some (-1), st)
      else run_direct env [SYSTEMCTL, ''stop'', service] st)"

fun stop_services :: "g5_env \<Rightarrow> string list \<Rightarrow> nat \<Rightarrow> g5_state \<Rightarrow> nat option \<times> g5_state" where
  "stop_services env [] failures st = (Some failures, st)"
| "stop_services env (s # ss) failures st =
     (case stop_open5gs_service env s st of
        (None, st) \<Rightarrow> (None, st)
      | (Some rc, st) \<Rightarrow> stop_services env ss (if rc \<noteq> 0 then Suc failures else failures) st)"

definition panic_services :: "string list" where
  "panic_services = [''open5gs-amfd'', ''open5gs-smfd'', ''open5gs-upfd'']"

definition panic_shutdown_5g :: "g5_env \<Rightarrow> g5_state \<Rightarrow> int option \<times> g5_state" where
  "panic_shutdown_5g env st =
     (case stop_services env panic_services 0 st of
        (None, st) \<Rightarrow> (None, st)
      | (Some failures, st) \<Rightarrow>
          if failures = 0 then
            (case g5_log_ledger env ''5G_CORE_PANIC_SHUTDOWN'' ''servicios Open5GS detenidos por protocolo de panico'' st of
               (None, st) \<Rightarrow> (None, st) | (Some _, st) \<Rightarrow> (Some 0, st))
          else
            (case g5_log_ledger env ''5G_CORE_PANIC_SHUTDOWN_PARTIAL'' ''algunos servicios Open5GS no pudieron detenerse'' st of
               (None, st) \<Rightarrow> (None, st) | (Some _, st) \<Rightarrow> (Some 1, st)))"

datatype amf_status = AMF_ACTIVE | AMF_INACTIVE | AMF_UNKNOWN

definition show_status :: "g5_env \<Rightarrow> g5_state \<Rightarrow> (amf_status \<times> nat option) option \<times> g5_state" where
  \<comment> \<open>what is printed: the state of the AMF and the number of local subscribers, if the file opens\<close>
  "show_status env st =
     (case run_direct env [SYSTEMCTL, ''is-active'', ''open5gs-amfd''] st of
        (None, st) \<Rightarrow> (None, st)
      | (Some rc, st) \<Rightarrow>
          (Some (if rc = 0 then AMF_ACTIVE else if rc = 3 then AMF_INACTIVE else AMF_UNKNOWN,
                 case g5_db st of
                   Some c \<Rightarrow> if ge_read env then Some (length (read_lines 255 c)) else None
                 | None \<Rightarrow> None), st))"

definition g5_main :: "g5_env \<Rightarrow> string list \<Rightarrow> g5_state \<Rightarrow> int option \<times> g5_state" where
  "g5_main env argv st =
     (if \<not> ge_mkdir_ok env then (Some 1, st)
      else if length argv < 2 then (Some 1, st)
      else if argv ! 1 = ''register'' \<and> length argv = 6
        then register_subscriber env (argv ! 2) (argv ! 3) (argv ! 4) (argv ! 5) st
      else if argv ! 1 = ''revoke'' \<and> length argv = 3 then revoke_subscriber env (argv ! 2) st
      else if argv ! 1 = ''panic-shutdown'' \<and> length argv = 2 then panic_shutdown_5g env st
      else if argv ! 1 = ''status'' \<and> length argv = 2
        then (case show_status env st of (None, st) \<Rightarrow> (None, st) | (Some _, st) \<Rightarrow> (Some 0, st))
      else (Some 1, st))"

section \<open>Runs\<close>

definition g5_step :: "g5_state \<Rightarrow> g5_env \<times> string list \<Rightarrow> g5_state" where
  \<comment> \<open>one invocation of the program\<close>
  "g5_step st e = snd (g5_main (fst e) (snd e) st)"

definition call_safe :: "exec_call \<Rightarrow> bool" where
  "call_safe c \<longleftrightarrow> fst c \<in> {LEDGER_PROGRAM, OPEN5GS_DBCTL, SYSTEMCTL} \<and> list_all (\<lambda>a. valid_token a 512) (snd c)"

definition subscriber_ok :: "string \<Rightarrow> bool" where
  "subscriber_ok l \<longleftrightarrow> (\<exists>imsi lab ts. l = subscriber_line imsi lab ts \<and> valid_imsi imsi \<and> valid_token lab MAX_DEVICE_LABEL \<and>
     NL \<notin> set ts \<and> length ts < 32)"

definition db_ok :: "g5_state \<Rightarrow> bool" where
  "db_ok st \<longleftrightarrow> (\<exists>ls. (case g5_db st of None \<Rightarrow> [] | Some c \<Rightarrow> c) = unlines ls \<and> list_all subscriber_ok ls)"

definition g5_inv :: "bool \<Rightarrow> g5_state \<Rightarrow> bool" where
  \<comment> \<open>\<open>whole\<close>: no record reaches the subscriber file in part\<close>
  "g5_inv whole st \<longleftrightarrow> list_all call_safe (g5_calls st) \<and> (whole \<longrightarrow> db_ok st)"

definition no_torn_write :: "g5_env \<times> string list \<Rightarrow> bool" where
  "no_torn_write e \<longleftrightarrow> ge_torn (fst e) \<in> {None, Some 0}"

section \<open>Every invocation keeps the invariant\<close>

lemma valid_token_mono: "valid_token s m \<Longrightarrow> m \<le> n \<Longrightarrow> valid_token s n"
  by (simp add: valid_token_def)

lemma valid_token_no_nl: "valid_token s m \<Longrightarrow> NL \<notin> set s"
proof -
  assume "valid_token s m"
  then have "\<forall>c \<in> set s. \<not> bad_token_char c" by (simp add: valid_token_def list_ex_iff)
  moreover have "bad_token_char NL" by (simp add: bad_token_char_def code_def)
  ultimately show ?thesis by blast
qed

lemma valid_imsi_token: "valid_imsi s \<Longrightarrow> valid_token s 512"
  unfolding valid_imsi_def by (elim conjE, erule valid_token_mono) (simp add: MAX_IMSI_def)

lemma valid_names:
  "valid_token LEDGER_PROGRAM 512" "valid_token OPEN5GS_DBCTL 512" "valid_token SYSTEMCTL 512" "valid_token ''append'' 512"
  "valid_token ''add'' 512" "valid_token ''remove'' 512" "valid_token ''stop'' 512" "valid_token ''is-active'' 512"
  "valid_token ''open5gs-amfd'' 512"
  by (simp_all add: valid_token_def LEDGER_PROGRAM_def OPEN5GS_DBCTL_def SYSTEMCTL_def bad_token_char_def code_def)

lemma db_ok_calls [simp]: "db_ok (st\<lparr>g5_calls := cs\<rparr>) = db_ok st"
  by (simp add: db_ok_def)

lemma run_direct_inv [simp]:
  "g5_inv whole st \<Longrightarrow> call_safe (hd argv, argv) \<Longrightarrow> g5_inv whole (snd (run_direct env argv st))"
  by (simp add: run_direct_def g5_inv_def)

lemma run_direct_db [simp]: "g5_db (snd (run_direct env argv st)) = g5_db st"
  by (simp add: run_direct_def)

lemma log_ledger_inv [simp]: "g5_inv whole st \<Longrightarrow> g5_inv whole (snd (g5_log_ledger env ev de st))"
  using valid_token_mono [of ev 128 512]
  by (auto simp: g5_log_ledger_def call_safe_def valid_names intro!: run_direct_inv)

lemma log_ledger_db [simp]: "g5_db (snd (g5_log_ledger env ev de st)) = g5_db st"
  by (simp add: g5_log_ledger_def)

lemma append_local_calls [simp]: "g5_calls (snd (append_local_subscriber env imsi lab st)) = g5_calls st"
  by (simp add: append_local_subscriber_def Let_def split: option.splits)

lemma append_local_db:
  assumes "db_ok st" and "ge_torn env \<in> {None, Some 0}" and "valid_imsi imsi" and "valid_token lab MAX_DEVICE_LABEL"
  shows "db_ok (snd (append_local_subscriber env imsi lab st))"
proof -
  from assms(1) obtain ls where ls: "(case g5_db st of None \<Rightarrow> [] | Some c \<Rightarrow> c) = unlines ls" "list_all subscriber_ok ls"
    unfolding db_ok_def by blast
  have new: "db_ok (st\<lparr>g5_db := Some (unlines ls @ subscriber_line imsi lab tb @ [NL])\<rparr>)"
    if "strftime_buf 32 (fmt_iso t) = Some tb" for t tb
  proof -
    have "subscriber_ok (subscriber_line imsi lab tb)"
      using that assms(3,4) unfolding subscriber_ok_def
      by (intro exI [of _ imsi] exI [of _ lab] exI [of _ tb]) (auto simp: strftime_buf_Some fmt_iso_free)
    with ls(2) show ?thesis
      unfolding db_ok_def by (intro exI [of _ "ls @ [subscriber_line imsi lab tb]"]) simp
  qed
  have same: "db_ok (st\<lparr>g5_db := Some (unlines ls)\<rparr>)"
    using ls(2) by (auto simp: db_ok_def)
  show ?thesis
    using assms(1,2) same new ls(1)
    by (auto simp: append_local_subscriber_def Let_def split: option.splits)
qed

lemma append_local_inv:
  "g5_inv whole st \<Longrightarrow> (whole \<longrightarrow> ge_torn env \<in> {None, Some 0}) \<Longrightarrow> valid_imsi imsi \<Longrightarrow> valid_token lab MAX_DEVICE_LABEL
    \<Longrightarrow> g5_inv whole (snd (append_local_subscriber env imsi lab st))"
  by (simp add: g5_inv_def append_local_db)

lemma snd_case_log [simp]:
  "snd (case p of (None, s) \<Rightarrow> (None, s) | (Some r, s) \<Rightarrow> (Some c, s)) = snd p"
  by (simp split: prod.splits option.splits)

lemma register_inv [inv_intros]:
  assumes "g5_inv whole st" and "whole \<longrightarrow> ge_torn env \<in> {None, Some 0}"
  shows "g5_inv whole (snd (register_subscriber env imsi lab key opc st))"
proof (cases "valid_imsi imsi \<and> valid_token lab MAX_DEVICE_LABEL \<and> valid_secret_token key MAX_KEY
    \<and> valid_secret_token opc MAX_OPC")
  case True
  obtain r st1 where a: "append_local_subscriber env imsi lab st = (r, st1)" by fastforce
  with True assms have i1: "g5_inv whole st1" using append_local_inv [of whole st env imsi lab] by simp
  have cs: "call_safe (hd [OPEN5GS_DBCTL, ''add'', imsi, key, opc], [OPEN5GS_DBCTL, ''add'', imsi, key, opc])"
    using True valid_token_mono [of key MAX_KEY 512] valid_token_mono [of opc MAX_OPC 512]
    by (simp add: call_safe_def valid_names valid_imsi_token valid_secret_token_def MAX_KEY_def MAX_OPC_def)
  obtain rc st2 where d: "run_direct env [OPEN5GS_DBCTL, ''add'', imsi, key, opc] st1 = (rc, st2)" by fastforce
  with run_direct_inv [OF i1 cs, of env] have "g5_inv whole st2" by simp
  with True a d i1 show ?thesis by (simp add: register_subscriber_def split: option.splits)
qed (use assms in \<open>auto simp: register_subscriber_def\<close>)

lemma revoke_inv [inv_intros]: "g5_inv whole st \<Longrightarrow> g5_inv whole (snd (revoke_subscriber env imsi st))"
proof (cases "valid_imsi imsi")
  case True
  assume i: "g5_inv whole st"
  obtain rc st2 where d: "run_direct env [OPEN5GS_DBCTL, ''remove'', imsi] st = (rc, st2)" by fastforce
  have "call_safe (hd [OPEN5GS_DBCTL, ''remove'', imsi], [OPEN5GS_DBCTL, ''remove'', imsi])"
    using True by (simp add: call_safe_def valid_names valid_imsi_token)
  from run_direct_inv [OF i this, of env] d have "g5_inv whole st2" by simp
  with True d show ?thesis by (simp add: revoke_subscriber_def split: option.splits)
qed (simp add: revoke_subscriber_def)

lemma stop_service_inv: "g5_inv whole st \<Longrightarrow> g5_inv whole (snd (stop_open5gs_service env s st))"
  using valid_token_mono [of s 64 512]
  by (simp add: stop_open5gs_service_def call_safe_def valid_names)

lemma stop_services_inv: "g5_inv whole st \<Longrightarrow> g5_inv whole (snd (stop_services env ss n st))"
proof (induction ss arbitrary: n st)
  case (Cons s ss)
  obtain rc st2 where d: "stop_open5gs_service env s st = (rc, st2)" by fastforce
  with stop_service_inv [OF Cons.prems, of env s] have "g5_inv whole st2" by simp
  with d Cons.IH show ?case by (simp split: option.splits)
qed simp

lemma panic_inv [inv_intros]: "g5_inv whole st \<Longrightarrow> g5_inv whole (snd (panic_shutdown_5g env st))"
proof -
  assume i: "g5_inv whole st"
  obtain f st2 where d: "stop_services env panic_services 0 st = (f, st2)" by fastforce
  with stop_services_inv [OF i, of env panic_services 0] have "g5_inv whole st2" by simp
  with d show ?thesis by (simp add: panic_shutdown_5g_def split: option.splits)
qed

lemma show_status_inv [inv_intros]: "g5_inv whole st \<Longrightarrow> g5_inv whole (snd (show_status env st))"
proof -
  assume i: "g5_inv whole st"
  obtain rc st2 where d: "run_direct env [SYSTEMCTL, ''is-active'', ''open5gs-amfd''] st = (rc, st2)" by fastforce
  have "call_safe (hd [SYSTEMCTL, ''is-active'', ''open5gs-amfd''], [SYSTEMCTL, ''is-active'', ''open5gs-amfd''])"
    by (simp add: call_safe_def valid_names)
  from run_direct_inv [OF i this, of env] d have "g5_inv whole st2" by simp
  with d show ?thesis by (simp add: show_status_def split: option.splits)
qed

lemma g5_step_inv: "(whole \<longrightarrow> no_torn_write e) \<Longrightarrow> g5_inv whole st \<Longrightarrow> g5_inv whole (g5_step st e)"
  by (simp add: g5_step_def g5_main_def no_torn_write_def inv_intros split: prod.splits option.splits)

interpretation gm: invariant_machine g5_step "g5_inv whole" "\<lambda>e. whole \<longrightarrow> no_torn_write e" for whole
  by unfold_locales (rule g5_step_inv)

section \<open>Properties\<close>

lemma subscriber_line_short: "subscriber_ok l \<Longrightarrow> NL \<notin> set l \<and> length l < 255"
  by (auto simp: subscriber_ok_def subscriber_line_def valid_imsi_def MAX_DEVICE_LABEL_def
      dest: valid_token_no_nl) (auto simp: valid_token_def)

lemma valid_token_append:
  "valid_token s m \<Longrightarrow> valid_token t n \<Longrightarrow> m + n \<le> k \<Longrightarrow> valid_token (s @ t) k"
  by (auto simp: valid_token_def)

lemma details_token:
  assumes "valid_imsi imsi" and "valid_token lab MAX_DEVICE_LABEL"
  shows "valid_token (''imsi='' @ imsi @ '' dispositivo='' @ lab) 512"
proof -
  have p: "valid_token ''imsi='' 5" "valid_token '' dispositivo='' 13"
    by (simp_all add: valid_token_def bad_token_char_def code_def)
  have i: "valid_token imsi 32" and l: "valid_token lab 128"
    using assms by (simp_all add: valid_imsi_def MAX_IMSI_def MAX_DEVICE_LABEL_def)
  have "valid_token ('' dispositivo='' @ lab) 141" by (rule valid_token_append [OF p(2) l]) simp
  from valid_token_append [OF i this] have "valid_token (imsi @ '' dispositivo='' @ lab) 173" by simp
  from valid_token_append [OF p(1) this] show ?thesis by (simp only:)
qed

lemma details_fit:
  assumes "valid_imsi imsi" and "valid_token lab MAX_DEVICE_LABEL"
  shows "snprintf_buf 512 (''imsi='' @ imsi @ '' dispositivo='' @ lab) = ''imsi='' @ imsi @ '' dispositivo='' @ lab"
proof (rule snprintf_buf_fits)
  have "length imsi \<le> 15" "length lab \<le> 128"
    using assms by (simp_all add: valid_imsi_def valid_token_def MAX_DEVICE_LABEL_def)
  then show "length (''imsi='' @ imsi @ '' dispositivo='' @ lab) < 512" by simp
qed

definition all_exit :: "g5_env \<Rightarrow> bool" where
  "all_exit env \<longleftrightarrow> (\<forall>argv. xe_fork_ok (ge_exec env argv) \<and> wait_loop (xe_waits (ge_exec env argv)) = Some 0)"

lemma run_direct_ok: "all_exit env \<Longrightarrow>
  run_direct env argv st = (Some 0, st\<lparr>g5_calls := g5_calls st @ [(hd argv, argv)]\<rparr>)"
  by (simp add: all_exit_def run_direct_def)

text \<open>A registration that the environment does not obstruct is complete: with valid arguments, a
  writable subscriber file and programs that exit with 0 the result is 0, exactly one ACTIVE record is
  appended to the local file, and the subscriber database tool and then the ledger program are started
  once each, with the unabridged arguments as separate words.\<close>

theorem g5_register_ok:
  assumes "valid_imsi imsi" and "valid_token lab MAX_DEVICE_LABEL"
    and "valid_secret_token key MAX_KEY" and "valid_secret_token opc MAX_OPC"
    and "all_exit env" and "ge_append env" and "ge_tm env = Some t"
    and "strftime_buf 32 (fmt_iso t) = Some tb" and "ge_torn env = None"
  shows "register_subscriber env imsi lab key opc st
    = (Some 0, \<lparr>g5_db = Some ((case g5_db st of None \<Rightarrow> [] | Some c \<Rightarrow> c) @ subscriber_line imsi lab tb @ [NL]),
        g5_calls = g5_calls st @
          [(OPEN5GS_DBCTL, [OPEN5GS_DBCTL, ''add'', imsi, key, opc]),
           (LEDGER_PROGRAM, [LEDGER_PROGRAM, ''append'', ''5G_SUBSCRIBER_REGISTERED'',
              ''imsi='' @ imsi @ '' dispositivo='' @ lab])]\<rparr>)"
proof -
  have ev: "valid_token ''5G_SUBSCRIBER_REGISTERED'' 128"
    by (simp add: valid_token_def bad_token_char_def code_def)
  note d = details_token [OF assms(1,2)]
  show ?thesis
    unfolding register_subscriber_def g5_log_ledger_def append_local_subscriber_def details_fit [OF assms(1,2)]
    using assms ev d
    by (simp del: append_Cons append_assoc add: Let_def run_direct_ok)
qed

definition g5_demo_env :: g5_env where
  "g5_demo_env = \<lparr>ge_mkdir_ok = True, ge_append = True, ge_read = True,
     ge_tm = Some \<lparr>tm_year = 2026, tm_mon = 1, tm_mday = 2, tm_hour = 3, tm_min = 4, tm_sec = 5, tm_gmtoff = 0\<rparr>,
     ge_torn = None, ge_exec = (\<lambda>_. \<lparr>xe_fork_ok = True, xe_waits = [WaitEINTR, WaitDone (Exited 0)]\<rparr>)\<rparr>"

lemma demo_args: "valid_imsi ''214070000000001''" "valid_token ''cam,A'' MAX_DEVICE_LABEL"
  "valid_secret_token ''0011'' MAX_KEY" "valid_secret_token ''aabb'' MAX_OPC" "all_exit g5_demo_env"
  by (simp_all add: valid_imsi_def valid_secret_token_def valid_token_def bad_token_char_def code_def MAX_IMSI_def
      MAX_KEY_def MAX_OPC_def MAX_DEVICE_LABEL_def all_exit_def g5_demo_env_def c_isdigit_def)

theorem g5_register_ok_witness:
  "register_subscriber g5_demo_env ''214070000000001'' ''cam,A'' ''0011'' ''aabb'' \<lparr>g5_db = None, g5_calls = []\<rparr>
    = (Some 0, \<lparr>g5_db = Some (subscriber_line ''214070000000001'' ''cam,A'' (fmt_iso (the (ge_tm g5_demo_env))) @ [NL]),
        g5_calls = [(OPEN5GS_DBCTL, [OPEN5GS_DBCTL, ''add'', ''214070000000001'', ''0011'', ''aabb'']),
           (LEDGER_PROGRAM, [LEDGER_PROGRAM, ''append'', ''5G_SUBSCRIBER_REGISTERED'',
              ''imsi=214070000000001 dispositivo=cam,A''])]\<rparr>)"
proof -
  have "ge_append g5_demo_env" "ge_tm g5_demo_env = Some (the (ge_tm g5_demo_env))" "ge_torn g5_demo_env = None"
    "strftime_buf 32 (fmt_iso (the (ge_tm g5_demo_env))) = Some (fmt_iso (the (ge_tm g5_demo_env)))"
    by (simp_all add: g5_demo_env_def strftime_buf_def nat_str.simps)
  from g5_register_ok [OF demo_args this(1,2,4,3), of "\<lparr>g5_db = None, g5_calls = []\<rparr>"]
  show ?thesis by simp
qed

text \<open>C15: Whatever the arguments and the answers of the kernel, torn writes included, every program the manager ever starts is
  the ledger, the Open5GS tool or \<open>systemctl\<close>, with arguments of at most 512 bytes that hold no control
  character and no shell metacharacter; and if a failing write to the subscriber file leaves no part of its record there, the file
  is a sequence of records with a validated IMSI and label.\<close>

theorem g5_runs_safe:
  "list_all call_safe (g5_calls (foldl g5_step \<lparr>g5_db = None, g5_calls = []\<rparr> es))
    \<and> (list_all no_torn_write es \<longrightarrow> db_ok (foldl g5_step \<lparr>g5_db = None, g5_calls = []\<rparr> es))"
proof -
  have start: "g5_inv whole \<lparr>g5_db = None, g5_calls = []\<rparr>" for whole
    by (auto simp: g5_inv_def db_ok_def intro: exI [of _ "[]"])
  from gm.run_inv [of False es, OF _ start] gm.run_inv [of True es, OF _ start] show ?thesis
    by (simp add: g5_inv_def list_all_iff)
qed

theorem g5_runs_safe_witness:
  "list_all call_safe (g5_calls (foldl g5_step \<lparr>g5_db = None, g5_calls = []\<rparr>
     [(g5_demo_env, [''x'', ''revoke'', ''1'']), (g5_demo_env, [''x'', ''panic-shutdown''])])) \<and>
   db_ok (foldl g5_step \<lparr>g5_db = None, g5_calls = []\<rparr>
     [(g5_demo_env, [''x'', ''revoke'', ''1'']), (g5_demo_env, [''x'', ''panic-shutdown''])])"
  using g5_runs_safe [of "[(g5_demo_env, [''x'', ''revoke'', ''1'']), (g5_demo_env, [''x'', ''panic-shutdown''])]"]
  by (simp add: no_torn_write_def g5_demo_env_def)

text \<open>Revoking a subscriber never touches the local subscriber file: even when the revocation
  succeeds and is recorded in the ledger, the record stays there as ACTIVE and \<open>status\<close> goes on counting
  every record ever appended as a registered subscriber.\<close>

theorem g5_revoke_keeps_active:
  assumes "valid_imsi imsi" and "all_exit env" and "ge_read env"
    and "g5_db st = Some (unlines ls)" and "list_all subscriber_ok ls"
  shows "fst (revoke_subscriber env imsi st) = Some 0 \<and> g5_db (snd (revoke_subscriber env imsi st)) = g5_db st
    \<and> fst (show_status env (snd (revoke_subscriber env imsi st))) = Some (AMF_ACTIVE, Some (length ls))"
proof -
  have sl: "short_lines 255 ls"
    using assms(5) subscriber_line_short by (auto simp: short_lines_def list_all_iff)
  have r: "fst (revoke_subscriber env imsi st) = Some 0"
    and d: "g5_db (snd (revoke_subscriber env imsi st)) = g5_db st"
    using assms(1,2) by (simp_all add: revoke_subscriber_def run_direct_ok g5_log_ledger_def)
  have "fst (show_status env (snd (revoke_subscriber env imsi st))) = Some (AMF_ACTIVE, Some (length ls))"
    using assms(2-4) d by (simp add: show_status_def run_direct_ok read_lines_unlines [OF sl])
  with r d show ?thesis by blast
qed

theorem g5_revoke_keeps_active_witness:
  "fst (show_status g5_demo_env (snd (revoke_subscriber g5_demo_env ''214070000000001''
     \<lparr>g5_db = Some (unlines [subscriber_line ''214070000000001'' ''cam,A'' ''2026-01-02T03:04:05'']), g5_calls = []\<rparr>)))
   = Some (AMF_ACTIVE, Some 1)"
proof -
  let ?ls = "[subscriber_line ''214070000000001'' ''cam,A'' ''2026-01-02T03:04:05'']"
  have "subscriber_ok (hd ?ls)"
    unfolding subscriber_ok_def using demo_args(1,2)
    by (intro exI [of _ "''214070000000001''"] exI [of _ "''cam,A''"] exI [of _ "''2026-01-02T03:04:05''"]) simp
  moreover have "ge_read g5_demo_env" by (simp add: g5_demo_env_def)
  ultimately show ?thesis
    using g5_revoke_keeps_active [OF demo_args(1,5), of "\<lparr>g5_db = Some (unlines ?ls), g5_calls = []\<rparr>" ?ls] by simp
qed

text \<open>A label may hold commas, and each of them adds a field to the record.\<close>

lemma label_adds_fields:
  "filter (\<lambda>c. c = COMMA) (subscriber_line imsi lab ts)
    = filter (\<lambda>c. c = COMMA) imsi @ COMMA # filter (\<lambda>c. c = COMMA) lab @ COMMA # filter (\<lambda>c. c = COMMA) ts @ [COMMA]"
  by (simp add: subscriber_line_def)

end
