(* ===== verification/Merkle.thy ===== *)
theory Merkle
  imports CString "HOL-Library.Char_ord" "HOL-Library.List_Lexorder" "HOL-Library.Multiset"
begin

text \<open>
  The Merkle tree of \<open>core/chrono_pin_forge.c\<close> and \<open>core/chrono_pin_verify.c\<close> (the two files hold the
  same functions): leaves are relative paths with the digest of the file, sorted by \<open>strcmp\<close>, which
  on NUL-free strings is the lexicographic order of unsigned bytes; levels are halved until one node is
  left, an odd last node being paired with itself. \<open>H\<close> is SHA-256 of OpenSSL.
\<close>

type_synonym leaf = "string \<times> string"

section \<open>The tree\<close>

definition leaf_hash :: "(string \<Rightarrow> string) \<Rightarrow> leaf \<Rightarrow> string" where
  "leaf_hash H leaf = H (fst leaf @ snd leaf)"

fun merkle_pairs :: "string list \<Rightarrow> string list" where
  \<comment> \<open>the texts hashed for the next level; an odd last node is paired with itself\<close>
  "merkle_pairs [] = []"
| "merkle_pairs [a] = [a @ a]"
| "merkle_pairs (a # b # ls) = (a @ b) # merkle_pairs ls"

definition merkle_level :: "(string \<Rightarrow> string) \<Rightarrow> string list \<Rightarrow> string list" where
  "merkle_level H ls = map H (merkle_pairs ls)"

lemma length_merkle_pairs: "length (merkle_pairs ls) = (length ls + 1) div 2"
  by (induction ls rule: merkle_pairs.induct) auto

lemma length_merkle_level [simp]: "length (merkle_level H ls) = (length ls + 1) div 2"
  by (simp add: merkle_level_def length_merkle_pairs)

function merkle_up :: "(string \<Rightarrow> string) \<Rightarrow> string list \<Rightarrow> string" where
  \<comment> \<open>the loop \<open>while (n > 1)\<close>, from the hashes of the leaves to the root\<close>
  "merkle_up H level = (if length level > 1 then merkle_up H (merkle_level H level) else hd level)"
  by auto
termination by (relation "measure (\<lambda>(H, ls). length ls)") auto

declare merkle_up.simps [simp del]

definition compute_merkle_root :: "(string \<Rightarrow> string) \<Rightarrow> leaf list \<Rightarrow> string" where
  "compute_merkle_root H leaves =
     (if leaves = [] then replicate 32 NUL
      else merkle_up H (map (leaf_hash H) (sort_key fst leaves)))"

section \<open>Order of the files\<close>

text \<open>The root is deterministic: it does not depend on the order in which the directories list
  their files. Two indexings of the same files, with no path listed twice, have the same root.\<close>

theorem merkle_order_independent:
  assumes "mset leaves = mset leaves'" and "distinct (map fst leaves)"
  shows "compute_merkle_root H leaves = compute_merkle_root H leaves'"
proof -
  have "inj_on fst (set leaves)" using assms(2) by (simp add: distinct_map)
  then have "sort_key fst leaves = sort_key fst leaves'"
    using assms(1) by (intro sort_key_inj_key_eq) simp_all
  moreover have "leaves = [] \<longleftrightarrow> leaves' = []" using assms(1) by auto
  ultimately show ?thesis by (simp add: compute_merkle_root_def)
qed

theorem merkle_order_independent_witness:
  "compute_merkle_root rev [(''b'', ''1''), (''a'', ''2''), (''c'', ''3'')]
   = compute_merkle_root rev [(''c'', ''3''), (''b'', ''1''), (''a'', ''2'')]"
  by (rule merkle_order_independent) simp_all

section \<open>Binding\<close>

fun merkle_texts :: "(string \<Rightarrow> string) \<Rightarrow> nat \<Rightarrow> string list \<Rightarrow> string list" where
  \<comment> \<open>all texts hashed above a level, in at most \<open>n\<close> steps\<close>
  "merkle_texts H 0 ls = []"
| "merkle_texts H (Suc n) ls =
     (if length ls > 1 then merkle_pairs ls @ merkle_texts H n (merkle_level H ls) else [])"

definition root_texts :: "(string \<Rightarrow> string) \<Rightarrow> leaf list \<Rightarrow> string list" where
  \<comment> \<open>all texts hashed for a root\<close>
  "root_texts H leaves =
     (let ts = map (\<lambda>l. fst l @ snd l) (sort_key fst leaves) in ts @ merkle_texts H (length leaves) (map H ts))"

definition exhibits_collision :: "(string \<Rightarrow> string) \<Rightarrow> string list \<Rightarrow> string list \<Rightarrow> bool" where
  "exhibits_collision H xs ys \<longleftrightarrow> (\<exists>x \<in> set xs. \<exists>y \<in> set ys. x \<noteq> y \<and> H x = H y)"

lemma exhibits_append:
  "exhibits_collision H xs ys \<Longrightarrow> exhibits_collision H (xs @ us) (ys @ vs)"
  "exhibits_collision H us vs \<Longrightarrow> exhibits_collision H (xs @ us) (ys @ vs)"
  by (auto simp: exhibits_collision_def)

lemma map_hash_eq: "map H xs = map H ys \<Longrightarrow> xs = ys \<or> exhibits_collision H xs ys"
proof (induction xs arbitrary: ys)
  case (Cons x xs)
  then obtain y zs where ys: "ys = y # zs" by (cases ys) auto
  show ?case
  proof (cases "x = y")
    case True
    with Cons ys have "xs = zs \<or> exhibits_collision H xs zs" by simp
    with True ys show ?thesis by (auto simp: exhibits_collision_def)
  next
    case False
    with Cons.prems ys show ?thesis by (auto simp: exhibits_collision_def)
  qed
qed simp

lemma merkle_pairs_inject:
  "length ls = length ms \<Longrightarrow> list_all (\<lambda>a. length a = k) ls \<Longrightarrow> list_all (\<lambda>a. length a = k) ms
    \<Longrightarrow> merkle_pairs ls = merkle_pairs ms \<Longrightarrow> ls = ms"
proof (induction ls arbitrary: ms rule: merkle_pairs.induct)
  case (2 a)
  then show ?case by (cases ms) auto
next
  case (3 a b ls)
  then obtain c ms' where ms: "ms = c # ms'" by (cases ms) auto
  with 3 obtain d ms'' where "ms' = d # ms''" by (cases ms') auto
  with ms 3 show ?case by auto
qed simp

lemma merkle_level_32: "\<forall>x. length (H x) = k \<Longrightarrow> list_all (\<lambda>a. length a = k) (merkle_level H ls)"
  by (simp add: merkle_level_def list_all_iff)

lemma merkle_up_binds:
  assumes "\<forall>x. length (H x) = k"
  shows "length ls = length ms \<Longrightarrow> length ls \<le> n \<Longrightarrow> ls \<noteq> [] \<Longrightarrow> list_all (\<lambda>a. length a = k) ls \<Longrightarrow> list_all (\<lambda>a. length a = k) ms
    \<Longrightarrow> merkle_up H ls = merkle_up H ms \<Longrightarrow> ls = ms \<or> exhibits_collision H (merkle_texts H n ls) (merkle_texts H n ms)"
proof (induction n arbitrary: ls ms)
  case (Suc n)
  show ?case
  proof (cases "length ls > 1")
    case False
    with Suc.prems(1,3,6) show ?thesis
      by (cases ls; cases ms) (auto simp: merkle_up.simps)
  next
    case True
    let ?l = "merkle_level H ls" and ?m = "merkle_level H ms"
    have up: "merkle_up H ?l = merkle_up H ?m"
      using True Suc.prems(1,6) merkle_up.simps [of H ls] merkle_up.simps [of H ms] by simp
    have len: "length ?l = length ?m" "length ?l \<le> n" "?l \<noteq> []"
      using True Suc.prems(1,2) by (simp_all add: length_0_conv [symmetric] del: length_0_conv)
    from Suc.IH [OF len merkle_level_32 [OF assms] merkle_level_32 [OF assms] up]
    show ?thesis
    proof
      assume "?l = ?m"
      then have "merkle_pairs ls = merkle_pairs ms \<or> exhibits_collision H (merkle_pairs ls) (merkle_pairs ms)"
        unfolding merkle_level_def by (rule map_hash_eq)
      then show ?thesis
        using merkle_pairs_inject [OF Suc.prems(1,4,5)] True Suc.prems(1)
        by (auto simp: exhibits_append)
    next
      assume "exhibits_collision H (merkle_texts H n ?l) (merkle_texts H n ?m)"
      then show ?thesis using True Suc.prems(1) by (simp add: exhibits_append)
    qed
  qed
qed simp

text \<open>The root binds the files: two indexings with the same number of files (each with a 32-byte
  digest) and the same root list the same files with the same digests, or among the texts hashed for
  the two roots there are two that differ and have the same SHA-256 digest.\<close>

lemma merkle_root_binds:
  assumes "length leaves = length leaves'" and "\<forall>x. length (H x) = 32"
    and "list_all (\<lambda>l. length (snd l) = 32) leaves" and "list_all (\<lambda>l. length (snd l) = 32) leaves'"
    and "compute_merkle_root H leaves = compute_merkle_root H leaves'"
  shows "mset leaves = mset leaves' \<or> exhibits_collision H (root_texts H leaves) (root_texts H leaves')"
proof (cases "leaves = []")
  case False
  let ?t = "\<lambda>l. map (\<lambda>l. fst l @ snd l) (sort_key fst (l :: leaf list))"
  have up: "merkle_up H (map H (?t leaves)) = merkle_up H (map H (?t leaves'))"
  proof -
    have "leaves' \<noteq> []" using assms(1) False by auto
    with assms(5) False show ?thesis by (simp add: compute_merkle_root_def leaf_hash_def [abs_def] comp_def)
  qed
  have "sort_key fst leaves \<noteq> []" using False by (metis length_0_conv length_sort)
  then have "map H (?t leaves) = map H (?t leaves') \<or>
      exhibits_collision H (merkle_texts H (length leaves) (map H (?t leaves))) (merkle_texts H (length leaves) (map H (?t leaves')))"
    using assms(1,2) False up by (intro merkle_up_binds [where k = 32]) (simp_all add: list_all_iff)
  then show ?thesis
  proof
    assume "map H (?t leaves) = map H (?t leaves')"
    then have "?t leaves = ?t leaves' \<or> exhibits_collision H (?t leaves) (?t leaves')" by (rule map_hash_eq)
    moreover have "sort_key fst leaves = sort_key fst leaves'" if eq: "?t leaves = ?t leaves'"
    proof (rule nth_equalityI)
      show len: "length (sort_key fst leaves) = length (sort_key fst leaves')" using assms(1) by simp
      fix i assume i: "i < length (sort_key fst leaves)"
      with eq len have "fst (sort_key fst leaves ! i) @ snd (sort_key fst leaves ! i)
          = fst (sort_key fst leaves' ! i) @ snd (sort_key fst leaves' ! i)"
        by (metis (no_types, lifting) nth_map)
      moreover have "length (snd (sort_key fst leaves ! i)) = 32" "length (snd (sort_key fst leaves' ! i)) = 32"
        using assms(3,4) i len nth_mem [of i "sort_key fst leaves"] nth_mem [of i "sort_key fst leaves'"]
        by (auto simp: list_all_iff)
      ultimately show "sort_key fst leaves ! i = sort_key fst leaves' ! i" by (simp add: prod_eq_iff)
    qed
    ultimately consider "sort_key fst leaves = sort_key fst leaves'" | "exhibits_collision H (?t leaves) (?t leaves')"
      by blast
    then show ?thesis
    proof cases
      case 1
      then have "mset (sort_key fst leaves) = mset (sort_key fst leaves')" by simp
      then show ?thesis by simp
    qed (simp add: root_texts_def Let_def exhibits_append(1))
  next
    assume "exhibits_collision H (merkle_texts H (length leaves) (map H (?t leaves))) (merkle_texts H (length leaves) (map H (?t leaves')))"
    then show ?thesis using assms(1) by (simp add: root_texts_def Let_def exhibits_append)
  qed
qed (use assms(1) in simp)

text \<open>Leaves and inner nodes are hashed alike: the root of two files \<open>p\<close> and \<open>q\<close> is also the root
  of a directory with one file, whose path is the leaf digest of \<open>p\<close> and whose content is the hashed
  text of the leaf \<open>q\<close> (a possible directory whenever that digest holds no NUL byte and no slash). A
  signature of the root covers both directories, without any collision.\<close>

theorem merkle_second_preimage:
  assumes "p < q"
  shows "compute_merkle_root H [(p, H c), (q, H d)] = compute_merkle_root H [(H (p @ H c), H (q @ H d))]"
  using assms
  by (simp add: compute_merkle_root_def leaf_hash_def merkle_up.simps merkle_level_def insort_key.simps less_imp_le)

theorem merkle_second_preimage_witness:
  "compute_merkle_root rev [(''a'', rev ''x''), (''b'', rev ''y'')] = compute_merkle_root rev [(rev (''a'' @ rev ''x''), rev (''b'' @ rev ''y''))]"
  by (rule merkle_second_preimage) (simp add: less_char_def)

end
