(* ===== verification/PinForge.thy ===== *)
theory PinForge
  imports Merkle "HOL-Library.AList"
begin

text \<open>
  \<open>core/chrono_pin_forge.c\<close> and \<open>core/chrono_pin_verify.c\<close>: indexing a directory, signing its Merkle
  root and verifying the signed bundle. The state is the file tree below the working directory, without
  symbolic links; paths are relative to it and do not climb with \<open>..\<close>, and a directory can be searched. Other
  than regular files have no contents here (\<open>Special\<close>). SHA-256, Ed25519 and the
  PEM format of OpenSSL are the parameters of a \<open>pin_crypto\<close>. The walk of a directory takes fuel and is
  \<open>None\<close> when it runs out: the source recurses without a bound.
\<close>

section \<open>File trees\<close>

datatype node = Dir "(string \<times> node) list" | Reg string | Special

abbreviation "SLASH \<equiv> CHR ''/''"

fun resolve :: "node \<Rightarrow> string list \<Rightarrow> node option" where
  "resolve n [] = Some n"
| "resolve (Dir es) (c # cs) =
     (if c = [] \<or> c = ''.'' then resolve (Dir es) cs
      else case map_of es c of None \<Rightarrow> None | Some n \<Rightarrow> resolve n cs)"
| "resolve _ (c # cs) = None"

definition path_node :: "node \<Rightarrow> string \<Rightarrow> node option" where
  "path_node fs path = resolve fs (split_on SLASH path)"

fun put_at :: "node \<Rightarrow> string list \<Rightarrow> node \<Rightarrow> node option" where
  \<comment> \<open>create or replace an entry of an existing directory\<close>
  "put_at (Dir es) [c] new = (if c = [] \<or> c = ''.'' then None else Some (Dir (AList.update c new es)))"
| "put_at (Dir es) (c # d # cs) new =
     (if c = [] \<or> c = ''.'' then put_at (Dir es) (d # cs) new
      else case map_of es c of
             None \<Rightarrow> None
           | Some n \<Rightarrow> map_option (\<lambda>n'. Dir (AList.update c n' es)) (put_at n (d # cs) new))"
| "put_at _ _ _ = None"

record pin_env =
  pe_readable :: "string \<Rightarrow> bool"             \<comment> \<open>\<open>opendir\<close> and \<open>fopen\<close> for reading of what exists\<close>
  pe_writable :: "string \<Rightarrow> bool"             \<comment> \<open>\<open>fopen\<close> for writing\<close>
  pe_keygen :: "(string \<times> string) option"   \<comment> \<open>a new key pair as PEM texts, private and public\<close>

record pin_crypto =
  pc_H :: "string \<Rightarrow> string"
  pc_sign :: "string \<Rightarrow> string \<Rightarrow> string option"        \<comment> \<open>PEM text, message; \<open>None\<close>: not a private key\<close>
  pc_verify :: "string \<Rightarrow> string \<Rightarrow> string \<Rightarrow> bool option"  \<comment> \<open>PEM text, signature, message; \<open>None\<close>: not a public key\<close>

definition fopen_r :: "pin_env \<Rightarrow> node \<Rightarrow> string \<Rightarrow> string option" where
  "fopen_r env fs path =
     (if pe_readable env path then (case path_node fs path of Some (Reg c) \<Rightarrow> Some c | _ \<Rightarrow> None) else None)"

definition fopen_w :: "pin_env \<Rightarrow> node \<Rightarrow> string \<Rightarrow> string \<Rightarrow> node option" where
  \<comment> \<open>\<open>fopen(path, "w")\<close>, the writes of the given content and \<open>fclose\<close>; \<open>None\<close>: a \<open>NULL\<close> stream\<close>
  "fopen_w env fs path content =
     (if \<not> pe_writable env path then None
      else case path_node fs path of
             Some (Dir es) \<Rightarrow> None
           | Some Special \<Rightarrow> Some fs
           | _ \<Rightarrow> put_at fs (split_on SLASH path) (Reg content))"

definition mkdir_p :: "node \<Rightarrow> string \<Rightarrow> node" where
  \<comment> \<open>\<open>mkdir\<close>, whose result the code ignores\<close>
  "mkdir_p fs path =
     (if path_node fs path \<noteq> None then fs
      else case put_at fs (split_on SLASH path) (Dir []) of None \<Rightarrow> fs | Some t \<Rightarrow> t)"

section \<open>Indexing\<close>

definition MAX_PATH :: nat where "MAX_PATH = 2048"
definition MAX_FILES :: nat where "MAX_FILES = 8192"

definition compute_file_sha256 :: "(string \<Rightarrow> string) \<Rightarrow> pin_env \<Rightarrow> node \<Rightarrow> string \<Rightarrow> string option" where
  "compute_file_sha256 H env fs filepath = map_option H (fopen_r env fs filepath)"

definition readdir_names :: "(string \<times> node) list \<Rightarrow> string list" where
  "readdir_names es = ''.'' # ''..'' # map fst es"

function walk_dir :: "nat \<Rightarrow> (string \<Rightarrow> string) \<Rightarrow> pin_env \<Rightarrow> node \<Rightarrow> string \<Rightarrow> string \<Rightarrow> leaf list \<Rightarrow> leaf list option"
  and walk_entries :: "nat \<Rightarrow> (string \<Rightarrow> string) \<Rightarrow> pin_env \<Rightarrow> node \<Rightarrow> string \<Rightarrow> string \<Rightarrow> string list \<Rightarrow> leaf list \<Rightarrow> leaf list option"
where
  "walk_dir 0 H env fs base rel leaves = None"
| "walk_dir (Suc k) H env fs base rel leaves =
     (let fullpath = snprintf_buf MAX_PATH (base @ SLASH # rel) in
      if \<not> pe_readable env fullpath then Some leaves
      else case path_node fs fullpath of
             Some (Dir es) \<Rightarrow> walk_entries k H env fs base rel (readdir_names es) leaves
           | _ \<Rightarrow> Some leaves)"
| "walk_entries k H env fs base rel [] leaves = Some leaves"
| "walk_entries k H env fs base rel (name # names) leaves =
     (if name = ''.'' \<or> name = ''..'' then walk_entries k H env fs base rel names leaves
      else if name = ''.git'' then walk_entries k H env fs base rel names leaves
      else if rel = [] \<and> (name = ''vault'' \<or> name = ''build'') then walk_entries k H env fs base rel names leaves
      else
        let childrel = snprintf_buf MAX_PATH (if rel = [] then name else rel @ SLASH # name);
            childfull = snprintf_buf MAX_PATH (base @ SLASH # childrel) in
        case path_node fs childfull of
          None \<Rightarrow> walk_entries k H env fs base rel names leaves
        | Some (Dir es) \<Rightarrow>
            (case walk_dir k H env fs base childrel leaves of
               None \<Rightarrow> None
             | Some leaves \<Rightarrow> walk_entries k H env fs base rel names leaves)
        | Some (Reg c) \<Rightarrow>
            if length leaves \<ge> MAX_FILES then walk_entries k H env fs base rel names leaves
            else
              (case compute_file_sha256 H env fs childfull of
                 None \<Rightarrow> walk_entries k H env fs base rel names leaves
               | Some h \<Rightarrow> walk_entries k H env fs base rel names (leaves @ [(take (MAX_PATH - 1) childrel, h)]))
        | Some Special \<Rightarrow> walk_entries k H env fs base rel names leaves)"
  by pat_completeness auto
termination
  by (relation "inv_image (less_than <*lex*> less_than <*lex*> less_than)
      (\<lambda>x. case x of Inl (k, _) \<Rightarrow> (k, 0 :: nat, 0) | Inr (k, _, _, _, _, _, ns, _) \<Rightarrow> (k, 1, length ns))") auto

section \<open>Forging\<close>

definition PRIV_PATH :: string where "PRIV_PATH = ''security/auth/pinforge_ed25519.pem''"
definition PUB_PATH :: string where "PUB_PATH = ''security/auth/pinforge_ed25519.pub''"

definition ensure_keypair :: "pin_env \<Rightarrow> node \<Rightarrow> int option \<times> node" where
  \<comment> \<open>\<open>None\<close>: the program crashes, since it writes to the \<open>NULL\<close> stream of a failed \<open>fopen\<close>\<close>
  "ensure_keypair env fs =
     (if path_node fs PRIV_PATH \<noteq> None \<and> path_node fs PUB_PATH \<noteq> None then (Some 0, fs)
      else case pe_keygen env of
        None \<Rightarrow> (Some (-1), fs)
      | Some (priv, pub) \<Rightarrow>
          (case fopen_w env fs PRIV_PATH priv of
             None \<Rightarrow> (None, fs)
           | Some fs \<Rightarrow>
               (case fopen_w env fs PUB_PATH pub of
                  None \<Rightarrow> (None, fs)
                | Some fs \<Rightarrow> (Some 0, fs))))"

definition sign_root :: "pin_crypto \<Rightarrow> pin_env \<Rightarrow> node \<Rightarrow> string \<Rightarrow> string option" where
  "sign_root c env fs rt = (case fopen_r env fs PRIV_PATH of None \<Rightarrow> None | Some pem \<Rightarrow> pc_sign c pem rt)"

definition bundle_text :: "string \<Rightarrow> nat \<Rightarrow> string \<Rightarrow> string \<Rightarrow> string \<Rightarrow> string" where
  "bundle_text project_dir leaf_count root_hex sig_hex pub_path =
     unlines [''CHRONO_PIN_FORGE_BUNDLE_V5'', ''TARGET_DIR:'' @ project_dir, ''FILE_COUNT:'' @ int_str (int leaf_count),
       ''MERKLE_ROOT:'' @ root_hex, ''SIGNATURE_ALGO:Ed25519'', ''SIGNATURE:'' @ sig_hex, ''PUBKEY_FILE:'' @ pub_path]"

datatype forge_outcome = Forged | ForgeFailed | ForgeCrashed

definition forge_bundle ::
  "nat \<Rightarrow> pin_crypto \<Rightarrow> pin_env \<Rightarrow> string \<Rightarrow> string \<Rightarrow> node \<Rightarrow> (forge_outcome \<times> node) option" where
  "forge_bundle fuel c env project_dir output fs =
     (case walk_dir fuel (pc_H c) env fs project_dir [] [] of
        None \<Rightarrow> None
      | Some leaves \<Rightarrow> Some (
          let rt = compute_merkle_root (pc_H c) leaves;
              fs = mkdir_p fs ''security/auth'';
              (r, fs) = ensure_keypair env fs in
          case r of
            None \<Rightarrow> (ForgeCrashed, fs)
          | Some rc \<Rightarrow>
              if rc \<noteq> 0 then (ForgeFailed, fs)
              else case sign_root c env fs rt of
                None \<Rightarrow> (ForgeFailed, fs)
              | Some sig \<Rightarrow>
                  (case fopen_w env fs output
                      (bundle_text project_dir (length leaves) (hex_of rt) (hex_of sig) PUB_PATH) of
                     None \<Rightarrow> (ForgeFailed, fs)
                   | Some fs \<Rightarrow> (Forged, fs))))"

definition forge_main ::
  "nat \<Rightarrow> pin_crypto \<Rightarrow> pin_env \<Rightarrow> string list \<Rightarrow> node \<Rightarrow> (forge_outcome \<times> node) option" where
  "forge_main fuel c env argv fs =
     (let target = (if length argv > 1 then argv ! 1 else ''.'');
          output = (if length argv > 2 then argv ! 2 else ''./vault/chrono_package.forge'') in
      forge_bundle fuel c env target output (mkdir_p fs ''vault''))"

section \<open>Verifying\<close>

record pin_bundle =
  pb_root :: string
  pb_sig :: string
  pb_pubkey :: string

definition bundle_step :: "pin_bundle \<Rightarrow> string \<Rightarrow> pin_bundle" where
  "bundle_step b raw =
     (let line = takeWhile (\<lambda>c. c \<noteq> NL) (cstr raw) in
      if starts_with ''MERKLE_ROOT:'' line then b\<lparr>pb_root := take 64 (drop 12 line)\<rparr>
      else if starts_with ''SIGNATURE:'' line then b\<lparr>pb_sig := take 256 (drop 10 line)\<rparr>
      else if starts_with ''PUBKEY_FILE:'' line then b\<lparr>pb_pubkey := take 511 (drop 12 line)\<rparr>
      else b)"

definition parse_bundle :: "string \<Rightarrow> pin_bundle" where
  "parse_bundle content =
     foldl bundle_step \<lparr>pb_root = [], pb_sig = [], pb_pubkey = []\<rparr> (read_lines 511 content)"

definition hex_byte_at :: "(nat \<Rightarrow> char) \<Rightarrow> string \<Rightarrow> nat \<Rightarrow> char" where
  \<comment> \<open>byte \<open>i\<close> of the output array: what \<open>sscanf\<close> stored there, or else what was there before\<close>
  "hex_byte_at junk hex i =
     (if i < length hex div 2 then (case scan_2x (drop (2 * i) hex) of Some v \<Rightarrow> char_of v | None \<Rightarrow> junk i) else junk i)"

definition pin_verify_main ::
  "nat \<Rightarrow> pin_crypto \<Rightarrow> pin_env \<Rightarrow> (nat \<Rightarrow> char) \<Rightarrow> string list \<Rightarrow> node \<Rightarrow> int option" where
  \<comment> \<open>\<open>junk\<close>: the uninitialised bytes of the arrays on the stack\<close>
  "pin_verify_main fuel c env junk argv fs =
     (if length argv < 3 then Some 1
      else case fopen_r env fs (argv ! 2) of
        None \<Rightarrow> Some 1
      | Some content \<Rightarrow>
          let b = parse_bundle content in
          if pb_root b = [] \<or> pb_sig b = [] \<or> pb_pubkey b = [] then Some 1
          else case walk_dir fuel (pc_H c) env fs (argv ! 1) [] [] of
            None \<Rightarrow> None
          | Some leaves \<Rightarrow>
              let current_root_hex = hex_of (compute_merkle_root (pc_H c) leaves);
                  integrity_ok = (current_root_hex = pb_root b) in
              case fopen_r env fs (pb_pubkey b) of
                None \<Rightarrow> Some 1
              | Some pem \<Rightarrow>
                  let sig = map (hex_byte_at junk (pb_sig b)) [0..<length (pb_sig b) div 2];
                      stored_root_bytes = map (hex_byte_at junk (pb_root b)) [0..<32] in
                  (case pc_verify c pem sig stored_root_bytes of
                     None \<Rightarrow> Some 1
                   | Some sig_ok \<Rightarrow> Some (if integrity_ok \<and> sig_ok then 0 else 1)))"

section \<open>Paths\<close>

lemma resolve_append: "resolve n (xs @ ys) = (case resolve n xs of None \<Rightarrow> None | Some m \<Rightarrow> resolve m ys)"
  by (induction n xs rule: resolve.induct) (auto split: option.splits)

lemma split_on_append: "split_on d (a @ d # b) = split_on d a @ split_on d b"
  by (induction a) (auto split: list.splits)

lemma path_node_append: "path_node fs (a @ SLASH # b) = (case path_node fs a of None \<Rightarrow> None | Some m \<Rightarrow> path_node m b)"
  by (simp add: path_node_def split_on_append resolve_append split: option.split)

lemma path_node_prefix: "path_node fs (a @ SLASH # b) \<noteq> None \<Longrightarrow> path_node fs a \<noteq> None"
  by (auto simp: path_node_append split: option.splits)

lemma path_node_name: "SLASH \<notin> set name \<Longrightarrow> name \<noteq> [] \<Longrightarrow> name \<noteq> ''.'' \<Longrightarrow> path_node (Dir es) name = map_of es name"
  by (simp add: path_node_def split_on_free split: option.split)

lemma put_at_Dir: "put_at n cs new = Some n' \<Longrightarrow> \<exists>es. n' = Dir es"
  by (induction n cs new arbitrary: n' rule: put_at.induct) (auto split: if_splits option.splits)

lemma resolve_put: "put_at n cs new = Some n' \<Longrightarrow> resolve n' cs = Some new"
proof (induction n cs new arbitrary: n' rule: put_at.induct)
  case (1 es c new)
  then show ?case by (auto simp: update_conv split: if_splits)
next
  case (2 es c d cs new)
  show ?case
  proof (cases "c = [] \<or> c = ''.''")
    case True
    with 2 have p: "put_at (Dir es) (d # cs) new = Some n'" "resolve n' (d # cs) = Some new" by simp_all
    from put_at_Dir [OF p(1)] True p(2) show ?thesis by auto
  next
    case False
    with 2 show ?thesis by (auto simp: update_conv split: option.splits)
  qed
qed simp_all

lemma path_node_fopen_w:
  "fopen_w env fs path content = Some fs' \<Longrightarrow> path_node fs path \<noteq> Some Special \<Longrightarrow> path_node fs' path = Some (Reg content)"
  by (auto simp: fopen_w_def path_node_def resolve_put split: if_splits option.splits node.splits)

section \<open>What is indexed\<close>

definition child_rel :: "string \<Rightarrow> string \<Rightarrow> string" where
  "child_rel rel name = (if rel = [] then name else rel @ SLASH # name)"

definition excluded :: "string \<Rightarrow> string \<Rightarrow> bool" where
  "excluded rel name \<longleftrightarrow> name = ''.git'' \<or> rel = [] \<and> (name = ''vault'' \<or> name = ''build'')"

fun files_of :: "string \<Rightarrow> node \<Rightarrow> (string \<times> string) list"
  and files_in :: "string \<Rightarrow> (string \<times> node) list \<Rightarrow> (string \<times> string) list" where
  \<comment> \<open>the regular files of a tree with their contents, in the order of the directories\<close>
  "files_of rel (Dir es) = files_in rel es"
| "files_of rel (Reg c) = [(rel, c)]"
| "files_of rel Special = []"
| "files_in rel [] = []"
| "files_in rel ((name, n) # es) =
     (if excluded rel name then [] else files_of (child_rel rel name) n) @ files_in rel es"

fun depth_of :: "node \<Rightarrow> nat" and depth_in :: "(string \<times> node) list \<Rightarrow> nat" where
  "depth_of (Dir es) = Suc (depth_in es)"
| "depth_of _ = 0"
| "depth_in [] = 0"
| "depth_in ((name, n) # es) = max (depth_of n) (depth_in es)"

fun walkable :: "pin_env \<Rightarrow> string \<Rightarrow> string \<Rightarrow> node \<Rightarrow> bool"
  and walkable_in :: "pin_env \<Rightarrow> string \<Rightarrow> string \<Rightarrow> (string \<times> node) list \<Rightarrow> bool" where
  \<comment> \<open>every path fits its buffer and everything that is not excluded can be read\<close>
  "walkable env base rel (Dir es) \<longleftrightarrow> length base + length rel + 1 < MAX_PATH \<and> pe_readable env (base @ SLASH # rel) \<and>
     distinct (map fst es) \<and> walkable_in env base rel es"
| "walkable env base rel (Reg c) \<longleftrightarrow> length base + length rel + 1 < MAX_PATH \<and> pe_readable env (base @ SLASH # rel)"
| "walkable env base rel Special \<longleftrightarrow> length base + length rel + 1 < MAX_PATH"
| "walkable_in env base rel [] \<longleftrightarrow> True"
| "walkable_in env base rel ((name, n) # es) \<longleftrightarrow> name \<noteq> [] \<and> SLASH \<notin> set name \<and> name \<notin> {''.'', ''..''} \<and>
     (excluded rel name \<or> walkable env base (child_rel rel name) n) \<and> walkable_in env base rel es"

lemma walkable_length: "walkable env base rel n \<Longrightarrow> length base + length rel + 1 < MAX_PATH"
  by (cases n) auto

lemma child_path:
  assumes "path_node fs (base @ SLASH # rel) = Some (Dir es)" and "map_of es name = Some n"
    and "name \<noteq> []" "SLASH \<notin> set name" "name \<noteq> ''.''"
  shows "path_node fs (base @ SLASH # child_rel rel name) = Some n"
proof (cases "rel = []")
  case True
  have "path_node m [] = (case m of Dir es \<Rightarrow> Some m | _ \<Rightarrow> None)" for m
    by (cases m) (simp_all add: path_node_def)
  with True assms(1) have "path_node fs base = Some (Dir es)"
    by (auto simp: path_node_append split: option.splits node.splits)
  with True assms show ?thesis by (simp add: child_rel_def path_node_append path_node_name)
next
  case False
  then have "base @ SLASH # child_rel rel name = (base @ SLASH # rel) @ SLASH # name" by (simp add: child_rel_def)
  with assms path_node_append [of fs "base @ SLASH # rel" name] show ?thesis
    by (simp add: path_node_name del: append_assoc)
qed

definition walks_to :: "(string \<Rightarrow> string) \<Rightarrow> pin_env \<Rightarrow> node \<Rightarrow> string \<Rightarrow> nat \<Rightarrow> string \<Rightarrow> node \<Rightarrow> bool" where
  "walks_to H env fs base k rel n \<longleftrightarrow> (\<forall>leaves. length leaves + length (files_of rel n) \<le> MAX_FILES \<longrightarrow>
     walk_dir k H env fs base rel leaves = Some (leaves @ map (\<lambda>(p, c). (p, H c)) (files_of rel n)))"

lemma walk_entries_correct:
  assumes dir: "path_node fs (base @ SLASH # rel) = Some (Dir (pre @ es))" "distinct (map fst (pre @ es))"
    and "walkable_in env base rel es" and "depth_in es \<le> k"
    and sub: "\<And>name n. n \<noteq> Special \<Longrightarrow> depth_of n \<le> k \<Longrightarrow> (\<exists>es. n = Dir es) \<Longrightarrow> walkable env base (child_rel rel name) n \<Longrightarrow>
      path_node fs (base @ SLASH # child_rel rel name) = Some n \<Longrightarrow> walks_to H env fs base k (child_rel rel name) n"
    and "length leaves + length (files_in rel es) \<le> MAX_FILES"
  shows "walk_entries k H env fs base rel (map fst es) leaves
    = Some (leaves @ map (\<lambda>(p, c). (p, H c)) (files_in rel es))"
  using dir assms(3,4,6)
proof (induction es arbitrary: pre leaves)
  case (Cons e es)
  obtain name n where e: "e = (name, n)" by (cases e)
  have n: "name \<noteq> []" "SLASH \<notin> set name" "name \<noteq> ''.''" "name \<noteq> ''..''" using Cons.prems(3) by (auto simp: e)
  have IH: "walk_entries k H env fs base rel (map fst es) ls = Some (ls @ map (\<lambda>(p, c). (p, H c)) (files_in rel es))"
    if "length ls + length (files_in rel es) \<le> MAX_FILES" for ls
    using Cons.IH [of "pre @ [e]" ls] Cons.prems(1-4) that by (auto simp: e)
  show ?case
  proof (cases "excluded rel name")
    case True
    then show ?thesis using IH [of leaves] Cons.prems(5) n by (auto simp: e excluded_def)
  next
    case False
    then have w: "walkable env base (child_rel rel name) n" using Cons.prems(3) by (simp add: e)
    note len = walkable_length [OF w]
    have "map_of pre name = None" using Cons.prems(2) by (auto simp: e map_of_eq_None_iff)
    then have mo: "map_of (pre @ e # es) name = Some n" by (simp add: e map_add_def)
    have pn: "path_node fs (base @ SLASH # child_rel rel name) = Some n"
      by (rule child_path [OF Cons.prems(1) mo n(1-3)])
    have cr: "snprintf_buf MAX_PATH (if rel = [] then name else rel @ SLASH # name) = child_rel rel name"
      using len by (simp add: child_rel_def)
    have cf: "snprintf_buf MAX_PATH (base @ SLASH # child_rel rel name) = base @ SLASH # child_rel rel name"
      using len by simp
    show ?thesis
    proof (cases n)
      case (Dir ds)
      have "depth_of n \<le> k" using Cons.prems(4) by (simp add: e)
      then have "walks_to H env fs base k (child_rel rel name) n" using sub [of n name] w pn Dir by simp
      then have "walk_dir k H env fs base (child_rel rel name) leaves
          = Some (leaves @ map (\<lambda>(p, c). (p, H c)) (files_of (child_rel rel name) n))"
        using Cons.prems(5) False by (simp add: walks_to_def e)
      then show ?thesis
        using Dir False n pn cr cf Cons.prems(5) IH [of "leaves @ map (\<lambda>(p, c). (p, H c)) (files_of (child_rel rel name) n)"]
        by (auto simp: e excluded_def Let_def)
    next
      case (Reg c)
      have "compute_file_sha256 H env fs (base @ SLASH # child_rel rel name) = Some (H c)"
        using w Reg pn by (simp add: compute_file_sha256_def fopen_r_def)
      then show ?thesis
        using Reg False n pn cr cf len Cons.prems(5) IH [of "leaves @ [(child_rel rel name, H c)]"]
        by (auto simp: e excluded_def Let_def MAX_PATH_def)
    next
      case Special
      then show ?thesis using False n pn cr cf Cons.prems(5) IH [of leaves] by (auto simp: e excluded_def Let_def)
    qed
  qed
qed simp

lemma walk_dir_correct:
  "depth_of n \<le> k \<Longrightarrow> n = Dir es \<Longrightarrow> walkable env base rel n \<Longrightarrow> path_node fs (base @ SLASH # rel) = Some n
    \<Longrightarrow> walks_to H env fs base k rel n"
proof (induction k arbitrary: rel n es)
  case (Suc k)
  have "walk_entries k H env fs base rel (map fst es) leaves = Some (leaves @ map (\<lambda>(p, c). (p, H c)) (files_in rel es))"
    if "length leaves + length (files_in rel es) \<le> MAX_FILES" for leaves
    by (rule walk_entries_correct [where pre = "[]"]) (use Suc that in auto)
  moreover have "snprintf_buf MAX_PATH (base @ SLASH # rel) = base @ SLASH # rel" "pe_readable env (base @ SLASH # rel)"
    using Suc.prems(2,3) by simp_all
  ultimately show ?case using Suc.prems(2,4) by (simp add: walks_to_def readdir_names_def Let_def)
qed simp

text \<open>C28: The index is complete and the walk ends: for a directory whose paths fit their buffers and
  whose files can be read, with at most 8192 files, the walk returns (fuel: the depth of the tree), and
  the leaves are exactly the regular files below the directory, each once, with its path relative to it
  and the digest of its content, except what lies below a \<open>.git\<close> or a top-level \<open>vault\<close> or \<open>build\<close>.\<close>

theorem pin_index_complete:
  assumes "path_node fs (base @ ''/'') = Some (Dir es)" and "walkable env base [] (Dir es)"
    and "length (files_of [] (Dir es)) \<le> MAX_FILES" and "depth_of (Dir es) \<le> fuel"
  shows "walk_dir fuel H env fs base [] [] = Some (map (\<lambda>(p, c). (p, H c)) (files_of [] (Dir es)))"
  using walk_dir_correct [OF assms(4) refl assms(2), of fs H] assms(1,3) by (simp add: walks_to_def)

theorem pin_index_complete_witness:
  "walk_dir 2 rev \<lparr>pe_readable = \<lambda>_. True, pe_writable = \<lambda>_. True, pe_keygen = None\<rparr>
      (Dir [(''s'', Dir [(''a'', Reg ''x'')]), (''.git'', Dir []), (''b'', Reg ''yz'')]) ''.'' [] []
    = Some (map (\<lambda>(p, c). (p, rev c)) (files_of [] (Dir [(''s'', Dir [(''a'', Reg ''x'')]), (''.git'', Dir []), (''b'', Reg ''yz'')])))"
  by (rule pin_index_complete)
    (simp_all add: path_node_def MAX_PATH_def MAX_FILES_def excluded_def child_rel_def)

section \<open>The bundle\<close>

fun bundle_field :: "pin_bundle \<Rightarrow> string \<Rightarrow> pin_bundle" where
  \<comment> \<open>the effect of a line without its end\<close>
  "bundle_field b l =
     (if starts_with ''MERKLE_ROOT:'' l then b\<lparr>pb_root := take 64 (drop 12 l)\<rparr>
      else if starts_with ''SIGNATURE:'' l then b\<lparr>pb_sig := take 256 (drop 10 l)\<rparr>
      else if starts_with ''PUBKEY_FILE:'' l then b\<lparr>pb_pubkey := take 511 (drop 12 l)\<rparr>
      else b)"

lemma bundle_step_line: "NL \<notin> set l \<and> NUL \<notin> set l \<Longrightarrow> bundle_step b (l @ [NL]) = bundle_field b l"
proof -
  assume l: "NL \<notin> set l \<and> NUL \<notin> set l"
  then have "takeWhile (\<lambda>c. c \<noteq> NUL) (l @ [NL]) = l @ [NL]" by (intro takeWhile_all) auto
  moreover have "takeWhile (\<lambda>c. c \<noteq> NL) (l @ [NL]) = l"
    using l by (subst takeWhile_append2) auto
  ultimately show ?thesis by (simp add: bundle_step_def cstr_def del: append_assoc)
qed

lemma parse_bundle_text:
  assumes "NL \<notin> set dir" "NUL \<notin> set dir" "length dir < 500" and "n < 10 ^ 9"
    and "length rt \<le> 32" "length sig \<le> 128" and "NL \<notin> set pub" "NUL \<notin> set pub" "length pub < 499"
  shows "parse_bundle (bundle_text dir n (hex_of rt) (hex_of sig) pub)
    = \<lparr>pb_root = hex_of rt, pb_sig = hex_of sig, pb_pubkey = pub\<rparr>"
proof -
  have free: "NL \<notin> set (nat_str n)" "NUL \<notin> set (nat_str n)" "NL \<notin> set (hex_of x)" "NUL \<notin> set (hex_of x)" for x
    by (simp_all add: cstr_simps)
  have len: "length (nat_str n) \<le> 9" by (rule nat_str_length_mono) (use assms(4) in simp_all)
  let ?ls = "[''CHRONO_PIN_FORGE_BUNDLE_V5'', ''TARGET_DIR:'' @ dir, ''FILE_COUNT:'' @ int_str (int n),
       ''MERKLE_ROOT:'' @ hex_of rt, ''SIGNATURE_ALGO:Ed25519'', ''SIGNATURE:'' @ hex_of sig, ''PUBKEY_FILE:'' @ pub]"
  have "short_lines 511 ?ls" using assms free len by simp
  then have "read_lines 511 (bundle_text dir n (hex_of rt) (hex_of sig) pub) = map (\<lambda>l. l @ [NL]) ?ls"
    unfolding bundle_text_def by (rule read_lines_unlines)
  then have "parse_bundle (bundle_text dir n (hex_of rt) (hex_of sig) pub)
      = foldl (\<lambda>b l. bundle_step b (l @ [NL])) \<lparr>pb_root = [], pb_sig = [], pb_pubkey = []\<rparr> ?ls"
    by (simp only: parse_bundle_def foldl_map)
  also have "\<dots> = foldl bundle_field \<lparr>pb_root = [], pb_sig = [], pb_pubkey = []\<rparr> ?ls"
  proof (rule foldl_cong [OF refl refl])
    fix b l assume "l \<in> set ?ls"
    moreover have "\<forall>l \<in> set ?ls. NL \<notin> set l \<and> NUL \<notin> set l" using assms free by simp
    ultimately show "bundle_step b (l @ [NL]) = bundle_field b l" by (intro bundle_step_line) blast
  qed
  finally show ?thesis using assms by (simp add: starts_with_def)
qed

lemma drop_hex_of: "drop (2 * i) (hex_of bs) = hex_of (drop i bs)"
proof (induction bs arbitrary: i)
  case (Cons b bs)
  then show ?case by (cases i) simp_all
qed simp

lemma hex_byte_at_hex_of: "i < length bs \<Longrightarrow> hex_byte_at junk (hex_of bs) i = bs ! i"
proof -
  assume i: "i < length bs"
  have lt: "code (bs ! i) div 16 < 16" using code_lt [of "bs ! i"] by simp
  have "drop (2 * i) (hex_of bs) = hex_of (bs ! i # drop (Suc i) bs)" using i by (simp add: drop_hex_of Cons_nth_drop_Suc)
  then have "scan_2x (drop (2 * i) (hex_of bs)) = Some (16 * (code (bs ! i) div 16) + code (bs ! i) mod 16)"
    using lt by (simp only: hex_of_simps scan_2x_hex mod_less_divisor)
  with i show ?thesis by (simp add: hex_byte_at_def code_def)
qed

lemma hex_bytes_of_hex: "n = length bs \<Longrightarrow> map (hex_byte_at junk (hex_of bs)) [0..<n] = bs"
  by (rule nth_equalityI) (simp_all add: hex_byte_at_hex_of)

section \<open>Acceptance\<close>

lemma length_merkle_up:
  "list_all (\<lambda>a. length a = k) ls \<Longrightarrow> ls \<noteq> [] \<Longrightarrow> \<forall>x. length (H x) = k \<Longrightarrow> length (merkle_up H ls) = k"
proof (induction H ls rule: merkle_up.induct)
  case (1 H ls)
  show ?case
  proof (cases "length ls > 1")
    case True
    then have "merkle_level H ls \<noteq> []" by (simp add: length_0_conv [symmetric] del: length_0_conv)
    then have "length (merkle_up H (merkle_level H ls)) = k" using True 1 merkle_level_32 by blast
    then show ?thesis using True by (subst merkle_up.simps) simp
  next
    case False
    with 1(2,3) show ?thesis by (subst merkle_up.simps) (cases ls; simp)
  qed
qed

lemma length_root: "\<forall>x. length (H x) = 32 \<Longrightarrow> length (compute_merkle_root H leaves) = 32"
  unfolding compute_merkle_root_def
  by (auto simp: list_all_iff leaf_hash_def intro!: length_merkle_up)
    (metis length_0_conv length_sort)

lemma verify_accept_iff:
  assumes "\<forall>x. length (pc_H c x) = 32" and "fopen_r env fs bpath = Some content"
    and "walk_dir fuel (pc_H c) env fs base [] [] = Some leaves"
  shows "pin_verify_main fuel c env junk [a, base, bpath] fs = Some 0 \<longleftrightarrow>
    (let b = parse_bundle content; rt = compute_merkle_root (pc_H c) leaves in
     pb_root b = hex_of rt \<and> pb_sig b \<noteq> [] \<and> pb_pubkey b \<noteq> [] \<and>
     (\<exists>pem. fopen_r env fs (pb_pubkey b) = Some pem \<and>
        pc_verify c pem (map (hex_byte_at junk (pb_sig b)) [0..<length (pb_sig b) div 2]) rt = Some True))"
proof -
  let ?rt = "compute_merkle_root (pc_H c) leaves"
  have "length ?rt = 32" using assms(1) by (rule length_root)
  then have "hex_of ?rt \<noteq> []" "map (hex_byte_at junk (hex_of ?rt)) [0..<32] = ?rt"
    by (auto simp: hex_bytes_of_hex length_0_conv [symmetric] simp del: length_0_conv)
  with assms(2,3) show ?thesis
    by (cases "pb_root (parse_bundle content) = hex_of ?rt")
      (auto simp: pin_verify_main_def Let_def split: option.splits)
qed

lemma verify_accepts:
  assumes "walk_dir fuel (pc_H c) env fs base [] [] = Some leaves" and "\<forall>x. length (pc_H c x) = 32"
    and "fopen_r env fs bpath
      = Some (bundle_text base (length leaves) (hex_of (compute_merkle_root (pc_H c) leaves)) (hex_of sig) key)"
    and "NL \<notin> set base" "NUL \<notin> set base" "length base < 500" "length leaves < 10 ^ 9"
    and "sig \<noteq> []" "length sig \<le> 128" and "key \<noteq> []" "NL \<notin> set key" "NUL \<notin> set key" "length key < 499"
    and "fopen_r env fs key = Some pem" and "pc_verify c pem sig (compute_merkle_root (pc_H c) leaves) = Some True"
  shows "pin_verify_main fuel c env junk [a, base, bpath] fs = Some 0"
proof -
  have pb: "parse_bundle (bundle_text base (length leaves) (hex_of (compute_merkle_root (pc_H c) leaves)) (hex_of sig) key)
      = \<lparr>pb_root = hex_of (compute_merkle_root (pc_H c) leaves), pb_sig = hex_of sig, pb_pubkey = key\<rparr>"
    by (rule parse_bundle_text [OF assms(4-7)]) (simp_all add: assms length_root)
  have "hex_of sig \<noteq> []" using assms(8) by (cases sig) simp_all
  moreover have "map (hex_byte_at junk (hex_of sig)) [0..<length (hex_of sig) div 2] = sig" by (simp add: hex_bytes_of_hex)
  ultimately show ?thesis
    unfolding verify_accept_iff [OF assms(2,3,1)] Let_def pb using assms(10,14,15) by auto
qed

definition hashed_texts :: "(string \<Rightarrow> string) \<Rightarrow> (string \<times> string) list \<Rightarrow> string list" where
  \<comment> \<open>all texts hashed when files with these paths and contents are indexed\<close>
  "hashed_texts H files = map snd files @ root_texts H (map (\<lambda>(p, c). (p, H c)) files)"

lemma mset_digests:
  assumes "mset (map (\<lambda>(p, c). (p, H c)) xs) = mset (map (\<lambda>(p, c). (p, H c)) ys)"
  shows "mset xs = mset ys \<or> exhibits_collision H (map snd xs) (map snd ys)"
proof (rule disjCI)
  let ?g = "\<lambda>(p, c). (p, H c)"
  assume no: "\<not> exhibits_collision H (map snd xs) (map snd ys)"
  have cross: "x = y" if "x \<in> set xs" "y \<in> set ys" "?g x = ?g y" for x y
  proof -
    have p: "fst x = fst y" and h: "H (snd x) = H (snd y)" using that(3) by (simp_all add: case_prod_beta)
    have "snd x \<in> set (map snd xs)" "snd y \<in> set (map snd ys)" using that(1,2) by simp_all
    with no h have "snd x = snd y" unfolding exhibits_collision_def by blast
    with p show "x = y" by (rule prod_eqI)
  qed
  have sets: "?g ` set xs = ?g ` set ys" using arg_cong [OF assms, of set_mset] by simp
  have inj: "inj_on ?g (set xs \<union> set ys)"
  proof (rule inj_onI)
    fix x y assume xy: "x \<in> set xs \<union> set ys" "y \<in> set xs \<union> set ys" "?g x = ?g y"
    have "?g x \<in> ?g ` set xs" "?g x \<in> ?g ` set ys" using xy(1) sets by blast+
    then obtain u v where uv: "u \<in> set xs" "?g x = ?g u" "v \<in> set ys" "?g x = ?g v" by (metis (no_types, lifting) imageE)
    have eqs: "?g x = ?g v" "?g u = ?g x" "?g y = ?g v" "?g u = ?g y" "?g u = ?g v" using uv xy(3) by argo+
    have "u = v" by (rule cross [OF uv(1,3) eqs(5)])
    moreover have "x = u \<or> x = v" using xy(1) cross [OF _ uv(3) eqs(1)] cross [OF uv(1) _ eqs(2)] by blast
    moreover have "y = u \<or> y = v" using xy(2) cross [OF _ uv(3) eqs(3)] cross [OF uv(1) _ eqs(4)] by blast
    ultimately show "x = y" by blast
  qed
  define h where "h = the_inv_into (set xs \<union> set ys) ?g"
  have "map h (map ?g zs) = zs" if "set zs \<subseteq> set xs \<union> set ys" for zs
  proof -
    have "h (?g z) = z" if "z \<in> set zs" for z
      unfolding h_def using that \<open>set zs \<subseteq> set xs \<union> set ys\<close> by (intro the_inv_into_f_f [OF inj]) auto
    then show ?thesis unfolding map_map by (intro map_idI) (simp only: comp_apply)
  qed
  then have "map h (map ?g xs) = xs" "map h (map ?g ys) = ys" by simp_all
  moreover have "mset (map h (map ?g xs)) = mset (map h (map ?g ys))"
    unfolding mset_map [of h] by (rule arg_cong [OF assms])
  ultimately show "mset xs = mset ys" by argo
qed

text \<open>C11: Verification detects tampering: when the verifier accepts a directory, and the root in the
  bundle was computed from as many files as the directory has now, then the directory still holds
  exactly those files with those contents, or among the texts hashed for the two indexings there are two
  that differ and have the same SHA-256 digest. The directory must be readable and within the limits.\<close>

theorem pin_verify_detects:
  assumes "pin_verify_main fuel c env junk [a, base, bpath] fs = Some 0"
    and "fopen_r env fs bpath = Some content"
    and "pb_root (parse_bundle content) = hex_of (compute_merkle_root (pc_H c) (map (\<lambda>(p, x). (p, pc_H c x)) signed))"
    and "path_node fs (base @ ''/'') = Some (Dir es)" and "walkable env base [] (Dir es)"
    and "length (files_of [] (Dir es)) \<le> MAX_FILES" and "depth_of (Dir es) \<le> fuel"
    and "length signed = length (files_of [] (Dir es))" and "\<forall>x. length (pc_H c x) = 32"
  shows "mset (files_of [] (Dir es)) = mset signed \<or>
    exhibits_collision (pc_H c) (hashed_texts (pc_H c) (files_of [] (Dir es))) (hashed_texts (pc_H c) signed)"
proof -
  let ?H = "pc_H c" and ?fs = "files_of [] (Dir es)"
  let ?g = "map (\<lambda>(p, x). (p, ?H x))"
  have "walk_dir fuel ?H env fs base [] [] = Some (?g ?fs)"
    using walk_dir_correct [OF assms(7) refl assms(5), of fs ?H] assms(4,6) by (simp add: walks_to_def)
  from assms(1) [unfolded verify_accept_iff [OF assms(9,2) this]] assms(3)
  have "compute_merkle_root ?H (?g ?fs) = compute_merkle_root ?H (?g signed)"
    by (auto simp: Let_def dest: hex_of_inject)
  then have "mset (?g ?fs) = mset (?g signed) \<or> exhibits_collision ?H (root_texts ?H (?g ?fs)) (root_texts ?H (?g signed))"
    using assms(8,9) by (intro merkle_root_binds) (auto simp: list_all_iff)
  then show ?thesis unfolding hashed_texts_def using mset_digests exhibits_append by metis
qed

section \<open>Forging and then verifying\<close>

definition BUNDLE :: string where "BUNDLE = ''./vault/chrono_package.forge''"

lemma path_node_dot: "path_node (Dir es) ''./'' = Some (Dir es)"
  by (simp add: path_node_def)

lemma path_node_security:
  "path_node (Dir (AList.update ''vault'' v es)) PRIV_PATH = path_node (Dir es) PRIV_PATH"
  "path_node (Dir (AList.update ''vault'' v es)) PUB_PATH = path_node (Dir es) PUB_PATH"
  by (simp_all add: path_node_def PRIV_PATH_def PUB_PATH_def update_conv')

lemma files_in_update_vault: "files_in [] (AList.update ''vault'' v es) = files_in [] es"
  by (induction es) (auto simp: excluded_def)

lemma walkable_in_update_vault: "walkable_in env base [] es \<Longrightarrow> walkable_in env base [] (AList.update ''vault'' v es)"
  by (induction es) (auto simp: excluded_def)

lemma depth_in_update: "depth_in (AList.update x v es) \<le> max (depth_of v) (depth_in es)"
  by (induction es) auto

lemma depth_in_map_of: "map_of es x = Some n \<Longrightarrow> depth_of n \<le> depth_in es"
  by (induction es) (auto split: if_splits)

definition pin_tree :: "pin_env \<Rightarrow> nat \<Rightarrow> (string \<times> node) list \<Rightarrow> bool" where
  \<comment> \<open>a working directory that can be indexed completely\<close>
  "pin_tree env fuel es \<longleftrightarrow> walkable env ''.'' [] (Dir es) \<and> length (files_of [] (Dir es)) \<le> MAX_FILES \<and>
     depth_of (Dir es) \<le> fuel"

lemma pin_tree_update_vault: "pin_tree env fuel es \<Longrightarrow> Suc (depth_of v) \<le> fuel \<Longrightarrow> pin_tree env fuel (AList.update ''vault'' v es)"
  using depth_in_update [of "''vault''" v es]
  by (auto simp: pin_tree_def files_in_update_vault walkable_in_update_vault distinct_update)

lemma pin_tree_walk:
  "pin_tree env fuel es \<Longrightarrow> walk_dir fuel H env (Dir es) ''.'' [] [] = Some (map (\<lambda>(p, c). (p, H c)) (files_in [] es))"
  using walk_dir_correct [of "Dir es" fuel es env "''.''" "[]" "Dir es" H] path_node_dot [of es]
  by (simp add: pin_tree_def walks_to_def)

definition bundle_slot :: "(string \<times> node) list \<Rightarrow> bool" where
  \<comment> \<open>there is no \<open>vault\<close> yet, or it is a directory where the bundle can be created or replaced\<close>
  "bundle_slot es \<longleftrightarrow> (case map_of es ''vault'' of
       None \<Rightarrow> True
     | Some (Dir vs) \<Rightarrow> (case map_of vs ''chrono_package.forge'' of None \<Rightarrow> True | Some (Reg _) \<Rightarrow> True | _ \<Rightarrow> False)
     | _ \<Rightarrow> False)"

definition forge_ready :: "pin_env \<Rightarrow> nat \<Rightarrow> string \<Rightarrow> string \<Rightarrow> (string \<times> node) list \<Rightarrow> (string \<times> node) list \<Rightarrow> bool" where
  \<comment> \<open>an indexable directory with the key pair and a \<open>vault\<close> with entries \<open>vs\<close>\<close>
  "forge_ready env fuel priv pub es vs \<longleftrightarrow> pin_tree env fuel es \<and> 2 \<le> fuel \<and>
     fopen_r env (Dir es) PRIV_PATH = Some priv \<and> fopen_r env (Dir es) PUB_PATH = Some pub \<and>
     map_of es ''vault'' = Some (Dir vs) \<and>
     (map_of vs ''chrono_package.forge'' = None \<or> (\<exists>t. map_of vs ''chrono_package.forge'' = Some (Reg t)))"

lemma fopen_r_security:
  "fopen_r env (Dir (AList.update ''vault'' v es)) PRIV_PATH = fopen_r env (Dir es) PRIV_PATH"
  "fopen_r env (Dir (AList.update ''vault'' v es)) PUB_PATH = fopen_r env (Dir es) PUB_PATH"
  by (simp_all add: fopen_r_def path_node_security)

lemma forge_ready_mkdir:
  assumes "pin_tree env fuel es" "2 \<le> fuel" "fopen_r env (Dir es) PRIV_PATH = Some priv" "fopen_r env (Dir es) PUB_PATH = Some pub"
    and "bundle_slot es"
  shows "\<exists>es' vs. mkdir_p (Dir es) ''vault'' = Dir es' \<and> files_in [] es' = files_in [] es \<and> forge_ready env fuel priv pub es' vs"
proof (cases "map_of es ''vault''")
  case None
  have "mkdir_p (Dir es) ''vault'' = Dir (AList.update ''vault'' (Dir []) es)"
    using None by (simp add: mkdir_p_def path_node_def)
  moreover have "forge_ready env fuel priv pub (AList.update ''vault'' (Dir []) es) []"
    using assms(1-4) by (simp add: forge_ready_def fopen_r_security pin_tree_update_vault update_conv')
  ultimately show ?thesis using files_in_update_vault by blast
next
  case (Some v)
  then obtain vs where "v = Dir vs"
    "map_of vs ''chrono_package.forge'' = None \<or> (\<exists>t. map_of vs ''chrono_package.forge'' = Some (Reg t))"
    using assms(5) by (auto simp: bundle_slot_def split: node.splits option.splits)
  with Some have "forge_ready env fuel priv pub es vs" "mkdir_p (Dir es) ''vault'' = Dir es"
    using assms(1-4) by (simp_all add: forge_ready_def mkdir_p_def path_node_def)
  then show ?thesis by blast
qed

lemma forge_ready_write:
  assumes "forge_ready env fuel priv pub es vs" and "pe_writable env BUNDLE"
  shows "\<exists>es'. fopen_w env (Dir es) BUNDLE t = Some (Dir es') \<and> pin_tree env fuel es' \<and> files_in [] es' = files_in [] es \<and>
    fopen_r env (Dir es') PUB_PATH = Some pub \<and> path_node (Dir es') BUNDLE = Some (Reg t)"
proof -
  define v where "v = Dir (AList.update ''chrono_package.forge'' (Reg t) vs)"
  from assms(1) have vs: "map_of es ''vault'' = Some (Dir vs)" and tree: "pin_tree env fuel es" and fuel: "2 \<le> fuel"
    and pub: "fopen_r env (Dir es) PUB_PATH = Some pub"
    and slot: "map_of vs ''chrono_package.forge'' = None \<or> (\<exists>t. map_of vs ''chrono_package.forge'' = Some (Reg t))"
    by (simp_all add: forge_ready_def)
  have "depth_of v \<le> depth_of (Dir vs)" by (simp add: v_def depth_in_update [THEN order_trans])
  also have "\<dots> \<le> depth_in es" using vs by (rule depth_in_map_of)
  finally have "Suc (depth_of v) \<le> fuel" using tree by (simp add: pin_tree_def)
  then have "pin_tree env fuel (AList.update ''vault'' v es)" by (rule pin_tree_update_vault [OF tree])
  moreover have "fopen_w env (Dir es) BUNDLE t = Some (Dir (AList.update ''vault'' v es))"
    using vs slot assms(2) by (auto simp: fopen_w_def path_node_def BUNDLE_def v_def)
  moreover have "path_node (Dir (AList.update ''vault'' v es)) BUNDLE = Some (Reg t)"
    by (simp add: path_node_def BUNDLE_def v_def update_conv')
  ultimately show ?thesis using pub files_in_update_vault fopen_r_security by metis
qed

text \<open>C13: What is forged verifies: in a directory that can be indexed completely, with a key pair that
  is already there, forging with the default arguments succeeds and writes the bundle, and the verifier
  accepts the directory with this bundle, whatever its uninitialised arrays contain. The key pair signs
  and verifies every message.\<close>

theorem pin_forge_verify_roundtrip:
  assumes "pin_tree env fuel es" and "2 \<le> fuel" and "bundle_slot es"
    and "fopen_r env (Dir es) PRIV_PATH = Some priv" and "fopen_r env (Dir es) PUB_PATH = Some pub"
    and "pe_writable env BUNDLE" and "pe_readable env BUNDLE"
    and "\<forall>x. length (pc_H c x) = 32"
    and "\<forall>m. \<exists>sig. pc_sign c priv m = Some sig \<and> sig \<noteq> [] \<and> length sig \<le> 128 \<and> pc_verify c pub sig m = Some True"
  shows "\<exists>fs'. forge_main fuel c env [a] (Dir es) = Some (Forged, fs') \<and>
    pin_verify_main fuel c env junk [b, ''.'', BUNDLE] fs' = Some 0"
proof -
  obtain es1 vs where mk: "mkdir_p (Dir es) ''vault'' = Dir es1" and files: "files_in [] es1 = files_in [] es"
    and r: "forge_ready env fuel priv pub es1 vs"
    using forge_ready_mkdir [OF assms(1,2,4,5,3)] by blast
  let ?leaves = "map (\<lambda>(p, x). (p, pc_H c x)) (files_in [] es)"
  let ?rt = "compute_merkle_root (pc_H c) ?leaves"
  have walk: "walk_dir fuel (pc_H c) env (Dir es1) ''.'' [] [] = Some ?leaves"
    using r pin_tree_walk [of env fuel es1] by (simp add: forge_ready_def files)
  obtain sig where sig: "pc_sign c priv ?rt = Some sig" "sig \<noteq> []" "length sig \<le> 128" "pc_verify c pub sig ?rt = Some True"
    using assms(9) by blast
  let ?t = "bundle_text ''.'' (length ?leaves) (hex_of ?rt) (hex_of sig) PUB_PATH"
  obtain es2 where w: "fopen_w env (Dir es1) BUNDLE ?t = Some (Dir es2)" "pin_tree env fuel es2"
    "files_in [] es2 = files_in [] es" "fopen_r env (Dir es2) PUB_PATH = Some pub" "path_node (Dir es2) BUNDLE = Some (Reg ?t)"
    using forge_ready_write [OF r assms(6), of ?t] files by auto
  have keys: "path_node (Dir es1) PRIV_PATH \<noteq> None" "path_node (Dir es1) PUB_PATH \<noteq> None"
    "fopen_r env (Dir es1) PRIV_PATH = Some priv"
    using r by (auto simp: forge_ready_def fopen_r_def split: if_splits option.splits)
  then have "path_node (Dir es1) (''security/auth'' @ SLASH # ''pinforge_ed25519.pem'') \<noteq> None" by (simp add: PRIV_PATH_def)
  then have "path_node (Dir es1) ''security/auth'' \<noteq> None" by (rule path_node_prefix)
  then have "mkdir_p (Dir es1) ''security/auth'' = Dir es1" unfolding mkdir_p_def by simp
  moreover have "ensure_keypair env (Dir es1) = (Some 0, Dir es1)" unfolding ensure_keypair_def using keys(1,2) by simp
  moreover have "sign_root c env (Dir es1) ?rt = Some sig" unfolding sign_root_def using keys(3) sig(1) by simp
  ultimately have "forge_bundle fuel c env ''.'' BUNDLE (Dir es1) = Some (Forged, Dir es2)"
    unfolding forge_bundle_def walk Let_def by (simp only: option.case prod.case w(1) if_False if_True not_True_eq_False simp_thms order_refl)
  then have "forge_main fuel c env [a] (Dir es) = Some (Forged, Dir es2)"
    unfolding forge_main_def Let_def mk BUNDLE_def by simp
  moreover have "pin_verify_main fuel c env junk [b, ''.'', BUNDLE] (Dir es2) = Some 0"
  proof -
    have "fopen_r env (Dir es2) BUNDLE = Some ?t" using w(5) assms(7) by (simp add: fopen_r_def)
    moreover have "walk_dir fuel (pc_H c) env (Dir es2) ''.'' [] [] = Some ?leaves"
      using pin_tree_walk [OF w(2)] by (simp add: w(3))
    moreover have "length ?leaves < 10 ^ 9" using assms(1) by (simp add: pin_tree_def MAX_FILES_def)
    moreover have "PUB_PATH \<noteq> []" "NL \<notin> set PUB_PATH" "NUL \<notin> set PUB_PATH" "length PUB_PATH < 499"
      by (simp_all add: PUB_PATH_def)
    ultimately show ?thesis using verify_accepts [OF _ assms(8)] w(4) sig(2-4) by simp
  qed
  ultimately show ?thesis by blast
qed

definition demo_crypto :: pin_crypto where
  \<comment> \<open>an instance for the examples: the public key equals the private key, signatures name it\<close>
  "demo_crypto = \<lparr>pc_H = pad32, pc_sign = \<lambda>k x. Some (take 1 k @ pad32 x), pc_verify = \<lambda>k s x. Some (s = take 1 k @ pad32 x)\<rparr>"

definition demo_env :: pin_env where
  "demo_env = \<lparr>pe_readable = \<lambda>_. True, pe_writable = \<lambda>_. True, pe_keygen = None\<rparr>"

lemma demo_simps [simp]:
  "pc_H demo_crypto = pad32" "pc_sign demo_crypto = (\<lambda>k x. Some (take 1 k @ pad32 x))"
  "pc_verify demo_crypto = (\<lambda>k s x. Some (s = take 1 k @ pad32 x))" "pe_readable demo_env = (\<lambda>_. True)" "pe_writable demo_env = (\<lambda>_. True)"
  by (simp_all add: demo_crypto_def demo_env_def)

theorem pin_forge_verify_roundtrip_witness:
  "\<exists>fs'. forge_main 3 demo_crypto demo_env [''f'']
        (Dir [(''a'', Reg ''x''), (''security'', Dir [(''auth'',
          Dir [(''pinforge_ed25519.pem'', Reg ''k''), (''pinforge_ed25519.pub'', Reg ''k'')])])]) = Some (Forged, fs') \<and>
     pin_verify_main 3 demo_crypto demo_env (\<lambda>_. NUL) [''v'', ''.'', BUNDLE] fs' = Some 0"
  by (rule pin_forge_verify_roundtrip [where priv = "''k''" and pub = "''k''"])
    (simp_all add: pin_tree_def bundle_slot_def fopen_r_def path_node_def PRIV_PATH_def PUB_PATH_def
      MAX_PATH_def MAX_FILES_def excluded_def child_rel_def)

text \<open>C35: The signature does not bind the signer: the verifier takes the public key from the file that
  the bundle names. A directory with a bundle made with any other key pair is accepted, also when the
  key of the forge, present at its place, rejects the signature.\<close>

theorem pin_verify_any_key:
  assumes "walk_dir fuel (pc_H c) env fs base [] [] = Some leaves" and "\<forall>x. length (pc_H c x) = 32"
    and "fopen_r env fs bpath
      = Some (bundle_text base (length leaves) (hex_of (compute_merkle_root (pc_H c) leaves)) (hex_of sig) key)"
    and "NL \<notin> set base" "NUL \<notin> set base" "length base < 500" "length leaves < 10 ^ 9"
    and "sig \<noteq> []" "length sig \<le> 128" and "key \<noteq> []" "NL \<notin> set key" "NUL \<notin> set key" "length key < 499"
    and "fopen_r env fs key = Some other" and "pc_verify c other sig (compute_merkle_root (pc_H c) leaves) = Some True"
    and "fopen_r env fs PUB_PATH = Some pub" and "pc_verify c pub sig (compute_merkle_root (pc_H c) leaves) = Some False"
  shows "pin_verify_main fuel c env junk [a, base, bpath] fs = Some 0"
  by (rule verify_accepts [OF assms(1-15)])

theorem pin_verify_any_key_witness:
  "pin_verify_main 3 demo_crypto demo_env (\<lambda>_. NUL) [''v'', ''d'', ''vault/b'']
     (Dir [(''vault'', Dir [(''k'', Reg ''q''), (''b'', Reg (bundle_text ''d'' (length [(''a'', pad32 ''evil'')])
             (hex_of (compute_merkle_root (pc_H demo_crypto) [(''a'', pad32 ''evil'')]))
             (hex_of (''q'' @ pad32 (compute_merkle_root pad32 [(''a'', pad32 ''evil'')]))) ''vault/k''))]),
           (''d'', Dir [(''a'', Reg ''evil'')]),
           (''security'', Dir [(''auth'', Dir [(''pinforge_ed25519.pub'', Reg ''p'')])])]) = Some 0"
  by (rule pin_verify_any_key [where other = "''q''" and pub = "''p''" and key = "''vault/k''" and leaves = "[(''a'', pad32 ''evil'')]"
      and sig = "''q'' @ pad32 (compute_merkle_root pad32 [(''a'', pad32 ''evil'')])"])
    (simp_all add: path_node_def PUB_PATH_def fopen_r_def MAX_PATH_def MAX_FILES_def readdir_names_def
      compute_file_sha256_def numeral_3_eq_3)

theorem pin_verify_detects_witness:
  "mset (files_of [] (Dir [(''a'', Reg ''x'')])) = mset [(''a'', ''x'')] \<or>
   exhibits_collision (pc_H demo_crypto) (hashed_texts (pc_H demo_crypto) (files_of [] (Dir [(''a'', Reg ''x'')])))
     (hashed_texts (pc_H demo_crypto) [(''a'', ''x'')])"
proof -
  let ?rt = "compute_merkle_root (pc_H demo_crypto) [(''a'', pad32 ''x'')]"
  let ?t = "bundle_text ''d'' (length [(''a'', pad32 ''x'')]) (hex_of ?rt) (hex_of (''q'' @ pad32 ?rt)) ''k''"
  let ?fs = "Dir [(''b'', Reg ?t), (''k'', Reg ''q''), (''d'', Dir [(''a'', Reg ''x'')])]"
  have rd: "fopen_r demo_env ?fs ''b'' = Some ?t" by (simp add: fopen_r_def path_node_def)
  have v: "pin_verify_main 2 demo_crypto demo_env (\<lambda>_. NUL) [''v'', ''d'', ''b''] ?fs = Some 0"
    by (rule verify_accepts [OF _ _ rd, where pem = "''q''"])
      (simp_all add: path_node_def fopen_r_def MAX_PATH_def MAX_FILES_def readdir_names_def compute_file_sha256_def numeral_2_eq_2)
  have pb: "pb_root (parse_bundle ?t) = hex_of ?rt"
    by (subst parse_bundle_text) (simp_all add: length_root)
  show ?thesis
    by (rule pin_verify_detects [OF v rd, where signed = "[(''a'', ''x'')]" and es = "[(''a'', Reg ''x'')]"])
      (use pb in \<open>simp_all add: path_node_def MAX_PATH_def MAX_FILES_def excluded_def child_rel_def\<close>)
qed

end
