(* ===== verification/CDouble.thy ===== *)
theory CDouble
  imports Complex_Main CString
begin

text \<open>
  The IEEE doubles of the telemetry engines: finite values as the rational numbers they are, the
  negative zero, infinities and NaNs. The comparisons are C's: every ordered comparison with a NaN
  is false. \<open>fmt_f p\<close> is the conversion \<open>%.pf\<close>, correctly rounded to even.
\<close>

datatype double = DNum rat | DNegZero | DInf bool | DNaN bool
  \<comment> \<open>the flag of the last two is the sign bit\<close>

fun d_lt :: "double \<Rightarrow> double \<Rightarrow> bool" where
  "d_lt (DNaN _) _ = False"
| "d_lt _ (DNaN _) = False"
| "d_lt (DInf s) (DInf t) = (s \<and> \<not> t)"
| "d_lt (DInf s) _ = s"
| "d_lt _ (DInf t) = (\<not> t)"
| "d_lt (DNum a) (DNum b) = (a < b)"
| "d_lt (DNum a) DNegZero = (a < 0)"
| "d_lt DNegZero (DNum b) = (0 < b)"
| "d_lt DNegZero DNegZero = False"

fun d_nan :: "double \<Rightarrow> bool" where
  "d_nan (DNaN _) = True"
| "d_nan _ = False"

definition d_gt :: "double \<Rightarrow> double \<Rightarrow> bool" where
  "d_gt x y = d_lt y x"

definition d_ge :: "double \<Rightarrow> double \<Rightarrow> bool" where
  \<comment> \<open>\<open>x >= y\<close>: not below, and neither is a NaN\<close>
  "d_ge x y \<longleftrightarrow> \<not> d_nan x \<and> \<not> d_nan y \<and> \<not> d_lt x y"

lemma d_lt_nan [simp]: "d_nan x \<Longrightarrow> \<not> d_lt x y" "d_nan y \<Longrightarrow> \<not> d_lt x y"
  by (cases x; cases y; simp)+

lemma d_cmp_nan [simp]: "d_nan x \<Longrightarrow> \<not> d_gt x y" "d_nan y \<Longrightarrow> \<not> d_gt x y"
  "d_nan x \<Longrightarrow> \<not> d_ge x y" "d_nan y \<Longrightarrow> \<not> d_ge x y"
  by (simp_all add: d_gt_def d_ge_def)

lemma d_cmp_num [simp]: "d_gt (DNum a) (DNum b) \<longleftrightarrow> b < a" "d_ge (DNum a) (DNum b) \<longleftrightarrow> b \<le> a"
  by (auto simp: d_gt_def d_ge_def)

lemma d_ge_trans:
  assumes "d_ge x (DNum b)" and "a \<le> b" shows "d_ge x (DNum a)"
  using assms by (cases x) (auto simp: d_ge_def)

definition round_even :: "rat \<Rightarrow> int" where
  "round_even q =
     (let f = \<lfloor>q\<rfloor>; d = q - of_int f in
      if d < 1 / 2 then f else if d > 1 / 2 then f + 1 else if even f then f else f + 1)"

definition fmt_fixed :: "nat \<Rightarrow> rat \<Rightarrow> string" where
  \<comment> \<open>the digits of a non-negative number\<close>
  "fmt_fixed p q =
     (let n = nat (round_even (q * 10 ^ p)); f = nat_str (n mod 10 ^ p) in
      nat_str (n div 10 ^ p) @ (if p = 0 then [] else CHR ''.'' # replicate (p - length f) (CHR ''0'') @ f))"

fun fmt_f :: "nat \<Rightarrow> double \<Rightarrow> string" where
  "fmt_f p (DNum q) = (if q < 0 then CHR ''-'' # fmt_fixed p (- q) else fmt_fixed p q)"
| "fmt_f p DNegZero = CHR ''-'' # fmt_fixed p 0"
| "fmt_f p (DInf s) = (if s then ''-inf'' else ''inf'')"
| "fmt_f p (DNaN s) = (if s then ''-nan'' else ''nan'')"

end
