(* ===== verification/Diagnosis.thy ===== *)
theory Diagnosis
  imports CDouble
begin

text \<open>
  What the telemetry engines (\<open>core/cnem\<close>, \<open>core/isp\<close>, \<open>core/cumbia\<close>, \<open>core/assurance\<close>) have in
  common. A \<open>diagnosis_engine\<close> validates an observation and returns a result exactly for the valid
  ones, so a batch yields one result per valid observation, in order. A \<open>traceable_engine\<close> also
  derives incident identifiers that tell devices apart: the incidents of different devices in a batch
  then have different identifiers. The rules of an engine are a priority list: \<open>first_match\<close>.
\<close>

abbreviation "a_acute \<equiv> [CHR 0xC3, CHR 0xA1]"
abbreviation "e_acute \<equiv> [CHR 0xC3, CHR 0xA9]"
abbreviation "i_acute \<equiv> [CHR 0xC3, CHR 0xAD]"
abbreviation "o_acute \<equiv> [CHR 0xC3, CHR 0xB3]"

fun first_match :: "(bool \<times> 'a) list \<Rightarrow> 'a \<Rightarrow> 'a" where
  "first_match [] d = d"
| "first_match ((c, x) # rs) d = (if c then x else first_match rs d)"

lemma snprintf_cancel:
  "length p + length a < n \<Longrightarrow> length p + length b < n \<Longrightarrow>
     snprintf_buf n (p @ a) = snprintf_buf n (p @ b) \<longleftrightarrow> a = b"
  by simp

lemma snprintf_clash:
  assumes "n - 1 \<le> length p + length a" shows "snprintf_buf n (p @ a @ b) = snprintf_buf n (p @ a @ c)"
  using assms by (simp add: snprintf_buf_def)

locale diagnosis_engine =
  fixes validate :: "'o \<Rightarrow> bool" and analyze :: "'o \<Rightarrow> 'r option"
  assumes analyze_valid: "validate obs \<Longrightarrow> analyze obs \<noteq> None"
    and analyze_invalid: "\<not> validate obs \<Longrightarrow> analyze obs = None"
begin

fun triage :: "'o list \<Rightarrow> 'r list" where
  "triage [] = []"
| "triage (obs # os) = (case analyze obs of None \<Rightarrow> triage os | Some r \<Rightarrow> r # triage os)"

lemma analyze_iff: "analyze obs = None \<longleftrightarrow> \<not> validate obs"
  using analyze_valid analyze_invalid by blast

lemma triage_map: "triage os = map (\<lambda>obs. the (analyze obs)) (filter validate os)"
  by (induction os) (auto simp: analyze_iff [symmetric] split: option.split)

lemma length_triage: "length (triage os) = length (filter validate os)"
  by (simp add: triage_map)

end

locale traceable_engine = diagnosis_engine validate analyze
  for validate :: "'o \<Rightarrow> bool" and analyze :: "'o \<Rightarrow> 'r option" +
  fixes fits :: "'o \<Rightarrow> bool" and device :: "'o \<Rightarrow> string" and incident :: "'r \<Rightarrow> string"
  assumes incident_device:
    "fits p \<Longrightarrow> fits q \<Longrightarrow> analyze p = Some r \<Longrightarrow> analyze q = Some s \<Longrightarrow> incident r = incident s \<Longrightarrow> device p = device q"
begin

lemma triage_incidents:
  "list_all fits os \<Longrightarrow> distinct (map device (filter validate os)) \<Longrightarrow> distinct (map incident (triage os))"
proof (induction os)
  case (Cons obs os)
  show ?case
  proof (cases "analyze obs")
    case None
    moreover from None have "\<not> validate obs" using analyze_iff [of obs] by simp
    ultimately show ?thesis using Cons by simp
  next
    case (Some r)
    then have v: "validate obs" using analyze_iff [of obs] by simp
    have "incident r \<notin> incident ` set (triage os)"
    proof
      assume "incident r \<in> incident ` set (triage os)"
      then obtain q where q: "q \<in> set os" "validate q" "incident r = incident (the (analyze q))"
        by (auto simp: triage_map)
      then obtain s where s: "analyze q = Some s" using analyze_valid by blast
      have "fits obs" "fits q" using Cons.prems(1) q(1) by (auto simp: list_all_iff)
      from incident_device [OF this Some s] q(3) s have "device obs = device q" by simp
      with Cons.prems(2) v q(1,2) show False by auto
    qed
    with Cons Some v show ?thesis by simp
  qed
qed simp

end

end
