(* ===== verification/Cnem.thy ===== *)
theory Cnem
  imports Diagnosis
begin

text \<open>
  \<open>core/cnem/chrono_cnem.c\<close>: the network event model, which correlates one device observation and
  one service into an incident, by the fixed priority connectivity, routing, DNS, PON, radio,
  performance. Arguments that may be \<open>NULL\<close> are options.
\<close>

definition CNEM_MAX_TEXT :: nat where "CNEM_MAX_TEXT = 128"
definition CNEM_MAX_EVIDENCE :: nat where "CNEM_MAX_EVIDENCE = 8"

datatype cnem_severity = CNEM_UNKNOWN | CNEM_INFO | CNEM_WARNING | CNEM_CRITICAL

datatype cnem_domain = DOMAIN_UNKNOWN | DOMAIN_NETWORK | DOMAIN_ROUTING | DOMAIN_RADIO | DOMAIN_PON
  | DOMAIN_SECURITY | DOMAIN_SERVICE | DOMAIN_SYSTEM

record cnem_observation =
  co_device_id :: string
  co_vendor :: string
  co_technology :: string
  co_site :: string
  co_interface_name :: string
  co_ipv4_ok :: bool
  co_ipv6_ok :: bool
  co_gateway_ok :: bool
  co_dns_ok :: bool
  co_routing_ok :: bool
  co_bgp_ok :: bool
  co_rpki_ok :: bool
  co_pon_ok :: bool
  co_radio_ok :: bool
  co_latency_ms :: double
  co_jitter_ms :: double
  co_packet_loss_percent :: double

record cnem_service =
  cs_service_id :: string
  cs_service_type :: string
  cs_affected_customers :: nat
  cs_affected_devices :: nat
  cs_sla_target_percent :: double
  cs_availability_percent :: double

record cnem_incident =
  ci_incident_id :: string
  ci_severity :: cnem_severity
  ci_domain :: cnem_domain
  ci_root_cause :: string
  ci_category :: string
  ci_origin :: string
  ci_evidence :: "string list"       \<comment> \<open>the first \<open>evidence_count\<close> entries\<close>
  ci_affected_customers :: nat
  ci_affected_devices :: nat
  ci_affected_services :: nat
  ci_sla_at_risk :: bool
  ci_operator_approval_required :: bool

section \<open>The engine\<close>

definition cnem_copy_text :: "string \<Rightarrow> string" where
  \<comment> \<open>into one of the 128-byte text fields\<close>
  "cnem_copy_text src = snprintf_buf CNEM_MAX_TEXT src"

definition cnem_add_evidence :: "string \<Rightarrow> cnem_incident \<Rightarrow> cnem_incident" where
  "cnem_add_evidence evidence inc =
     (if length (ci_evidence inc) \<ge> CNEM_MAX_EVIDENCE then inc
      else inc\<lparr>ci_evidence := ci_evidence inc @ [cnem_copy_text evidence]\<rparr>)"

definition cnem_validate_observation :: "cnem_observation option \<Rightarrow> bool" where
  "cnem_validate_observation observation =
     (case observation of
        None \<Rightarrow> False
      | Some ob \<Rightarrow>
          if co_device_id ob = [] \<or> co_site ob = [] then False
          else if d_lt (co_latency_ms ob) (DNum 0) \<or> d_lt (co_jitter_ms ob) (DNum 0)
               \<or> d_lt (co_packet_loss_percent ob) (DNum 0) \<or> d_gt (co_packet_loss_percent ob) (DNum 100) then False
          else True)"

definition cnem_validate_service :: "cnem_service option \<Rightarrow> bool" where
  "cnem_validate_service service =
     (case service of
        None \<Rightarrow> False
      | Some sv \<Rightarrow>
          if cs_service_id sv = [] \<or> cs_service_type sv = [] then False
          else if d_lt (cs_sla_target_percent sv) (DNum 0) \<or> d_gt (cs_sla_target_percent sv) (DNum 100)
               \<or> d_lt (cs_availability_percent sv) (DNum 0) \<or> d_gt (cs_availability_percent sv) (DNum 100) then False
          else True)"

definition cnem_initialize_incident :: "cnem_observation \<Rightarrow> cnem_incident" where
  "cnem_initialize_incident ob =
     \<lparr>ci_incident_id = snprintf_buf CNEM_MAX_TEXT (''CHRONO-CNEM-'' @ co_device_id ob),
      ci_severity = CNEM_INFO, ci_domain = DOMAIN_SYSTEM,
      ci_root_cause = cnem_copy_text ''NONE'', ci_category = cnem_copy_text ''OBSERVATION'',
      ci_origin = cnem_copy_text ''No active degradation detected'', ci_evidence = [],
      ci_affected_customers = 0, ci_affected_devices = 1, ci_affected_services = 0,
      ci_sla_at_risk = False, ci_operator_approval_required = True\<rparr>"

definition cnem_diagnose ::
  "cnem_severity \<Rightarrow> cnem_domain \<Rightarrow> string \<Rightarrow> string \<Rightarrow> string \<Rightarrow> string \<Rightarrow> cnem_incident \<Rightarrow> cnem_incident" where
  \<comment> \<open>the assignments each branch of the correlation makes\<close>
  "cnem_diagnose severity domain cause category origin evidence inc =
     cnem_add_evidence evidence
       (inc\<lparr>ci_severity := severity, ci_domain := domain, ci_root_cause := cnem_copy_text cause,
            ci_category := cnem_copy_text category, ci_origin := cnem_copy_text origin\<rparr>)"

definition cnem_start :: "cnem_observation \<Rightarrow> cnem_service \<Rightarrow> cnem_incident" where
  \<comment> \<open>the incident before the correlation: impact of the service and its SLA\<close>
  "cnem_start ob sv =
     (let inc = (cnem_initialize_incident ob)\<lparr>ci_affected_customers := cs_affected_customers sv, ci_affected_services := 1\<rparr> in
      if d_lt (cs_availability_percent sv) (cs_sla_target_percent sv)
      then cnem_add_evidence ''SLA availability below target'' (inc\<lparr>ci_sla_at_risk := True\<rparr>) else inc)"

definition cnem_service_checks :: "cnem_observation \<Rightarrow> cnem_incident \<Rightarrow> cnem_incident" where
  \<comment> \<open>the correlation from the DNS check on, when connectivity and routing are in order\<close>
  "cnem_service_checks ob inc =
     (if \<not> co_dns_ok ob then
        cnem_diagnose CNEM_WARNING DOMAIN_NETWORK ''DNS'' ''SERVICE''
          ''DNS resolution path degraded'' ''DNS health check failed'' inc
      else if \<not> co_pon_ok ob then
        cnem_diagnose CNEM_WARNING DOMAIN_PON ''PON'' ''ACCESS''
          ''PON/ONU access layer degraded'' ''PON/ONU health check failed'' inc
      else if \<not> co_radio_ok ob then
        cnem_diagnose CNEM_WARNING DOMAIN_RADIO ''RADIO'' ''WIRELESS''
          ''Radio access layer degraded'' ''radio health check failed'' inc
      else if d_ge (co_packet_loss_percent ob) (DNum 5) \<or> d_ge (co_latency_ms ob) (DNum 200)
           \<or> d_ge (co_jitter_ms ob) (DNum 50) then
        cnem_diagnose CNEM_WARNING DOMAIN_NETWORK ''PERFORMANCE'' ''NETWORK''
          ''Network performance degradation'' ''latency/jitter/packet-loss threshold exceeded'' inc
      else cnem_add_evidence ''No degradation threshold exceeded'' inc)"

definition cnem_correlate :: "cnem_observation option \<Rightarrow> cnem_service option \<Rightarrow> cnem_incident option" where
  "cnem_correlate observation service =
     (if \<not> cnem_validate_observation observation \<or> \<not> cnem_validate_service service then None
      else
        let ob = the observation; sv = the service;
            inc = cnem_start ob sv in
        if \<not> co_gateway_ok ob \<or> \<not> co_ipv4_ok ob \<or> co_interface_name ob = [] then
          Some (cnem_diagnose CNEM_CRITICAL DOMAIN_NETWORK ''CONNECTIVITY'' ''NETWORK''
            ''Primary connectivity path degraded'' ''gateway/IPv4/interface connectivity failure'' inc)
        else if \<not> co_routing_ok ob \<or> \<not> co_bgp_ok ob then
          (let inc = cnem_diagnose CNEM_CRITICAL DOMAIN_ROUTING ''ROUTING'' ''ROUTING''
                 ''Routing control plane degraded'' ''routing/BGP degradation'' inc in
           if \<not> co_rpki_ok ob
           then Some (cnem_add_evidence ''RPKI validation problem'' (inc\<lparr>ci_severity := CNEM_CRITICAL\<rparr>))
           else Some inc)
        else Some (cnem_service_checks ob inc))"

fun cnem_severity_name :: "cnem_severity \<Rightarrow> string" where
  "cnem_severity_name CNEM_INFO = ''INFO''"
| "cnem_severity_name CNEM_WARNING = ''WARNING''"
| "cnem_severity_name CNEM_CRITICAL = ''CRITICAL''"
| "cnem_severity_name CNEM_UNKNOWN = ''UNKNOWN''"

fun cnem_domain_name :: "cnem_domain \<Rightarrow> string" where
  "cnem_domain_name DOMAIN_NETWORK = ''NETWORK''"
| "cnem_domain_name DOMAIN_ROUTING = ''ROUTING''"
| "cnem_domain_name DOMAIN_RADIO = ''RADIO''"
| "cnem_domain_name DOMAIN_PON = ''PON''"
| "cnem_domain_name DOMAIN_SECURITY = ''SECURITY''"
| "cnem_domain_name DOMAIN_SERVICE = ''SERVICE''"
| "cnem_domain_name DOMAIN_SYSTEM = ''SYSTEM''"
| "cnem_domain_name DOMAIN_UNKNOWN = ''UNKNOWN''"

section \<open>The priority list\<close>

lemma cnem_copy_short [simp]: "length s < 128 \<Longrightarrow> cnem_copy_text s = s"
  by (simp add: cnem_copy_text_def CNEM_MAX_TEXT_def)

datatype cnem_rule = CnemRule cnem_severity cnem_domain string string string "string list"

definition cnem_rules :: "cnem_observation \<Rightarrow> (bool \<times> cnem_rule) list" where
  "cnem_rules ob =
     [(\<not> (co_gateway_ok ob \<and> co_ipv4_ok ob \<and> co_interface_name ob \<noteq> []),
       CnemRule CNEM_CRITICAL DOMAIN_NETWORK ''CONNECTIVITY'' ''NETWORK'' ''Primary connectivity path degraded''
         [''gateway/IPv4/interface connectivity failure'']),
      (\<not> (co_routing_ok ob \<and> co_bgp_ok ob),
       CnemRule CNEM_CRITICAL DOMAIN_ROUTING ''ROUTING'' ''ROUTING'' ''Routing control plane degraded''
         (''routing/BGP degradation'' # (if co_rpki_ok ob then [] else [''RPKI validation problem'']))),
      (\<not> co_dns_ok ob,
       CnemRule CNEM_WARNING DOMAIN_NETWORK ''DNS'' ''SERVICE'' ''DNS resolution path degraded'' [''DNS health check failed'']),
      (\<not> co_pon_ok ob,
       CnemRule CNEM_WARNING DOMAIN_PON ''PON'' ''ACCESS'' ''PON/ONU access layer degraded'' [''PON/ONU health check failed'']),
      (\<not> co_radio_ok ob,
       CnemRule CNEM_WARNING DOMAIN_RADIO ''RADIO'' ''WIRELESS'' ''Radio access layer degraded'' [''radio health check failed'']),
      (d_ge (co_packet_loss_percent ob) (DNum 5) \<or> d_ge (co_latency_ms ob) (DNum 200) \<or> d_ge (co_jitter_ms ob) (DNum 50),
       CnemRule CNEM_WARNING DOMAIN_NETWORK ''PERFORMANCE'' ''NETWORK'' ''Network performance degradation''
         [''latency/jitter/packet-loss threshold exceeded''])]"

definition cnem_healthy :: cnem_rule where
  "cnem_healthy = CnemRule CNEM_INFO DOMAIN_SYSTEM ''NONE'' ''OBSERVATION'' ''No active degradation detected''
     [''No degradation threshold exceeded'']"

fun cnem_apply :: "cnem_observation \<Rightarrow> cnem_service \<Rightarrow> cnem_rule \<Rightarrow> cnem_incident" where
  "cnem_apply ob sv (CnemRule severity domain cause category origin evidence) =
     (let risk = d_lt (cs_availability_percent sv) (cs_sla_target_percent sv) in
      \<lparr>ci_incident_id = take 127 (''CHRONO-CNEM-'' @ co_device_id ob), ci_severity = severity, ci_domain = domain,
       ci_root_cause = cause, ci_category = category, ci_origin = origin,
       ci_evidence = (if risk then [''SLA availability below target''] else []) @ evidence,
       ci_affected_customers = cs_affected_customers sv, ci_affected_devices = 1, ci_affected_services = 1,
       ci_sla_at_risk = risk, ci_operator_approval_required = True\<rparr>)"

lemma cnem_start_eq: "cnem_start ob sv =
  (let risk = d_lt (cs_availability_percent sv) (cs_sla_target_percent sv) in
    \<lparr>ci_incident_id = take 127 (''CHRONO-CNEM-'' @ co_device_id ob), ci_severity = CNEM_INFO, ci_domain = DOMAIN_SYSTEM,
     ci_root_cause = ''NONE'', ci_category = ''OBSERVATION'', ci_origin = ''No active degradation detected'',
     ci_evidence = (if risk then [''SLA availability below target''] else []),
     ci_affected_customers = cs_affected_customers sv, ci_affected_devices = 1, ci_affected_services = 1,
     ci_sla_at_risk = risk, ci_operator_approval_required = True\<rparr>)"
  by (simp add: cnem_start_def cnem_initialize_incident_def cnem_add_evidence_def CNEM_MAX_EVIDENCE_def
      CNEM_MAX_TEXT_def snprintf_buf_def Let_def)

lemma cnem_add_room: "length (ci_evidence inc) < 8 \<Longrightarrow> length e < 128 \<Longrightarrow>
    cnem_add_evidence e inc = inc\<lparr>ci_evidence := ci_evidence inc @ [e]\<rparr>"
  by (simp add: cnem_add_evidence_def CNEM_MAX_EVIDENCE_def)

lemma cnem_start_room: "length (ci_evidence (cnem_start ob sv)) \<le> 1"
  by (simp add: cnem_start_eq Let_def)

lemma cnem_diagnose_start:
  assumes "length cause < 128" "length category < 128" "length origin < 128" "length e < 128"
  shows "cnem_diagnose severity domain cause category origin e (cnem_start ob sv)
    = cnem_apply ob sv (CnemRule severity domain cause category origin [e])"
  using assms cnem_start_room [of ob sv]
  by (simp add: cnem_diagnose_def cnem_add_room cnem_start_eq Let_def)

lemma cnem_correlate_rules:
  assumes "cnem_validate_observation (Some ob)" and "cnem_validate_service (Some sv)"
  shows "cnem_correlate (Some ob) (Some sv) = Some (cnem_apply ob sv (first_match (cnem_rules ob) cnem_healthy))"
proof -
  have rpki: "cnem_add_evidence ''RPKI validation problem''
      ((cnem_apply ob sv (CnemRule CNEM_CRITICAL DOMAIN_ROUTING a b c [e]))\<lparr>ci_severity := CNEM_CRITICAL\<rparr>)
    = cnem_apply ob sv (CnemRule CNEM_CRITICAL DOMAIN_ROUTING a b c [e, ''RPKI validation problem''])" for a b c e
    by (subst cnem_add_room) (simp_all add: Let_def)
  have ok: "cnem_add_evidence ''No degradation threshold exceeded'' (cnem_start ob sv) = cnem_apply ob sv cnem_healthy"
    using cnem_start_room [of ob sv] by (simp add: cnem_add_room cnem_healthy_def cnem_start_eq Let_def)
  show ?thesis
    using assms
    by (simp add: cnem_correlate_def cnem_service_checks_def cnem_rules_def cnem_diagnose_start rpki ok Let_def del: cnem_apply.simps)
qed

interpretation ce: diagnosis_engine
  "\<lambda>(ob, sv). cnem_validate_observation ob \<and> cnem_validate_service sv" "\<lambda>(ob, sv). cnem_correlate ob sv"
  by unfold_locales (auto simp: cnem_correlate_def Let_def split: if_splits)

text \<open>The correlation is exactly its documented priority list: for a valid observation and service
  the incident is the one of the first failing domain in the order connectivity, routing, DNS, PON,
  radio, performance, or the healthy record when none fails; the SLA evidence comes first, no evidence
  is ever dropped or truncated, and operator approval is always required.\<close>

theorem cnem_priority:
  assumes "cnem_validate_observation (Some ob)" and "cnem_validate_service (Some sv)"
  shows "cnem_correlate (Some ob) (Some sv) = Some (cnem_apply ob sv (first_match (cnem_rules ob) cnem_healthy)) \<and>
    length (ci_evidence (the (cnem_correlate (Some ob) (Some sv)))) \<le> 3"
  by (simp only: cnem_correlate_rules [OF assms])
    (simp add: cnem_rules_def cnem_healthy_def Let_def)

definition cnem_demo :: "bool \<Rightarrow> double \<Rightarrow> cnem_observation" where
  "cnem_demo ok lat = \<lparr>co_device_id = ''R1'', co_vendor = [], co_technology = [], co_site = ''S'', co_interface_name = ''eth0'',
     co_ipv4_ok = True, co_ipv6_ok = ok, co_gateway_ok = True, co_dns_ok = True, co_routing_ok = True, co_bgp_ok = True,
     co_rpki_ok = ok, co_pon_ok = True, co_radio_ok = True, co_latency_ms = lat, co_jitter_ms = DNum 1,
     co_packet_loss_percent = DNum 0\<rparr>"

definition cnem_demo_service :: cnem_service where
  "cnem_demo_service = \<lparr>cs_service_id = ''I'', cs_service_type = ''T'', cs_affected_customers = 3, cs_affected_devices = 2,
     cs_sla_target_percent = DNum 99, cs_availability_percent = DNum 98\<rparr>"

lemma cnem_demo_valid: "cnem_validate_observation (Some (cnem_demo ok (DNum 1)))" "cnem_validate_service (Some cnem_demo_service)"
  by (simp_all add: cnem_validate_observation_def cnem_validate_service_def cnem_demo_def cnem_demo_service_def d_gt_def)

theorem cnem_priority_witness:
  "length (ci_evidence (the (cnem_correlate (Some (cnem_demo True (DNum 1))) (Some cnem_demo_service)))) \<le> 3"
  using cnem_priority [OF cnem_demo_valid] by blast

text \<open>Two checks never raise an incident on their own: when everything else is in order, a failed
  RPKI validation and missing IPv6 connectivity are reported as an INFO incident with the root cause
  \<open>NONE\<close> and the origin "No active degradation detected".\<close>

theorem cnem_rpki_ipv6_silent:
  assumes "cnem_validate_observation (Some ob)" and "cnem_validate_service (Some sv)"
    and "first_match (cnem_rules ob) cnem_healthy = cnem_healthy"
  shows "\<exists>inc. cnem_correlate (Some (ob\<lparr>co_rpki_ok := False, co_ipv6_ok := False\<rparr>)) (Some sv) = Some inc \<and>
    ci_severity inc = CNEM_INFO \<and> ci_root_cause inc = ''NONE'' \<and> ci_origin inc = ''No active degradation detected''"
proof -
  let ?ob = "ob\<lparr>co_rpki_ok := False, co_ipv6_ok := False\<rparr>"
  have "cnem_validate_observation (Some ?ob)" using assms(1) by (simp add: cnem_validate_observation_def split: if_splits)
  note c = cnem_correlate_rules [OF this assms(2)]
  have "first_match (cnem_rules ?ob) cnem_healthy = cnem_healthy"
    using assms(3) by (simp add: cnem_rules_def cnem_healthy_def split: if_splits)
  with c show ?thesis by (simp add: cnem_healthy_def Let_def)
qed

theorem cnem_rpki_ipv6_silent_witness:
  "\<exists>inc. cnem_correlate (Some (cnem_demo False (DNum 1))) (Some cnem_demo_service) = Some inc \<and> ci_severity inc = CNEM_INFO"
proof -
  have "first_match (cnem_rules (cnem_demo True (DNum 1))) cnem_healthy = cnem_healthy"
    by (simp add: cnem_rules_def cnem_demo_def cnem_healthy_def)
  moreover have "(cnem_demo True (DNum 1))\<lparr>co_rpki_ok := False, co_ipv6_ok := False\<rparr> = cnem_demo False (DNum 1)"
    by (simp add: cnem_demo_def)
  ultimately show ?thesis using cnem_rpki_ipv6_silent [OF cnem_demo_valid, of True] by auto
qed

end
