(* ===== verification/Cumbia.thy ===== *)
theory Cumbia
  imports Diagnosis
begin

text \<open>
  \<open>core/cumbia/chrono_cumbia.c\<close>: verification of one network device. Three blocking checks end the
  analysis; the later checks are cumulative, each overwrites status and texts and counts one anomaly.
  Integer flags are booleans (the code only tests them against zero); the device may be \<open>NULL\<close>.
\<close>

datatype cumbia_status = CUMBIA_UNKNOWN | CUMBIA_ONLINE | CUMBIA_DEGRADED | CUMBIA_BLOCKED | CUMBIA_OFFLINE

datatype cumbia_action = ACTION_OBSERVE | ACTION_CONNECT | ACTION_READ | ACTION_ANALYZE
  | ACTION_CHANGE | ACTION_RESTART | ACTION_ISOLATE

record cumbia_device =
  cd_device_id :: string
  cd_device_type :: string
  cd_technology :: string
  cd_authorized :: bool
  cd_management_reachable :: bool
  cd_ip_reachable :: bool
  cd_gateway_reachable :: bool
  cd_dns_ok :: bool
  cd_ipv4_ok :: bool
  cd_ipv6_ok :: bool
  cd_routing_ok :: bool
  cd_bgp_ok :: bool
  cd_rpki_ok :: bool
  cd_certificate_ok :: bool
  cd_latency_ms :: double
  cd_jitter_ms :: double
  cd_packet_loss_pct :: double
  cd_config_changed :: bool
  cd_authentication_failure :: bool
  cd_interface_down :: bool
  cd_affected_devices :: int

record cumbia_result =
  cr_status :: cumbia_status
  cr_anomaly_count :: nat
  cr_requires_operator :: bool
  cr_incident_id :: string
  cr_category :: string
  cr_origin :: string
  cr_evidence :: string
  cr_recommendation :: string

section \<open>The engine\<close>

definition cumbia_validate :: "cumbia_device option \<Rightarrow> bool" where
  "cumbia_validate device =
     (case device of
        None \<Rightarrow> False
      | Some d \<Rightarrow>
          if cd_device_id d = [] then False
          else if cd_device_type d = [] then False
          else if d_lt (cd_latency_ms d) (DNum 0) \<or> d_lt (cd_jitter_ms d) (DNum 0)
               \<or> d_lt (cd_packet_loss_pct d) (DNum 0) \<or> d_gt (cd_packet_loss_pct d) (DNum 100) then False
          else True)"

definition cumbia_authorized_action :: "cumbia_device option \<Rightarrow> cumbia_action \<Rightarrow> bool" where
  "cumbia_authorized_action device action =
     (case device of
        None \<Rightarrow> False
      | Some d \<Rightarrow>
          if \<not> cd_authorized d then False
          else (case action of
                  ACTION_OBSERVE \<Rightarrow> True | ACTION_CONNECT \<Rightarrow> True | ACTION_READ \<Rightarrow> True | ACTION_ANALYZE \<Rightarrow> True
                | ACTION_CHANGE \<Rightarrow> False | ACTION_RESTART \<Rightarrow> False | ACTION_ISOLATE \<Rightarrow> False))"

definition cumbia_note ::
  "cumbia_status \<Rightarrow> string \<Rightarrow> string \<Rightarrow> string \<Rightarrow> string \<Rightarrow> cumbia_result \<Rightarrow> cumbia_result" where
  \<comment> \<open>what every failing check does to the result: status, count and the four bounded copies\<close>
  "cumbia_note status category origin evidence recommendation r =
     r\<lparr>cr_status := status, cr_anomaly_count := cr_anomaly_count r + 1,
       cr_category := snprintf_buf 64 category, cr_origin := snprintf_buf 128 origin,
       cr_evidence := snprintf_buf 512 evidence, cr_recommendation := snprintf_buf 512 recommendation\<rparr>"

definition cumbia_performance_text :: "cumbia_device \<Rightarrow> string" where
  "cumbia_performance_text d =
     ''latency='' @ fmt_f 2 (cd_latency_ms d) @ ''ms; jitter='' @ fmt_f 2 (cd_jitter_ms d)
       @ ''ms; loss='' @ fmt_f 2 (cd_packet_loss_pct d) @ ''%''"

definition cumbia_checks :: "cumbia_device \<Rightarrow> cumbia_result \<Rightarrow> cumbia_result" where
  \<comment> \<open>the cumulative checks, in the order of the source\<close>
  "cumbia_checks d r =
     (let
       r = (if \<not> cd_routing_ok d
                 then cumbia_note CUMBIA_DEGRADED ''ROUTING''
                   ''Routing verification failed''
                   ''IP connectivity exists but routing verification failed.''
                   ''Correlacionar rutas, interfaces, BGP y RPKI.'' r
                 else r);
       r = (if \<not> cd_bgp_ok d
                 then cumbia_note CUMBIA_DEGRADED ''BGP''
                   ''BGP session unavailable''
                   ''BGP verification failed.''
                   (''Verificar sesi'' @ o_acute @ ''n BGP, AS-PATH, filtros y RPKI.'') r
                 else r);
       r = (if \<not> cd_rpki_ok d
                 then cumbia_note CUMBIA_DEGRADED ''RPKI''
                   ''RPKI verification problem''
                   ''RPKI verification did not return an acceptable state.''
                   (''Revisar ROA, origin AS y estado de validaci'' @ o_acute @ ''n.'') r
                 else r);
       r = (if \<not> cd_ipv4_ok d \<or> \<not> cd_ipv6_ok d
                 then cumbia_note CUMBIA_DEGRADED ''IPV''
                   ''IP protocol readiness incomplete''
                   ''One or more IP protocol checks failed.''
                   ''Verificar direccionamiento, rutas, DNS y soporte IPv4/IPv6.'' r
                 else r);
       r = (if \<not> cd_dns_ok d
                 then cumbia_note CUMBIA_DEGRADED ''DNS''
                   ''DNS verification failed''
                   ''Connectivity exists but DNS verification failed.''
                   (''Verificar resolvers, conectividad DNS y configuraci'' @ o_acute @ ''n del CPE.'') r
                 else r);
       r = (if \<not> cd_certificate_ok d \<or> cd_authentication_failure d \<or> cd_config_changed d
                 then cumbia_note CUMBIA_DEGRADED ''SECURITY''
                   (if \<not> cd_certificate_ok d then ''Certificate verification failure''
                    else if cd_authentication_failure d then ''Authentication failure detected''
                    else ''Configuration change detected'')
                   (if \<not> cd_certificate_ok d then ''Certificate validation failed.''
                    else if cd_authentication_failure d then ''Authentication failure event detected.''
                    else ''Configuration state changed.'')
                   (''Correlacionar evento, identidad, configuraci'' @ o_acute @ ''n y telemetr'' @ i_acute @ ''a antes de autorizar cambios.'') r
                 else r);
       r = (if cd_interface_down d
                 then cumbia_note CUMBIA_BLOCKED ''INTERFACE'' ''Interface unavailable''
                   ''One or more required interfaces are down.''
                   (''Verificar estado f'' @ i_acute @ ''sico/l'' @ o_acute @ ''gico, errores y configuraci'' @ o_acute @ ''n.'') r
                 else r);
       r = (if d_ge (cd_packet_loss_pct d) (DNum 5) \<or> d_ge (cd_latency_ms d) (DNum 200) \<or> d_ge (cd_jitter_ms d) (DNum 50)
                 then cumbia_note CUMBIA_DEGRADED ''PERFORMANCE'' ''Network performance degradation''
                   (cumbia_performance_text d)
                   ''Correlacionar enlaces, interfaces, radio, capacidad y rutas.'' r
                 else r)
      in r)"

definition cumbia_start :: "cumbia_device \<Rightarrow> cumbia_result" where
  "cumbia_start d =
     \<lparr>cr_status = CUMBIA_ONLINE, cr_anomaly_count = 0, cr_requires_operator = True,
      cr_incident_id = snprintf_buf 96 (''CUMBIA-'' @ cd_device_id d), cr_category = [], cr_origin = [],
      cr_evidence = [], cr_recommendation = []\<rparr>"

definition cumbia_no_anomaly :: "cumbia_result \<Rightarrow> cumbia_result" where
  "cumbia_no_anomaly r =
     r\<lparr>cr_category := snprintf_buf 64 ''NONE'', cr_origin := snprintf_buf 128 ''No anomaly detected'',
       cr_evidence := snprintf_buf 512 ''All Cumbia v1 verification checks passed.'',
       cr_recommendation := snprintf_buf 512 ''Continue monitoring.''\<rparr>"

definition cumbia_analyze :: "cumbia_device option \<Rightarrow> cumbia_result option" where
  "cumbia_analyze device =
     (if \<not> cumbia_validate device then None
      else
        let d = the device; r = cumbia_start d in
        if \<not> cd_authorized d
        then Some (cumbia_note CUMBIA_BLOCKED ''AUTHORIZATION'' ''Dispositivo no autorizado''
          ''Authorization boundary denied operational access.''
          ''Registrar y autorizar el dispositivo antes de conectar.'' r)
        else if \<not> cd_management_reachable d
        then Some (cumbia_note CUMBIA_BLOCKED ''CONNECTIVITY'' ''Management endpoint unreachable''
          ''Management channel is unreachable.''
          ''Verificar enlace, direccionamiento, gateway y credenciales autorizadas.'' r)
        else if \<not> cd_ip_reachable d \<or> \<not> cd_gateway_reachable d
        then Some (cumbia_note CUMBIA_BLOCKED ''NETWORK'' ''IP or gateway connectivity failure''
          ''Management reachable but IP/gateway verification failed.''
          ''Verificar interfaz, direccionamiento, gateway y rutas.'' r)
        else
          let r = cumbia_checks d r in
          if cr_anomaly_count r = 0
          then Some (cumbia_no_anomaly r)
          else Some r)"

fun cumbia_status_name :: "cumbia_status \<Rightarrow> string" where
  "cumbia_status_name CUMBIA_ONLINE = ''ONLINE''"
| "cumbia_status_name CUMBIA_DEGRADED = ''DEGRADED''"
| "cumbia_status_name CUMBIA_BLOCKED = ''BLOCKED''"
| "cumbia_status_name CUMBIA_OFFLINE = ''OFFLINE''"
| "cumbia_status_name CUMBIA_UNKNOWN = ''UNKNOWN''"

definition cumbia_self_test_device :: cumbia_device where
  "cumbia_self_test_device =
     \<lparr>cd_device_id = ''POP-03'', cd_device_type = ''ROUTER'', cd_technology = ''BGP/IPv4/IPv6'',
      cd_authorized = True, cd_management_reachable = True, cd_ip_reachable = True, cd_gateway_reachable = True,
      cd_dns_ok = True, cd_ipv4_ok = True, cd_ipv6_ok = True, cd_routing_ok = True, cd_bgp_ok = True, cd_rpki_ok = True,
      cd_certificate_ok = True, cd_latency_ms = DNum 18, cd_jitter_ms = DNum 3, cd_packet_loss_pct = DNum (3602879701896397 / 36028797018963968),
      cd_config_changed = False, cd_authentication_failure = False, cd_interface_down = False, cd_affected_devices = 0\<rparr>"

definition cumbia_self_test :: "cumbia_device \<Rightarrow> int" where
  \<comment> \<open>the verdict of \<open>run_self_test\<close> (on \<open>cumbia_self_test_device\<close>), without the printed report\<close>
  "cumbia_self_test device =
     (case cumbia_analyze (Some device) of
        None \<Rightarrow> 1
      | Some result \<Rightarrow>
          if cr_status result \<noteq> CUMBIA_ONLINE \<or> cr_anomaly_count result \<noteq> 0
             \<or> \<not> cumbia_authorized_action (Some device) ACTION_CONNECT
             \<or> \<not> cumbia_authorized_action (Some device) ACTION_ANALYZE
             \<or> cumbia_authorized_action (Some device) ACTION_CHANGE
             \<or> cumbia_authorized_action (Some device) ACTION_RESTART
             \<or> cumbia_authorized_action (Some device) ACTION_ISOLATE then 1
          else 0)"

definition cumbia_main :: "string list \<Rightarrow> int" where
  "cumbia_main argv =
     (if length argv = 2 \<and> argv ! 1 = ''--self-test'' then cumbia_self_test cumbia_self_test_device else 2)"


section \<open>Findings\<close>

definition cumbia_findings :: "cumbia_device \<Rightarrow> (cumbia_status \<times> string) list" where
  \<comment> \<open>status and category of the failing cumulative checks, in order\<close>
  "cumbia_findings d =
     (if \<not> cd_routing_ok d then [(CUMBIA_DEGRADED, ''ROUTING'')] else [])
     @ (if \<not> cd_bgp_ok d then [(CUMBIA_DEGRADED, ''BGP'')] else [])
     @ (if \<not> cd_rpki_ok d then [(CUMBIA_DEGRADED, ''RPKI'')] else [])
     @ (if \<not> cd_ipv4_ok d \<or> \<not> cd_ipv6_ok d then [(CUMBIA_DEGRADED, ''IPV'')] else [])
     @ (if \<not> cd_dns_ok d then [(CUMBIA_DEGRADED, ''DNS'')] else [])
     @ (if \<not> cd_certificate_ok d \<or> cd_authentication_failure d \<or> cd_config_changed d then [(CUMBIA_DEGRADED, ''SECURITY'')] else [])
     @ (if cd_interface_down d then [(CUMBIA_BLOCKED, ''INTERFACE'')] else [])
     @ (if d_ge (cd_packet_loss_pct d) (DNum 5) \<or> d_ge (cd_latency_ms d) (DNum 200) \<or> d_ge (cd_jitter_ms d) (DNum 50)
        then [(CUMBIA_DEGRADED, ''PERFORMANCE'')] else [])"

definition cumbia_tracks :: "string \<Rightarrow> (cumbia_status \<times> string) list \<Rightarrow> cumbia_result \<Rightarrow> bool" where
  "cumbia_tracks ident fs r \<longleftrightarrow> cr_incident_id r = ident \<and> cr_requires_operator r \<and> cr_anomaly_count r = length fs \<and>
     (cr_status r, cr_category r) = (if fs = [] then (CUMBIA_ONLINE, []) else last fs)"

lemma cumbia_tracks_start: "cumbia_tracks (snprintf_buf 96 (''CUMBIA-'' @ cd_device_id d)) [] (cumbia_start d)"
  by (simp add: cumbia_tracks_def cumbia_start_def)

lemma cumbia_tracks_note:
  "cumbia_tracks ident fs r \<Longrightarrow> length cat < 64 \<Longrightarrow>
     cumbia_tracks ident (fs @ (if c then [(st, cat)] else [])) (if c then cumbia_note st cat orig e rec r else r)"
  by (simp add: cumbia_tracks_def cumbia_note_def)

lemma cumbia_tracks_checks:
  assumes "cumbia_tracks ident [] r" shows "cumbia_tracks ident (cumbia_findings d) (cumbia_checks d r)"
proof -
  have "cumbia_tracks ident ([] @ cumbia_findings d) (cumbia_checks d r)"
    unfolding cumbia_findings_def cumbia_checks_def Let_def append_assoc [symmetric]
    by (intro cumbia_tracks_note assms) simp_all
  then show ?thesis by simp
qed

definition cumbia_reachable :: "cumbia_device \<Rightarrow> bool" where
  "cumbia_reachable d \<longleftrightarrow> cd_authorized d \<and> cd_management_reachable d \<and> cd_ip_reachable d \<and> cd_gateway_reachable d"

lemma cumbia_analyze_reachable:
  assumes "cumbia_validate (Some d)" and "cumbia_reachable d"
  shows "\<exists>r. cumbia_analyze (Some d) = Some r \<and> cr_requires_operator r \<and>
    cr_incident_id r = snprintf_buf 96 (''CUMBIA-'' @ cd_device_id d) \<and> cr_anomaly_count r = length (cumbia_findings d) \<and>
    (cr_status r, cr_category r) = (if cumbia_findings d = [] then (CUMBIA_ONLINE, ''NONE'') else last (cumbia_findings d))"
  using assms cumbia_tracks_checks [OF cumbia_tracks_start [of d], of d]
  by (auto simp: cumbia_analyze_def cumbia_no_anomaly_def cumbia_reachable_def cumbia_tracks_def Let_def)

lemma cumbia_analyze_id:
  assumes "cumbia_analyze (Some d) = Some r"
  shows "cr_incident_id r = snprintf_buf 96 (''CUMBIA-'' @ cd_device_id d) \<and> cr_requires_operator r"
proof (cases "cumbia_reachable d")
  case True
  have "cumbia_validate (Some d)" using assms by (auto simp: cumbia_analyze_def cumbia_no_anomaly_def split: if_splits)
  from cumbia_analyze_reachable [OF this True] assms show ?thesis by auto
next
  case False
  with assms show ?thesis
    by (auto simp: cumbia_analyze_def cumbia_no_anomaly_def cumbia_reachable_def cumbia_note_def cumbia_start_def Let_def split: if_splits)
qed

interpretation cu: traceable_engine "\<lambda>d. cumbia_validate (Some d)" "\<lambda>d. cumbia_analyze (Some d)"
    "\<lambda>d. length (cd_device_id d) < 64" cd_device_id cr_incident_id
proof unfold_locales
  show "cumbia_validate (Some d) \<Longrightarrow> cumbia_analyze (Some d) \<noteq> None" for d
    by (simp add: cumbia_analyze_def cumbia_no_anomaly_def Let_def)
  show "\<not> cumbia_validate (Some d) \<Longrightarrow> cumbia_analyze (Some d) = None" for d
    by (simp add: cumbia_analyze_def cumbia_no_anomaly_def)
  fix p q r s
  assume "length (cd_device_id p) < 64" "length (cd_device_id q) < 64" "cumbia_analyze (Some p) = Some r"
    "cumbia_analyze (Some q) = Some s" "cr_incident_id r = cr_incident_id s"
  then show "cd_device_id p = cd_device_id q"
    using cumbia_analyze_id [of p r] cumbia_analyze_id [of q s] by simp
qed

text \<open>For a valid device that is authorised and reachable, the analysis reports as many anomalies as
  checks fail, and status and category of the last failing check in the order of the source; it reports
  \<open>ONLINE\<close> with the category \<open>NONE\<close> exactly when no check fails. The operator is always required.\<close>

theorem cumbia_reports_last:
  assumes "cumbia_validate (Some d)" and "cumbia_reachable d"
  shows "\<exists>r. cumbia_analyze (Some d) = Some r \<and> cr_requires_operator r \<and> cr_anomaly_count r = length (cumbia_findings d) \<and>
    (cr_status r, cr_category r) = (if cumbia_findings d = [] then (CUMBIA_ONLINE, ''NONE'') else last (cumbia_findings d)) \<and>
    (cr_status r = CUMBIA_ONLINE \<longleftrightarrow> cumbia_findings d = [])"
proof -
  obtain r where r: "cumbia_analyze (Some d) = Some r" "cr_requires_operator r" "cr_anomaly_count r = length (cumbia_findings d)"
    "(cr_status r, cr_category r) = (if cumbia_findings d = [] then (CUMBIA_ONLINE, ''NONE'') else last (cumbia_findings d))"
    using cumbia_analyze_reachable [OF assms] by blast
  have "f \<in> set (cumbia_findings d) \<Longrightarrow> fst f \<noteq> CUMBIA_ONLINE" for f
    by (auto simp: cumbia_findings_def split: if_splits)
  then have "cumbia_findings d \<noteq> [] \<Longrightarrow> fst (last (cumbia_findings d)) \<noteq> CUMBIA_ONLINE" by simp
  with r(4) have "cr_status r = CUMBIA_ONLINE \<longleftrightarrow> cumbia_findings d = []"
    by (auto split: if_splits) (metis fst_conv)
  with r show ?thesis by blast
qed

lemma cumbia_test_valid: "cumbia_validate (Some cumbia_self_test_device)" "cumbia_reachable cumbia_self_test_device"
  by (simp_all add: cumbia_validate_def cumbia_self_test_device_def cumbia_reachable_def)

theorem cumbia_reports_last_witness:
  "\<exists>r. cumbia_analyze (Some (cumbia_self_test_device\<lparr>cd_dns_ok := False, cd_bgp_ok := False\<rparr>)) = Some r
     \<and> cr_anomaly_count r = 2 \<and> cr_category r = ''DNS''"
proof -
  let ?d = "cumbia_self_test_device\<lparr>cd_dns_ok := False, cd_bgp_ok := False\<rparr>"
  have v: "cumbia_validate (Some ?d)" "cumbia_reachable ?d"
    by (simp_all add: cumbia_validate_def cumbia_self_test_device_def cumbia_reachable_def)
  have "cumbia_findings ?d = [(CUMBIA_DEGRADED, ''BGP''), (CUMBIA_DEGRADED, ''DNS'')]"
    by (simp add: cumbia_findings_def cumbia_self_test_device_def)
  with cumbia_reports_last [OF v] show ?thesis by auto
qed

text \<open>A blocked device can be reported as merely degraded: whenever the latency, jitter or loss
  threshold is also exceeded, the \<open>BLOCKED\<close> status of an interface that is down is overwritten.\<close>

theorem cumbia_blocked_downgraded:
  assumes "cumbia_validate (Some d)" and "cumbia_reachable d" and "cd_interface_down d"
    and "d_ge (cd_packet_loss_pct d) (DNum 5)"
  shows "\<exists>r. cumbia_analyze (Some d) = Some r \<and> cr_status r = CUMBIA_DEGRADED \<and> cr_category r = ''PERFORMANCE''"
  using cumbia_analyze_reachable [OF assms(1,2)] assms(3,4) by (auto simp: cumbia_findings_def)

theorem cumbia_blocked_downgraded_witness:
  "\<exists>r. cumbia_analyze (Some (cumbia_self_test_device\<lparr>cd_interface_down := True, cd_packet_loss_pct := DNum 100\<rparr>)) = Some r
     \<and> cr_status r = CUMBIA_DEGRADED"
proof -
  let ?d = "cumbia_self_test_device\<lparr>cd_interface_down := True, cd_packet_loss_pct := DNum 100\<rparr>"
  have v: "cumbia_validate (Some ?d)" "cumbia_reachable ?d" "cd_interface_down ?d" "d_ge (cd_packet_loss_pct ?d) (DNum 5)"
    by (simp_all add: cumbia_validate_def cumbia_self_test_device_def cumbia_reachable_def)
  from cumbia_blocked_downgraded [OF v] show ?thesis by blast
qed

text \<open>The authorization boundary: no action at all is permitted on a device that is missing or not
  authorised, and no mutating action (change, restart, isolate) on any device; such a device is
  analysed as \<open>BLOCKED\<close> without looking at its telemetry.\<close>

theorem cumbia_boundary:
  "cumbia_authorized_action device a = (\<exists>d. device = Some d \<and> cd_authorized d \<and> a \<notin> {ACTION_CHANGE, ACTION_RESTART, ACTION_ISOLATE}) \<and>
   (case cumbia_analyze device of None \<Rightarrow> True | Some r \<Rightarrow> cd_authorized (the device) \<or> (cr_status r = CUMBIA_BLOCKED \<and> cr_category r = ''AUTHORIZATION''))"
  by (cases device; cases a)
    (auto simp: cumbia_authorized_action_def cumbia_analyze_def cumbia_no_anomaly_def cumbia_note_def Let_def)

text \<open>The self-test of the program passes: on its reference device the analysis yields \<open>ONLINE\<close>
  without anomalies and the boundary lets through only the observing actions.\<close>

theorem cumbia_self_test_passes: "cumbia_main [''cumbia'', ''--self-test''] = 0"
proof -
  have "cumbia_findings cumbia_self_test_device = []"
    by (simp add: cumbia_findings_def cumbia_self_test_device_def)
  with cumbia_analyze_reachable [OF cumbia_test_valid] show ?thesis
    by (auto simp: cumbia_main_def cumbia_self_test_def cumbia_authorized_action_def cumbia_self_test_device_def)
qed

text \<open>The incidents of different devices can be told apart: in a batch of devices with pairwise
  different identifiers (as stored, below 64 bytes), the incidents the engine reports have pairwise
  different incident identifiers, one for each valid device.\<close>

theorem cumbia_incidents_distinct:
  assumes "list_all (\<lambda>d. length (cd_device_id d) < 64) ds" and "distinct (map cd_device_id ds)"
  shows "distinct (map cr_incident_id (List.map_filter (\<lambda>d. cumbia_analyze (Some d)) ds)) \<and>
    length (List.map_filter (\<lambda>d. cumbia_analyze (Some d)) ds) = length (filter (\<lambda>d. cumbia_validate (Some d)) ds)"
proof -
  have t: "List.map_filter (\<lambda>d. cumbia_analyze (Some d)) xs = cu.triage xs" for xs
    by (induction xs) (auto simp: map_filter_def split: option.split)
  have "distinct (map cd_device_id (filter (\<lambda>d. cumbia_validate (Some d)) ds))"
    using assms(2) by (rule distinct_map_filter)
  with cu.triage_incidents [OF assms(1)] cu.length_triage show ?thesis by (simp add: t)
qed

theorem cumbia_incidents_distinct_witness:
  "distinct (map cr_incident_id (List.map_filter (\<lambda>d. cumbia_analyze (Some d))
     [cumbia_self_test_device, cumbia_self_test_device\<lparr>cd_device_id := ''POP-04''\<rparr>]))"
  using cumbia_incidents_distinct [of "[cumbia_self_test_device, cumbia_self_test_device\<lparr>cd_device_id := ''POP-04''\<rparr>]"]
  by (simp add: cumbia_self_test_device_def)

end
