(* ===== verification/Assurance.thy ===== *)
theory Assurance
  imports Diagnosis
begin

text \<open>
  \<open>core/assurance/chrono_assurance.c\<close>: assurance of one device. Twelve checks collect evidence and
  count affected domains, the SLA adds its own evidence, and the root cause is the first failing group
  of a fixed priority list. Integer flags are booleans, the observation may be \<open>NULL\<close>.
\<close>

datatype assurance_status = ASSURANCE_OK | ASSURANCE_DEGRADED | ASSURANCE_CRITICAL | ASSURANCE_UNKNOWN

datatype root_cause = ROOT_NONE | ROOT_LINK | ROOT_ROUTING | ROOT_DNS | ROOT_AUTH | ROOT_PON | ROOT_RADIO
  | ROOT_CAPACITY | ROOT_CONFIGURATION | ROOT_CERTIFICATE | ROOT_MULTI_DOMAIN

record assurance_observation =
  ao_device_id :: string
  ao_site_id :: string
  ao_service_id :: string
  ao_management_ok :: bool
  ao_interface_ok :: bool
  ao_gateway_ok :: bool
  ao_dns_ok :: bool
  ao_ipv4_ok :: bool
  ao_ipv6_ok :: bool
  ao_routing_ok :: bool
  ao_bgp_ok :: bool
  ao_rpki_ok :: bool
  ao_certificate_ok :: bool
  ao_pon_ok :: bool
  ao_radio_ok :: bool
  ao_configuration_changed :: bool
  ao_latency_ms :: double
  ao_jitter_ms :: double
  ao_packet_loss_pct :: double
  ao_affected_customers :: nat
  ao_affected_services :: nat
  ao_sla_target_pct :: double
  ao_current_availability_pct :: double

record assurance_result =
  ar_status :: assurance_status
  ar_root_cause :: root_cause
  ar_evidence_count :: nat
  ar_affected_customers :: nat
  ar_affected_services :: nat
  ar_sla_at_risk :: bool
  ar_requires_operator :: bool
  ar_rollback_available :: bool
  ar_incident_id :: string
  ar_category :: string
  ar_origin :: string
  ar_evidence :: string
  ar_recommendation :: string

section \<open>The engine\<close>

definition append_evidence :: "string \<Rightarrow> assurance_result \<Rightarrow> assurance_result" where
  "append_evidence t r =
     (let used = length (ar_evidence r) in
      if used \<ge> 1024 - 1 then r
      else
        let written = (if used > 0 then ar_evidence r @ snprintf_buf (1024 - used) (''; '' @ t) else snprintf_buf 1024 t) in
        r\<lparr>ar_evidence := written, ar_evidence_count := ar_evidence_count r + 1\<rparr>)"

definition assurance_validate :: "assurance_observation option \<Rightarrow> bool" where
  "assurance_validate observation =
     (case observation of
        None \<Rightarrow> False
      | Some ob \<Rightarrow>
          if ao_device_id ob = [] then False
          else if ao_affected_customers ob > 1000000000 then False
          else if d_lt (ao_packet_loss_pct ob) (DNum 0) \<or> d_gt (ao_packet_loss_pct ob) (DNum 100) then False
          else if d_lt (ao_latency_ms ob) (DNum 0) \<or> d_lt (ao_jitter_ms ob) (DNum 0) then False
          else True)"

definition set_root :: "root_cause \<Rightarrow> string \<Rightarrow> string \<Rightarrow> assurance_result \<Rightarrow> assurance_result" where
  "set_root cause category origin r =
     r\<lparr>ar_root_cause := cause, ar_category := snprintf_buf 64 category, ar_origin := snprintf_buf 256 origin\<rparr>"

definition assurance_check :: "bool \<Rightarrow> string \<Rightarrow> nat \<times> assurance_result \<Rightarrow> nat \<times> assurance_result" where
  \<comment> \<open>\<open>if (failed) { domains++; append_evidence(result, text); }\<close>\<close>
  "assurance_check failed t dr = (if failed then (fst dr + 1, append_evidence t (snd dr)) else dr)"

definition assurance_slow :: "assurance_observation \<Rightarrow> bool" where
  "assurance_slow ob \<longleftrightarrow> d_ge (ao_packet_loss_pct ob) (DNum 5) \<or> d_ge (ao_latency_ms ob) (DNum 200) \<or> d_ge (ao_jitter_ms ob) (DNum 50)"

definition assurance_domains :: "assurance_observation \<Rightarrow> assurance_result \<Rightarrow> nat \<times> assurance_result" where
  "assurance_domains ob r =
     (let dr = (0, r);
          dr = assurance_check (\<not> ao_management_ok ob) ''management unreachable'' dr;
          dr = assurance_check (\<not> ao_interface_ok ob) ''interface unavailable'' dr;
          dr = assurance_check (\<not> ao_gateway_ok ob) ''gateway failure'' dr;
          dr = assurance_check (\<not> ao_routing_ok ob \<or> \<not> ao_bgp_ok ob) ''routing/BGP degradation'' dr;
          dr = assurance_check (\<not> ao_rpki_ok ob) ''RPKI validation problem'' dr;
          dr = assurance_check (\<not> ao_dns_ok ob) ''DNS failure'' dr;
          dr = assurance_check (\<not> ao_ipv4_ok ob \<or> \<not> ao_ipv6_ok ob) ''IP connectivity degradation'' dr;
          dr = assurance_check (\<not> ao_pon_ok ob) ''PON/ONU degradation'' dr;
          dr = assurance_check (\<not> ao_radio_ok ob) ''radio/antenna degradation'' dr;
          dr = assurance_check (\<not> ao_certificate_ok ob) ''certificate validation problem'' dr;
          dr = assurance_check (ao_configuration_changed ob) ''recent configuration change'' dr;
          dr = assurance_check (assurance_slow ob) ''performance degradation'' dr
      in dr)"

definition assurance_sla_missed :: "assurance_observation \<Rightarrow> bool" where
  "assurance_sla_missed ob \<longleftrightarrow> d_gt (ao_sla_target_pct ob) (DNum 0) \<and> d_lt (ao_current_availability_pct ob) (ao_sla_target_pct ob)"

definition assurance_root :: "assurance_observation \<Rightarrow> assurance_result \<Rightarrow> assurance_result" where
  "assurance_root ob r =
     (if \<not> ao_interface_ok ob \<or> \<not> ao_gateway_ok ob \<or> \<not> ao_management_ok ob
      then set_root ROOT_LINK ''CONNECTIVITY'' ''Primary connectivity path degraded'' r
      else if \<not> ao_routing_ok ob \<or> \<not> ao_bgp_ok ob
      then set_root ROOT_ROUTING ''ROUTING'' ''Routing control plane degraded'' r
      else if \<not> ao_dns_ok ob then set_root ROOT_DNS ''DNS'' ''Name resolution path degraded'' r
      else if \<not> ao_pon_ok ob then set_root ROOT_PON ''ACCESS'' ''PON/ONU access domain degraded'' r
      else if \<not> ao_radio_ok ob then set_root ROOT_RADIO ''RADIO'' ''Radio/antenna domain degraded'' r
      else if \<not> ao_certificate_ok ob
      then set_root ROOT_CERTIFICATE ''SECURITY'' ''Certificate trust validation degraded'' r
      else if ao_configuration_changed ob
      then set_root ROOT_CONFIGURATION ''CONFIGURATION'' ''Recent configuration change correlates with degradation'' r
      else set_root ROOT_MULTI_DOMAIN ''MULTI_DOMAIN'' ''Multiple network domains show correlated degradation'' r)"

definition assurance_start :: "assurance_observation \<Rightarrow> assurance_result" where
  "assurance_start ob =
     \<lparr>ar_status = ASSURANCE_OK, ar_root_cause = ROOT_NONE, ar_evidence_count = 0,
      ar_affected_customers = ao_affected_customers ob, ar_affected_services = ao_affected_services ob,
      ar_sla_at_risk = False, ar_requires_operator = True, ar_rollback_available = True,
      ar_incident_id = snprintf_buf 96 (''ASSURANCE-'' @ ao_device_id ob), ar_category = [], ar_origin = [],
      ar_evidence = [], ar_recommendation = []\<rparr>"

definition assurance_advise :: "assurance_result \<Rightarrow> assurance_result" where
  "assurance_advise r =
     (if ar_sla_at_risk r
      then r\<lparr>ar_recommendation := snprintf_buf 512 ''Freeze non-essential changes, preserve evidence, simulate remediation, require operator approval, then verify and retain rollback state.''\<rparr>
      else r\<lparr>ar_recommendation := snprintf_buf 512 ''Correlate affected domains, simulate the proposed remediation, require operator approval, execute only authorized changes, then verify the result.''\<rparr>)"

definition assurance_analyze :: "assurance_observation option \<Rightarrow> assurance_result option" where
  "assurance_analyze observation =
     (if \<not> assurance_validate observation then None
      else
        let ob = the observation;
            (domains, r) = assurance_domains ob (assurance_start ob);
            r = (if assurance_sla_missed ob
                 then append_evidence ''SLA target below threshold'' (r\<lparr>ar_sla_at_risk := True\<rparr>) else r) in
        if domains = 0 then
          Some (r\<lparr>ar_category := snprintf_buf 64 ''NONE'', ar_origin := snprintf_buf 256 ''No correlated anomaly detected'',
                  ar_evidence := snprintf_buf 1024 ''All assurance domains passed verification.'',
                  ar_recommendation := snprintf_buf 512 ''Continue monitoring and preserve evidence.''\<rparr>)
        else
          Some (assurance_advise (assurance_root ob (r\<lparr>ar_status := ASSURANCE_DEGRADED\<rparr>))))"

fun assurance_status_name :: "assurance_status \<Rightarrow> string" where
  "assurance_status_name ASSURANCE_OK = ''OK''"
| "assurance_status_name ASSURANCE_DEGRADED = ''DEGRADED''"
| "assurance_status_name ASSURANCE_CRITICAL = ''CRITICAL''"
| "assurance_status_name ASSURANCE_UNKNOWN = ''UNKNOWN''"

fun assurance_root_name :: "root_cause \<Rightarrow> string" where
  "assurance_root_name ROOT_LINK = ''LINK''"
| "assurance_root_name ROOT_ROUTING = ''ROUTING''"
| "assurance_root_name ROOT_DNS = ''DNS''"
| "assurance_root_name ROOT_AUTH = ''AUTH''"
| "assurance_root_name ROOT_PON = ''PON''"
| "assurance_root_name ROOT_RADIO = ''RADIO''"
| "assurance_root_name ROOT_CAPACITY = ''CAPACITY''"
| "assurance_root_name ROOT_CONFIGURATION = ''CONFIGURATION''"
| "assurance_root_name ROOT_CERTIFICATE = ''CERTIFICATE''"
| "assurance_root_name ROOT_MULTI_DOMAIN = ''MULTI_DOMAIN''"
| "assurance_root_name ROOT_NONE = ''NONE''"

section \<open>Evidence\<close>

definition domain_texts :: "assurance_observation \<Rightarrow> string list" where
  \<comment> \<open>the evidence of the failing domains, in order\<close>
  "domain_texts ob =
     (if \<not> ao_management_ok ob then [''management unreachable''] else [])
     @ (if \<not> ao_interface_ok ob then [''interface unavailable''] else [])
     @ (if \<not> ao_gateway_ok ob then [''gateway failure''] else [])
     @ (if \<not> ao_routing_ok ob \<or> \<not> ao_bgp_ok ob then [''routing/BGP degradation''] else [])
     @ (if \<not> ao_rpki_ok ob then [''RPKI validation problem''] else [])
     @ (if \<not> ao_dns_ok ob then [''DNS failure''] else [])
     @ (if \<not> ao_ipv4_ok ob \<or> \<not> ao_ipv6_ok ob then [''IP connectivity degradation''] else [])
     @ (if \<not> ao_pon_ok ob then [''PON/ONU degradation''] else [])
     @ (if \<not> ao_radio_ok ob then [''radio/antenna degradation''] else [])
     @ (if \<not> ao_certificate_ok ob then [''certificate validation problem''] else [])
     @ (if ao_configuration_changed ob then [''recent configuration change''] else [])
     @ (if assurance_slow ob then [''performance degradation''] else [])"

fun join_semi :: "string list \<Rightarrow> string" where
  "join_semi [] = []"
| "join_semi [t] = t"
| "join_semi (t # u # ts) = t @ ''; '' @ join_semi (u # ts)"

lemma join_semi_snoc: "ts \<noteq> [] \<Longrightarrow> join_semi (ts @ [t]) = join_semi ts @ ''; '' @ t"
  by (induction ts rule: join_semi.induct) auto

lemma join_semi_length: "\<forall>t \<in> set ts. length t \<le> 30 \<Longrightarrow> length (join_semi ts) \<le> 32 * length ts"
  by (induction ts rule: join_semi.induct) auto

lemma join_semi_empty: "\<forall>t \<in> set ts. t \<noteq> [] \<Longrightarrow> join_semi ts = [] \<longleftrightarrow> ts = []"
  by (induction ts rule: join_semi.induct) auto

definition evidence_holds :: "assurance_observation \<Rightarrow> string list \<Rightarrow> assurance_result \<Rightarrow> bool" where
  \<comment> \<open>the result is the initial one with the evidence \<open>ts\<close>\<close>
  "evidence_holds ob ts r \<longleftrightarrow> (\<forall>t \<in> set ts. t \<noteq> [] \<and> length t \<le> 30) \<and> length ts \<le> 12 \<and>
     r = (assurance_start ob)\<lparr>ar_evidence := join_semi ts, ar_evidence_count := length ts\<rparr>"

lemma append_evidence_eq:
  assumes "\<forall>u \<in> set ts. u \<noteq> [] \<and> length u \<le> 30" and "length ts \<le> 12" and "t \<noteq> []" and "length t \<le> 30"
    and "ar_evidence r = join_semi ts" and "ar_evidence_count r = length ts"
  shows "append_evidence t r = r\<lparr>ar_evidence := join_semi (ts @ [t]), ar_evidence_count := length (ts @ [t])\<rparr>"
proof -
  have len: "length (join_semi ts) \<le> 384" using join_semi_length [of ts] assms(1,2) by auto
  show ?thesis
  proof (cases "ts = []")
    case True
    with assms(4-6) show ?thesis by (simp add: append_evidence_def snprintf_buf_def)
  next
    case False
    then have "join_semi ts \<noteq> []" using join_semi_empty [of ts] assms(1) by auto
    with False len assms(4-6) show ?thesis
      by (simp add: append_evidence_def join_semi_snoc snprintf_buf_def)
  qed
qed

definition counted_evidence :: "assurance_observation \<Rightarrow> string list \<Rightarrow> nat \<times> assurance_result \<Rightarrow> bool" where
  "counted_evidence ob ts dr \<longleftrightarrow> fst dr = length ts \<and> evidence_holds ob ts (snd dr)"

lemma counted_check:
  assumes "counted_evidence ob ts dr" and "t \<noteq> []" "length t \<le> 30" and "length ts < 12"
  shows "counted_evidence ob (ts @ (if failed then [t] else [])) (assurance_check failed t dr)"
  using assms append_evidence_eq [of ts t "snd dr"]
  by (auto simp: counted_evidence_def evidence_holds_def assurance_check_def)

lemma counted_start: "counted_evidence ob [] (0, assurance_start ob)"
  by (simp add: counted_evidence_def evidence_holds_def assurance_start_def)

lemma counted_domains: "counted_evidence ob (domain_texts ob) (assurance_domains ob (assurance_start ob))"
proof -
  have "counted_evidence ob ([] @ domain_texts ob) (assurance_domains ob (assurance_start ob))"
    unfolding domain_texts_def assurance_domains_def Let_def append_assoc [symmetric]
    by (intro counted_check counted_start) simp_all
  then show ?thesis by simp
qed

section \<open>Diagnosis\<close>

definition sla_texts :: "assurance_observation \<Rightarrow> string list" where
  "sla_texts ob = (if assurance_sla_missed ob then [''SLA target below threshold''] else [])"

lemma assurance_analyze_eq:
  assumes "assurance_validate (Some ob)"
  shows "assurance_analyze (Some ob) = Some (
    let ts = domain_texts ob;
        r = (assurance_start ob)\<lparr>ar_evidence := join_semi (ts @ sla_texts ob),
              ar_evidence_count := length (ts @ sla_texts ob), ar_sla_at_risk := assurance_sla_missed ob\<rparr> in
    if ts = [] then r\<lparr>ar_category := ''NONE'', ar_origin := ''No correlated anomaly detected'',
        ar_evidence := ''All assurance domains passed verification.'', ar_recommendation := ''Continue monitoring and preserve evidence.''\<rparr>
    else (assurance_root ob (r\<lparr>ar_status := ASSURANCE_DEGRADED\<rparr>))\<lparr>ar_recommendation :=
       (if assurance_sla_missed ob
        then ''Freeze non-essential changes, preserve evidence, simulate remediation, require operator approval, then verify and retain rollback state.''
        else ''Correlate affected domains, simulate the proposed remediation, require operator approval, execute only authorized changes, then verify the result.'')\<rparr>)"
proof -
  obtain n r where dr: "assurance_domains ob (assurance_start ob) = (n, r)"
    by (cases "assurance_domains ob (assurance_start ob)")
  have r: "n = length (domain_texts ob)" "evidence_holds ob (domain_texts ob) r"
    using counted_domains [of ob] by (simp_all add: dr counted_evidence_def)
  then have e: "r = (assurance_start ob)\<lparr>ar_evidence := join_semi (domain_texts ob), ar_evidence_count := length (domain_texts ob)\<rparr>"
    by (simp add: evidence_holds_def)
  have sla: "(if assurance_sla_missed ob then append_evidence ''SLA target below threshold'' (r\<lparr>ar_sla_at_risk := True\<rparr>) else r)
      = (assurance_start ob)\<lparr>ar_evidence := join_semi (domain_texts ob @ sla_texts ob),
          ar_evidence_count := length (domain_texts ob @ sla_texts ob), ar_sla_at_risk := assurance_sla_missed ob\<rparr>"
    using r(2) append_evidence_eq [of "domain_texts ob" "''SLA target below threshold''" "r\<lparr>ar_sla_at_risk := True\<rparr>"]
    by (auto simp: e sla_texts_def evidence_holds_def assurance_start_def)
  have keep: "ar_sla_at_risk (assurance_root ob x) = ar_sla_at_risk x" for x
    by (simp add: assurance_root_def set_root_def)
  show ?thesis
    using assms r(1) by (simp add: assurance_analyze_def assurance_advise_def dr sla Let_def keep)
qed


lemma root_keeps [simp]: "ar_status (assurance_root ob x) = ar_status x" "ar_evidence (assurance_root ob x) = ar_evidence x"
  "ar_evidence_count (assurance_root ob x) = ar_evidence_count x" "ar_incident_id (assurance_root ob x) = ar_incident_id x"
  "ar_requires_operator (assurance_root ob x) = ar_requires_operator x" "ar_sla_at_risk (assurance_root ob x) = ar_sla_at_risk x"
  by (simp_all add: assurance_root_def set_root_def)

lemma assurance_analyze_id:
  assumes "assurance_analyze (Some ob) = Some r"
  shows "ar_incident_id r = snprintf_buf 96 (''ASSURANCE-'' @ ao_device_id ob)"
proof -
  have "assurance_validate (Some ob)" using assms by (auto simp: assurance_analyze_def assurance_advise_def split: if_splits)
  from assurance_analyze_eq [OF this] assms show ?thesis
    by (auto simp: Let_def assurance_start_def)
qed

interpretation ae: traceable_engine "\<lambda>ob. assurance_validate (Some ob)" "\<lambda>ob. assurance_analyze (Some ob)"
    "\<lambda>ob. length (ao_device_id ob) < 64" ao_device_id ar_incident_id
proof unfold_locales
  show "assurance_validate (Some ob) \<Longrightarrow> assurance_analyze (Some ob) \<noteq> None" for ob
    by (simp add: assurance_analyze_eq)
  show "\<not> assurance_validate (Some ob) \<Longrightarrow> assurance_analyze (Some ob) = None" for ob
    by (simp add: assurance_analyze_def assurance_advise_def)
  fix p q r s
  assume "length (ao_device_id p) < 64" "length (ao_device_id q) < 64" "assurance_analyze (Some p) = Some r"
    "assurance_analyze (Some q) = Some s" "ar_incident_id r = ar_incident_id s"
  then show "ao_device_id p = ao_device_id q"
    using assurance_analyze_id [of p r] assurance_analyze_id [of q s] by simp
qed

text \<open>For every valid observation the status is \<open>OK\<close> exactly when no domain fails and \<open>DEGRADED\<close>
  otherwise, never \<open>CRITICAL\<close>; the counter equals the failing domains plus the missed SLA; when a
  domain fails, the evidence field is the complete list of their texts, separated by semicolons and
  never truncated by its 1024-byte buffer.\<close>

theorem assurance_evidence_complete:
  assumes "assurance_validate (Some ob)"
  shows "\<exists>r. assurance_analyze (Some ob) = Some r \<and>
    ar_status r = (if domain_texts ob = [] then ASSURANCE_OK else ASSURANCE_DEGRADED) \<and>
    ar_evidence_count r = length (domain_texts ob @ sla_texts ob) \<and>
    (domain_texts ob \<noteq> [] \<longrightarrow> ar_evidence r = join_semi (domain_texts ob @ sla_texts ob)) \<and> ar_requires_operator r"
  using assms by (auto simp: assurance_analyze_eq Let_def assurance_start_def)

definition assurance_demo :: assurance_observation where
  "assurance_demo = \<lparr>ao_device_id = ''D'', ao_site_id = ''S'', ao_service_id = ''V'', ao_management_ok = True,
     ao_interface_ok = True, ao_gateway_ok = True, ao_dns_ok = True, ao_ipv4_ok = True, ao_ipv6_ok = True,
     ao_routing_ok = True, ao_bgp_ok = True, ao_rpki_ok = True, ao_certificate_ok = True, ao_pon_ok = True,
     ao_radio_ok = True, ao_configuration_changed = False, ao_latency_ms = DNum 1, ao_jitter_ms = DNum 1,
     ao_packet_loss_pct = DNum 0, ao_affected_customers = 0, ao_affected_services = 0,
     ao_sla_target_pct = DNum 99, ao_current_availability_pct = DNum 90\<rparr>"

lemma assurance_demo_valid: "assurance_validate (Some assurance_demo)" "domain_texts assurance_demo = []"
  "assurance_sla_missed assurance_demo"
  by (simp_all add: assurance_validate_def assurance_demo_def domain_texts_def assurance_slow_def assurance_sla_missed_def)

theorem assurance_evidence_complete_witness:
  "\<exists>r. assurance_analyze (Some (assurance_demo\<lparr>ao_dns_ok := False\<rparr>)) = Some r \<and> ar_status r = ASSURANCE_DEGRADED"
proof -
  have "assurance_validate (Some (assurance_demo\<lparr>ao_dns_ok := False\<rparr>))"
    by (simp add: assurance_validate_def assurance_demo_def)
  moreover have "domain_texts (assurance_demo\<lparr>ao_dns_ok := False\<rparr>) \<noteq> []" by (simp add: domain_texts_def)
  ultimately show ?thesis using assurance_evidence_complete by metis
qed

text \<open>A missed SLA alone leaves a contradictory record: the risk flag is set and one piece of evidence
  is counted, but the status is \<open>OK\<close>, the evidence text is overwritten by "All assurance domains passed
  verification." and the recommendation is to continue monitoring.\<close>

theorem assurance_sla_evidence_lost:
  assumes "assurance_validate (Some ob)" and "domain_texts ob = []" and "assurance_sla_missed ob"
  shows "\<exists>r. assurance_analyze (Some ob) = Some r \<and> ar_sla_at_risk r \<and> ar_evidence_count r = 1 \<and>
    ar_status r = ASSURANCE_OK \<and> ar_evidence r = ''All assurance domains passed verification.'' \<and>
    ar_recommendation r = ''Continue monitoring and preserve evidence.''"
  using assms by (simp add: assurance_analyze_eq Let_def sla_texts_def assurance_start_def)

theorem assurance_sla_evidence_lost_witness:
  "\<exists>r. assurance_analyze (Some assurance_demo) = Some r \<and> ar_sla_at_risk r \<and> ar_status r = ASSURANCE_OK"
  using assurance_sla_evidence_lost [OF assurance_demo_valid] by blast

text \<open>The root cause \<open>MULTI_DOMAIN\<close> stands for exactly the opposite of its name and text ("Multiple
  network domains show correlated degradation"): it is reported only when none of the diagnosed groups
  fails, so a single degraded domain, RPKI, IP connectivity or performance, is reported as multiple.\<close>

theorem assurance_multi_domain_is_rest:
  assumes "assurance_analyze (Some ob) = Some r" and "ar_root_cause r = ROOT_MULTI_DOMAIN"
  shows "set (domain_texts ob) \<subseteq> {''RPKI validation problem'', ''IP connectivity degradation'', ''performance degradation''} \<and>
    (\<exists>ob' r'. assurance_analyze (Some ob') = Some r' \<and> length (domain_texts ob') = 1 \<and> ar_root_cause r' = ROOT_MULTI_DOMAIN)"
proof -
  have v: "assurance_validate (Some ob)" using assms(1) by (auto simp: assurance_analyze_def assurance_advise_def split: if_splits)
  have "ao_interface_ok ob \<and> ao_gateway_ok ob \<and> ao_management_ok ob \<and> ao_routing_ok ob \<and> ao_bgp_ok ob \<and> ao_dns_ok ob
      \<and> ao_pon_ok ob \<and> ao_radio_ok ob \<and> ao_certificate_ok ob \<and> \<not> ao_configuration_changed ob"
    using assms v by (auto simp: assurance_analyze_eq Let_def assurance_start_def assurance_root_def set_root_def split: if_splits)
  then have 1: "set (domain_texts ob) \<subseteq> {''RPKI validation problem'', ''IP connectivity degradation'', ''performance degradation''}"
    by (auto simp: domain_texts_def split: if_splits)
  let ?ob = "assurance_demo\<lparr>ao_ipv6_ok := False\<rparr>"
  have "assurance_validate (Some ?ob)" by (simp add: assurance_validate_def assurance_demo_def)
  moreover have "domain_texts ?ob = [''IP connectivity degradation'']"
    by (simp add: domain_texts_def assurance_demo_def assurance_slow_def)
  moreover have "ar_root_cause (assurance_root ?ob x) = ROOT_MULTI_DOMAIN" for x
    by (simp add: assurance_root_def set_root_def assurance_demo_def)
  ultimately have "\<exists>r'. assurance_analyze (Some ?ob) = Some r' \<and> length (domain_texts ?ob) = 1 \<and> ar_root_cause r' = ROOT_MULTI_DOMAIN"
    by (simp add: assurance_analyze_eq Let_def)
  with 1 show ?thesis by blast
qed

theorem assurance_multi_domain_is_rest_witness:
  "set (domain_texts (assurance_demo\<lparr>ao_rpki_ok := False\<rparr>)) \<subseteq> {''RPKI validation problem'', ''IP connectivity degradation'', ''performance degradation''}"
proof -
  let ?ob = "assurance_demo\<lparr>ao_rpki_ok := False\<rparr>"
  have v: "assurance_validate (Some ?ob)" by (simp add: assurance_validate_def assurance_demo_def)
  have "domain_texts ?ob \<noteq> []" by (simp add: domain_texts_def)
  moreover have "ar_root_cause (assurance_root ?ob x) = ROOT_MULTI_DOMAIN" for x
    by (simp add: assurance_root_def set_root_def assurance_demo_def)
  ultimately obtain r where "assurance_analyze (Some ?ob) = Some r" "ar_root_cause r = ROOT_MULTI_DOMAIN"
    using assurance_analyze_eq [OF v] by (auto simp: Let_def)
  from assurance_multi_domain_is_rest [OF this] show ?thesis by blast
qed

end
