(* ===== verification/Isp.thy ===== *)
theory Isp
  imports Diagnosis
begin

text \<open>
  \<open>core/isp/chrono_isp.c\<close>: classification of one network node's telemetry by a fixed priority: RPKI,
  BGP, PON, security, network, capacity. The result is -1 (invalid telemetry), 1 (an incident) or 0
  (healthy). The integer flags are kept as integers: several are printed. The telemetry may be \<open>NULL\<close>,
  the incident the callers pass never is.
\<close>

datatype isp_severity = SEV_INFO | SEV_WARNING | SEV_CRITICAL

record isp_telemetry =
  it_node_id :: string
  it_node_type :: string
  it_latency_ms :: double
  it_jitter_ms :: double
  it_packet_loss_pct :: double
  it_cpu_pct :: double
  it_memory_pct :: double
  it_utilization_pct :: double
  it_bgp_up :: int
  it_rpki_valid :: int
  it_rpki_invalid :: int
  it_ipv6_enabled :: int
  it_pon_los :: int
  it_pon_flapping :: int
  it_onu_errors :: int
  it_management_exposed :: int
  it_configuration_changed :: int
  it_certificate_expired :: int
  it_affected_customers :: int

record isp_incident =
  ii_incident_id :: string
  ii_severity :: isp_severity
  ii_node_id :: string
  ii_category :: string
  ii_probable_origin :: string
  ii_evidence :: string
  ii_recommendation :: string
  ii_affected_customers :: int

section \<open>The engine\<close>

definition out_of :: "double \<Rightarrow> bool" where
  "out_of x \<longleftrightarrow> d_lt x (DNum 0) \<or> d_gt x (DNum 100)"

definition isp_validate :: "isp_telemetry option \<Rightarrow> bool" where
  "isp_validate telemetry =
     (case telemetry of
        None \<Rightarrow> False
      | Some t \<Rightarrow>
          if it_node_id t = [] then False
          else if d_lt (it_latency_ms t) (DNum 0) \<or> d_lt (it_jitter_ms t) (DNum 0) \<or> out_of (it_packet_loss_pct t)
               \<or> out_of (it_cpu_pct t) \<or> out_of (it_memory_pct t) \<or> out_of (it_utilization_pct t)
               \<or> it_affected_customers t < 0 then False
          else True)"

definition isp_fill ::
  "isp_severity \<Rightarrow> string \<Rightarrow> string \<Rightarrow> string \<Rightarrow> string \<Rightarrow> isp_incident \<Rightarrow> isp_incident" where
  \<comment> \<open>the severity and the four bounded \<open>snprintf\<close>s of a branch\<close>
  "isp_fill severity category origin evidence recommendation inc =
     inc\<lparr>ii_severity := severity, ii_category := snprintf_buf 64 category, ii_probable_origin := snprintf_buf 256 origin,
         ii_evidence := snprintf_buf 512 evidence, ii_recommendation := snprintf_buf 512 recommendation\<rparr>"

definition isp_start :: "isp_telemetry \<Rightarrow> isp_incident" where
  "isp_start t =
     \<lparr>ii_incident_id = snprintf_buf 64 (''CHRONO-ISP-'' @ it_node_id t), ii_severity = SEV_INFO,
      ii_node_id = snprintf_buf 64 (it_node_id t), ii_category = [], ii_probable_origin = [], ii_evidence = [],
      ii_recommendation = [], ii_affected_customers = it_affected_customers t\<rparr>"

definition isp_network_checks :: "isp_telemetry \<Rightarrow> isp_incident \<Rightarrow> int \<times> isp_incident option" where
  \<comment> \<open>the analysis from the network thresholds on\<close>
  "isp_network_checks t inc =
     (if d_ge (it_packet_loss_pct t) (DNum 2) \<or> d_ge (it_latency_ms t) (DNum 100) \<or> d_ge (it_jitter_ms t) (DNum 30) then
        (1, Some (isp_fill
          (if d_ge (it_packet_loss_pct t) (DNum 5) \<or> d_ge (it_latency_ms t) (DNum 200) then SEV_CRITICAL else SEV_WARNING)
          ''NETWORK'' (''Degradaci'' @ o_acute @ ''n de conectividad'')
          (''latency='' @ fmt_f 2 (it_latency_ms t) @ ''ms; jitter='' @ fmt_f 2 (it_jitter_ms t) @ ''ms; loss=''
             @ fmt_f 2 (it_packet_loss_pct t) @ ''%'')
          ''Correlacionar enlaces, interfaces, radio y capacidad.'' inc))
      else if d_ge (it_utilization_pct t) (DNum 90) then
        (1, Some (isp_fill SEV_CRITICAL ''CAPACITY'' ''Capacidad >= 90%''
          (''utilization='' @ fmt_f 2 (it_utilization_pct t) @ ''%'')
          (''Evaluar expansi'' @ o_acute @ ''n y redistribuci'' @ o_acute @ ''n de tr'' @ a_acute @ ''fico.'') inc))
      else if d_ge (it_utilization_pct t) (DNum 80) then
        (1, Some (isp_fill SEV_WARNING ''CAPACITY'' (''Presi'' @ o_acute @ ''n de capacidad'')
          (''utilization='' @ fmt_f 2 (it_utilization_pct t) @ ''%'')
          ''Registrar tendencia y evaluar crecimiento.'' inc))
      else
        (0, Some (isp_fill SEV_INFO ''HEALTHY'' ''Sin incidente detectado''
          (''Telemetr'' @ i_acute @ ''a dentro de umbrales.'') (''Continuar observaci'' @ o_acute @ ''n.'') inc)))"

definition isp_analyze :: "isp_telemetry option \<Rightarrow> int \<times> isp_incident option" where
  \<comment> \<open>the incident is \<open>None\<close> where the call leaves it untouched\<close>
  "isp_analyze telemetry =
     (if \<not> isp_validate telemetry then (-1, None)
      else
        let t = the telemetry; inc = isp_start t in
        if it_rpki_invalid t \<noteq> 0 then
          (1, Some (isp_fill SEV_CRITICAL ''BGP/RPKI'' ''Ruta RPKI INVALID detectada''
            (''rpki_invalid=1; bgp_up='' @ int_str (it_bgp_up t))
            (''Validar ROA, origen del prefijo y pol'' @ i_acute @ ''tica ROV.'') inc))
        else if it_bgp_up t = 0 then
          (1, Some (isp_fill SEV_CRITICAL ''BGP'' (''Sesi'' @ o_acute @ ''n BGP ca'' @ i_acute @ ''da'')
            (''bgp_up=0; loss='' @ fmt_f 2 (it_packet_loss_pct t) @ ''%'')
            ''Revisar vecino BGP, transporte y reachability.'' inc))
        else if it_pon_los t \<noteq> 0 \<or> it_pon_flapping t \<noteq> 0 \<or> it_onu_errors t \<ge> 10 then
          (1, Some (isp_fill (if it_pon_los t \<noteq> 0 \<or> it_pon_flapping t \<noteq> 0 then SEV_CRITICAL else SEV_WARNING)
            ''PON'' ''Problema PON/ONU''
            (''LOS='' @ int_str (it_pon_los t) @ ''; flapping='' @ int_str (it_pon_flapping t) @ ''; ONU_errors='' @ int_str (it_onu_errors t))
            (''Revisar niveles '' @ o_acute @ ''pticos, ONU y eventos de flapping.'') inc))
        else if it_certificate_expired t \<noteq> 0 \<or> it_management_exposed t \<noteq> 0 \<or> it_configuration_changed t \<noteq> 0 then
          (1, Some (isp_fill (if it_certificate_expired t \<noteq> 0 then SEV_CRITICAL else SEV_WARNING)
            ''ISP-SECURITY'' ''Evento de seguridad operacional''
            (''cert='' @ int_str (it_certificate_expired t) @ ''; management='' @ int_str (it_management_exposed t)
               @ ''; config='' @ int_str (it_configuration_changed t))
            (''Revisar administraci'' @ o_acute @ ''n, configuraci'' @ o_acute @ ''n y certificados.'') inc))
        else isp_network_checks t inc)"

definition isp_self_test_telemetry :: isp_telemetry where
  "isp_self_test_telemetry =
     \<lparr>it_node_id = ''ISP-POP-01'', it_node_type = ''EDGE'', it_latency_ms = DNum 185, it_jitter_ms = DNum 42,
      it_packet_loss_pct = DNum (7 / 2), it_cpu_pct = DNum 61, it_memory_pct = DNum 58, it_utilization_pct = DNum 84,
      it_bgp_up = 1, it_rpki_valid = 1, it_rpki_invalid = 0, it_ipv6_enabled = 1, it_pon_los = 0, it_pon_flapping = 0,
      it_onu_errors = 2, it_management_exposed = 0, it_configuration_changed = 0, it_certificate_expired = 0,
      it_affected_customers = 23\<rparr>"

definition isp_self_test :: "isp_telemetry \<Rightarrow> int" where
  \<comment> \<open>the verdict of \<open>chrono_isp_self_test\<close> (on \<open>isp_self_test_telemetry\<close>), without the printed report\<close>
  "isp_self_test t =
     (if \<not> isp_validate (Some t) then 1
      else case isp_analyze (Some t) of
        (r, None) \<Rightarrow> 1
      | (r, Some inc) \<Rightarrow>
          if r < 0 then 1
          else if ii_severity inc \<noteq> SEV_WARNING then 1
          else if ii_category inc \<noteq> ''NETWORK'' then 1
          else 0)"

definition isp_main :: "string list \<Rightarrow> int" where
  "isp_main argv =
     (if length argv = 2 \<and> argv ! 1 = ''--self-test'' then isp_self_test isp_self_test_telemetry else 0)"

section \<open>The priority list\<close>

definition isp_rules :: "isp_telemetry \<Rightarrow> (bool \<times> string \<times> isp_severity) list" where
  \<comment> \<open>condition, category and severity of the incident classes\<close>
  "isp_rules t =
     [(it_rpki_invalid t \<noteq> 0, ''BGP/RPKI'', SEV_CRITICAL),
      (it_bgp_up t = 0, ''BGP'', SEV_CRITICAL),
      (it_pon_los t \<noteq> 0 \<or> it_pon_flapping t \<noteq> 0, ''PON'', SEV_CRITICAL),
      (10 \<le> it_onu_errors t, ''PON'', SEV_WARNING),
      (it_certificate_expired t \<noteq> 0, ''ISP-SECURITY'', SEV_CRITICAL),
      (it_management_exposed t \<noteq> 0 \<or> it_configuration_changed t \<noteq> 0, ''ISP-SECURITY'', SEV_WARNING),
      (d_ge (it_packet_loss_pct t) (DNum 5) \<or> d_ge (it_latency_ms t) (DNum 200), ''NETWORK'', SEV_CRITICAL),
      (d_ge (it_packet_loss_pct t) (DNum 2) \<or> d_ge (it_latency_ms t) (DNum 100) \<or> d_ge (it_jitter_ms t) (DNum 30), ''NETWORK'', SEV_WARNING),
      (d_ge (it_utilization_pct t) (DNum 90), ''CAPACITY'', SEV_CRITICAL),
      (d_ge (it_utilization_pct t) (DNum 80), ''CAPACITY'', SEV_WARNING)]"

definition isp_class :: "isp_telemetry \<Rightarrow> string \<times> isp_severity" where
  "isp_class t = first_match (isp_rules t) (''HEALTHY'', SEV_INFO)"

lemma isp_fill_class [simp]: "ii_severity (isp_fill s c g e r i) = s" "ii_incident_id (isp_fill s c g e r i) = ii_incident_id i"
  "ii_affected_customers (isp_fill s c g e r i) = ii_affected_customers i" "length c < 64 \<Longrightarrow> ii_category (isp_fill s c g e r i) = c"
  by (simp_all add: isp_fill_def)

lemma isp_start_simps [simp]: "ii_incident_id (isp_start t) = snprintf_buf 64 (''CHRONO-ISP-'' @ it_node_id t)"
  "ii_affected_customers (isp_start t) = it_affected_customers t"
  by (simp_all add: isp_start_def)

lemma isp_network_levels:
  "d_ge (it_packet_loss_pct t) (DNum 5) \<Longrightarrow> d_ge (it_packet_loss_pct t) (DNum 2)"
  "d_ge (it_latency_ms t) (DNum 200) \<Longrightarrow> d_ge (it_latency_ms t) (DNum 100)"
  by (rule d_ge_trans, assumption, simp)+

definition isp_result :: "isp_telemetry \<Rightarrow> int \<times> isp_incident option \<Rightarrow> bool" where
  "isp_result t ri \<longleftrightarrow> (\<exists>inc. ri = ((if isp_class t = (''HEALTHY'', SEV_INFO) then 0 else 1), Some inc) \<and>
    (ii_category inc, ii_severity inc) = isp_class t \<and> ii_incident_id inc = snprintf_buf 64 (''CHRONO-ISP-'' @ it_node_id t) \<and>
    ii_affected_customers inc = it_affected_customers t)"

lemma isp_result_fill:
  "isp_class t = (c, s) \<Longrightarrow> length c < 64 \<Longrightarrow> k = (if (c, s) = (''HEALTHY'', SEV_INFO) then 0 else 1) \<Longrightarrow>
     isp_result t (k, Some (isp_fill s c g e r (isp_start t)))"
  by (simp add: isp_result_def)

lemma isp_analyze_class:
  assumes "isp_validate (Some t)" shows "isp_result t (isp_analyze (Some t))"
proof -
  consider
    (rpki)  "it_rpki_invalid t \<noteq> 0"
    | (bgp) "\<not> (it_rpki_invalid t \<noteq> 0)" "it_bgp_up t = 0"
    | (pon) "\<not> (it_rpki_invalid t \<noteq> 0)" "\<not> (it_bgp_up t = 0)" "it_pon_los t \<noteq> 0 \<or> it_pon_flapping t \<noteq> 0"
    | (onu) "\<not> (it_rpki_invalid t \<noteq> 0)" "\<not> (it_bgp_up t = 0)" "\<not> (it_pon_los t \<noteq> 0 \<or> it_pon_flapping t \<noteq> 0)" "10 \<le> it_onu_errors t"
    | (cert) "\<not> (it_rpki_invalid t \<noteq> 0)" "\<not> (it_bgp_up t = 0)" "\<not> (it_pon_los t \<noteq> 0 \<or> it_pon_flapping t \<noteq> 0)" "\<not> (10 \<le> it_onu_errors t)" "it_certificate_expired t \<noteq> 0"
    | (sec) "\<not> (it_rpki_invalid t \<noteq> 0)" "\<not> (it_bgp_up t = 0)" "\<not> (it_pon_los t \<noteq> 0 \<or> it_pon_flapping t \<noteq> 0)" "\<not> (10 \<le> it_onu_errors t)" "\<not> (it_certificate_expired t \<noteq> 0)" "it_management_exposed t \<noteq> 0 \<or> it_configuration_changed t \<noteq> 0"
    | (net5) "\<not> (it_rpki_invalid t \<noteq> 0)" "\<not> (it_bgp_up t = 0)" "\<not> (it_pon_los t \<noteq> 0 \<or> it_pon_flapping t \<noteq> 0)" "\<not> (10 \<le> it_onu_errors t)" "\<not> (it_certificate_expired t \<noteq> 0)" "\<not> (it_management_exposed t \<noteq> 0 \<or> it_configuration_changed t \<noteq> 0)" "d_ge (it_packet_loss_pct t) (DNum 5) \<or> d_ge (it_latency_ms t) (DNum 200)"
    | (net2) "\<not> (it_rpki_invalid t \<noteq> 0)" "\<not> (it_bgp_up t = 0)" "\<not> (it_pon_los t \<noteq> 0 \<or> it_pon_flapping t \<noteq> 0)" "\<not> (10 \<le> it_onu_errors t)" "\<not> (it_certificate_expired t \<noteq> 0)" "\<not> (it_management_exposed t \<noteq> 0 \<or> it_configuration_changed t \<noteq> 0)" "\<not> (d_ge (it_packet_loss_pct t) (DNum 5) \<or> d_ge (it_latency_ms t) (DNum 200))" "d_ge (it_packet_loss_pct t) (DNum 2) \<or> d_ge (it_latency_ms t) (DNum 100) \<or> d_ge (it_jitter_ms t) (DNum 30)"
    | (cap9) "\<not> (it_rpki_invalid t \<noteq> 0)" "\<not> (it_bgp_up t = 0)" "\<not> (it_pon_los t \<noteq> 0 \<or> it_pon_flapping t \<noteq> 0)" "\<not> (10 \<le> it_onu_errors t)" "\<not> (it_certificate_expired t \<noteq> 0)" "\<not> (it_management_exposed t \<noteq> 0 \<or> it_configuration_changed t \<noteq> 0)" "\<not> (d_ge (it_packet_loss_pct t) (DNum 5) \<or> d_ge (it_latency_ms t) (DNum 200))" "\<not> (d_ge (it_packet_loss_pct t) (DNum 2) \<or> d_ge (it_latency_ms t) (DNum 100) \<or> d_ge (it_jitter_ms t) (DNum 30))" "d_ge (it_utilization_pct t) (DNum 90)"
    | (cap8) "\<not> (it_rpki_invalid t \<noteq> 0)" "\<not> (it_bgp_up t = 0)" "\<not> (it_pon_los t \<noteq> 0 \<or> it_pon_flapping t \<noteq> 0)" "\<not> (10 \<le> it_onu_errors t)" "\<not> (it_certificate_expired t \<noteq> 0)" "\<not> (it_management_exposed t \<noteq> 0 \<or> it_configuration_changed t \<noteq> 0)" "\<not> (d_ge (it_packet_loss_pct t) (DNum 5) \<or> d_ge (it_latency_ms t) (DNum 200))" "\<not> (d_ge (it_packet_loss_pct t) (DNum 2) \<or> d_ge (it_latency_ms t) (DNum 100) \<or> d_ge (it_jitter_ms t) (DNum 30))" "\<not> (d_ge (it_utilization_pct t) (DNum 90))" "d_ge (it_utilization_pct t) (DNum 80)"
    | (none) "\<not> (it_rpki_invalid t \<noteq> 0)" "\<not> (it_bgp_up t = 0)" "\<not> (it_pon_los t \<noteq> 0 \<or> it_pon_flapping t \<noteq> 0)" "\<not> (10 \<le> it_onu_errors t)" "\<not> (it_certificate_expired t \<noteq> 0)" "\<not> (it_management_exposed t \<noteq> 0 \<or> it_configuration_changed t \<noteq> 0)" "\<not> (d_ge (it_packet_loss_pct t) (DNum 5) \<or> d_ge (it_latency_ms t) (DNum 200))" "\<not> (d_ge (it_packet_loss_pct t) (DNum 2) \<or> d_ge (it_latency_ms t) (DNum 100) \<or> d_ge (it_jitter_ms t) (DNum 30))" "\<not> (d_ge (it_utilization_pct t) (DNum 90))" "\<not> (d_ge (it_utilization_pct t) (DNum 80))"
    by blast
  then show ?thesis
  proof cases
    case rpki
    then have "isp_class t = (''BGP/RPKI'', SEV_CRITICAL)" by (simp add: isp_class_def isp_rules_def)
    with rpki assms show ?thesis by (simp add: isp_analyze_def isp_network_checks_def isp_result_def Let_def)
  next
    case bgp
    then have "isp_class t = (''BGP'', SEV_CRITICAL)" by (simp add: isp_class_def isp_rules_def)
    with bgp assms show ?thesis by (simp add: isp_analyze_def isp_network_checks_def isp_result_def Let_def)
  next
    case pon
    then have "isp_class t = (''PON'', SEV_CRITICAL)" by (simp add: isp_class_def isp_rules_def)
    with pon assms show ?thesis by (simp add: isp_analyze_def isp_network_checks_def isp_result_def Let_def)
  next
    case onu
    then have "isp_class t = (''PON'', SEV_WARNING)" by (simp add: isp_class_def isp_rules_def)
    with onu assms show ?thesis by (simp add: isp_analyze_def isp_network_checks_def isp_result_def Let_def)
  next
    case cert
    then have "isp_class t = (''ISP-SECURITY'', SEV_CRITICAL)" by (simp add: isp_class_def isp_rules_def)
    with cert assms show ?thesis by (simp add: isp_analyze_def isp_network_checks_def isp_result_def Let_def)
  next
    case sec
    then have "isp_class t = (''ISP-SECURITY'', SEV_WARNING)" by (simp add: isp_class_def isp_rules_def)
    with sec assms show ?thesis by (simp add: isp_analyze_def isp_network_checks_def isp_result_def Let_def)
  next
    case net5
    from net5(7) have "d_ge (it_packet_loss_pct t) (DNum 2) \<or> d_ge (it_latency_ms t) (DNum 100) \<or> d_ge (it_jitter_ms t) (DNum 30)"
      using isp_network_levels by blast
    moreover have "isp_class t = (''NETWORK'', SEV_CRITICAL)" using net5 by (simp add: isp_class_def isp_rules_def)
    ultimately show ?thesis using net5 assms by (simp add: isp_analyze_def isp_network_checks_def isp_result_def Let_def)
  next
    case net2
    then have "isp_class t = (''NETWORK'', SEV_WARNING)" by (simp add: isp_class_def isp_rules_def)
    with net2 assms show ?thesis by (simp add: isp_analyze_def isp_network_checks_def isp_result_def Let_def)
  next
    case cap9
    then have "isp_class t = (''CAPACITY'', SEV_CRITICAL)" by (simp add: isp_class_def isp_rules_def)
    with cap9 assms show ?thesis by (simp add: isp_analyze_def isp_network_checks_def isp_result_def Let_def)
  next
    case cap8
    then have "isp_class t = (''CAPACITY'', SEV_WARNING)" by (simp add: isp_class_def isp_rules_def)
    with cap8 assms show ?thesis by (simp add: isp_analyze_def isp_network_checks_def isp_result_def Let_def)
  next
    case none
    then have "isp_class t = (''HEALTHY'', SEV_INFO)" by (simp add: isp_class_def isp_rules_def)
    with none assms show ?thesis by (simp add: isp_analyze_def isp_network_checks_def isp_result_def Let_def)
  qed
qed


interpretation ie: diagnosis_engine "\<lambda>t. isp_validate (Some t)" "\<lambda>t. snd (isp_analyze (Some t))"
proof unfold_locales
  show "isp_validate (Some t) \<Longrightarrow> snd (isp_analyze (Some t)) \<noteq> None" for t
    using isp_analyze_class [of t] by (auto simp: isp_result_def)
  show "\<not> isp_validate (Some t) \<Longrightarrow> snd (isp_analyze (Some t)) = None" for t
    by (simp add: isp_analyze_def)
qed

text \<open>For valid telemetry the category and severity of the incident are those of the first matching
  rule of the priority list (RPKI, BGP, PON, ONU errors, certificates, management and configuration,
  network in two levels, capacity in two levels), and the call returns 0 exactly for the healthy
  record and 1 otherwise.\<close>

theorem isp_priority:
  assumes "isp_validate (Some t)"
  shows "\<exists>inc. isp_analyze (Some t) = ((if isp_class t = (''HEALTHY'', SEV_INFO) then 0 else 1), Some inc) \<and>
    (ii_category inc, ii_severity inc) = isp_class t \<and> ii_affected_customers inc = it_affected_customers t"
  using isp_analyze_class [OF assms] by (auto simp: isp_result_def)

lemma isp_test_valid: "isp_validate (Some isp_self_test_telemetry)"
  by (simp add: isp_validate_def isp_self_test_telemetry_def out_of_def)

theorem isp_priority_witness:
  "\<exists>inc. isp_analyze (Some isp_self_test_telemetry) = (1, Some inc) \<and> ii_category inc = ''NETWORK''"
proof -
  have "isp_class isp_self_test_telemetry = (''NETWORK'', SEV_WARNING)"
    by (simp add: isp_class_def isp_rules_def isp_self_test_telemetry_def)
  with isp_priority [OF isp_test_valid] show ?thesis by auto
qed

text \<open>A warning can mask an outage: with ten ONU errors and no signal loss, BGP up and no RPKI problem,
  the incident is a PON warning even when the node loses every packet or serves at full capacity.\<close>

theorem isp_warning_masks_outage:
  assumes "isp_validate (Some t)" and "it_rpki_invalid t = 0" "it_bgp_up t \<noteq> 0" "it_pon_los t = 0" "it_pon_flapping t = 0"
    and "10 \<le> it_onu_errors t"
  shows "\<exists>inc. isp_analyze (Some (t\<lparr>it_packet_loss_pct := DNum 100, it_utilization_pct := DNum 100\<rparr>)) = (1, Some inc) \<and>
    ii_severity inc = SEV_WARNING \<and> ii_category inc = ''PON''"
proof -
  let ?t = "t\<lparr>it_packet_loss_pct := DNum 100, it_utilization_pct := DNum 100\<rparr>"
  have "isp_validate (Some ?t)" using assms(1) by (simp add: isp_validate_def out_of_def split: if_splits)
  moreover have "isp_class ?t = (''PON'', SEV_WARNING)" using assms by (simp add: isp_class_def isp_rules_def)
  ultimately show ?thesis using isp_analyze_class [of ?t] by (auto simp: isp_result_def)
qed

theorem isp_warning_masks_outage_witness:
  "\<exists>inc. isp_analyze (Some (isp_self_test_telemetry\<lparr>it_onu_errors := 10, it_packet_loss_pct := DNum 100, it_utilization_pct := DNum 100\<rparr>)) = (1, Some inc)
     \<and> ii_severity inc = SEV_WARNING"
proof -
  let ?t = "isp_self_test_telemetry\<lparr>it_onu_errors := 10\<rparr>"
  have v: "isp_validate (Some ?t)" by (simp add: isp_validate_def isp_self_test_telemetry_def out_of_def)
  have "\<exists>inc. isp_analyze (Some (?t\<lparr>it_packet_loss_pct := DNum 100, it_utilization_pct := DNum 100\<rparr>)) = (1, Some inc) \<and>
    ii_severity inc = SEV_WARNING \<and> ii_category inc = ''PON''"
    by (rule isp_warning_masks_outage [OF v]) (simp_all add: isp_self_test_telemetry_def)
  then show ?thesis by auto
qed

text \<open>Incident identifiers can coincide: the 64-byte field holds the prefix and only the first 52
  characters of the node, so two valid nodes that agree on these get the same incident identifier.\<close>

theorem isp_incident_id_clash:
  assumes "length a = 52" and "isp_validate (Some t)" and "isp_validate (Some u)"
    and "it_node_id t = a @ b" and "it_node_id u = a @ c"
  shows "\<exists>i j. snd (isp_analyze (Some t)) = Some i \<and> snd (isp_analyze (Some u)) = Some j \<and> ii_incident_id i = ii_incident_id j"
proof -
  obtain i j where i: "snd (isp_analyze (Some t)) = Some i" "ii_incident_id i = snprintf_buf 64 (''CHRONO-ISP-'' @ a @ b)"
    and j: "snd (isp_analyze (Some u)) = Some j" "ii_incident_id j = snprintf_buf 64 (''CHRONO-ISP-'' @ a @ c)"
    using isp_analyze_class [OF assms(2)] isp_analyze_class [OF assms(3)] assms(4,5) by (auto simp: isp_result_def)
  have "snprintf_buf 64 (''CHRONO-ISP-'' @ a @ b) = snprintf_buf 64 (''CHRONO-ISP-'' @ a @ c)"
    by (rule snprintf_clash) (simp add: assms(1))
  with i j show ?thesis by auto
qed

theorem isp_incident_id_clash_witness:
  "\<exists>i j. snd (isp_analyze (Some (isp_self_test_telemetry\<lparr>it_node_id := replicate 52 (CHR ''n'') @ ''1''\<rparr>))) = Some i \<and>
    snd (isp_analyze (Some (isp_self_test_telemetry\<lparr>it_node_id := replicate 52 (CHR ''n'') @ ''2''\<rparr>))) = Some j \<and> ii_incident_id i = ii_incident_id j"
proof -
  have v: "isp_validate (Some (isp_self_test_telemetry\<lparr>it_node_id := replicate 52 (CHR ''n'') @ x\<rparr>))" for x
    by (simp add: isp_validate_def isp_self_test_telemetry_def out_of_def)
  show ?thesis
    by (rule isp_incident_id_clash [where a = "replicate 52 (CHR ''n'')" and b = "''1''" and c = "''2''"]) (simp_all add: v)
qed

text \<open>The self-test of the program passes: its reference node is classified as a network warning.\<close>

theorem isp_self_test_passes: "isp_main [''isp'', ''--self-test''] = 0"
proof -
  have "isp_class isp_self_test_telemetry = (''NETWORK'', SEV_WARNING)"
    by (simp add: isp_class_def isp_rules_def isp_self_test_telemetry_def)
  with isp_analyze_class [OF isp_test_valid] show ?thesis
    by (auto simp: isp_result_def isp_main_def isp_self_test_def isp_test_valid)
qed

end
