(* ===== verification/Modbus.thy ===== *)
theory Modbus
  imports "HOL-Library.Word"
begin

text \<open>
  \<open>core/industrial/chrono_modbus_guard.c\<close>: the defensive parser of Modbus TCP frames (MBAP header
  and PDU). Bytes are 8-bit words, header fields 16-bit words. Every read of the buffer is checked:
  \<open>None\<close> is a read outside of it, so that memory safety is a theorem. The buffer may be \<open>NULL\<close>.
\<close>

unbundle bit_operations_syntax

type_synonym byte = "8 word"

definition MBAP_SIZE :: nat where "MBAP_SIZE = 7"
definition MAX_PDU :: nat where "MAX_PDU = 253"
definition MAX_ADU :: nat where "MAX_ADU = 260"

record modbus_frame =
  mf_transaction_id :: "16 word"
  mf_protocol_id :: "16 word"
  mf_length :: "16 word"
  mf_unit_id :: byte
  mf_function_code :: byte
  mf_pdu :: "byte list"              \<comment> \<open>the \<open>pdu_len\<close> bytes at \<open>pdu\<close>\<close>

section \<open>The parser\<close>

definition byte_at :: "byte list \<Rightarrow> nat \<Rightarrow> byte option" where
  "byte_at buffer i = (if i < length buffer then Some (buffer ! i) else None)"

definition be16_join :: "byte \<Rightarrow> byte \<Rightarrow> 16 word" where
  "be16_join hi lo = push_bit 8 (ucast hi) OR ucast lo"

definition read_be16 :: "byte list \<Rightarrow> nat \<Rightarrow> 16 word option" where
  "read_be16 buffer i =
     (case (byte_at buffer i, byte_at buffer (i + 1)) of
        (Some a, Some b) \<Rightarrow> Some (be16_join a b)
      | _ \<Rightarrow> None)"

definition valid_function :: "byte \<Rightarrow> bool" where
  "valid_function fc \<longleftrightarrow> fc \<in> {1, 2, 3, 4, 5, 6, 15, 16, 23}"

definition is_write_function :: "byte \<Rightarrow> bool" where
  "is_write_function fc \<longleftrightarrow> fc = 5 \<or> fc = 6 \<or> fc = 15 \<or> fc = 16 \<or> fc = 23"

definition parse_mbap :: "byte list option \<Rightarrow> nat \<Rightarrow> (int \<times> modbus_frame option) option" where
  \<comment> \<open>the result code and the frame, where it was written\<close>
  "parse_mbap buf available =
     (case buf of
        None \<Rightarrow> Some (-1, None)
      | Some buffer \<Rightarrow>
          if available < MBAP_SIZE then Some (0, None)
          else
            (case (read_be16 buffer 0, read_be16 buffer 2, read_be16 buffer 4, byte_at buffer 6) of
               (Some transaction_id, Some protocol_id, Some len, Some unit_id) \<Rightarrow>
                 if protocol_id \<noteq> 0 then Some (-2, None)
                 else if unat len < 2 \<or> unat len > MAX_PDU + 1 then Some (-3, None)
                 else
                   let total_adu = 6 + unat len in
                   if total_adu > MAX_ADU then Some (-4, None)
                   else if available < total_adu then Some (0, None)
                   else
                     let pdu_len = unat len - 1 in
                     if pdu_len = 0 then Some (-5, None)
                     else if length buffer < MBAP_SIZE + pdu_len then None
                     else
                       let pdu = take pdu_len (drop MBAP_SIZE buffer);
                           frame = \<lparr>mf_transaction_id = transaction_id, mf_protocol_id = protocol_id, mf_length = len,
                             mf_unit_id = unit_id, mf_function_code = pdu ! 0, mf_pdu = pdu\<rparr> in
                       if \<not> valid_function (mf_function_code frame) then Some (-6, Some frame)
                       else Some (int total_adu, Some frame)
             | _ \<Rightarrow> None))"

definition evaluate_frame :: "modbus_frame \<Rightarrow> int" where
  "evaluate_frame frame = (if is_write_function (mf_function_code frame) then 1 else 0)"

definition modbus_validate_frame :: "byte list option \<Rightarrow> nat \<Rightarrow> int option" where
  "modbus_validate_frame buf len =
     (case parse_mbap buf len of
        None \<Rightarrow> None
      | Some (r, fr) \<Rightarrow>
          if r \<le> 0 then Some r
          else (case fr of None \<Rightarrow> None | Some frame \<Rightarrow> Some (evaluate_frame frame)))"

definition modbus_status :: "string list" where
  "modbus_status =
     [''=== ChronoOS Modbus Guard ==='', ''Mode: defensive monitor'', ''Protocol: Modbus TCP'', ''MBAP validation: ENABLED'',
      ''TCP frame truncation detection: ENABLED'', ''MBAP frame validation: ENABLED'', ''Bounds checking: ENABLED'',
      ''Shell execution: DISABLED'', ''Automatic PLC control: DISABLED'', ''Rules engine: NOT CONFIGURED'']"

definition modbus_test_frames :: "(string \<times> byte list) list" where
  "modbus_test_frames =
     [(''NORMAL READ'', [0x00, 0x01, 0x00, 0x00, 0x00, 0x06, 0x01, 0x03, 0x00, 0x00, 0x00, 0x01]),
      (''WRITE DETECTION'', [0x00, 0x02, 0x00, 0x00, 0x00, 0x06, 0x01, 0x06, 0x00, 0x01, 0x00, 0x2A]),
      (''INVALID PROTOCOL'', [0x00, 0x03, 0x00, 0x01, 0x00, 0x06, 0x01, 0x03, 0x00, 0x00, 0x00, 0x01]),
      (''TRUNCATED FRAME'', [0x00, 0x04, 0x00, 0x00, 0x00])]"

definition modbus_test_main :: "(string \<times> int option) list" where
  \<comment> \<open>the results that the built-in test prints\<close>
  "modbus_test_main = map (\<lambda>(title, frame). (title, modbus_validate_frame (Some frame) (length frame))) modbus_test_frames"

lemma modbus_test_results:
  "modbus_test_main = [(''NORMAL READ'', Some 0), (''WRITE DETECTION'', Some 1), (''INVALID PROTOCOL'', Some (-2)), (''TRUNCATED FRAME'', Some 0)]"
  by code_simp

section \<open>Frames on the wire\<close>

definition be16 :: "16 word \<Rightarrow> byte list" where
  "be16 w = [ucast (drop_bit 8 w), ucast w]"

definition encode_adu :: "16 word \<Rightarrow> byte \<Rightarrow> byte list \<Rightarrow> byte list" where
  "encode_adu tid unit pdu = be16 tid @ be16 0 @ be16 (word_of_nat (length pdu + 1)) @ unit # pdu"

definition good_pdu :: "byte list \<Rightarrow> bool" where
  "good_pdu pdu \<longleftrightarrow> pdu \<noteq> [] \<and> length pdu \<le> MAX_PDU \<and> valid_function (hd pdu)"

lemma be16_read [simp]: "be16_join (ucast (drop_bit 8 w)) (ucast w) = w"
proof (rule bit_word_eqI)
  fix n assume "n < LENGTH(16)"
  then have "n < 16" by simp
  then show "bit (be16_join (ucast (drop_bit 8 w)) (ucast w)) n = bit w n"
    by (auto simp: be16_join_def bit_or_iff bit_push_bit_iff bit_ucast_iff bit_drop_bit_eq)
qed

lemma be16_zero [simp]: "be16_join 0 0 = 0"
  by (simp add: be16_join_def)

lemma encode_adu_eq:
  "encode_adu tid unit pdu @ rest = ucast (drop_bit 8 tid) # ucast tid # 0 # 0
     # ucast (drop_bit 8 (word_of_nat (length pdu + 1) :: 16 word)) # ucast (word_of_nat (length pdu + 1) :: 16 word)
     # unit # pdu @ rest"
  by (simp add: encode_adu_def be16_def)

lemma length_encode_adu: "length (encode_adu tid unit pdu) = length pdu + 7"
  by (simp add: encode_adu_def be16_def)

lemma parse_complete:
  assumes "read_be16 b 0 = Some t" "read_be16 b 2 = Some 0" "read_be16 b 4 = Some l" "byte_at b 6 = Some u"
    and "drop 7 b = pdu @ rest" and "unat l = length pdu + 1" and "good_pdu pdu" and "length pdu + 7 \<le> available"
  shows "parse_mbap (Some b) available = Some (int (length pdu + 7),
    Some \<lparr>mf_transaction_id = t, mf_protocol_id = 0, mf_length = l, mf_unit_id = u,
          mf_function_code = hd pdu, mf_pdu = pdu\<rparr>)"
proof -
  have p: "pdu \<noteq> []" "length pdu \<le> 253" "valid_function (pdu ! 0)" "hd pdu = pdu ! 0"
    using assms(7) by (auto simp: good_pdu_def MAX_PDU_def hd_conv_nth)
  have "length (drop 7 b) = length pdu + length rest" using assms(5) by simp
  moreover have n: "1 \<le> length pdu" using p(1) by (cases pdu) simp_all
  ultimately have "7 + length pdu \<le> length b" by simp
  with p n assms show ?thesis
    by (simp add: parse_mbap_def MBAP_SIZE_def MAX_PDU_def MAX_ADU_def Let_def)
qed

lemma parse_encoded:
  assumes "good_pdu pdu" and "length (encode_adu tid unit pdu) \<le> available"
  shows "parse_mbap (Some (encode_adu tid unit pdu @ rest)) available = Some (int (length pdu + 7),
    Some \<lparr>mf_transaction_id = tid, mf_protocol_id = 0, mf_length = word_of_nat (length pdu + 1), mf_unit_id = unit,
          mf_function_code = hd pdu, mf_pdu = pdu\<rparr>)"
proof (rule parse_complete [OF _ _ _ _ _ _ assms(1)])
  let ?b = "encode_adu tid unit pdu @ rest"
  show "read_be16 ?b 0 = Some tid" "read_be16 ?b 2 = Some 0" "read_be16 ?b 4 = Some (word_of_nat (length pdu + 1))"
    "byte_at ?b 6 = Some unit" "drop 7 ?b = pdu @ rest"
    unfolding encode_adu_eq by (simp_all add: read_be16_def byte_at_def del: of_nat_Suc of_nat_add)
  show "unat (word_of_nat (length pdu + 1) :: 16 word) = length pdu + 1"
    unfolding unsigned_of_nat of_nat_id by (rule take_bit_nat_eq_self) (use assms(1) in \<open>simp add: good_pdu_def MAX_PDU_def\<close>)
  show "length pdu + 7 \<le> available" using assms(2) by (simp add: length_encode_adu)
qed




text \<open>Round trip: the standard encoding of a request or response with one to 253 bytes of PDU and a
  supported function code is parsed back to exactly its transaction, unit and PDU, consuming the bytes
  of one ADU and ignoring whatever follows it in the buffer.\<close>

theorem modbus_roundtrip:
  assumes "good_pdu pdu"
  shows "parse_mbap (Some (encode_adu tid unit pdu @ rest)) (length (encode_adu tid unit pdu @ rest)) =
    Some (int (length (encode_adu tid unit pdu)),
      Some \<lparr>mf_transaction_id = tid, mf_protocol_id = 0, mf_length = word_of_nat (length pdu + 1), mf_unit_id = unit,
            mf_function_code = hd pdu, mf_pdu = pdu\<rparr>)"
  using parse_encoded [OF assms] by (simp add: length_encode_adu)

theorem modbus_roundtrip_witness:
  "\<exists>f. parse_mbap (Some (encode_adu 1 1 [3, 0, 0, 0, 1] @ [9])) 13 = Some (12, Some f) \<and> mf_pdu f = [3, 0, 0, 0, 1]"
proof -
  have "good_pdu [3, 0, 0, 0, 1]" by (simp add: good_pdu_def MAX_PDU_def valid_function_def)
  from modbus_roundtrip [OF this, of 1 1 "[9]"] show ?thesis by (simp add: length_encode_adu)
qed

text \<open>A write hidden behind another ADU is not detected: although the module promises to handle
  several ADUs in one \<open>recv()\<close>, only the first is evaluated, so a buffer with a read request followed
  by any write request is reported as harmless (0), exactly like an incomplete frame.\<close>

theorem modbus_second_adu_unseen:
  assumes "good_pdu rd" and "\<not> is_write_function (hd rd)" and "good_pdu wr" and "is_write_function (hd wr)"
  shows "modbus_validate_frame (Some (encode_adu t u rd @ encode_adu t' u' wr)) (length (encode_adu t u rd @ encode_adu t' u' wr)) = Some 0 \<and>
    modbus_validate_frame (Some (encode_adu t' u' wr)) (length (encode_adu t' u' wr)) = Some 1 \<and>
    modbus_validate_frame (Some (take 6 (encode_adu t' u' wr))) 6 = Some 0"
proof -
  have "modbus_validate_frame (Some (encode_adu t u rd @ encode_adu t' u' wr)) (length (encode_adu t u rd @ encode_adu t' u' wr)) = Some 0"
    using parse_encoded [OF assms(1), of t u "length (encode_adu t u rd @ encode_adu t' u' wr)" "encode_adu t' u' wr"] assms(2)
    by (simp add: modbus_validate_frame_def evaluate_frame_def)
  moreover have "modbus_validate_frame (Some (encode_adu t' u' wr)) (length (encode_adu t' u' wr)) = Some 1"
    using parse_encoded [OF assms(3), of t' u' "length (encode_adu t' u' wr)" "[]"] assms(4)
    by (simp add: modbus_validate_frame_def evaluate_frame_def)
  moreover have "modbus_validate_frame (Some (take 6 (encode_adu t' u' wr))) 6 = Some 0"
    by (simp add: modbus_validate_frame_def parse_mbap_def MBAP_SIZE_def)
  ultimately show ?thesis by blast
qed

theorem modbus_second_adu_unseen_witness:
  "modbus_validate_frame (Some (encode_adu 1 1 [3, 0, 0, 0, 1] @ encode_adu 2 1 [6, 0, 1, 0, 42])) 24 = Some 0"
proof -
  have "good_pdu [3, 0, 0, 0, 1]" "good_pdu [6, 0, 1, 0, 42]" "\<not> is_write_function (hd [3, 0, 0, 0, 1])"
    "is_write_function (hd [6, 0, 1, 0, 42])"
    by (simp_all add: good_pdu_def MAX_PDU_def valid_function_def is_write_function_def)
  from modbus_second_adu_unseen [OF this(1,3,2,4), of 1 1 2 1] show ?thesis by (simp add: length_encode_adu)
qed

end
