(* ===== verification/CScan.thy ===== *)
theory CScan
  imports CString
begin

text \<open>
  \<open>sscanf\<close> for the formats of the sources: literal characters, \<open>%n[^c]\<close>, \<open>%d\<close> and \<open>%x\<close>. \<open>scan\<close> returns
  the values stored before the first conversion that fails, so its length is the result of the
  call (an exhausted input, which yields \<open>EOF\<close>, counts as 0: all callers compare with a positive
  number or ignore the result). Variables that are not reached keep what they held before.
\<close>

datatype scan_item = Lit char | Upto nat char | Dec | Hex

datatype scan_val = VS string | VI int

definition sign_of :: "string \<Rightarrow> int \<times> string" where
  "sign_of s = (case s of
     [] \<Rightarrow> (1, [])
   | c # r \<Rightarrow> if c = CHR ''-'' then (-1, r) else if c = CHR ''+'' then (1, r) else (1, c # r))"

definition scan_dec :: "string \<Rightarrow> (int \<times> string) option" where
  \<comment> \<open>\<open>%d\<close>: a \<open>long\<close> that is converted to \<open>int\<close>\<close>
  "scan_dec s =
     (let (sg, t) = sign_of (dropWhile c_isspace s); ds = takeWhile c_isdigit t in
      if ds = [] then None else Some (wrap32 (clamp64 (sg * int (digits_val ds))), drop (length ds) t))"

definition hex_digits_val :: "nat list \<Rightarrow> nat" where
  "hex_digits_val ds = foldl (\<lambda>a d. 16 * a + d) 0 ds"

definition scan_hex :: "string \<Rightarrow> (int \<times> string) option" where
  \<comment> \<open>\<open>%x\<close>: an \<open>unsigned long\<close> (saturated, then negated) that is converted to \<open>unsigned\<close>\<close>
  "scan_hex s =
     (let (sg, t) = sign_of (dropWhile c_isspace s);
          prefix = (case t of c # d # r \<Rightarrow> c = CHR ''0'' \<and> (d = CHR ''x'' \<or> d = CHR ''X'') | _ \<Rightarrow> False);
          u = (if prefix then drop 2 t else t);
          ds = take_hex u in
      if ds = [] then None
      else
        let n = hex_digits_val ds; m = (if n \<ge> 2 ^ 64 then 2 ^ 64 - 1 else sg * int n) in
        Some (m mod 2 ^ 32, drop (length ds) u))"

fun scan :: "scan_item list \<Rightarrow> string \<Rightarrow> scan_val list" where
  "scan [] s = []"
| "scan (Lit c # fs) s = (case s of [] \<Rightarrow> [] | x # r \<Rightarrow> if x = c then scan fs r else [])"
| "scan (Upto n d # fs) s =
     (let t = take n (takeWhile (\<lambda>c. c \<noteq> d) s) in
      if t = [] then [] else VS t # scan fs (drop (length t) s))"
| "scan (Dec # fs) s = (case scan_dec s of None \<Rightarrow> [] | Some (i, r) \<Rightarrow> VI i # scan fs r)"
| "scan (Hex # fs) s = (case scan_hex s of None \<Rightarrow> [] | Some (i, r) \<Rightarrow> VI i # scan fs r)"

definition str_at :: "scan_val list \<Rightarrow> nat \<Rightarrow> string \<Rightarrow> string" where
  \<comment> \<open>the string variable of conversion \<open>i\<close>, which held \<open>old\<close>\<close>
  "str_at vs i old = (if i < length vs then (case vs ! i of VS s \<Rightarrow> s | VI _ \<Rightarrow> old) else old)"

definition int_at :: "scan_val list \<Rightarrow> nat \<Rightarrow> int \<Rightarrow> int" where
  "int_at vs i old = (if i < length vs then (case vs ! i of VI n \<Rightarrow> n | VS _ \<Rightarrow> old) else old)"

lemma str_at_simps [simp]:
  "str_at [] i old = old" "str_at (VS s # vs) 0 old = s" "str_at (v # vs) (Suc i) old = str_at vs i old"
  by (simp_all add: str_at_def)

lemma int_at_simps [simp]:
  "int_at [] i old = old" "int_at (VI n # vs) 0 old = n" "int_at (v # vs) (Suc i) old = int_at vs i old"
  by (simp_all add: int_at_def)

section \<open>What a conversion stores\<close>

fun conv_ok :: "scan_item \<Rightarrow> scan_val \<Rightarrow> bool" where
  "conv_ok (Upto n d) (VS t) \<longleftrightarrow> t \<noteq> [] \<and> length t \<le> n \<and> d \<notin> set t"
| "conv_ok Dec (VI i) \<longleftrightarrow> - (2 ^ 31) \<le> i \<and> i < 2 ^ 31"
| "conv_ok Hex (VI i) \<longleftrightarrow> 0 \<le> i \<and> i < 2 ^ 32"
| "conv_ok _ _ \<longleftrightarrow> False"

definition is_conv :: "scan_item \<Rightarrow> bool" where
  "is_conv f \<longleftrightarrow> (case f of Lit _ \<Rightarrow> False | _ \<Rightarrow> True)"

lemma is_conv_simps [simp]: "\<not> is_conv (Lit c)" "is_conv (Upto n d)" "is_conv Dec" "is_conv Hex"
  by (simp_all add: is_conv_def)

lemma scan_hex_range: "scan_hex s = Some (i, r) \<Longrightarrow> 0 \<le> i \<and> i < 2 ^ 32"
  by (auto simp: scan_hex_def Let_def split: prod.splits if_splits)

lemma scan_dec_range: "scan_dec s = Some (i, r) \<Longrightarrow> - (2 ^ 31) \<le> i \<and> i < 2 ^ 31"
  using wrap32_range by (auto simp: scan_dec_def Let_def split: prod.splits if_splits)

text \<open>The values that a scan stores have the types and sizes of its conversions.\<close>

lemma scan_typed: "list_all2 conv_ok (take (length (scan fs s)) (filter is_conv fs)) (scan fs s)"
proof (induction fs s rule: scan.induct)
  case (3 n d fs s)
  have "d \<notin> set (take n (takeWhile (\<lambda>c. c \<noteq> d) s))" by (auto dest: in_set_takeD set_takeWhileD)
  with 3 show ?case by (simp add: Let_def)
qed (auto split: list.splits option.splits dest: scan_hex_range scan_dec_range)

lemma scan_conv:
  assumes "i < length (scan fs s)" shows "conv_ok (filter is_conv fs ! i) (scan fs s ! i)"
  using list_all2_nthD2 [OF scan_typed assms] assms by simp

lemma str_at_typed:
  assumes "filter is_conv fs ! i = Upto n d" and "i < length (scan fs s)"
  shows "str_at (scan fs s) i old \<noteq> [] \<and> length (str_at (scan fs s) i old) \<le> n \<and> d \<notin> set (str_at (scan fs s) i old)"
  using scan_conv [OF assms(2)] assms by (cases "scan fs s ! i") (simp_all add: str_at_def)

lemma str_at_untouched: "length (scan fs s) \<le> i \<Longrightarrow> str_at (scan fs s) i old = old"
  by (simp add: str_at_def)

section \<open>Reading what was printed\<close>

lemma scan_field:
  assumes "d \<notin> set t" and "t \<noteq> []" and "length t \<le> n"
  shows "scan (Upto n d # fs) (t @ d # s) = VS t # scan fs (d # s)"
    and "scan (Upto n d # fs) t = VS t # scan fs []"
proof -
  have "takeWhile (\<lambda>c. c \<noteq> d) (t @ d # s) = t" "takeWhile (\<lambda>c. c \<noteq> d) t = t"
    using assms(1) by (auto intro!: takeWhile_stop takeWhile_all)
  then show "scan (Upto n d # fs) (t @ d # s) = VS t # scan fs (d # s)" "scan (Upto n d # fs) t = VS t # scan fs []"
    using assms(2,3) unfolding scan.simps Let_def by (simp_all only: take_all drop_all append_eq_conv_conj) simp_all
qed

lemma scan_lit [simp]: "scan (Lit c # fs) (c # s) = scan fs s" by simp

lemma scan_dec_nat:
  assumes "n < 2 ^ 31" and "s = [] \<or> \<not> c_isdigit (hd s)"
  shows "scan_dec (nat_str n @ s) = Some (int n, s)"
proof -
  obtain c r where cr: "nat_str n = c # r" by (cases "nat_str n") auto
  have all: "\<forall>x \<in> set (nat_str n). c_isdigit x" by (simp add: nat_str_digits)
  then have c: "c_isdigit c" using cr by simp
  have "dropWhile c_isspace (nat_str n @ s) = nat_str n @ s"
    using cr isdigit_not_isspace [OF c] by simp
  moreover have "sign_of (nat_str n @ s) = (1, nat_str n @ s)" using c cr by (auto simp: sign_of_def)
  moreover have "takeWhile c_isdigit (nat_str n @ s) = nat_str n"
    using all assms(2) by (cases s) (auto intro: takeWhile_all takeWhile_stop)
  ultimately show ?thesis using assms(1) by (simp add: scan_dec_def digits_val_nat_str)
qed

lemma scan_dec_field:
  "n < 2 ^ 31 \<Longrightarrow> \<not> c_isdigit d \<Longrightarrow> scan (Dec # fs) (nat_str n @ d # s) = VI (int n) # scan fs (d # s)"
  by (simp add: scan_dec_nat scan.simps)

declare scan.simps(3-5) [simp del]

text \<open>Hexadecimal numbers: \<open>%X\<close> with a minimal width.\<close>

definition hex_digit_up :: "nat \<Rightarrow> char" where
  "hex_digit_up n = (if n < 10 then char_of (48 + n) else char_of (55 + n))"

fun hex_str :: "nat \<Rightarrow> string" where
  "hex_str n = (if n < 16 then [hex_digit_up n] else hex_str (n div 16) @ [hex_digit_up (n mod 16)])"

declare hex_str.simps [simp del]

definition fmt_X :: "nat \<Rightarrow> nat \<Rightarrow> string" where
  \<comment> \<open>\<open>%0wX\<close>\<close>
  "fmt_X w n = (let s = hex_str n in replicate (w - length s) (CHR ''0'') @ s)"

lemma code_hex_up: "n < 16 \<Longrightarrow> code (hex_digit_up n) = (if n < 10 then 48 + n else 55 + n)"
  by (auto simp: hex_digit_up_def code_def)

lemma hex_val_up [simp]: "n < 16 \<Longrightarrow> hex_val (hex_digit_up n) = Some n"
  by (auto simp: hex_val_def code_hex_up Let_def)

lemma hex_str_nonempty [simp]: "hex_str n \<noteq> []"
  by (subst hex_str.simps) simp

lemma take_hex_append: "(\<forall>c \<in> set s. hex_val c \<noteq> None) \<Longrightarrow> take_hex (s @ t) = map (\<lambda>c. the (hex_val c)) s @ take_hex t"
  by (induction s) auto

lemma hex_str_digits: "c \<in> set (hex_str n) \<Longrightarrow> \<exists>k < 16. c = hex_digit_up k"
proof (induction n rule: hex_str.induct)
  case (1 n)
  show ?case
  proof (cases "n < 16")
    case False
    with 1 show ?thesis by (subst (asm) (2) hex_str.simps) (auto intro: exI [of _ "n mod 16"])
  qed (use 1(2) in \<open>auto simp: hex_str.simps [of n]\<close>)
qed

lemma hex_val_hex_str: "c \<in> set (hex_str n) \<Longrightarrow> hex_val c \<noteq> None"
  using hex_str_digits by fastforce

lemma hex_digits_val_str: "hex_digits_val (map (\<lambda>c. the (hex_val c)) (hex_str n)) = n"
proof (induction n rule: hex_str.induct)
  case (1 n)
  then show ?case by (subst hex_str.simps) (auto simp: hex_digits_val_def)
qed

lemma take_hex_stop: "hex_val d = None \<Longrightarrow> take_hex (d # s) = []"
  by simp

lemma upper_hex_special: "48 \<le> code c \<and> code c \<le> 57 \<or> 65 \<le> code c \<and> code c \<le> 70 \<Longrightarrow>
    c \<noteq> CHR ''x'' \<and> c \<noteq> CHR ''X'' \<and> c \<noteq> CHR ''-'' \<and> c \<noteq> CHR ''+'' \<and> \<not> c_isspace c"
  by (auto simp: code_def c_isspace_def)

lemma hex_up_special: "n < 16 \<Longrightarrow> hex_digit_up n \<noteq> CHR ''x'' \<and> hex_digit_up n \<noteq> CHR ''X'' \<and> hex_digit_up n \<noteq> CHR ''-''
    \<and> hex_digit_up n \<noteq> CHR ''+'' \<and> \<not> c_isspace (hex_digit_up n)"
proof -
  assume "n < 16"
  then have "48 \<le> code (hex_digit_up n) \<and> code (hex_digit_up n) \<le> 57 \<or> 65 \<le> code (hex_digit_up n) \<and> code (hex_digit_up n) \<le> 70"
    by (auto simp: code_hex_up)
  then show ?thesis by (rule upper_hex_special)
qed

lemma fmt_X_digits: "c \<in> set (fmt_X w n) \<Longrightarrow> \<exists>k < 16. c = hex_digit_up k"
proof -
  have "code (CHR ''0'') = code (hex_digit_up 0)" by (simp add: code_hex_up) (simp add: code_def)
  then have "CHR ''0'' = hex_digit_up 0" by (rule code_inject)
  then show "c \<in> set (fmt_X w n) \<Longrightarrow> \<exists>k < 16. c = hex_digit_up k"
    by (auto simp: fmt_X_def Let_def dest: hex_str_digits intro: exI [of _ 0])
qed

lemma hex_digits_val_zeros: "hex_digits_val (replicate k 0 @ ds) = hex_digits_val ds"
  by (induction k) (simp_all add: hex_digits_val_def)

lemma hex_digits_val_fmt: "hex_digits_val (map (\<lambda>c. the (hex_val c)) (fmt_X w n)) = n"
proof -
  have "the (hex_val (CHR ''0'')) = 0" by (simp add: hex_val_def code_def)
  then show ?thesis by (simp add: fmt_X_def Let_def map_replicate hex_digits_val_zeros hex_digits_val_str)
qed

lemma scan_hex_fmt:
  assumes "n < 2 ^ 32" and "hex_val d = None" and "d \<notin> {CHR ''x'', CHR ''X''}"
  shows "scan_hex (fmt_X w n @ d # s) = Some (int n, d # s)"
proof -
  let ?t = "fmt_X w n @ d # s"
  have ne: "fmt_X w n \<noteq> []" by (simp add: fmt_X_def Let_def)
  then obtain a r where a: "fmt_X w n = a # r" by (cases "fmt_X w n") auto
  have dig: "\<forall>c \<in> set (fmt_X w n). \<exists>k < 16. c = hex_digit_up k" using fmt_X_digits by blast
  obtain k where k: "k < 16" "a = hex_digit_up k" using dig a by auto
  have r: "c \<noteq> CHR ''x'' \<and> c \<noteq> CHR ''X''" if "c \<in> set r" for c using dig a hex_up_special that by (metis list.set_intros(2))
  have dw: "dropWhile c_isspace ?t = ?t" and sg: "sign_of ?t = (1, ?t)"
    using a k hex_up_special [OF k(1)] by (simp_all add: sign_of_def)
  have prefix: "\<not> (case ?t of c # e # r \<Rightarrow> c = CHR ''0'' \<and> (e = CHR ''x'' \<or> e = CHR ''X'') | _ \<Rightarrow> False)"
    using a r assms(3) by (cases r) auto
  have "\<forall>c \<in> set (fmt_X w n). hex_val c \<noteq> None" using dig by auto
  then have th: "take_hex ?t = map (\<lambda>c. the (hex_val c)) (fmt_X w n)" by (simp add: take_hex_append assms(2))
  have "scan_hex ?t = Some (int n mod 2 ^ 32, drop (length (fmt_X w n)) ?t)"
    unfolding scan_hex_def dw sg Let_def prod.case using prefix ne assms(1) by (simp only: if_False th) (simp add: hex_digits_val_fmt)
  then show ?thesis using assms(1) by simp
qed

lemma scan_hex_field:
  "n < 2 ^ 32 \<Longrightarrow> hex_val d = None \<Longrightarrow> d \<notin> {CHR ''x'', CHR ''X''} \<Longrightarrow>
     scan (Hex # fs) (fmt_X w n @ d # s) = VI (int n) # scan fs (d # s)"
  by (simp add: scan_hex_fmt scan.simps)

end
