(* ===== verification/CanGuard.thy ===== *)
theory CanGuard
  imports CScan ChronoExec "HOL-Library.Word"
begin

text \<open>
  \<open>core/vehicle/chrono_can_guard.c\<close>: the whitelist of CAN identifiers and the decision on a frame.
  Identifiers are 32-bit words and payload bytes 8-bit words. \<open>analyze_frame\<close> returns the verdict and
  the ledger entries it asks for; \<open>can_log_ledger\<close> is the program that such a request starts. It
  is \<open>None\<close> when the source reads or writes outside of a buffer. The description of a rule is
  \<open>None\<close> when the line has none: the loader copies its array uninitialised.
\<close>

lemma unat_bounds: "unat (i :: 32 word) < 4294967296" "unat (b :: 8 word) < 256"
  using unsigned_less [of i] unsigned_less [of b] by simp_all

section \<open>Rules\<close>

definition MAX_RULES :: nat where "MAX_RULES = 512"

record can_rule =
  can_id :: "32 word"
  min_data :: "8 word"
  max_data :: "8 word"
  can_description :: "string option"   \<comment> \<open>\<open>None\<close>: never written\<close>
  can_system :: string

definition rule_of_line :: "string \<Rightarrow> can_rule option" where
  "rule_of_line raw =
     (let line = cstr raw in
      if line \<noteq> [] \<and> (hd line = CHR ''#'' \<or> hd line = NL) then None
      else
        let vs = scan [Hex, Lit COMMA, Dec, Lit COMMA, Dec, Lit COMMA, Upto 31 COMMA, Lit COMMA, Upto 63 NL] line in
        if length vs \<ge> 4 then
          Some \<lparr>can_id = word_of_int (int_at vs 0 0), min_data = word_of_int (int_at vs 1 0),
            max_data = word_of_int (int_at vs 2 0), can_description = (if length vs \<ge> 5 then Some (str_at vs 4 []) else None), can_system = str_at vs 3 []\<rparr>
        else None)"

fun load_rule_lines :: "can_rule list \<Rightarrow> string list \<Rightarrow> can_rule list" where
  "load_rule_lines rules [] = rules"
| "load_rule_lines rules (raw # raws) =
     (if length rules < MAX_RULES
      then load_rule_lines (case rule_of_line raw of None \<Rightarrow> rules | Some r \<Rightarrow> rules @ [r]) raws
      else rules)"

definition load_whitelist :: "string option \<Rightarrow> can_rule list" where
  \<comment> \<open>the content of the file, or \<open>None\<close> when it cannot be opened\<close>
  "load_whitelist file = (case file of None \<Rightarrow> [] | Some content \<Rightarrow> load_rule_lines [] (read_lines 255 content))"

section \<open>Frames\<close>

type_synonym ledger_request = "string \<times> string"

fun find_rule :: "can_rule list \<Rightarrow> 32 word \<Rightarrow> can_rule option" where
  "find_rule [] i = None"
| "find_rule (r # rs) i = (if can_id r = i then Some r else find_rule rs i)"

definition analyze_frame ::
  "can_rule list \<Rightarrow> 32 word \<Rightarrow> 8 word list option \<Rightarrow> int \<Rightarrow> (int \<times> ledger_request list) option" where
  \<comment> \<open>\<open>None\<close>: \<open>data[0]\<close> of an empty array is read\<close>
  "analyze_frame rules i data dlc =
     (if data = None \<or> dlc \<le> 0 \<or> dlc > 8 then
        Some (-2, [(''CAN_INVALID_FRAME'',
          snprintf_buf 256 (''can_id=0x'' @ fmt_X 8 (unat i) @ '' dlc='' @ int_str dlc @ '' INVALID_FRAME''))])
      else if i > 0x1FFFFFFF then
        Some (-2, [(''CAN_INVALID_ID'', snprintf_buf 256 (''can_id=0x'' @ fmt_X 8 (unat i) @ '' INVALID_CAN_ID''))])
      else case find_rule rules i of
        Some r \<Rightarrow>
          (case data of
             Some (val # _) \<Rightarrow>
               if val < min_data r \<or> val > max_data r then
                 (let details = snprintf_buf 512 (''can_id=0x'' @ fmt_X 3 (unat i) @ '' sistema='' @ can_system r @
                     '' valor='' @ int_str (uint val) @ '' rango=['' @ int_str (uint (min_data r)) @ ''-'' @
                     int_str (uint (max_data r)) @ '']'')
                  in Some (0, [(''CAN_ANOMALY_DETECTED'', details), (''CAN_FRAME_BLOCK_DECISION'', details)]))
               else Some (1, [])
           | _ \<Rightarrow> None)
      | None \<Rightarrow>
          Some (-1, [(''CAN_UNKNOWN_ID'',
            snprintf_buf 256 (''can_id=0x'' @ fmt_X 3 (unat i) @ '' dlc='' @ int_str dlc @ '' DESCONOCIDO''))]))"

definition demo_frame :: "8 word \<Rightarrow> 8 word \<Rightarrow> 8 word list option" where
  "demo_frame a b = Some [a, b, 0, 0, 0, 0, 0, 0]"

definition frame_logs :: "(int \<times> ledger_request list) option \<Rightarrow> ledger_request list" where
  "frame_logs res = (case res of None \<Rightarrow> [] | Some (rc, logs) \<Rightarrow> logs)"

definition simulate_attack_demo :: "can_rule list \<Rightarrow> ledger_request list" where
  "simulate_attack_demo rules =
     frame_logs (analyze_frame rules 0x0C0 (demo_frame 0x50 0) 8) @
     [(''CAN_FRAME_OK'', ''id=0x0C0 sistema=engine rpm=2000'')] @
     frame_logs (analyze_frame rules 0x1A0 (demo_frame 0 0) 8) @
     [(''CAN_FRAME_OK'', ''id=0x1A0 sistema=brake presion=0''), (''CAN_FRAME_OK'', ''id=0x002 sistema=speed vel=80'')] @
     frame_logs (analyze_frame rules 0x1A0 (demo_frame 0xFF 0xFF) 8) @
     (let steer = analyze_frame rules 0x0E0 (demo_frame 0x80 0) 8 in
      frame_logs steer @
      (case steer of
         Some (rc, _) \<Rightarrow>
           if rc = 0 then []
           else if rc = 1 then [(''CAN_DEMO_POLICY_ERROR'', ''can_id=0x0E0 resultado=ALLOW valor=128'')]
           else [(''CAN_DEMO_POLICY_ERROR'', ''can_id=0x0E0 resultado=UNCLASSIFIED'')]
       | None \<Rightarrow> []))"

definition can_main :: "string option \<Rightarrow> string list \<Rightarrow> int \<times> ledger_request list" where
  "can_main file argv =
     (let rules = load_whitelist file in
      if length argv < 2 \<or> argv ! 1 = ''demo'' then (0, simulate_attack_demo rules) else (0, []))"

section \<open>Ledger requests\<close>

record can_env =
  ce_self :: "string option"   \<comment> \<open>\<open>readlink("/proc/self/exe")\<close>\<close>
  ce_fork :: bool

definition up_to_last :: "char \<Rightarrow> string \<Rightarrow> string" where
  \<comment> \<open>\<open>strrchr\<close>: the prefix that ends with the last occurrence, empty when there is none\<close>
  "up_to_last d s = rev (dropWhile (\<lambda>c. c \<noteq> d) (rev s))"

definition can_log_ledger :: "can_env \<Rightarrow> string \<Rightarrow> string \<Rightarrow> exec_call list option" where
  "can_log_ledger env type details =
     (case ce_self env of
        None \<Rightarrow> Some []
      | Some self \<Rightarrow>
          let dir = up_to_last (CHR ''/'') (take 4095 self) in
          if dir = [] then Some []
          else if length dir + length ''chrono-ledger'' + 1 > 4096 then None
          else if \<not> ce_fork env then Some []
          else Some [(dir @ ''chrono-ledger'', [''chrono-ledger'', ''append'', type, details])])"

section \<open>The decision\<close>

definition can_policy :: "can_rule list \<Rightarrow> 32 word \<Rightarrow> (8 word \<times> 8 word) option" where
  \<comment> \<open>the abstract whitelist: for an identifier its safe range\<close>
  "can_policy rules = map_of (map (\<lambda>r. (can_id r, (min_data r, max_data r))) rules)"

definition policy_admits :: "(32 word \<Rightarrow> (8 word \<times> 8 word) option) \<Rightarrow> 32 word \<Rightarrow> 8 word \<Rightarrow> bool" where
  "policy_admits p i b \<longleftrightarrow> (case p i of None \<Rightarrow> False | Some (lo, hi) \<Rightarrow> lo \<le> b \<and> b \<le> hi)"

lemma find_rule_policy:
  "can_policy rules i = map_option (\<lambda>r. (min_data r, max_data r)) (find_rule rules i)"
  by (induction rules) (auto simp: can_policy_def)

text \<open>C16: The decision on a frame with a payload refines the abstract whitelist: the frame passes
  (result 1) exactly when its length is 1 to 8, its identifier has at most 29 bits and the
  whitelist admits its first byte; and no ledger entry is asked for exactly when it passes, so
  every frame that is rejected, malformed or unknown leads to a request to the ledger program (whether that program can be
  run and accepts the texts is the matter of \<open>can_log_ledger\<close>, which reports a failure on the standard error only).\<close>

theorem can_decision:
  assumes "bs \<noteq> []"
  shows "\<exists>rc logs. analyze_frame rules i (Some bs) dlc = Some (rc, logs) \<and>
    (rc = 1 \<longleftrightarrow> 0 < dlc \<and> dlc \<le> 8 \<and> i \<le> 0x1FFFFFFF \<and> policy_admits (can_policy rules) i (hd bs)) \<and>
    (logs = [] \<longleftrightarrow> rc = 1)"
proof -
  obtain b cs where "bs = b # cs" using assms by (cases bs) auto
  then show ?thesis
    by (cases "find_rule rules i")
      (auto simp: analyze_frame_def policy_admits_def find_rule_policy Let_def not_le not_less)
qed

theorem can_decision_witness:
  "\<exists>rc logs. analyze_frame [\<lparr>can_id = 0x1A0, min_data = 0, max_data = 100, can_description = Some ''f'', can_system = ''brake''\<rparr>]
      0x1A0 (Some [0xFF]) 1 = Some (rc, logs) \<and>
    (rc = 1 \<longleftrightarrow> (0::int) < 1 \<and> (1::int) \<le> 8 \<and> (0x1A0 :: 32 word) \<le> 0x1FFFFFFF \<and>
      policy_admits (can_policy [\<lparr>can_id = 0x1A0, min_data = 0, max_data = 100, can_description = Some ''f'', can_system = ''brake''\<rparr>])
        0x1A0 (hd [0xFF])) \<and> (logs = [] \<longleftrightarrow> rc = 1)"
  by (rule can_decision) simp

fun drop_shadowed :: "can_rule list \<Rightarrow> can_rule list" where
  "drop_shadowed [] = []"
| "drop_shadowed (r # rs) = r # filter (\<lambda>q. can_id q \<noteq> can_id r) (drop_shadowed rs)"

lemma find_rule_filter: "i \<noteq> j \<Longrightarrow> find_rule (filter (\<lambda>q. can_id q \<noteq> j) rs) i = find_rule rs i"
  by (induction rs) auto

lemma find_rule_drop_shadowed: "find_rule (drop_shadowed rules) i = find_rule rules i"
  by (induction rules) (auto simp: find_rule_filter)

text \<open>Only the first rule of an identifier has an effect.\<close>

theorem can_shadowed:
  "analyze_frame (drop_shadowed rules) i data dlc = analyze_frame rules i data dlc"
  by (simp add: analyze_frame_def find_rule_drop_shadowed)

text \<open>Only the first byte of the payload is examined: two frames with the same identifier and first
  byte get the same verdict and the same ledger entries, whatever their other bytes are.\<close>

theorem can_first_byte_only:
  "analyze_frame rules i (Some (b # bs)) dlc = analyze_frame rules i (Some (b # cs)) dlc"
  by (simp add: analyze_frame_def split: option.split)

section \<open>The whitelist file\<close>

definition can_rule_ok :: "can_rule \<Rightarrow> bool" where
  \<comment> \<open>the texts fit their arrays\<close>
  "can_rule_ok r \<longleftrightarrow> can_system r \<noteq> [] \<and> length (can_system r) < 32 \<and> (\<forall>d. can_description r = Some d \<longrightarrow> length d < 64)"

lemma rule_of_line_ok:
  assumes "rule_of_line raw = Some r" shows "can_rule_ok r"
proof -
  let ?fs = "[Hex, Lit COMMA, Dec, Lit COMMA, Dec, Lit COMMA, Upto 31 COMMA, Lit COMMA, Upto 63 NL]"
  let ?vs = "scan ?fs (cstr raw)"
  from assms have n: "3 < length ?vs" and r: "can_system r = str_at ?vs 3 []"
      "can_description r = (if length ?vs \<ge> 5 then Some (str_at ?vs 4 []) else None)"
    by (auto simp: rule_of_line_def Let_def split: if_splits)
  have "str_at ?vs 3 [] \<noteq> [] \<and> length (str_at ?vs 3 []) \<le> 31"
    using str_at_typed [OF _ n, of 31 COMMA "[]"] by simp
  moreover have "length (str_at ?vs 4 []) < 64" if "4 < length ?vs"
    using str_at_typed [OF _ that, of 63 NL "[]"] by simp
  ultimately show ?thesis by (simp add: can_rule_ok_def r)
qed

lemma load_rule_lines_ok:
  "list_all can_rule_ok rules \<Longrightarrow> length rules \<le> MAX_RULES
    \<Longrightarrow> list_all can_rule_ok (load_rule_lines rules raws) \<and> length (load_rule_lines rules raws) \<le> MAX_RULES"
  by (induction rules raws rule: load_rule_lines.induct) (auto simp: rule_of_line_ok split: option.splits)

text \<open>C17: Whatever the whitelist file holds, at most 512 rules are loaded; the system of every rule is a non-empty text that fits its
  array, and so is its description, unless the line has none: then the array was never written to.\<close>

theorem can_load_bounded:
  "list_all can_rule_ok (load_whitelist file) \<and> length (load_whitelist file) \<le> MAX_RULES"
  using load_rule_lines_ok [of "[]"] by (simp add: load_whitelist_def split: option.split)

definition rule_line :: "32 word \<Rightarrow> nat \<Rightarrow> nat \<Rightarrow> string \<Rightarrow> string \<Rightarrow> string" where
  \<comment> \<open>a line of the whitelist in the documented format\<close>
  "rule_line i lo hi sys desc =
     fmt_X 3 (unat i) @ COMMA # nat_str lo @ COMMA # nat_str hi @ COMMA # sys @ COMMA # desc"

definition can_texts_ok :: "string \<Rightarrow> string \<Rightarrow> bool" where
  "can_texts_ok sys desc \<longleftrightarrow> sys \<noteq> [] \<and> length sys \<le> 31 \<and> COMMA \<notin> set sys \<and> NL \<notin> set sys \<and> NUL \<notin> set sys \<and>
     desc \<noteq> [] \<and> length desc \<le> 63 \<and> NL \<notin> set desc \<and> NUL \<notin> set desc"

lemma fmt_X_free: "\<not> (48 \<le> code d \<and> code d \<le> 57 \<or> 65 \<le> code d \<and> code d \<le> 70) \<Longrightarrow> d \<notin> set (fmt_X w n)"
  using fmt_X_digits [of d w n] by (auto simp: code_hex_up split: if_splits)

lemma rule_line_free:
  assumes "can_texts_ok sys desc" shows "NUL \<notin> set (rule_line i lo hi sys desc)" "NL \<notin> set (rule_line i lo hi sys desc)"
  using assms by (auto simp: rule_line_def can_texts_ok_def cstr_simps fmt_X_free code_def)

lemma rule_of_printed_line:
  assumes "can_texts_ok sys desc" and "lo < 2 ^ 31" "hi < 2 ^ 31"
  shows "rule_of_line (rule_line i lo hi sys desc @ [NL]) =
    Some \<lparr>can_id = i, min_data = of_nat lo, max_data = of_nat hi, can_description = Some desc, can_system = sys\<rparr>"
proof -
  let ?l = "rule_line i lo hi sys desc @ [NL]"
  have c: "cstr ?l = ?l" using rule_line_free(1) [OF assms(1)] by simp
  obtain a r where a: "fmt_X 3 (unat i) = a # r" by (cases "fmt_X 3 (unat i)") (auto simp: fmt_X_def Let_def)
  have "CHR ''#'' \<notin> set (fmt_X 3 (unat i))" "NL \<notin> set (fmt_X 3 (unat i))" by (auto intro!: fmt_X_free simp: code_def)
  then have hd: "\<not> (?l \<noteq> [] \<and> (hd ?l = CHR ''#'' \<or> hd ?l = NL))" using a by (auto simp: rule_line_def)
  have "unat i < 2 ^ 32" using unat_bounds(1) [of i] by simp
  moreover have "hex_val COMMA = None" "\<not> c_isdigit COMMA" by (simp_all add: hex_val_def code_def)
  ultimately have "scan [Hex, Lit COMMA, Dec, Lit COMMA, Dec, Lit COMMA, Upto 31 COMMA, Lit COMMA, Upto 63 NL] ?l
      = [VI (uint i), VI (int lo), VI (int hi), VS sys, VS desc]"
    using assms unfolding rule_line_def append.assoc append_Cons can_texts_ok_def
    by (subst scan_hex_field) (auto simp: scan_dec_field scan_field)
  then show ?thesis using hd by (simp add: rule_of_line_def c Let_def str_at_def int_at_def del: append_Cons)
qed

definition description_of :: "can_rule \<Rightarrow> string" where
  "description_of r = (case can_description r of None \<Rightarrow> [] | Some d \<Rightarrow> d)"

definition rule_text :: "can_rule \<Rightarrow> string" where
  "rule_text r = rule_line (can_id r) (unat (min_data r)) (unat (max_data r)) (can_system r) (description_of r)"

lemma rule_of_rule_text:
  "can_texts_ok (can_system r) (description_of r) \<Longrightarrow> rule_of_line (rule_text r @ [NL]) = Some r"
proof -
  assume ok: "can_texts_ok (can_system r) (description_of r)"
  then have "can_description r = Some (description_of r)"
    by (auto simp: description_of_def can_texts_ok_def split: option.splits)
  moreover have "unat (w :: 8 word) < 2 ^ 31" for w using unat_bounds(2) [of w] by simp
  ultimately show ?thesis unfolding rule_text_def by (subst rule_of_printed_line [OF ok]) simp_all
qed

lemma load_rule_texts:
  "list_all (\<lambda>r. can_texts_ok (can_system r) (description_of r)) rs \<Longrightarrow> length rules + length rs \<le> MAX_RULES
    \<Longrightarrow> load_rule_lines rules (map (\<lambda>l. l @ [NL]) (map rule_text rs)) = rules @ rs"
  by (induction rs arbitrary: rules) (auto simp: rule_of_rule_text simp del: append_Cons)

lemma rule_line_short:
  assumes "can_texts_ok sys desc" and "lo < 2 ^ 31" and "hi < 2 ^ 31"
  shows "NL \<notin> set (rule_line i lo hi sys desc) \<and> length (rule_line i lo hi sys desc) < 255"
proof -
  have "length (hex_str n) \<le> Suc k" if "n < 16 ^ Suc k" for k n
    using that by (induction k arbitrary: n) (subst hex_str.simps, auto)+
  from this [of "unat i" 7] have "length (hex_str (unat i)) \<le> 8" using unat_bounds(1) [of i] by simp
  then have "length (fmt_X 3 (unat i)) \<le> 11" by (simp add: fmt_X_def Let_def)
  moreover have "length (nat_str lo) \<le> 10" "length (nat_str hi) \<le> 10"
    using assms(2,3) by (auto intro!: nat_str_length_mono)
  ultimately show ?thesis using assms rule_line_free(2) [OF assms(1)] by (auto simp: rule_line_def can_texts_ok_def)
qed

lemma rule_text_short: "can_texts_ok (can_system r) (description_of r) \<Longrightarrow> NL \<notin> set (rule_text r) \<and> length (rule_text r) < 255"
proof -
  have "unat (w :: 8 word) < 2 ^ 31" for w using unat_bounds(2) [of w] by simp
  then show "can_texts_ok (can_system r) (description_of r) \<Longrightarrow> ?thesis" unfolding rule_text_def by (intro rule_line_short) simp_all
qed

text \<open>A whitelist written in the documented format is loaded back rule by rule: up to 512 rules whose
  texts fit are read as they were printed.\<close>

theorem can_whitelist_roundtrip:
  assumes "list_all (\<lambda>r. can_texts_ok (can_system r) (description_of r)) rs" and "length rs \<le> MAX_RULES"
  shows "load_whitelist (Some (unlines (map rule_text rs))) = rs"
proof -
  have "short_lines 255 (map rule_text rs)"
    using assms(1) rule_text_short by (auto simp: short_lines_def list_all_iff)
  then show ?thesis
    using load_rule_texts [OF assms(1), of "[]"] assms(2) by (simp add: load_whitelist_def read_lines_unlines)
qed

theorem can_whitelist_roundtrip_witness:
  "load_whitelist (Some (unlines (map rule_text
      [\<lparr>can_id = 0x1A0, min_data = 0, max_data = 100, can_description = Some ''Presion'', can_system = ''brake''\<rparr>])))
    = [\<lparr>can_id = 0x1A0, min_data = 0, max_data = 100, can_description = Some ''Presion'', can_system = ''brake''\<rparr>]"
  by (rule can_whitelist_roundtrip) (simp_all add: can_texts_ok_def MAX_RULES_def description_of_def)

text \<open>The bounds of a whitelist line are taken modulo 256: a frame with the identifier of the line passes
  exactly when its first byte lies between the remainders of the two bounds. Within 0 to 255 this is what the
  line says; with an upper bound of 256 only the byte 0 passes.\<close>

theorem can_range_wraps:
  assumes "can_texts_ok sys desc" and "lo < 2 ^ 31" and "hi < 2 ^ 31" and "i \<le> 0x1FFFFFFF" and "0 < dlc" and "dlc \<le> 8"
  shows "\<exists>rc logs. analyze_frame (load_whitelist (Some (unlines [rule_line i lo hi sys desc]))) i (Some (b # bs)) dlc = Some (rc, logs) \<and>
    (rc = 1 \<longleftrightarrow> lo mod 256 \<le> unat b \<and> unat b \<le> hi mod 256)"
proof -
  let ?r = "\<lparr>can_id = i, min_data = of_nat lo, max_data = of_nat hi, can_description = Some desc, can_system = sys\<rparr>"
  have "short_lines 255 [rule_line i lo hi sys desc]" using rule_line_short [OF assms(1-3)] by simp
  then have "read_lines 255 (unlines [rule_line i lo hi sys desc]) = [rule_line i lo hi sys desc @ [NL]]"
    using read_lines_unlines [of 255 "[rule_line i lo hi sys desc]"] by simp
  then have "load_whitelist (Some (unlines [rule_line i lo hi sys desc])) = [?r]"
    by (simp add: load_whitelist_def rule_of_printed_line [OF assms(1-3)] MAX_RULES_def del: unlines_simps)
  moreover have "policy_admits (can_policy [?r]) i b \<longleftrightarrow> lo mod 256 \<le> unat b \<and> unat b \<le> hi mod 256"
    by (simp add: policy_admits_def can_policy_def word_le_nat_alt unat_of_nat)
  ultimately show ?thesis
    using assms(4-6) by (auto simp: analyze_frame_def policy_admits_def can_policy_def Let_def not_le not_less)
qed

theorem can_range_wraps_witness:
  "\<exists>rc logs. analyze_frame (load_whitelist (Some (unlines [rule_line 0x1A0 0 256 ''brake'' ''Presion'']))) 0x1A0 (Some [1]) 1
      = Some (rc, logs) \<and> (rc = 1 \<longleftrightarrow> 0 mod 256 \<le> unat (1 :: 8 word) \<and> unat (1 :: 8 word) \<le> 256 mod 256)"
  by (rule can_range_wraps) (simp_all add: can_texts_ok_def)

text \<open>The demonstration reports frames as normal whatever the decision on them was.\<close>

theorem can_demo_unconditional:
  "(''CAN_FRAME_OK'', ''id=0x0C0 sistema=engine rpm=2000'') \<in> set (snd (can_main file [''can'']))"
  by (simp add: can_main_def simulate_attack_demo_def Let_def)

end
