(* ===== verification/Eagle.thy ===== *)
theory Eagle
  imports CString
begin

text \<open>
  \<open>core/eagle\<close>: the identity of a camera found by ONVIF discovery (\<open>camera_identity.c\<close>,
  \<open>camera_identity_adapter.c\<close>) and the assessment of a camera (\<open>chrono_eagle.c\<close>). A pointer parameter
  that may be \<open>NULL\<close> is an option; a function that fills a structure returns it with the result. Printed
  reports are the text they print.
\<close>

section \<open>Camera identity\<close>

record camera_identity =
  ci_vendor :: string
  ci_model :: string
  ci_firmware :: string
  ci_protocol :: string
  ci_service_url :: string
  ci_onvif :: int
  ci_rtsp :: int
  ci_http :: int
  ci_https :: int
  ci_authenticated :: int

definition camera_identity_init :: camera_identity where
  "camera_identity_init =
     \<lparr>ci_vendor = ''Unknown'', ci_model = ''Unknown'', ci_firmware = ''Unknown'', ci_protocol = ''ONVIF'',
      ci_service_url = [], ci_onvif = 0, ci_rtsp = 0, ci_http = 0, ci_https = 0, ci_authenticated = 0\<rparr>"

definition identity_from_onvif ::
  "camera_identity option \<Rightarrow> string option \<Rightarrow> string option \<Rightarrow> int \<times> camera_identity option" where
  "identity_from_onvif identity types xaddr =
     (case (identity, types, xaddr) of
        (Some _, Some ty, Some xa) \<Rightarrow>
          let i = camera_identity_init in
          if c_strstr ''NetworkVideoTransmitter'' ty = None then (-1, Some i)
          else
            let i = i\<lparr>ci_onvif := 1\<rparr>;
                i = (if starts_with ''https://'' xa then i\<lparr>ci_https := 1\<rparr>
                     else if starts_with ''http://'' xa then i\<lparr>ci_http := 1\<rparr> else i)
            in (0, Some (i\<lparr>ci_service_url := snprintf_buf 256 xa\<rparr>))
      | _ \<Rightarrow> (-1, identity))"

definition identity_from_discovery ::
  "camera_identity option \<Rightarrow> string option \<Rightarrow> string option \<Rightarrow> int \<times> camera_identity option" where
  "identity_from_discovery identity types xaddr =
     (if identity = None \<or> types = None \<or> xaddr = None then (-1, identity)
      else identity_from_onvif identity types xaddr)"

section \<open>Cameras\<close>

datatype eagle_generation = GenUnknown | GenLegacy | GenModern

datatype eagle_state = StUnknown | StVerified | StWarning | StIncident

record eagle_camera =
  ec_id :: string
  ec_vendor :: string
  ec_model :: string
  ec_firmware :: string
  ec_generation :: eagle_generation
  ec_onvif :: int
  ec_tls :: int
  ec_auth :: int
  ec_rtsp :: int
  ec_optical :: int
  ec_alignment :: int
  ec_vibration :: int
  ec_state :: eagle_state

definition identity_to_eagle ::
  "camera_identity option \<Rightarrow> eagle_camera option \<Rightarrow> string option \<Rightarrow> int \<times> eagle_camera option" where
  "identity_to_eagle identity camera camera_id =
     (case (identity, camera, camera_id) of
        (Some i, Some c, Some cid) \<Rightarrow>
          if ci_onvif i = 0 then (-1, Some c)
          else (0, Some \<lparr>ec_id = snprintf_buf 64 cid, ec_vendor = snprintf_buf 128 (ci_vendor i),
                 ec_model = snprintf_buf 128 (ci_model i), ec_firmware = snprintf_buf 128 (ci_firmware i),
                 ec_generation = GenUnknown, ec_onvif = ci_onvif i, ec_tls = ci_https i, ec_auth = ci_authenticated i,
                 ec_rtsp = ci_rtsp i, ec_optical = 0, ec_alignment = 0, ec_vibration = 0, ec_state = StUnknown\<rparr>)
      | _ \<Rightarrow> (-1, camera))"

definition eagle_identify :: "eagle_camera option \<Rightarrow> int \<times> eagle_camera option" where
  "eagle_identify camera =
     (case camera of
        None \<Rightarrow> (-1, None)
      | Some c \<Rightarrow>
          if ec_id c = [] then (-1, Some c)
          else if ec_firmware c = [] \<or> ec_onvif c = 0 then (0, Some (c\<lparr>ec_generation := GenUnknown\<rparr>))
          else if ec_tls c \<noteq> 0 \<and> ec_auth c \<noteq> 0 then (0, Some (c\<lparr>ec_generation := GenModern\<rparr>))
          else (0, Some (c\<lparr>ec_generation := GenLegacy\<rparr>)))"

definition eagle_assess_security :: "eagle_camera option \<Rightarrow> int \<times> eagle_camera option" where
  "eagle_assess_security camera =
     (case camera of
        None \<Rightarrow> (-1, None)
      | Some c \<Rightarrow>
          if ec_onvif c = 0 \<and> ec_rtsp c = 0 then (0, Some (c\<lparr>ec_state := StUnknown\<rparr>))
          else if ec_tls c \<noteq> 0 \<and> ec_auth c \<noteq> 0 then (0, Some (c\<lparr>ec_state := StVerified\<rparr>))
          else (0, Some (c\<lparr>ec_state := StWarning\<rparr>)))"

definition eagle_assess_physical :: "eagle_camera option \<Rightarrow> int \<times> eagle_camera option" where
  "eagle_assess_physical camera =
     (case camera of
        None \<Rightarrow> (-1, None)
      | Some c \<Rightarrow>
          if ec_optical c \<ge> 3 \<or> ec_alignment c \<ge> 3 \<or> ec_vibration c \<ge> 3 then (0, Some (c\<lparr>ec_state := StIncident\<rparr>))
          else if ec_optical c = 2 \<or> ec_alignment c = 2 \<or> ec_vibration c = 2 then
            (0, Some (if ec_state c \<noteq> StIncident then c\<lparr>ec_state := StWarning\<rparr> else c))
          else (0, Some c))"

definition eagle_verify :: "eagle_camera option \<Rightarrow> int \<times> eagle_camera option" where
  "eagle_verify camera =
     (if camera = None then (-1, None)
      else case eagle_identify camera of (rc, camera) \<Rightarrow>
        if rc \<noteq> 0 then (-1, camera)
        else case eagle_assess_security camera of (rc, camera) \<Rightarrow>
          if rc \<noteq> 0 then (-1, camera)
          else case eagle_assess_physical camera of (rc, camera) \<Rightarrow>
            if rc \<noteq> 0 then (-1, camera) else (0, camera))"

fun eagle_generation_name :: "eagle_generation \<Rightarrow> string" where
  "eagle_generation_name GenLegacy = ''LEGACY''"
| "eagle_generation_name GenModern = ''MODERN''"
| "eagle_generation_name GenUnknown = ''UNKNOWN''"

fun eagle_state_name :: "eagle_state \<Rightarrow> string" where
  "eagle_state_name StVerified = ''VERIFIED''"
| "eagle_state_name StWarning = ''WARNING''"
| "eagle_state_name StIncident = ''INCIDENT''"
| "eagle_state_name StUnknown = ''UNKNOWN''"

definition eagle_print_report :: "eagle_camera option \<Rightarrow> string" where
  "eagle_print_report camera =
     (case camera of
        None \<Rightarrow> []
      | Some c \<Rightarrow> unlines
          [''=== CHRONO EAGLE CAMERA REPORT ==='', ''ID='' @ ec_id c, ''VENDOR='' @ ec_vendor c, ''MODEL='' @ ec_model c,
           ''FIRMWARE='' @ ec_firmware c, ''GENERATION='' @ eagle_generation_name (ec_generation c),
           ''ONVIF='' @ (if ec_onvif c \<noteq> 0 then ''DETECTED'' else ''NOT_DETECTED''),
           ''TLS='' @ (if ec_tls c \<noteq> 0 then ''VERIFIED'' else ''NOT_VERIFIED''),
           ''AUTHENTICATION='' @ (if ec_auth c \<noteq> 0 then ''VERIFIED'' else ''NOT_VERIFIED''),
           ''RTSP='' @ (if ec_rtsp c \<noteq> 0 then ''DETECTED'' else ''NOT_DETECTED''),
           ''OPTICAL_HEALTH='' @ int_str (ec_optical c), ''ALIGNMENT_HEALTH='' @ int_str (ec_alignment c),
           ''VIBRATION_HEALTH='' @ int_str (ec_vibration c), ''STATE='' @ eagle_state_name (ec_state c)])"

definition eagle_init :: "int \<times> string" where
  "eagle_init = (0, unlines [''CHRONO EAGLE'', ''VERSION=1.0'', ''STATUS=INITIALIZED''])"

section \<open>Assessment\<close>

text \<open>States are ordered by severity; the assessment is the worse of a security and a physical verdict.\<close>

instantiation eagle_state :: linorder
begin

fun severity_rank :: "eagle_state \<Rightarrow> nat" where
  "severity_rank StUnknown = 0"
| "severity_rank StVerified = 1"
| "severity_rank StWarning = 2"
| "severity_rank StIncident = 3"

definition less_eq_eagle_state :: "eagle_state \<Rightarrow> eagle_state \<Rightarrow> bool" where
  "less_eq_eagle_state s t \<longleftrightarrow> severity_rank s \<le> severity_rank t"

definition less_eagle_state :: "eagle_state \<Rightarrow> eagle_state \<Rightarrow> bool" where
  "less_eagle_state s t \<longleftrightarrow> severity_rank s < severity_rank t"

instance
proof
  fix s t u :: eagle_state
  show "s \<le> t \<Longrightarrow> t \<le> s \<Longrightarrow> s = t" by (cases s; cases t) (simp_all add: less_eq_eagle_state_def)
qed (auto simp: less_eq_eagle_state_def less_eagle_state_def)

end

definition security_verdict :: "eagle_camera \<Rightarrow> eagle_state" where
  "security_verdict c =
     (if ec_onvif c = 0 \<and> ec_rtsp c = 0 then StUnknown
      else if ec_tls c \<noteq> 0 \<and> ec_auth c \<noteq> 0 then StVerified else StWarning)"

definition health_verdict :: "int \<Rightarrow> eagle_state" where
  "health_verdict h = (if h \<ge> 3 then StIncident else if h = 2 then StWarning else StUnknown)"

definition physical_verdict :: "eagle_camera \<Rightarrow> eagle_state" where
  "physical_verdict c =
     max (health_verdict (ec_optical c)) (max (health_verdict (ec_alignment c)) (health_verdict (ec_vibration c)))"

definition camera_verdict :: "eagle_camera \<Rightarrow> eagle_state" where
  \<comment> \<open>the abstract specification\<close>
  "camera_verdict c = max (security_verdict c) (physical_verdict c)"

definition generation_verdict :: "eagle_camera \<Rightarrow> eagle_generation" where
  "generation_verdict c =
     (if ec_firmware c = [] \<or> ec_onvif c = 0 then GenUnknown
      else if ec_tls c \<noteq> 0 \<and> ec_auth c \<noteq> 0 then GenModern else GenLegacy)"

lemma assess_security: "eagle_assess_security (Some c) = (0, Some (c\<lparr>ec_state := security_verdict c\<rparr>))"
  by (simp add: eagle_assess_security_def security_verdict_def)

lemma max_state [simp]:
  "max StUnknown s = s" "max s StUnknown = s" "max StIncident s = StIncident" "max s StIncident = StIncident"
  "max StWarning StWarning = StWarning" "max StVerified StWarning = StWarning" "max StWarning StVerified = StWarning"
  by (cases s; simp add: max_def less_eq_eagle_state_def)+

lemma physical_cases:
  "physical_verdict c =
     (if ec_optical c \<ge> 3 \<or> ec_alignment c \<ge> 3 \<or> ec_vibration c \<ge> 3 then StIncident
      else if ec_optical c = 2 \<or> ec_alignment c = 2 \<or> ec_vibration c = 2 then StWarning else StUnknown)"
  by (auto simp: physical_verdict_def health_verdict_def)

lemma assess_physical: "eagle_assess_physical (Some c) = (0, Some (c\<lparr>ec_state := max (ec_state c) (physical_verdict c)\<rparr>))"
proof -
  have "max (ec_state c) StWarning = (if ec_state c \<noteq> StIncident then StWarning else StIncident)"
    by (cases "ec_state c") simp_all
  then show ?thesis unfolding eagle_assess_physical_def physical_cases by (simp del: not_le)
qed

lemma identify: "ec_id c \<noteq> [] \<Longrightarrow> eagle_identify (Some c) = (0, Some (c\<lparr>ec_generation := generation_verdict c\<rparr>))"
  by (simp add: eagle_identify_def generation_verdict_def)

lemma verify_camera:
  "ec_id c \<noteq> [] \<Longrightarrow>
     eagle_verify (Some c) = (0, Some (c\<lparr>ec_generation := generation_verdict c, ec_state := camera_verdict c\<rparr>))"
  by (simp add: eagle_verify_def identify assess_security assess_physical camera_verdict_def security_verdict_def physical_verdict_def)

text \<open>C25: The verification of a camera with an identifier succeeds and sets its state to the most
  severe of four independent verdicts, on its security and on each of its three health values; apart from the state
  and the generation it leaves the camera as it was. In particular a camera is reported as verified only when TLS
  and authentication are, it was detected, and no health value is degraded.\<close>

theorem eagle_verify_worst:
  assumes "ec_id c \<noteq> []"
  shows "\<exists>g. eagle_verify (Some c) = (0, Some (c\<lparr>ec_generation := g, ec_state := camera_verdict c\<rparr>))"
  using verify_camera [OF assms] by blast

theorem eagle_verify_worst_witness:
  "\<exists>g. eagle_verify (Some \<lparr>ec_id = ''c1'', ec_vendor = ''v'', ec_model = ''m'', ec_firmware = ''1'', ec_generation = GenUnknown,
        ec_onvif = 1, ec_tls = 1, ec_auth = 1, ec_rtsp = 0, ec_optical = 1, ec_alignment = 2, ec_vibration = 0, ec_state = StUnknown\<rparr>)
    = (0, Some (\<lparr>ec_id = ''c1'', ec_vendor = ''v'', ec_model = ''m'', ec_firmware = ''1'', ec_generation = GenUnknown,
        ec_onvif = 1, ec_tls = 1, ec_auth = 1, ec_rtsp = 0, ec_optical = 1, ec_alignment = 2, ec_vibration = 0, ec_state = StUnknown\<rparr>
       \<lparr>ec_generation := g, ec_state := camera_verdict \<lparr>ec_id = ''c1'', ec_vendor = ''v'', ec_model = ''m'', ec_firmware = ''1'',
          ec_generation = GenUnknown, ec_onvif = 1, ec_tls = 1, ec_auth = 1, ec_rtsp = 0, ec_optical = 1, ec_alignment = 2,
          ec_vibration = 0, ec_state = StUnknown\<rparr>\<rparr>))"
  by (rule eagle_verify_worst) simp

text \<open>From discovery to assessment: a device that announces itself as a network video transmitter becomes a
  camera with state WARNING and generation LEGACY, never VERIFIED or MODERN, and never of unknown
  generation: the firmware text \<open>Unknown\<close> that the identity starts with passes for a known firmware.\<close>

theorem eagle_discovered_camera:
  assumes "c_strstr ''NetworkVideoTransmitter'' types \<noteq> None" and "cid \<noteq> []"
  shows "let (rc, i) = identity_from_discovery (Some i0) (Some types) (Some xaddr);
             (rc', c) = identity_to_eagle i (Some c0) (Some cid);
             (rc'', c') = eagle_verify c
         in rc = 0 \<and> rc' = 0 \<and> rc'' = 0 \<and>
            (case c' of None \<Rightarrow> False | Some cam \<Rightarrow> ec_state cam = StWarning \<and> ec_generation cam = GenLegacy \<and>
               ec_firmware cam = ''Unknown'' \<and> (ec_tls cam \<noteq> 0 \<longleftrightarrow> starts_with ''https://'' xaddr))"
proof -
  obtain t where t: "c_strstr ''NetworkVideoTransmitter'' types = Some t" using assms(1) by blast
  define cam where "cam = \<lparr>ec_id = snprintf_buf 64 cid, ec_vendor = ''Unknown'', ec_model = ''Unknown'',
    ec_firmware = ''Unknown'', ec_generation = GenUnknown, ec_onvif = 1, ec_tls = of_bool (starts_with ''https://'' xaddr),
    ec_auth = 0, ec_rtsp = 0, ec_optical = 0, ec_alignment = 0, ec_vibration = 0, ec_state = StUnknown\<rparr>"
  have "fst (identity_from_discovery (Some i0) (Some types) (Some xaddr)) = 0 \<and>
      identity_to_eagle (snd (identity_from_discovery (Some i0) (Some types) (Some xaddr))) (Some c0) (Some cid) = (0, Some cam)"
    using t unfolding cam_def
    by (cases "starts_with ''https://'' xaddr"; cases "starts_with ''http://'' xaddr")
      (simp_all add: identity_from_discovery_def identity_from_onvif_def camera_identity_init_def identity_to_eagle_def Let_def)
  moreover have "ec_id cam \<noteq> []" using assms(2) by (simp add: cam_def snprintf_buf_def)
  then have "eagle_verify (Some cam) = (0, Some (cam\<lparr>ec_generation := GenLegacy, ec_state := StWarning\<rparr>))"
    by (simp add: verify_camera) (simp add: cam_def camera_verdict_def generation_verdict_def security_verdict_def physical_cases)
  ultimately show ?thesis
    by (cases "identity_from_discovery (Some i0) (Some types) (Some xaddr)") (simp add: cam_def)
qed

theorem eagle_discovered_camera_witness:
  "let (rc, i) = identity_from_discovery (Some camera_identity_init) (Some ''dn:NetworkVideoTransmitter'') (Some ''https://10.0.0.9/onvif'');
       (rc', c) = identity_to_eagle i (Some \<lparr>ec_id = [], ec_vendor = [], ec_model = [], ec_firmware = [], ec_generation = GenUnknown,
          ec_onvif = 0, ec_tls = 0, ec_auth = 0, ec_rtsp = 0, ec_optical = 0, ec_alignment = 0, ec_vibration = 0,
          ec_state = StUnknown\<rparr>) (Some ''cam-1'');
       (rc'', c') = eagle_verify c
   in rc = 0 \<and> rc' = 0 \<and> rc'' = 0 \<and>
      (case c' of None \<Rightarrow> False | Some cam \<Rightarrow> ec_state cam = StWarning \<and> ec_generation cam = GenLegacy \<and>
         ec_firmware cam = ''Unknown'' \<and> (ec_tls cam \<noteq> 0 \<longleftrightarrow> starts_with ''https://'' ''https://10.0.0.9/onvif''))"
  by (rule eagle_discovered_camera) (simp_all add: starts_with_def)

end
