(* ===== verification/Vertical.thy ===== *)
theory Vertical
  imports CString
begin

text \<open>
  \<open>core/vertical\<close>: buildings, floors and the devices on them. Counters are C \<open>int\<close>s: a sum that leaves
  their range is undefined in C and \<open>None\<close> here. A pointer parameter that may be \<open>NULL\<close> is an option.
\<close>

definition INT_MAX :: int where "INT_MAX = 2 ^ 31 - 1"

section \<open>Buildings\<close>

record vertical_floor =
  vf_number :: int
  vf_zone :: string
  vf_cameras :: int
  vf_network_nodes :: int
  vf_sensors :: int

record vertical_building =
  vb_name :: string
  vb_tower :: string
  vb_total_floors :: int
  vb_total_cameras :: int
  vb_total_network_nodes :: int
  vb_total_sensors :: int

definition building_init ::
  "vertical_building option \<Rightarrow> string option \<Rightarrow> string option \<Rightarrow> int \<Rightarrow> int \<times> vertical_building option" where
  "building_init building name tower total_floors =
     (case (building, name, tower) of
        (Some _, Some n, Some t) \<Rightarrow>
          if total_floors \<le> 0 then (-1, building)
          else (0, Some \<lparr>vb_name = snprintf_buf 128 n, vb_tower = snprintf_buf 64 t, vb_total_floors = total_floors,
                 vb_total_cameras = 0, vb_total_network_nodes = 0, vb_total_sensors = 0\<rparr>)
      | _ \<Rightarrow> (-1, building))"

definition floor_init :: "vertical_floor option \<Rightarrow> int \<Rightarrow> string option \<Rightarrow> int \<times> vertical_floor option" where
  "floor_init fl floor_number zone =
     (case (fl, zone) of
        (Some _, Some z) \<Rightarrow>
          if floor_number \<le> 0 then (-1, fl)
          else (0, Some \<lparr>vf_number = floor_number, vf_zone = snprintf_buf 64 z, vf_cameras = 0, vf_network_nodes = 0, vf_sensors = 0\<rparr>)
      | _ \<Rightarrow> (-1, fl))"

definition register_floor ::
  "vertical_building option \<Rightarrow> vertical_floor option \<Rightarrow> (int \<times> vertical_building option) option" where
  "register_floor building fl =
     (case (building, fl) of
        (Some b, Some f) \<Rightarrow>
          if vf_number f \<le> 0 \<or> vf_number f > vb_total_floors b then Some (-1, building)
          else if vf_cameras f < 0 \<or> vf_network_nodes f < 0 \<or> vf_sensors f < 0 then Some (-1, building)
          else
            let c = vb_total_cameras b + vf_cameras f; n = vb_total_network_nodes b + vf_network_nodes f;
                s = vb_total_sensors b + vf_sensors f in
            if c > INT_MAX \<or> n > INT_MAX \<or> s > INT_MAX then None
            else Some (0, Some (b\<lparr>vb_total_cameras := c, vb_total_network_nodes := n, vb_total_sensors := s\<rparr>))
      | _ \<Rightarrow> Some (-1, building))"

definition vertical_print_report :: "vertical_building option \<Rightarrow> string" where
  "vertical_print_report building =
     (case building of
        None \<Rightarrow> []
      | Some b \<Rightarrow> unlines
          [''=== CHRONO VERTICAL BUILDING REPORT ==='', ''BUILDING='' @ vb_name b, ''TOWER='' @ vb_tower b,
           ''FLOORS='' @ int_str (vb_total_floors b), ''CAMERAS='' @ int_str (vb_total_cameras b),
           ''NETWORK_NODES='' @ int_str (vb_total_network_nodes b), ''SENSORS='' @ int_str (vb_total_sensors b)])"

section \<open>Devices\<close>

datatype device_type = DevUnknown | DevCamera | DevRouter | DevSensor

datatype device_status = DevOffline | DevOnline

record vertical_device =
  vd_id :: string
  vd_type :: device_type
  vd_floor :: int
  vd_zone :: string
  vd_vendor :: string
  vd_model :: string
  vd_firmware :: string
  vd_status :: device_status

fun device_type_name :: "device_type \<Rightarrow> string" where
  "device_type_name DevCamera = ''CAMERA''"
| "device_type_name DevRouter = ''ROUTER''"
| "device_type_name DevSensor = ''SENSOR''"
| "device_type_name DevUnknown = ''UNKNOWN''"

fun device_status_name :: "device_status \<Rightarrow> string" where
  "device_status_name DevOnline = ''ONLINE''"
| "device_status_name DevOffline = ''OFFLINE''"

definition device_init :: "vertical_device option \<Rightarrow> vertical_device option" where
  "device_init device = map_option (\<lambda>_. \<lparr>vd_id = [], vd_type = DevUnknown, vd_floor = 0, vd_zone = [], vd_vendor = [],
     vd_model = [], vd_firmware = [], vd_status = DevOffline\<rparr>) device"

definition device_register ::
  "vertical_device option \<Rightarrow> string option \<Rightarrow> device_type \<Rightarrow> int \<Rightarrow> string option \<Rightarrow> string option \<Rightarrow> string option
    \<Rightarrow> string option \<Rightarrow> int \<times> vertical_device option" where
  "device_register device ident type floor zone vendor model firmware =
     (case (device, ident, zone, vendor, model, firmware) of
        (Some _, Some i, Some z, Some v, Some m, Some fw) \<Rightarrow>
          if i = [] \<or> z = [] \<or> floor < 1 then (-1, device)
          else if type = DevUnknown then (-1, device)
          else (0, map_option (\<lambda>d. d\<lparr>vd_id := snprintf_buf 64 i, vd_type := type, vd_floor := floor,
                  vd_zone := snprintf_buf 64 z, vd_vendor := snprintf_buf 64 v, vd_model := snprintf_buf 64 m,
                  vd_firmware := snprintf_buf 64 fw, vd_status := DevOnline\<rparr>) (device_init device))
      | _ \<Rightarrow> (-1, device))"

definition device_print :: "vertical_device option \<Rightarrow> string" where
  "device_print device =
     (case device of
        None \<Rightarrow> []
      | Some d \<Rightarrow> unlines
          [''DEVICE_ID='' @ vd_id d, ''DEVICE_TYPE='' @ device_type_name (vd_type d), ''FLOOR='' @ int_str (vd_floor d),
           ''ZONE='' @ vd_zone d, ''VENDOR='' @ vd_vendor d, ''MODEL='' @ vd_model d, ''FIRMWARE='' @ vd_firmware d,
           ''STATUS='' @ device_status_name (vd_status d)])"

section \<open>Totals\<close>

definition floor_accepted :: "vertical_building \<Rightarrow> vertical_floor \<Rightarrow> bool" where
  "floor_accepted b f \<longleftrightarrow> 1 \<le> vf_number f \<and> vf_number f \<le> vb_total_floors b \<and>
     0 \<le> vf_cameras f \<and> 0 \<le> vf_network_nodes f \<and> 0 \<le> vf_sensors f"

definition floor_total :: "(vertical_floor \<Rightarrow> int) \<Rightarrow> vertical_building \<Rightarrow> vertical_floor list \<Rightarrow> int" where
  "floor_total count b fs = sum_list (map count (filter (floor_accepted b) fs))"

fun register_all :: "vertical_building option \<Rightarrow> vertical_floor list \<Rightarrow> vertical_building option option" where
  \<comment> \<open>the floors of a list registered one after the other\<close>
  "register_all b [] = Some b"
| "register_all b (f # fs) = (case register_floor b (Some f) of None \<Rightarrow> None | Some (rc, b') \<Rightarrow> register_all b' fs)"

definition in_range :: "int \<Rightarrow> bool" where
  "in_range i \<longleftrightarrow> i \<le> INT_MAX"

lemma floor_total_nonneg:
  "(\<And>f. floor_accepted b f \<Longrightarrow> 0 \<le> count f) \<Longrightarrow> 0 \<le> floor_total count b fs"
  by (auto simp: floor_total_def intro!: sum_list_nonneg)

lemma floor_total_Cons: "floor_total count b (f # fs) = (if floor_accepted b f then count f else 0) + floor_total count b fs"
  by (simp add: floor_total_def)

lemma floor_total_cong: "vb_total_floors b = vb_total_floors b' \<Longrightarrow> floor_total count b fs = floor_total count b' fs"
  by (simp add: floor_total_def floor_accepted_def cong: filter_cong)

lemma register_all_totals:
  "0 \<le> vb_total_cameras b \<Longrightarrow> 0 \<le> vb_total_network_nodes b \<Longrightarrow> 0 \<le> vb_total_sensors b \<Longrightarrow>
   in_range (vb_total_cameras b + floor_total vf_cameras b fs) \<Longrightarrow> in_range (vb_total_network_nodes b + floor_total vf_network_nodes b fs) \<Longrightarrow>
   in_range (vb_total_sensors b + floor_total vf_sensors b fs) \<Longrightarrow>
   register_all (Some b) fs = Some (Some (b\<lparr>vb_total_cameras := vb_total_cameras b + floor_total vf_cameras b fs,
     vb_total_network_nodes := vb_total_network_nodes b + floor_total vf_network_nodes b fs,
     vb_total_sensors := vb_total_sensors b + floor_total vf_sensors b fs\<rparr>))"
proof (induction fs arbitrary: b)
  case Nil
  then show ?case by (simp add: floor_total_def)
next
  case (Cons f fs)
  have nonneg: "0 \<le> floor_total vf_cameras b fs" "0 \<le> floor_total vf_network_nodes b fs" "0 \<le> floor_total vf_sensors b fs"
    by (rule floor_total_nonneg; simp add: floor_accepted_def)+
  show ?case
  proof (cases "floor_accepted b f")
    case False
    then have "register_floor (Some b) (Some f) = Some (-1, Some b)"
      by (auto simp: register_floor_def floor_accepted_def)
    with False Cons show ?thesis by (simp add: floor_total_Cons)
  next
    case True
    let ?b = "b\<lparr>vb_total_cameras := vb_total_cameras b + vf_cameras f,
      vb_total_network_nodes := vb_total_network_nodes b + vf_network_nodes f, vb_total_sensors := vb_total_sensors b + vf_sensors f\<rparr>"
    have t: "floor_total c ?b fs = floor_total c b fs" for c by (rule floor_total_cong) simp
    have "register_floor (Some b) (Some f) = Some (0, Some ?b)"
      using True Cons.prems nonneg by (simp add: register_floor_def floor_accepted_def in_range_def floor_total_Cons Let_def)
    moreover have "register_all (Some ?b) fs = Some (Some (?b\<lparr>vb_total_cameras := vb_total_cameras ?b + floor_total vf_cameras ?b fs,
        vb_total_network_nodes := vb_total_network_nodes ?b + floor_total vf_network_nodes ?b fs,
        vb_total_sensors := vb_total_sensors ?b + floor_total vf_sensors ?b fs\<rparr>))"
      using True Cons.prems by (intro Cons.IH) (simp_all add: floor_accepted_def floor_total_Cons t add.assoc)
    ultimately show ?thesis using True by (simp add: floor_total_Cons t add.assoc)
  qed
qed

text \<open>The totals of a building are exact: after registering any sequence of floors in a new building, the counters
  are the sums over the floors that were accepted (numbered 1 to the number of floors, no negative count); the
  others change nothing; and no addition overflows as long as these sums fit an \<open>int\<close>.\<close>

theorem vertical_totals_exact:
  assumes "0 < floors" and "building_init (Some b0) (Some name) (Some tower) floors = (rc, Some b)"
    and "in_range (floor_total vf_cameras b fs)" "in_range (floor_total vf_network_nodes b fs)" "in_range (floor_total vf_sensors b fs)"
  shows "register_all (Some b) fs = Some (Some (b\<lparr>vb_total_cameras := floor_total vf_cameras b fs,
    vb_total_network_nodes := floor_total vf_network_nodes b fs, vb_total_sensors := floor_total vf_sensors b fs\<rparr>))"
proof -
  have "vb_total_cameras b = 0" "vb_total_network_nodes b = 0" "vb_total_sensors b = 0"
    using assms(1,2) by (auto simp: building_init_def)
  then show ?thesis using register_all_totals [of b fs] assms(3-5) by simp
qed

theorem vertical_totals_exact_witness:
  "let b = \<lparr>vb_name = ''A'', vb_tower = ''T'', vb_total_floors = 3, vb_total_cameras = 0, vb_total_network_nodes = 0, vb_total_sensors = 0\<rparr>;
       fs = [\<lparr>vf_number = 1, vf_zone = ''z'', vf_cameras = 2, vf_network_nodes = 1, vf_sensors = 0\<rparr>,
             \<lparr>vf_number = 9, vf_zone = ''z'', vf_cameras = 5, vf_network_nodes = 1, vf_sensors = 0\<rparr>]
   in register_all (Some b) fs = Some (Some (b\<lparr>vb_total_cameras := floor_total vf_cameras b fs,
    vb_total_network_nodes := floor_total vf_network_nodes b fs, vb_total_sensors := floor_total vf_sensors b fs\<rparr>))"
  unfolding Let_def
  by (rule vertical_totals_exact [where floors = 3 and rc = 0 and name = "''A''" and tower = "''T''"
      and ?b0.0 = "\<lparr>vb_name = [], vb_tower = [], vb_total_floors = 0, vb_total_cameras = 0, vb_total_network_nodes = 0, vb_total_sensors = 0\<rparr>"])
    (simp_all add: building_init_def floor_total_def floor_accepted_def in_range_def INT_MAX_def)

text \<open>A floor is not marked as registered: doing it twice counts its devices twice.\<close>

theorem vertical_counts_twice:
  assumes "floor_accepted b f" and "vb_total_cameras b = 0" "vb_total_network_nodes b = 0" "vb_total_sensors b = 0"
    and "in_range (2 * vf_cameras f)" "in_range (2 * vf_network_nodes f)" "in_range (2 * vf_sensors f)"
  shows "map_option (map_option vb_total_cameras) (register_all (Some b) [f, f]) = Some (Some (2 * vf_cameras f))"
  using assms register_all_totals [of b "[f, f]"] by (simp add: floor_total_def)

text \<open>Devices whose identifiers agree in their first 63 bytes become the same device.\<close>

lemma device_id_clash:
  assumes "63 \<le> length i"
  shows "device_register d (Some (i @ x)) ty fl z v m fw = device_register d (Some (i @ y)) ty fl z v m fw"
  using assms by (cases i) (auto simp: device_register_def snprintf_buf_def split: option.splits)

end
