(* ===== verification/Files.thy ===== *)
theory Files
  imports CString ChronoExec
begin

text \<open>
  The file system as the small programs see it: a map from path names to contents, and an environment that
  says which paths can be opened and how much of what is written reaches the disk. Opening for reading needs an existing file. A file that
  cannot be opened leaves everything as it was; on a full disk a file keeps a prefix of what was written to it. \<open>guarded_log_ledger\<close> is the function that many
  programs use to report to the ledger: it hands a command line to the disabled shell.
\<close>

type_synonym files = "string \<Rightarrow> string option"

record file_env =
  fe_readable :: "string \<Rightarrow> bool"
  fe_writable :: "string \<Rightarrow> bool"
  fe_room :: "string \<Rightarrow> nat option"   \<comment> \<open>bytes that can still be written to a file, \<open>None\<close>: as many as one likes\<close>

definition fe_written :: "file_env \<Rightarrow> string \<Rightarrow> string \<Rightarrow> string" where
  \<comment> \<open>what reaches the disk; the programs ignore the results of \<open>fprintf\<close>, \<open>fwrite\<close> and \<open>fclose\<close>\<close>
  "fe_written env path bytes = (case fe_room env path of None \<Rightarrow> bytes | Some k \<Rightarrow> take k bytes)"

definition can_write :: "file_env \<Rightarrow> string \<Rightarrow> bool" where
  \<comment> \<open>the file can be opened and what is written to it reaches the disk\<close>
  "can_write env path \<longleftrightarrow> fe_writable env path \<and> fe_room env path = None"

lemma fe_written_Nil [simp]: "fe_written env path [] = []"
  by (simp add: fe_written_def split: option.splits)

lemma can_write_simps [simp]: "can_write env path \<Longrightarrow> fe_writable env path" "can_write env path \<Longrightarrow> fe_written env path bytes = bytes"
  by (simp_all add: can_write_def fe_written_def)

definition f_read :: "file_env \<Rightarrow> files \<Rightarrow> string \<Rightarrow> string option" where
  "f_read env fs path = (if fe_readable env path then fs path else None)"

definition f_append :: "file_env \<Rightarrow> files \<Rightarrow> string \<Rightarrow> string \<Rightarrow> files option" where
  \<comment> \<open>\<open>fopen(path, "a")\<close>, the writes, as far as there is room, and \<open>fclose\<close>; \<open>None\<close> is a \<open>NULL\<close> stream\<close>
  "f_append env fs path text =
     (if fe_writable env path then Some (fs(path \<mapsto> (case fs path of None \<Rightarrow> [] | Some c \<Rightarrow> c) @ fe_written env path text)) else None)"

definition f_write :: "file_env \<Rightarrow> files \<Rightarrow> string \<Rightarrow> string \<Rightarrow> files option" where
  "f_write env fs path text = (if fe_writable env path then Some (fs(path \<mapsto> fe_written env path text)) else None)"

definition f_append_or_skip :: "file_env \<Rightarrow> files \<Rightarrow> string \<Rightarrow> string \<Rightarrow> files" where
  \<comment> \<open>\<open>if (f) { ... }\<close>: a failed open is ignored\<close>
  "f_append_or_skip env fs path text = (case f_append env fs path text of None \<Rightarrow> fs | Some fs' \<Rightarrow> fs')"

definition open_env :: file_env where
  "open_env = \<lparr>fe_readable = \<lambda>_. True, fe_writable = \<lambda>_. True, fe_room = \<lambda>_. None\<rparr>"

lemma open_env_simps [simp]: "fe_readable open_env p" "fe_writable open_env p" "can_write open_env p" "fe_written open_env p bytes = bytes"
    "fe_room open_env p = None"
  by (simp_all add: open_env_def can_write_def fe_written_def)

lemma f_read_other [simp]: "q \<noteq> p \<Longrightarrow> f_read env (fs(p \<mapsto> t)) q = f_read env fs q"
  by (simp add: f_read_def)

definition guarded_log_ledger :: "string \<Rightarrow> string \<Rightarrow> int" where
  "guarded_log_ledger event_type details = chrono_system_disabled
     (Some (snprintf_buf 1024 (''./bin/chrono-ledger append '' @ QUOTE # event_type @ QUOTE # '' '' @ QUOTE # details @ QUOTE # '' 2>/dev/null'')))"

lemma guarded_log_ledger_fails: "guarded_log_ledger ev d = -1"
  by (simp add: guarded_log_ledger_def chrono_system_disabled_def)

definition guarded_output :: "nat \<Rightarrow> string \<Rightarrow> string" where
  \<comment> \<open>\<open>f = popen(...); if (f) { fread(buf, 1, n, f); ... }\<close> on a zeroed buffer\<close>
  "guarded_output n command =
     (case chrono_popen_disabled (Some command) (Some ''r'') of None \<Rightarrow> [] | Some out \<Rightarrow> cstr (take n out))"

lemma guarded_output_empty [simp]: "guarded_output n command = []"
  by (simp add: guarded_output_def chrono_popen_disabled_def)

end
