(* ===== verification/VisitorAccess.thy ===== *)
theory VisitorAccess
  imports Files CScan CTime
begin

text \<open>
  \<open>core/community/chrono_visitor_access.c\<close>: temporary authorisations of visitors, and
  \<open>core/community/chrono_lpr.c\<close>: the whitelist of number plates. Both files hold one comma separated line for
  each entry. Operations return the files and the ledger entries asked for (which go to the disabled
  shell). \<open>junk k i\<close> is what the variable of field \<open>i\<close> holds when the conversions of line \<open>k\<close> stop before it. \<open>None\<close>
  is a run with undefined behaviour: a write to a \<open>NULL\<close> stream or a product that overflows.
\<close>

section \<open>Visitors\<close>

type_synonym requests = "(string \<times> string) list"

record visitor_env =
  ve_clock :: clock
  ve_files :: file_env
  ve_remove :: bool   \<comment> \<open>\<open>remove(ACCESS_DB)\<close>\<close>
  ve_rename :: bool   \<comment> \<open>\<open>rename(tmpfile, ACCESS_DB)\<close>\<close>

definition ACCESS_DB :: string where "ACCESS_DB = ''./var/db/visitor_access.csv''"
definition ACCESS_TMP :: string where "ACCESS_TMP = ''./var/db/visitor_access.tmp''"

definition grant_access ::
  "visitor_env \<Rightarrow> string \<Rightarrow> string \<Rightarrow> string \<Rightarrow> int \<Rightarrow> files \<Rightarrow> (files \<times> requests) option" where
  "grant_access env visitor_name visitor_id resident hours_valid fs =
     (if hours_valid * 3600 < - (2 ^ 31) \<or> hours_valid * 3600 \<ge> 2 ^ 31 then None
      else
        let ck = ve_clock env; now = ck_now ck; expires = now + hours_valid * 3600;
            now_buf = fmt_iso (ck_localtime ck now); exp_buf = fmt_iso (ck_localtime ck expires) in
        (case f_append (ve_files env) fs ACCESS_DB (visitor_name @ COMMA # visitor_id @ COMMA # resident @ COMMA #
            now_buf @ COMMA # exp_buf @ '',ACTIVE'' @ [NL]) of
           None \<Rightarrow> Some (fs, [])
         | Some fs \<Rightarrow> Some (fs, [(''VISITOR_ACCESS_GRANTED'', snprintf_buf 512 (''visitante='' @ visitor_name @ '' id='' @ visitor_id @
             '' residente='' @ resident @ '' valido_hasta='' @ exp_buf))])))"

definition visitor_format :: "scan_item list" where
  \<comment> \<open>\<open>%127[^,],%63[^,],%127[^,],%31[^,],%31[^,],%15[^\n]\<close>\<close>
  "visitor_format = [Upto 127 COMMA, Lit COMMA, Upto 63 COMMA, Lit COMMA, Upto 127 COMMA, Lit COMMA, Upto 31 COMMA, Lit COMMA,
     Upto 31 COMMA, Lit COMMA, Upto 15 NL]"

definition visitor_fields :: "(nat \<Rightarrow> string) \<Rightarrow> string \<Rightarrow> string list" where
  \<comment> \<open>\<open>name\<close>, \<open>id\<close>, \<open>resident\<close>, \<open>created\<close>, \<open>expires\<close> and \<open>status\<close> after the \<open>sscanf\<close> on one line\<close>
  "visitor_fields junk raw = (let vs = scan visitor_format (cstr raw) in map (\<lambda>i. str_at vs i (junk i)) [0..<6])"

definition access_expiry :: "clock \<Rightarrow> string \<Rightarrow> int" where
  \<comment> \<open>\<open>strptime(expires, ..., &tm_exp); mktime(&tm_exp)\<close>\<close>
  "access_expiry ck expires = ck_mktime ck (fst (strptime_iso expires))"

fun check_lines ::
  "clock \<Rightarrow> (nat \<Rightarrow> nat \<Rightarrow> string) \<Rightarrow> nat \<Rightarrow> string \<Rightarrow> string list \<Rightarrow> int \<times> requests" where
  "check_lines ck junk k visitor_id [] = (0, [])"
| "check_lines ck junk k visitor_id (raw # raws) =
     (let fields = visitor_fields (junk k) raw; name = fields ! 0; ident = fields ! 1; resident = fields ! 2; expires = fields ! 4 in
      if ident = visitor_id \<and> fields ! 5 = ''ACTIVE'' then
        (if ck_now ck \<le> access_expiry ck expires then
           (1, [(''VISITOR_ACCESS_USED'', snprintf_buf 512 (''visitante='' @ name @ '' id='' @ ident @ '' residente='' @ resident))])
         else (-1, [(''VISITOR_ACCESS_EXPIRED'', snprintf_buf 512 (''visitante='' @ name @ '' id='' @ ident @ '' expiro='' @ expires))]))
      else check_lines ck junk (Suc k) visitor_id raws)"

definition check_access :: "visitor_env \<Rightarrow> (nat \<Rightarrow> nat \<Rightarrow> string) \<Rightarrow> string \<Rightarrow> files \<Rightarrow> bool \<times> requests" where
  "check_access env junk visitor_id fs =
     (case f_read (ve_files env) fs ACCESS_DB of
        None \<Rightarrow> (False, [])
      | Some db \<Rightarrow>
          let (found, reqs) = check_lines (ve_clock env) junk 0 visitor_id (read_lines 511 db) in
          (found = 1, if found = 0 then [(''VISITOR_ACCESS_DENIED'', visitor_id)] else reqs))"

fun revoke_lines :: "(nat \<Rightarrow> nat \<Rightarrow> string) \<Rightarrow> nat \<Rightarrow> string \<Rightarrow> string list \<Rightarrow> string \<times> bool" where
  \<comment> \<open>what is written to the temporary file, and \<open>revoked\<close>\<close>
  "revoke_lines junk k visitor_id [] = ([], False)"
| "revoke_lines junk k visitor_id (raw # raws) =
     (let fields = visitor_fields (junk k) raw; (out, revoked) = revoke_lines junk (Suc k) visitor_id raws in
      if fields ! 1 = visitor_id \<and> fields ! 5 = ''ACTIVE'' then
        (fields ! 0 @ COMMA # fields ! 1 @ COMMA # fields ! 2 @ COMMA # fields ! 3 @ COMMA # fields ! 4 @ '',REVOKED'' @ NL # out, True)
      else (cstr raw @ out, revoked))"

definition replace_db :: "visitor_env \<Rightarrow> files \<Rightarrow> files" where
  "replace_db env fs =
     (let fs = (if ve_remove env then fs(ACCESS_DB := None) else fs) in
      if ve_rename env then fs(ACCESS_DB := fs ACCESS_TMP, ACCESS_TMP := None) else fs)"

definition revoke_access ::
  "visitor_env \<Rightarrow> (nat \<Rightarrow> nat \<Rightarrow> string) \<Rightarrow> string \<Rightarrow> files \<Rightarrow> (files \<times> requests) option" where
  "revoke_access env junk visitor_id fs =
     (case f_read (ve_files env) fs ACCESS_DB of
        None \<Rightarrow> Some (fs, [])
      | Some db \<Rightarrow>
          let (out, revoked) = revoke_lines junk 0 visitor_id (read_lines 511 db) in
          (case f_write (ve_files env) fs ACCESS_TMP out of
             None \<Rightarrow> None
           | Some fs \<Rightarrow> Some (replace_db env fs, if revoked then [(''VISITOR_ACCESS_REVOKED'', visitor_id)] else [])))"

definition visitor_main ::
  "visitor_env \<Rightarrow> (nat \<Rightarrow> nat \<Rightarrow> string) \<Rightarrow> string list \<Rightarrow> files \<Rightarrow> (int \<times> files \<times> requests) option" where
  "visitor_main env junk argv fs =
     (if length argv < 2 then Some (1, fs, [])
      else if argv ! 1 = ''grant'' \<and> length argv \<ge> 6 then
        map_option (Pair 0) (grant_access env (argv ! 2) (argv ! 3) (argv ! 4) (c_atoi (argv ! 5)) fs)
      else if argv ! 1 = ''check'' \<and> length argv \<ge> 3 then
        (case check_access env junk (argv ! 2) fs of (ok, reqs) \<Rightarrow> Some (if ok then 0 else 1, fs, reqs))
      else if argv ! 1 = ''revoke'' \<and> length argv \<ge> 3 then map_option (Pair 0) (revoke_access env junk (argv ! 2) fs)
      else Some (1, fs, []))"

section \<open>The register of visitors\<close>

record visitor_entry =
  ent_name :: string
  ent_id :: string
  ent_resident :: string
  ent_created :: string
  ent_expires :: string
  ent_active :: bool

definition entry_line :: "visitor_entry \<Rightarrow> string" where
  "entry_line e = ent_name e @ COMMA # ent_id e @ COMMA # ent_resident e @ COMMA # ent_created e @ COMMA # ent_expires e @
     (if ent_active e then '',ACTIVE'' else '',REVOKED'')"

definition field_ok :: "nat \<Rightarrow> string \<Rightarrow> bool" where
  "field_ok n s \<longleftrightarrow> s \<noteq> [] \<and> length s \<le> n \<and> COMMA \<notin> set s \<and> NL \<notin> set s \<and> NUL \<notin> set s"

definition entry_ok :: "visitor_entry \<Rightarrow> bool" where
  "entry_ok e \<longleftrightarrow> field_ok 127 (ent_name e) \<and> field_ok 63 (ent_id e) \<and> field_ok 127 (ent_resident e) \<and>
     field_ok 31 (ent_created e) \<and> field_ok 31 (ent_expires e)"

definition register :: "visitor_entry list \<Rightarrow> string" where
  "register es = unlines (map entry_line es)"

lemma visitor_fields_entry:
  assumes "entry_ok e"
  shows "visitor_fields junk (entry_line e @ [NL]) =
    [ent_name e, ent_id e, ent_resident e, ent_created e, ent_expires e, if ent_active e then ''ACTIVE'' else ''REVOKED'']"
proof -
  have "cstr (entry_line e @ [NL]) = entry_line e @ [NL]"
    using assms by (intro cstr_no_nul) (auto simp: entry_ok_def field_ok_def entry_line_def)
  moreover have "scan visitor_format (entry_line e @ [NL]) =
    map VS [ent_name e, ent_id e, ent_resident e, ent_created e, ent_expires e, if ent_active e then ''ACTIVE'' else ''REVOKED'']"
  proof -
    have st: "scan [Upto 15 NL] (''ACTIVE'' @ [NL]) = [VS ''ACTIVE'']" "scan [Upto 15 NL] (''REVOKED'' @ [NL]) = [VS ''REVOKED'']"
      by (subst scan_field; simp)+
    show ?thesis using assms st
      by (auto simp: entry_ok_def field_ok_def entry_line_def visitor_format_def scan_field)
  qed
  ultimately show ?thesis by (simp add: visitor_fields_def Let_def upt_conv_Cons)
qed

lemma iso_field: "tm_ok t \<Longrightarrow> field_ok 31 (fmt_iso t)"
proof -
  assume "tm_ok t"
  then have "length (fmt_iso t) \<le> 31" using length_fmt_year [of t] by simp
  moreover have "fmt_iso t \<noteq> []" using length_fmt_iso [of t] by (metis add_is_0 length_0_conv zero_neq_numeral)
  ultimately show ?thesis by (simp add: field_ok_def fmt_iso_free)
qed

lemma register_lines: "list_all entry_ok es \<Longrightarrow> read_lines 511 (register es) = map (\<lambda>e. entry_line e @ [NL]) es"
proof -
  assume "list_all entry_ok es"
  then have "short_lines 511 (map entry_line es)"
    by (auto simp: short_lines_def list_all_iff entry_ok_def field_ok_def entry_line_def)
  then show ?thesis unfolding register_def by (simp add: read_lines_unlines)
qed

lemma register_simps [simp]: "register [] = []" "register (e # es) = entry_line e @ NL # register es"
  by (simp_all add: register_def)

lemma entry_line_revoked: "entry_line (e\<lparr>ent_active := False\<rparr>) =
    ent_name e @ COMMA # ent_id e @ COMMA # ent_resident e @ COMMA # ent_created e @ COMMA # ent_expires e @ '',REVOKED''"
  by (simp add: entry_line_def)

lemma access_expiry_fmt: "clock_ok ck t \<Longrightarrow> access_expiry ck (fmt_iso (ck_localtime ck t)) = t"
  using strptime_iso_fmt [of "ck_localtime ck t" "[]"] by (simp add: access_expiry_def clock_ok_def)

definition matches :: "string \<Rightarrow> visitor_entry \<Rightarrow> bool" where
  "matches i e \<longleftrightarrow> ent_id e = i \<and> ent_active e"

lemma check_lines_register:
  "list_all entry_ok es \<Longrightarrow>
     fst (check_lines ck junk k i (map (\<lambda>e. entry_line e @ [NL]) es)) =
     (case find (matches i) es of None \<Rightarrow> 0 | Some e \<Rightarrow> if ck_now ck \<le> access_expiry ck (ent_expires e) then 1 else -1)"
  by (induction es arbitrary: k) (auto simp: visitor_fields_entry matches_def Let_def)

lemma revoke_lines_register:
  "list_all entry_ok es \<Longrightarrow>
     fst (revoke_lines junk k i (map (\<lambda>e. entry_line e @ [NL]) es)) =
     register (map (\<lambda>e. if matches i e then e\<lparr>ent_active := False\<rparr> else e) es)"
proof (induction es arbitrary: k)
  case (Cons e es)
  have "cstr (entry_line e @ [NL]) = entry_line e @ [NL]"
    using Cons.prems by (intro cstr_no_nul) (auto simp: entry_ok_def field_ok_def entry_line_def)
  moreover obtain out rv where rest: "revoke_lines junk (Suc k) i (map (\<lambda>e. entry_line e @ [NL]) es) = (out, rv)" by (cases "revoke_lines junk (Suc k) i (map (\<lambda>e. entry_line e @ [NL]) es)")
  moreover have "out = register (map (\<lambda>e. if matches i e then e\<lparr>ent_active := False\<rparr> else e) es)"
    using Cons.IH [of "Suc k"] Cons.prems rest by simp
  moreover have "visitor_fields (junk k) (entry_line e @ [NL]) =
      [ent_name e, ent_id e, ent_resident e, ent_created e, ent_expires e, if ent_active e then ''ACTIVE'' else ''REVOKED'']"
    using Cons.prems by (intro visitor_fields_entry) simp
  ultimately show ?case
    by (cases "matches i e") (auto simp: matches_def Let_def entry_line_revoked)
qed simp

lemma visitor_check_spec_lemma:
  assumes "list_all entry_ok es" and "f_read (ve_files env) fs ACCESS_DB = Some (register es)"
  shows "fst (check_access env junk i fs) \<longleftrightarrow>
    (\<exists>e. find (matches i) es = Some e \<and> ck_now (ve_clock env) \<le> access_expiry (ve_clock env) (ent_expires e))"
  using check_lines_register [OF assms(1), of "ve_clock env" junk 0 i] assms
  by (auto simp: check_access_def register_lines split: prod.splits option.splits if_splits)


lemma revoke_access_register:
  assumes "list_all entry_ok es" and "fs ACCESS_DB = Some (register es)"
    and "fe_readable (ve_files env) ACCESS_DB" and "can_write (ve_files env) ACCESS_TMP" and "ve_rename env"
    and "revoke_access env junk i fs = Some (fs', reqs)"
  shows "fs' ACCESS_DB = Some (register (map (\<lambda>e. if matches i e then e\<lparr>ent_active := False\<rparr> else e) es))"
proof -
  let ?lines = "map (\<lambda>e. entry_line e @ [NL]) es"
  have ne: "ACCESS_DB \<noteq> ACCESS_TMP" by (simp add: ACCESS_DB_def ACCESS_TMP_def)
  obtain out rv where out: "revoke_lines junk 0 i ?lines = (out, rv)" by (cases "revoke_lines junk 0 i ?lines")
  then have "out = register (map (\<lambda>e. if matches i e then e\<lparr>ent_active := False\<rparr> else e) es)"
    using revoke_lines_register [OF assms(1), of junk 0 i] by simp
  moreover have "fs' = replace_db env (fs(ACCESS_TMP \<mapsto> out))"
    using assms(3,4,6) unfolding revoke_access_def f_read_def f_write_def assms(2)
    by (simp add: register_lines [OF assms(1)] out)
  ultimately show ?thesis using assms(5) ne by (simp add: replace_db_def Let_def)
qed

lemma matches_revoked:
  "matches j (if matches i e then e\<lparr>ent_active := False\<rparr> else e) \<longleftrightarrow> matches j e \<and> j \<noteq> i"
  "matches j e \<Longrightarrow> j \<noteq> i \<Longrightarrow> (if matches i e then e\<lparr>ent_active := False\<rparr> else e) = e"
  by (auto simp: matches_def)

lemma find_revoked:
  "find (matches j) (map (\<lambda>e. if matches i e then e\<lparr>ent_active := False\<rparr> else e) es) = (if j = i then None else find (matches j) es)"
  by (induction es) (use matches_revoked in \<open>auto simp del: if_split\<close>)

text \<open>C19: A revocation is final when the register can be replaced: over a file of well-formed entries that can be read, with a temporary
  file that can be opened and written in full and a \<open>rename\<close> that succeeds (its result is ignored), every later check of the visitor is
  refused, at any time, and for every other identifier the gate decides as before.\<close>

theorem visitor_revocation:
  assumes "list_all entry_ok es" and "fs ACCESS_DB = Some (register es)"
    and "fe_readable (ve_files env) ACCESS_DB" and "can_write (ve_files env) ACCESS_TMP" and "ve_rename env"
    and "revoke_access env junk i fs = Some (fs', reqs)"
  shows "\<not> fst (check_access (env\<lparr>ve_clock := ck\<rparr>) junk' i fs') \<and>
    (j \<noteq> i \<longrightarrow> fst (check_access (env\<lparr>ve_clock := ck\<rparr>) junk' j fs') = fst (check_access (env\<lparr>ve_clock := ck\<rparr>) junk' j fs))"
proof -
  let ?es = "map (\<lambda>e. if matches i e then e\<lparr>ent_active := False\<rparr> else e) es"
  have ok: "list_all entry_ok ?es" using assms(1) by (auto simp: list_all_iff entry_ok_def)
  have "fs' ACCESS_DB = Some (register ?es)" using assms by (rule revoke_access_register)
  then have new: "f_read (ve_files (env\<lparr>ve_clock := ck\<rparr>)) fs' ACCESS_DB = Some (register ?es)"
    using assms(3) by (simp add: f_read_def)
  have old: "f_read (ve_files (env\<lparr>ve_clock := ck\<rparr>)) fs ACCESS_DB = Some (register es)"
    using assms(2,3) by (simp add: f_read_def)
  show ?thesis
    unfolding visitor_check_spec_lemma [OF ok new] visitor_check_spec_lemma [OF assms(1) old]
    by (simp add: find_revoked)
qed

definition demo_entry :: "string \<Rightarrow> visitor_entry" where
  "demo_entry expires = \<lparr>ent_name = ''Ana'', ent_id = ''7'', ent_resident = ''Bo'', ent_created = ''2026-01-01T00:00:00'',
     ent_expires = expires, ent_active = True\<rparr>"

definition demo_visitor_env :: "int \<Rightarrow> visitor_env" where
  "demo_visitor_env now = \<lparr>ve_clock = demo_clock now, ve_files = open_env, ve_remove = True, ve_rename = True\<rparr>"

lemma demo_visitor_simps [simp]:
  "ve_clock (demo_visitor_env now) = demo_clock now" "ve_files (demo_visitor_env now) = open_env" "ve_rename (demo_visitor_env now)"
  by (simp_all add: demo_visitor_env_def)

lemma demo_entry_ok: "entry_ok (demo_entry ''2026-01-01T01:00:00'')"
  by (simp add: entry_ok_def field_ok_def demo_entry_def)


theorem visitor_revocation_witness:
  "\<exists>fs' reqs. revoke_access (demo_visitor_env 60) (\<lambda>_ _. []) ''7'' ((\<lambda>_. None)(ACCESS_DB \<mapsto> register [demo_entry ''2026-01-01T01:00:00'']))
      = Some (fs', reqs) \<and>
    \<not> fst (check_access ((demo_visitor_env 60)\<lparr>ve_clock := demo_clock 90\<rparr>) (\<lambda>_ _. []) ''7'' fs')"
proof -
  let ?fs = "(\<lambda>_. None)(ACCESS_DB \<mapsto> register [demo_entry ''2026-01-01T01:00:00''])"
  have "revoke_access (demo_visitor_env 60) (\<lambda>_ _. []) ''7'' ?fs \<noteq> None"
    by (simp add: revoke_access_def f_read_def f_write_def split: prod.splits)
  then obtain fs' reqs where r: "revoke_access (demo_visitor_env 60) (\<lambda>_ _. []) ''7'' ?fs = Some (fs', reqs)" by auto
  have "\<not> fst (check_access ((demo_visitor_env 60)\<lparr>ve_clock := demo_clock 90\<rparr>) (\<lambda>_ _. []) ''7'' fs')"
    by (rule visitor_revocation [OF _ _ _ _ _ r, THEN conjunct1, of "[demo_entry ''2026-01-01T01:00:00'']"])
      (simp_all only: list.pred_inject demo_entry_ok demo_visitor_simps open_env_simps fun_upd_same)
  with r show ?thesis by blast
qed

text \<open>The results of \<open>remove\<close> and \<open>rename\<close> are ignored, and the ledger is told of the revocation in any case: when both fail the
  gate decides as if nothing had been revoked, and when only the renaming fails it refuses everybody.\<close>

theorem visitor_revocation_lost:
  assumes "\<not> ve_rename env" and "revoke_access env junk i fs = Some (fs', reqs)" and "f_read (ve_files env) fs ACCESS_DB \<noteq> None"
  shows "fst (check_access (env\<lparr>ve_clock := ck\<rparr>) junk' j fs') \<longleftrightarrow>
    \<not> ve_remove env \<and> fst (check_access (env\<lparr>ve_clock := ck\<rparr>) junk' j fs)"
proof -
  have ne: "ACCESS_DB \<noteq> ACCESS_TMP" by (simp add: ACCESS_DB_def ACCESS_TMP_def)
  obtain t where "fs' = (if ve_remove env then (fs(ACCESS_TMP := t))(ACCESS_DB := None) else fs(ACCESS_TMP := t))"
    using assms by (auto simp: revoke_access_def replace_db_def f_write_def Let_def split: prod.splits option.splits if_splits)
  then have "f_read (ve_files env) fs' ACCESS_DB = (if ve_remove env then None else f_read (ve_files env) fs ACCESS_DB)"
    using ne by (auto simp: f_read_def)
  then show ?thesis by (simp add: check_access_def split: option.splits)
qed

text \<open>A grant is honoured for exactly its window: when no active entry of the identifier is on file, a check after the grant
  admits the visitor up to and including the moment of expiry, which is the given number of hours after the grant.\<close>

theorem visitor_grant_window:
  assumes "list_all entry_ok es" and "fs ACCESS_DB = Some (register es)" and "find (matches i) es = None"
    and "field_ok 127 name" and "field_ok 63 i" and "field_ok 127 resident"
    and "ve_files env = open_env" and "grant_access env name i resident hours fs = Some (fs', reqs)"
    and "clock_ok (ve_clock env) (ck_now (ve_clock env))" and "clock_ok (ve_clock env) (ck_now (ve_clock env) + hours * 3600)"
  shows "fst (check_access (env\<lparr>ve_clock := (ve_clock env)\<lparr>ck_now := later\<rparr>\<rparr>) junk i fs') \<longleftrightarrow> later \<le> ck_now (ve_clock env) + hours * 3600"
proof -
  let ?ck = "ve_clock env" let ?exp = "ck_now (ve_clock env) + hours * 3600"
  let ?e = "\<lparr>ent_name = name, ent_id = i, ent_resident = resident, ent_created = fmt_iso (ck_localtime ?ck (ck_now ?ck)),
    ent_expires = fmt_iso (ck_localtime ?ck ?exp), ent_active = True\<rparr>"
  have ok: "list_all entry_ok (es @ [?e])"
    using assms by (simp add: entry_ok_def iso_field clock_ok_def)
  have "fs' ACCESS_DB = Some (register (es @ [?e]))"
    using assms(2,7,8) by (auto simp: grant_access_def Let_def f_append_def register_def entry_line_def split: if_splits)
  then have "f_read (ve_files (env\<lparr>ve_clock := ?ck\<lparr>ck_now := later\<rparr>\<rparr>)) fs' ACCESS_DB = Some (register (es @ [?e]))"
    using assms(7) by (simp add: f_read_def)
  moreover have "find (matches i) (es @ [?e]) = Some ?e"
    using assms(3) by (induction es) (auto simp: matches_def split: if_splits)
  moreover have "access_expiry (?ck\<lparr>ck_now := later\<rparr>) (fmt_iso (ck_localtime ?ck ?exp)) = ?exp"
    using assms(10) strptime_iso_fmt [of "ck_localtime ?ck ?exp" "[]"] by (simp add: access_expiry_def clock_ok_def)
  ultimately show ?thesis using visitor_check_spec_lemma [OF ok, of "env\<lparr>ve_clock := ?ck\<lparr>ck_now := later\<rparr>\<rparr>" fs' junk i] by simp
qed

text \<open>An expired authorisation hides a newer one: as long as the first active entry of a visitor has expired, the gate refuses
  the visitor, whatever has been granted since.\<close>

theorem visitor_expired_shadows:
  assumes "list_all entry_ok (e # es)" and "matches i e" and "access_expiry (ve_clock env) (ent_expires e) < ck_now (ve_clock env)"
    and "f_read (ve_files env) fs ACCESS_DB = Some (register (e # es))"
  shows "\<not> fst (check_access env junk i fs)"
  using visitor_check_spec_lemma [OF assms(1,4), of junk i] assms(2,3) by simp

theorem visitor_grant_window_witness:
  "\<exists>fs' reqs. fst (check_access ((demo_visitor_env 60)\<lparr>ve_clock := (ve_clock (demo_visitor_env 60))\<lparr>ck_now := 7260\<rparr>\<rparr>) (\<lambda>_ _. []) ''7'' fs')
    \<longleftrightarrow> (7260::int) \<le> ck_now (ve_clock (demo_visitor_env 60)) + 2 * 3600"
proof -
  let ?fs = "(\<lambda>_. None)(ACCESS_DB \<mapsto> register [])"
  have "grant_access (demo_visitor_env 60) ''Ana'' ''7'' ''Bo'' 2 ?fs \<noteq> None"
    by (simp add: grant_access_def Let_def f_append_def split: option.splits)
  then obtain fs' reqs where g: "grant_access (demo_visitor_env 60) ''Ana'' ''7'' ''Bo'' 2 ?fs = Some (fs', reqs)" by auto
  have "fst (check_access ((demo_visitor_env 60)\<lparr>ve_clock := (ve_clock (demo_visitor_env 60))\<lparr>ck_now := 7260\<rparr>\<rparr>) (\<lambda>_ _. []) ''7'' fs')
    \<longleftrightarrow> (7260::int) \<le> ck_now (ve_clock (demo_visitor_env 60)) + 2 * 3600"
    by (rule visitor_grant_window [OF _ _ _ _ _ _ _ g, of "[]"]) (simp_all add: field_ok_def demo_clock_ok)
  then show ?thesis by blast
qed

theorem visitor_expired_shadows_witness:
  "\<not> fst (check_access (demo_visitor_env 7200) (\<lambda>_ _. []) ''7''
     ((\<lambda>_. None)(ACCESS_DB \<mapsto> register [demo_entry (fmt_iso (ck_localtime (demo_clock 7200) 3600)), demo_entry ''2026-01-01T05:00:00''])))"
proof (rule visitor_expired_shadows)
  have ck: "clock_ok (demo_clock 7200) 3600" by (rule demo_clock_ok) simp_all
  then have "field_ok 31 (fmt_iso (ck_localtime (demo_clock 7200) 3600))" by (intro iso_field) (simp add: clock_ok_def)
  then show "list_all entry_ok [demo_entry (fmt_iso (ck_localtime (demo_clock 7200) 3600)), demo_entry ''2026-01-01T05:00:00'']"
    by (simp add: entry_ok_def demo_entry_def) (simp add: field_ok_def)
  show "access_expiry (ve_clock (demo_visitor_env 7200)) (ent_expires (demo_entry (fmt_iso (ck_localtime (demo_clock 7200) 3600))))
      < ck_now (ve_clock (demo_visitor_env 7200))"
    by (simp add: demo_entry_def access_expiry_fmt [OF ck])
qed (simp_all add: f_read_def matches_def demo_entry_def)

section \<open>Number plates\<close>

definition PLATE_WHITELIST :: string where "PLATE_WHITELIST = ''./etc/chrono/plate_whitelist.conf''"

definition c_isupper :: "char \<Rightarrow> bool" where "c_isupper c \<longleftrightarrow> 65 \<le> code c \<and> code c \<le> 90"
definition c_islower :: "char \<Rightarrow> bool" where "c_islower c \<longleftrightarrow> 97 \<le> code c \<and> code c \<le> 122"
definition c_isalnum :: "char \<Rightarrow> bool" where "c_isalnum c \<longleftrightarrow> c_isdigit c \<or> c_isupper c \<or> c_islower c"
definition c_toupper :: "char \<Rightarrow> char" where "c_toupper c = (if c_islower c then char_of (code c - 32) else c)"

definition normalize_plate :: "string \<Rightarrow> string" where
  "normalize_plate plate = map c_toupper (filter c_isalnum plate)"

fun plate_owner :: "string \<Rightarrow> string list \<Rightarrow> string option" where
  \<comment> \<open>the loop over the whitelist\<close>
  "plate_owner plate [] = None"
| "plate_owner plate (raw # raws) =
     (let line = cstr raw; vs = scan [Upto 31 COMMA, Lit COMMA, Upto 63 NL] line in
      if line \<noteq> [] \<and> (hd line = CHR ''#'' \<or> hd line = NL) then plate_owner plate raws
      else if length vs = 2 \<and> plate = normalize_plate (str_at vs 0 []) then Some (str_at vs 1 [])
      else plate_owner plate raws)"

definition check_plate :: "file_env \<Rightarrow> string \<Rightarrow> files \<Rightarrow> bool \<times> requests" where
  "check_plate env raw_plate fs =
     (let plate = normalize_plate (take 31 raw_plate) in
      case f_read env fs PLATE_WHITELIST of
        None \<Rightarrow> (False, [])
      | Some text \<Rightarrow>
          (case plate_owner plate (read_lines 127 text) of
             Some owner \<Rightarrow> (True, [(''LPR_ACCESS_GRANTED'', snprintf_buf 256 (''placa='' @ plate @ '' propietario='' @ owner))])
           | None \<Rightarrow> (False, [(''LPR_ACCESS_UNKNOWN'', plate)])))"

definition lpr_main :: "file_env \<Rightarrow> string list \<Rightarrow> files \<Rightarrow> int \<times> requests" where
  "lpr_main env argv fs =
     (if length argv < 2 then (1, [])
      else (case check_plate env (argv ! 1) fs of (ok, reqs) \<Rightarrow> (if ok then 0 else 1, reqs)))"

definition plate_line_ok :: "string \<times> string \<Rightarrow> bool" where
  "plate_line_ok = (\<lambda>(p, ow). field_ok 31 p \<and> hd p \<noteq> CHR ''#'' \<and> ow \<noteq> [] \<and> length ow \<le> 63 \<and> NL \<notin> set ow \<and> NUL \<notin> set ow)"

definition plate_text :: "(string \<times> string) list \<Rightarrow> string" where
  "plate_text ps = unlines (map (\<lambda>(p, ow). p @ COMMA # ow) ps)"

lemma find_ne_None: "find P xs \<noteq> None \<longleftrightarrow> (\<exists>x \<in> set xs. P x)"
  by (auto simp: find_None_iff)

lemma plate_owner_text:
  "list_all plate_line_ok ps \<Longrightarrow>
     plate_owner plate (map (\<lambda>(p, ow). p @ COMMA # ow @ [NL]) ps) = map_option snd (find (\<lambda>(p, ow). normalize_plate p = plate) ps)"
proof (induction ps)
  case (Cons e ps)
  obtain p ow where e: "e = (p, ow)" by (cases e)
  have ok: "p \<noteq> []" "length p \<le> 31" "COMMA \<notin> set p" "NL \<notin> set p" "NUL \<notin> set p" "hd p \<noteq> CHR ''#''"
    "ow \<noteq> []" "length ow \<le> 63" "NL \<notin> set ow" "NUL \<notin> set ow"
    using Cons.prems by (auto simp: e plate_line_ok_def field_ok_def)
  then have "cstr (p @ COMMA # ow @ [NL]) = p @ COMMA # ow @ [NL]" by (intro cstr_no_nul) auto
  moreover have "scan [Upto 31 COMMA, Lit COMMA, Upto 63 NL] (p @ COMMA # ow @ [NL]) = [VS p, VS ow]"
    using ok by (simp add: scan_field)
  moreover have "hd p \<noteq> NL" using ok by (metis hd_in_set)
  ultimately show ?case using Cons ok by (auto simp: e)
qed simp

text \<open>The gate opens for exactly the listed plates up to spelling: over a well-formed whitelist, a plate is
  accepted if and only if its letters and digits, in capitals, are those of a listed plate.\<close>

theorem lpr_decision:
  assumes "list_all plate_line_ok ps" and "f_read env fs PLATE_WHITELIST = Some (plate_text ps)"
  shows "fst (check_plate env raw fs) \<longleftrightarrow> (\<exists>(p, ow) \<in> set ps. normalize_plate p = normalize_plate (take 31 raw))"
proof -
  have "short_lines 127 (map (\<lambda>(p, ow). p @ COMMA # ow) ps)"
    using assms(1) by (auto simp: short_lines_def list_all_iff plate_line_ok_def field_ok_def)
  then have "read_lines 127 (plate_text ps) = map (\<lambda>l. l @ [NL]) (map (\<lambda>(p, ow). p @ COMMA # ow) ps)"
    unfolding plate_text_def by (rule read_lines_unlines)
  also have "\<dots> = map (\<lambda>(p, ow). p @ COMMA # ow @ [NL]) ps" by (simp add: case_prod_beta)
  finally have "fst (check_plate env raw fs) \<longleftrightarrow> find (\<lambda>(p, ow). normalize_plate p = normalize_plate (take 31 raw)) ps \<noteq> None"
    using assms(2) plate_owner_text [OF assms(1), of "normalize_plate (take 31 raw)"]
    by (auto simp: check_plate_def Let_def split: option.splits)
  then show ?thesis unfolding find_ne_None .
qed

theorem lpr_decision_witness:
  "fst (check_plate open_env ''abc-123'' ((\<lambda>_. None)(PLATE_WHITELIST \<mapsto> plate_text [(''ABC 123'', ''Ana'')])))
   \<longleftrightarrow> (\<exists>(p, ow) \<in> set [(''ABC 123'', ''Ana'')]. normalize_plate p = normalize_plate (take 31 ''abc-123''))"
  by (rule lpr_decision) (simp_all add: plate_line_ok_def field_ok_def f_read_def)

end
