(* ===== verification/DeathMemory.thy ===== *)
theory DeathMemory
  imports Files CScan CTime
begin

text \<open>
  \<open>core/supervisor/chrono_death_memory.c\<close>: the record of process deaths and the detection of services that die too
  often. \<open>junk k i\<close> is what the variable of field \<open>i\<close> holds when the conversions of line \<open>k\<close> stop before it; \<open>None\<close> is
  a run that writes to a \<open>NULL\<close> stream. The second result are the ledger entries asked for.
\<close>

definition DEATH_LOG :: string where "DEATH_LOG = ''./var/logs/process_death_memory.csv''"
definition ANOMALY_THRESHOLD :: nat where "ANOMALY_THRESHOLD = 5"
definition TIME_WINDOW_SEC :: int where "TIME_WINDOW_SEC = 60"

definition death_cause :: "int \<Rightarrow> int \<Rightarrow> string" where
  "death_cause exit_val signal_num =
     (if signal_num > 0 then ''signal'' else if exit_val \<noteq> 0 then ''error_exit'' else ''normal_exit'')"

definition death_line :: "tm \<Rightarrow> string \<Rightarrow> int \<Rightarrow> int \<Rightarrow> string" where
  "death_line now service_name exit_val signal_num =
     fmt_plain now @ COMMA # service_name @ COMMA # death_cause exit_val signal_num @ COMMA # int_str exit_val @ COMMA # int_str signal_num"

fun recent_deaths :: "clock \<Rightarrow> (nat \<Rightarrow> nat \<Rightarrow> string) \<Rightarrow> nat \<Rightarrow> string \<Rightarrow> string list \<Rightarrow> nat" where
  "recent_deaths ck junk k service_name [] = 0"
| "recent_deaths ck junk k service_name (raw # raws) =
     (let vs = scan [Upto 31 COMMA, Lit COMMA, Upto 127 COMMA] (cstr raw);
          entry_time = str_at vs 0 (junk k 0); entry_service = str_at vs 1 (junk k 1);
          rest = recent_deaths ck junk (Suc k) service_name raws in
      if entry_service = service_name \<and> ck_mktime ck (fst (strptime_plain entry_time)) \<ge> ck_now ck - TIME_WINDOW_SEC
      then Suc rest else rest)"

definition record_death ::
  "clock \<Rightarrow> file_env \<Rightarrow> (nat \<Rightarrow> nat \<Rightarrow> string) \<Rightarrow> string \<Rightarrow> int \<Rightarrow> int \<Rightarrow> files \<Rightarrow> (files \<times> (string \<times> string) list) option" where
  "record_death ck env junk service_name exit_val signal_num fs =
     (case f_append env fs DEATH_LOG (death_line (ck_localtime ck (ck_now ck)) service_name exit_val signal_num @ [NL]) of
        None \<Rightarrow> None
      | Some fs \<Rightarrow>
          let recorded = (''PROCESS_DEATH_RECORDED'', snprintf_buf 256 (''servicio='' @ service_name @ '' causa='' @
                death_cause exit_val signal_num @ '' exit='' @ int_str exit_val @ '' signal='' @ int_str signal_num)) in
          (case f_read env fs DEATH_LOG of
             None \<Rightarrow> Some (fs, [recorded])
           | Some text \<Rightarrow>
               let n = recent_deaths ck junk 0 service_name (read_lines 255 text) in
               Some (fs, if n \<ge> ANOMALY_THRESHOLD then
                   [recorded, (''PROCESS_DEATH_ANOMALY_DETECTED'', snprintf_buf 256 (''servicio='' @ service_name @ '' muertes='' @
                     int_str (int n) @ '' ventana='' @ int_str TIME_WINDOW_SEC @ ''s''))]
                 else [recorded])))"

definition death_main ::
  "clock \<Rightarrow> file_env \<Rightarrow> (nat \<Rightarrow> nat \<Rightarrow> string) \<Rightarrow> string list \<Rightarrow> files \<Rightarrow> (int \<times> files \<times> (string \<times> string) list) option" where
  "death_main ck env junk argv fs =
     (if length argv < 4 then Some (1, fs, [])
      else map_option (Pair 0) (record_death ck env junk (argv ! 1) (c_atoi (argv ! 2)) (c_atoi (argv ! 3)) fs))"

section \<open>Sequences of deaths\<close>

record death =
  d_time :: int
  d_service :: string
  d_exit :: int
  d_signal :: int

definition service_ok :: "string \<Rightarrow> bool" where
  "service_ok s \<longleftrightarrow> s \<noteq> [] \<and> length s \<le> 127 \<and> COMMA \<notin> set s \<and> NL \<notin> set s \<and> NUL \<notin> set s"

definition death_ok :: "clock \<Rightarrow> death \<Rightarrow> bool" where
  "death_ok ck d \<longleftrightarrow> service_ok (d_service d) \<and> tm_ok (ck_localtime ck (d_time d)) \<and> \<bar>d_exit d\<bar> \<le> 2 ^ 31 \<and> \<bar>d_signal d\<bar> \<le> 2 ^ 31"

definition stamp_time :: "clock \<Rightarrow> death \<Rightarrow> int" where
  \<comment> \<open>the time that the program reads back from the record of a death\<close>
  "stamp_time ck d = d_time d + dst_shift ck (d_time d)"

definition line_of_death :: "clock \<Rightarrow> death \<Rightarrow> string" where
  "line_of_death ck d = death_line (ck_localtime ck (d_time d)) (d_service d) (d_exit d) (d_signal d)"

definition record_one :: "clock \<Rightarrow> (nat \<Rightarrow> nat \<Rightarrow> string) \<Rightarrow> death \<Rightarrow> files \<Rightarrow> (files \<times> (string \<times> string) list) option" where
  "record_one ck junk d = record_death (ck\<lparr>ck_now := d_time d\<rparr>) open_env junk (d_service d) (d_exit d) (d_signal d)"

fun record_deaths :: "clock \<Rightarrow> (nat \<Rightarrow> nat \<Rightarrow> string) \<Rightarrow> death list \<Rightarrow> files \<Rightarrow> files option" where
  "record_deaths ck junk [] fs = Some fs"
| "record_deaths ck junk (d # ds) fs =
     (case record_one ck junk d fs of None \<Rightarrow> None | Some (fs, reqs) \<Rightarrow> record_deaths ck junk ds fs)"

lemma plain_chars: "c \<in> set (fmt_plain t) \<Longrightarrow> stamp_char c"
  by (auto simp: fmt_plain_def dest: fmt_date_chars fmt_clock_chars) (simp add: stamp_char_def)

lemma plain_free: "\<not> stamp_char d \<Longrightarrow> d \<notin> set (fmt_plain t)"
  using plain_chars by blast

lemma length_int_str: "\<bar>i\<bar> \<le> 2 ^ 31 \<Longrightarrow> length (int_str i) \<le> 11"
proof -
  assume "\<bar>i\<bar> \<le> 2 ^ 31"
  then have "nat \<bar>i\<bar> < 10 ^ 10" by simp
  then have "length (nat_str (nat \<bar>i\<bar>)) \<le> 10" by (rule nat_str_length_mono) simp
  then show ?thesis by (auto simp: int_str_def abs_if split: if_splits)
qed

lemma int_str_free: "d \<notin> set (int_str i)" if "\<not> c_isdigit d" "d \<noteq> CHR ''-''"
  using that by (auto simp: int_str_def dest: nat_str_digits)

lemma death_line_short:
  assumes "death_ok ck d"
  shows "NL \<notin> set (line_of_death ck d)" and "NUL \<notin> set (line_of_death ck d)" and "length (line_of_death ck d) < 255"
proof -
  have tm: "tm_ok (ck_localtime ck (d_time d))" using assms by (simp add: death_ok_def)
  then have "length (fmt_plain (ck_localtime ck (d_time d))) \<le> 19"
    using length_fmt_year [OF tm] by (simp add: fmt_plain_def)
  moreover have "length (death_cause (d_exit d) (d_signal d)) \<le> 11" by (simp add: death_cause_def)
  ultimately show "length (line_of_death ck d) < 255"
    using assms length_int_str [of "d_exit d"] length_int_str [of "d_signal d"]
    by (simp add: line_of_death_def death_line_def death_ok_def service_ok_def)
  show "NL \<notin> set (line_of_death ck d)" "NUL \<notin> set (line_of_death ck d)"
    using assms by (auto simp: line_of_death_def death_line_def death_ok_def service_ok_def plain_free int_str_free death_cause_def)
qed

lemma recent_deaths_lines:
  "list_all (death_ok ck) ds \<Longrightarrow> service_ok s \<Longrightarrow>
     recent_deaths (ck\<lparr>ck_now := t\<rparr>) junk k s (map (\<lambda>d. line_of_death ck d @ [NL]) ds) =
     length (filter (\<lambda>d. d_service d = s \<and> t - TIME_WINDOW_SEC \<le> stamp_time ck d) ds)"
proof (induction ds arbitrary: k)
  case (Cons d ds)
  let ?t = "ck_localtime ck (d_time d)"
  have ok: "death_ok ck d" using Cons.prems by simp
  then have tm: "tm_ok ?t" and mk: "ck_mktime ck (?t\<lparr>tm_gmtoff := 0\<rparr>) = stamp_time ck d"
    by (simp_all add: death_ok_def stamp_time_def dst_shift_def)
  have "cstr (line_of_death ck d @ [NL]) = line_of_death ck d @ [NL]"
    using death_line_short(2) [OF ok] by (intro cstr_no_nul) simp
  moreover have "scan [Upto 31 COMMA, Lit COMMA, Upto 127 COMMA] (line_of_death ck d @ [NL]) = [VS (fmt_plain ?t), VS (d_service d)]"
  proof -
    have "length (fmt_plain ?t) \<le> 31" using length_fmt_year [OF tm] by (simp add: fmt_plain_def)
    moreover have "fmt_plain ?t \<noteq> []" by (simp add: fmt_plain_def)
    moreover have "COMMA \<notin> set (fmt_plain ?t)" by (simp add: plain_free)
    ultimately have "fmt_plain ?t \<noteq> []" "length (fmt_plain ?t) \<le> 31" "COMMA \<notin> set (fmt_plain ?t)" by simp_all
    then show ?thesis using ok by (simp add: line_of_death_def death_line_def death_ok_def service_ok_def scan_field)
  qed
  moreover have "fst (strptime_plain (fmt_plain ?t)) = ?t\<lparr>tm_gmtoff := 0\<rparr>" using strptime_plain_fmt [OF tm, of "[]"] by simp
  ultimately show ?case using Cons mk by (simp add: Let_def)
qed simp

definition death_text :: "clock \<Rightarrow> death list \<Rightarrow> string" where
  "death_text ck ds = unlines (map (line_of_death ck) ds)"

lemma death_text_lines: "list_all (death_ok ck) ds \<Longrightarrow> read_lines 255 (death_text ck ds) = map (\<lambda>d. line_of_death ck d @ [NL]) ds"
proof -
  assume "list_all (death_ok ck) ds"
  then have "short_lines 255 (map (line_of_death ck) ds)"
    using death_line_short by (auto simp: short_lines_def list_all_iff)
  then show ?thesis unfolding death_text_def by (simp add: read_lines_unlines)
qed

definition death_logged :: "clock \<Rightarrow> death list \<Rightarrow> files \<Rightarrow> bool" where
  "death_logged ck ds fs \<longleftrightarrow> (case fs DEATH_LOG of None \<Rightarrow> ds = [] | Some text \<Rightarrow> text = death_text ck ds)"

lemma record_one_log:
  assumes "death_logged ck ds fs" and "list_all (death_ok ck) (ds @ [d])"
  shows "\<exists>fs' reqs. record_one ck junk d fs = Some (fs', reqs) \<and> death_logged ck (ds @ [d]) fs' \<and>
    (''PROCESS_DEATH_ANOMALY_DETECTED'' \<in> fst ` set reqs \<longleftrightarrow>
      5 \<le> length (filter (\<lambda>e. d_service e = d_service d \<and> d_time d - 60 \<le> stamp_time ck e) (ds @ [d])))"
proof -
  let ?ck = "ck\<lparr>ck_now := d_time d\<rparr>"
  let ?fs = "fs(DEATH_LOG \<mapsto> death_text ck (ds @ [d]))"
  have app: "f_append open_env fs DEATH_LOG (death_line (ck_localtime ?ck (ck_now ?ck)) (d_service d) (d_exit d) (d_signal d) @ [NL]) = Some ?fs"
    using assms(1) by (auto simp: f_append_def death_logged_def death_text_def line_of_death_def split: option.splits)
  have read: "f_read open_env ?fs DEATH_LOG = Some (death_text ck (ds @ [d]))" by (simp add: f_read_def)
  have "service_ok (d_service d)" using assms(2) by (simp add: death_ok_def)
  then have count: "recent_deaths ?ck junk 0 (d_service d) (read_lines 255 (death_text ck (ds @ [d]))) =
      length (filter (\<lambda>e. d_service e = d_service d \<and> d_time d - TIME_WINDOW_SEC \<le> stamp_time ck e) (ds @ [d]))"
    using recent_deaths_lines [OF assms(2), of "d_service d" "d_time d" junk 0] by (simp only: death_text_lines [OF assms(2)])
  have "death_logged ck (ds @ [d]) ?fs" by (simp add: death_logged_def)
  then show ?thesis
    unfolding record_one_def record_death_def app option.case Let_def read count
    by (simp add: ANOMALY_THRESHOLD_def TIME_WINDOW_SEC_def)
qed

lemma record_deaths_log:
  "list_all (death_ok ck) (es @ ds) \<Longrightarrow> death_logged ck es fs \<Longrightarrow>
     \<exists>fs'. record_deaths ck junk ds fs = Some fs' \<and> death_logged ck (es @ ds) fs'"
proof (induction ds arbitrary: es fs)
  case (Cons d ds)
  obtain fs1 reqs where "record_one ck junk d fs = Some (fs1, reqs)" "death_logged ck (es @ [d]) fs1"
    using record_one_log [of ck es fs d junk] Cons.prems by auto
  then show ?case using Cons.IH [of "es @ [d]" fs1] Cons.prems by simp
qed simp

text \<open>C23: The anomaly detection is exact: after any sequence of deaths recorded in a new log, the next death asks for an
  anomaly entry exactly when at least five deaths of its service, this one included, have a time of record no more than 60 seconds back. The time
  of record is the time of the death, late by the shift of daylight saving time if that was in force then: so while the shift is always
  zero, as in a zone without daylight saving time, the window has 60 seconds, and while it is always an hour the window has 61
  minutes. The conditions: the names of the services are not empty, have at most 127 bytes and neither commas nor line ends, and the
  log can be opened and what is written reaches it.\<close>

theorem death_anomaly_exact:
  assumes "list_all (death_ok ck) (ds @ [d])" and "fs DEATH_LOG = None"
  shows "\<exists>fs' fs'' reqs. record_deaths ck junk ds fs = Some fs' \<and> record_one ck junk d fs' = Some (fs'', reqs) \<and>
    (''PROCESS_DEATH_ANOMALY_DETECTED'' \<in> fst ` set reqs \<longleftrightarrow>
      5 \<le> length (filter (\<lambda>e. d_service e = d_service d \<and> d_time d - 60 \<le> stamp_time ck e) (ds @ [d]))) \<and>
    (\<forall>shift. list_all (\<lambda>e. dst_shift ck (d_time e) = shift) (ds @ [d]) \<longrightarrow>
      (''PROCESS_DEATH_ANOMALY_DETECTED'' \<in> fst ` set reqs \<longleftrightarrow>
        5 \<le> length (filter (\<lambda>e. d_service e = d_service d \<and> d_time d - (60 + shift) \<le> d_time e) (ds @ [d]))))"
proof -
  obtain fs' where r: "record_deaths ck junk ds fs = Some fs'" "death_logged ck ds fs'"
    using record_deaths_log [of ck "[]" ds fs junk] assms by (auto simp: death_logged_def)
  have same: "filter (\<lambda>e. d_service e = d_service d \<and> d_time d - (60 + shift) \<le> d_time e) (ds @ [d]) =
      filter (\<lambda>e. d_service e = d_service d \<and> d_time d - 60 \<le> stamp_time ck e) (ds @ [d])"
    if "list_all (\<lambda>e. dst_shift ck (d_time e) = shift) (ds @ [d])" for shift
    using that unfolding list_all_iff by (intro filter_cong refl) (auto simp: stamp_time_def)
  obtain fs'' reqs where one: "record_one ck junk d fs' = Some (fs'', reqs)"
    "''PROCESS_DEATH_ANOMALY_DETECTED'' \<in> fst ` set reqs \<longleftrightarrow>
      5 \<le> length (filter (\<lambda>e. d_service e = d_service d \<and> d_time d - 60 \<le> stamp_time ck e) (ds @ [d]))"
    using record_one_log [OF r(2) assms(1), of junk] by blast
  show ?thesis
    by (rule exI [of _ fs'], rule exI [of _ fs''], rule exI [of _ reqs], intro conjI allI impI r(1) one) (simp only: same one)
qed

definition demo_death :: "int \<Rightarrow> death" where
  "demo_death t = \<lparr>d_time = t, d_service = ''chronod'', d_exit = 1, d_signal = 0\<rparr>"

theorem death_anomaly_exact_witness:
  "\<exists>fs' fs'' reqs. record_deaths (demo_clock 0) (\<lambda>_ _. []) (map demo_death [0, 10, 20, 30]) (\<lambda>_. None) = Some fs' \<and>
     record_one (demo_clock 0) (\<lambda>_ _. []) (demo_death 40) fs' = Some (fs'', reqs) \<and>
     ''PROCESS_DEATH_ANOMALY_DETECTED'' \<in> fst ` set reqs"
proof -
  let ?ds = "map demo_death [0, 10, 20, 30]" let ?d = "demo_death 40"
  have t: "clock_ok (demo_clock 0) t" if "t \<in> {0, 10, 20, 30, 40}" for t using that demo_clock_ok [of t 0] by auto
  then have ok: "list_all (death_ok (demo_clock 0)) (?ds @ [?d])" and sh: "list_all (\<lambda>e. dst_shift (demo_clock 0) (d_time e) = 0) (?ds @ [?d])"
    by (simp_all add: death_ok_def demo_death_def service_ok_def clock_ok_iff)
  have count: "filter (\<lambda>e. d_service e = d_service ?d \<and> d_time ?d - (60 + 0) \<le> d_time e) (?ds @ [?d]) = ?ds @ [?d]"
    by (simp add: demo_death_def)
  obtain fs' fs'' reqs where "record_deaths (demo_clock 0) (\<lambda>_ _. []) ?ds (\<lambda>_. None) = Some fs'"
    "record_one (demo_clock 0) (\<lambda>_ _. []) ?d fs' = Some (fs'', reqs)" "''PROCESS_DEATH_ANOMALY_DETECTED'' \<in> fst ` set reqs \<longleftrightarrow>
      5 \<le> length (filter (\<lambda>e. d_service e = d_service ?d \<and> d_time ?d - (60 + 0) \<le> d_time e) (?ds @ [?d]))"
    using death_anomaly_exact [OF ok, of "\<lambda>_. None" "\<lambda>_ _. []"] sh by blast
  then show ?thesis unfolding count by auto
qed

end
