(* ===== verification/AutonomousAgent.thy ===== *)
theory AutonomousAgent
  imports Files CTime Ledger
begin

text \<open>
  \<open>core/autonomous/chrono_autonomous_agent.c\<close>: the engine that counts ledger events and reacts. This program gives its
  commands to the real \<open>system\<close>; what a command does to the files is the parameter \<open>ag_shell\<close>. A cycle returns the
  rules with their counters, the files and the commands in the order they are run. The daemon is the
  sequence of its cycles, one environment for each.
\<close>

definition AGENT_LEDGER :: string where "AGENT_LEDGER = ''/mnt/data/chrono_ledger.log''"
definition AGENT_LEDGER_ALT :: string where "AGENT_LEDGER_ALT = ''./var/logs/chrono_ledger.log''"
definition AGENT_STATE :: string where "AGENT_STATE = ''./var/db/agent_state.json''"
definition GUARDIAN_QUEUE :: string where "GUARDIAN_QUEUE = ''./var/db/guardian_queue.txt''"

datatype decision_level = DECISION_SAFE | DECISION_GUARDIAN | DECISION_CRITICAL

record agent_rule =
  ar_event :: string
  ar_count :: int
  ar_warn :: int
  ar_crit :: int
  ar_action :: string
  ar_level :: decision_level

definition agent_rules :: "agent_rule list" where
  "agent_rules =
    [\<lparr>ar_event = ''IOT_ALARM'', ar_count = 0, ar_warn = 3, ar_crit = 8,
       ar_action = ''chrono conjunto send ALERTA '' @ CHR 0x27 # ''Multiples alarmas IoT'' @ [CHR 0x27] @ '' '' @ CHR 0x27 # ''ADE'' @ [CHR 0x27], ar_level = DECISION_SAFE\<rparr>,
     \<lparr>ar_event = ''CAN_ANOMALY'', ar_count = 0, ar_warn = 1, ar_crit = 3,
       ar_action = ''chrono ledger log '' @ CHR 0x27 # ''ADE_ACTION'' @ [CHR 0x27] @ '' '' @ CHR 0x27 # ''Vehiculo en cuarentena'' @ [CHR 0x27], ar_level = DECISION_GUARDIAN\<rparr>,
     \<lparr>ar_event = ''MODBUS_BLOCKED'', ar_count = 0, ar_warn = 2, ar_crit = 5,
       ar_action = ''chrono ledger log '' @ CHR 0x27 # ''ADE_ACTION'' @ [CHR 0x27] @ '' '' @ CHR 0x27 # ''PLC aislado por ADE'' @ [CHR 0x27], ar_level = DECISION_GUARDIAN\<rparr>,
     \<lparr>ar_event = ''CONTEXT_AUTH_FAIL'', ar_count = 0, ar_warn = 3, ar_crit = 6,
       ar_action = ''chrono ledger log '' @ CHR 0x27 # ''ADE_LOCKDOWN'' @ [CHR 0x27] @ '' '' @ CHR 0x27 # ''Acceso bloqueado'' @ [CHR 0x27], ar_level = DECISION_CRITICAL\<rparr>,
     \<lparr>ar_event = ''USB_UNAUTHORIZED'', ar_count = 0, ar_warn = 1, ar_crit = 3, ar_action = ''chrono hardware scan'', ar_level = DECISION_SAFE\<rparr>,
     \<lparr>ar_event = ''OPTIMIZER_RAN'', ar_count = 0, ar_warn = 0, ar_crit = 0,
       ar_action = ''chrono ledger log '' @ CHR 0x27 # ''ADE_HEALTH'' @ [CHR 0x27] @ '' '' @ CHR 0x27 # ''Sistema optimizado'' @ [CHR 0x27], ar_level = DECISION_SAFE\<rparr>]"

datatype agent_moment = Counting nat | Queueing nat | Saving
  \<comment> \<open>where a cycle reads the clock: for the rule at a position, and for the state file\<close>

record agent_env =
  ag_clock :: "agent_moment \<Rightarrow> clock"
  ag_files :: file_env
  ag_shell :: "string \<Rightarrow> files \<Rightarrow> files"   \<comment> \<open>the effect of \<open>system\<close>\<close>

definition agent_log_ledger :: "string \<Rightarrow> string \<Rightarrow> string" where
  "agent_log_ledger type details = snprintf_buf 1024
     (''./bin/chrono-ledger append '' @ QUOTE # type @ QUOTE # '' '' @ QUOTE # details @ QUOTE # '' 2>/dev/null'')"

definition event_counts :: "clock \<Rightarrow> string \<Rightarrow> string \<Rightarrow> bool" where
  \<comment> \<open>whether one line is counted\<close>
  "event_counts ck event_type line \<longleftrightarrow>
     c_strstr event_type line \<noteq> None \<and>
     (case strptime_iso line of (t, Some _) \<Rightarrow> ck_mktime ck t \<ge> ck_now ck - 3600 | (t, None) \<Rightarrow> True)"

definition agent_ledger_text :: "agent_env \<Rightarrow> files \<Rightarrow> string option" where
  "agent_ledger_text env fs =
     (case f_read (ag_files env) fs AGENT_LEDGER of None \<Rightarrow> f_read (ag_files env) fs AGENT_LEDGER_ALT | Some text \<Rightarrow> Some text)"

definition count_recent_events :: "agent_env \<Rightarrow> nat \<Rightarrow> files \<Rightarrow> string \<Rightarrow> int" where
  "count_recent_events env i fs event_type =
     (case agent_ledger_text env fs of
        None \<Rightarrow> 0
      | Some text \<Rightarrow> int (length (filter (event_counts (ag_clock env (Counting i)) event_type) (map cstr (read_lines 1023 text)))))"

definition agent_system :: "agent_env \<Rightarrow> string list \<Rightarrow> files \<Rightarrow> files" where
  "agent_system env commands fs = fold (ag_shell env) commands fs"

definition guardian_queue :: "agent_env \<Rightarrow> nat \<Rightarrow> string \<Rightarrow> string \<Rightarrow> files \<Rightarrow> files \<times> string list" where
  "guardian_queue env i action reason fs =
     (case f_append (ag_files env) fs GUARDIAN_QUEUE
        (''['' @ now_iso_text (ag_clock env (Queueing i)) @ ''] PENDIENTE_APROBACION | '' @ action @ '' | RAZON: '' @ reason @ [NL]) of
        None \<Rightarrow> (fs, [])
      | Some fs \<Rightarrow>
          let cmds = [agent_log_ledger ''GUARDIAN_MODE_ACTIVATED'' ''accion_pendiente_aprobacion_humana''] in
          (agent_system env cmds fs, cmds))"

definition execute_safe_action :: "agent_env \<Rightarrow> string \<Rightarrow> string \<Rightarrow> files \<Rightarrow> files \<times> string list" where
  "execute_safe_action env action reason fs =
     (let cmds = [action, agent_log_ledger ''ADE_AUTO_ACTION'' (snprintf_buf 256 (''accion_autonoma_ejecutada reason='' @ reason))] in
      (agent_system env cmds fs, cmds))"

definition agent_rule_step :: "agent_env \<Rightarrow> nat \<Rightarrow> agent_rule \<Rightarrow> files \<Rightarrow> agent_rule \<times> files \<times> string list" where
  \<comment> \<open>the body of the loop over the rules, at position \<open>i\<close>\<close>
  "agent_rule_step env i r fs =
     (let n = count_recent_events env i fs (ar_event r); r = r\<lparr>ar_count := n\<rparr> in
      if ar_crit r > 0 \<and> n \<ge> ar_crit r then
        let reason = snprintf_buf 256 (ar_event r @ '' detectado '' @ int_str n @ '' veces (critico>='' @ int_str (ar_crit r) @ '')'') in
        (r, case ar_level r of
              DECISION_SAFE \<Rightarrow> execute_safe_action env (ar_action r) reason fs
            | DECISION_GUARDIAN \<Rightarrow> guardian_queue env i (ar_action r) reason fs
            | DECISION_CRITICAL \<Rightarrow> guardian_queue env i (ar_action r) reason fs)
      else if ar_warn r > 0 \<and> n \<ge> ar_warn r then
        let cmds = [agent_log_ledger ''ADE_WARNING_DETECTED'' (ar_event r)] in (r, agent_system env cmds fs, cmds)
      else (r, fs, []))"

fun agent_cycle :: "agent_env \<Rightarrow> nat \<Rightarrow> agent_rule list \<Rightarrow> files \<Rightarrow> agent_rule list \<times> files \<times> string list" where
  \<comment> \<open>from the rule at position \<open>i\<close> on\<close>
  "agent_cycle env i [] fs = ([], fs, [])"
| "agent_cycle env i (r # rs) fs =
     (let (r, fs, cmds) = agent_rule_step env i r fs; (rs, fs, cmds') = agent_cycle env (Suc i) rs fs in (r # rs, fs, cmds @ cmds'))"

definition save_agent_state :: "agent_env \<Rightarrow> files \<Rightarrow> files" where
  "save_agent_state env fs =
     (case f_write (ag_files env) fs AGENT_STATE (unlines [''{'',
        ''  '' @ QUOTE # ''last_cycle'' @ QUOTE # '': '' @ QUOTE # now_iso_text (ag_clock env Saving) @ QUOTE # '','',
        ''  '' @ QUOTE # ''status'' @ QUOTE # '': '' @ QUOTE # ''ACTIVE'' @ QUOTE # '','',
        ''  '' @ QUOTE # ''rules_monitored'' @ QUOTE # '': '' @ int_str (int (length agent_rules)) @ '','',
        ''  '' @ QUOTE # ''guardian_mode'' @ QUOTE # '': '' @ QUOTE # ''ENABLED'' @ QUOTE # '','',
        ''  '' @ QUOTE # ''version'' @ QUOTE # '': '' @ QUOTE # ''1.0.0'' @ [QUOTE], ''}'']) of
        None \<Rightarrow> fs | Some fs \<Rightarrow> fs)"

fun agent_loop :: "agent_env list \<Rightarrow> agent_rule list \<Rightarrow> files \<Rightarrow> files \<times> string list" where
  \<comment> \<open>the daemon after as many cycles as there are environments\<close>
  "agent_loop [] rules fs = (fs, [])"
| "agent_loop (env # envs) rules fs =
     (let (rules, fs, cmds) = agent_cycle env 0 rules fs; (fs, cmds') = agent_loop envs rules (save_agent_state env fs) in (fs, cmds @ cmds'))"

definition guardian_list :: "file_env \<Rightarrow> files \<Rightarrow> string list" where
  \<comment> \<open>the lines that \<open>guardian list\<close> shows\<close>
  "guardian_list env fs =
     (case f_read env fs GUARDIAN_QUEUE of
        None \<Rightarrow> [] | Some text \<Rightarrow> filter (\<lambda>l. c_strstr ''PENDIENTE'' l \<noteq> None) (map cstr (read_lines 511 text)))"

definition agent_guardian :: "agent_env \<Rightarrow> string list \<Rightarrow> files \<Rightarrow> files \<times> string list" where
  \<comment> \<open>\<open>guardian list\<close> runs no command; approval and denial run one each\<close>
  "agent_guardian env argv fs =
     (let cmds = (if length argv \<ge> 3 \<and> argv ! 2 = ''approve'' then [agent_log_ledger ''GUARDIAN_APPROVED'' ''operador_humano_aprobo_accion'']
                  else if length argv \<ge> 3 \<and> argv ! 2 = ''deny'' then [agent_log_ledger ''GUARDIAN_DENIED'' ''operador_humano_denego_accion'']
                  else [])
      in (agent_system env cmds fs, cmds))"

definition agent_main :: "agent_env list \<Rightarrow> string list \<Rightarrow> files \<Rightarrow> int option \<times> files \<times> string list" where
  \<comment> \<open>the result is \<open>None\<close> for the daemon, which never returns\<close>
  "agent_main envs argv fs =
     (case envs of
        [] \<Rightarrow> (None, fs, [])
      | env # _ \<Rightarrow>
          if length argv \<ge> 2 \<and> argv ! 1 = ''once'' then
            (case agent_cycle env 0 agent_rules fs of (rules, fs, cmds) \<Rightarrow> (Some 0, save_agent_state env fs, cmds))
          else if length argv \<ge> 2 \<and> argv ! 1 = ''guardian'' then (Some 0, agent_guardian env argv fs)
          else
            let start = [agent_log_ledger ''ADE_STARTED'' ''motor_autonomo_iniciado''];
                (fs, cmds) = agent_loop envs agent_rules (agent_system env start fs) in (None, fs, start @ cmds))"

section \<open>What may be run\<close>

definition is_ledger_append :: "string \<Rightarrow> bool" where
  "is_ledger_append cmd \<longleftrightarrow> (\<exists>type details. cmd = agent_log_ledger type details)"

definition safe_command :: "agent_rule list \<Rightarrow> string \<Rightarrow> bool" where
  "safe_command rules cmd \<longleftrightarrow> is_ledger_append cmd \<or> (\<exists>r \<in> set rules. ar_level r = DECISION_SAFE \<and> cmd = ar_action r)"

lemma log_is_append [simp]: "is_ledger_append (agent_log_ledger type details)"
  by (auto simp: is_ledger_append_def)

lemma safe_command_Cons:
  "safe_command (r # rs) c \<longleftrightarrow> (is_ledger_append c \<or> (ar_level r = DECISION_SAFE \<and> c = ar_action r)) \<or> safe_command rs c"
  by (auto simp: safe_command_def)

lemma rule_step_safe:
  assumes "agent_rule_step env i r fs = (r', fs', cmds)"
  shows "(\<exists>n. r' = r\<lparr>ar_count := n\<rparr>) \<and> (\<forall>c \<in> set cmds. is_ledger_append c \<or> (ar_level r = DECISION_SAFE \<and> c = ar_action r))"
  using assms
  by (auto simp: agent_rule_step_def execute_safe_action_def guardian_queue_def Let_def split: if_splits decision_level.splits option.splits)

lemma cycle_safe:
  "agent_cycle env i rules fs = (rules', fs', cmds) \<Longrightarrow>
     map (\<lambda>r. (ar_level r, ar_action r)) rules' = map (\<lambda>r. (ar_level r, ar_action r)) rules \<and> (\<forall>c \<in> set cmds. safe_command rules c)"
proof (induction rules arbitrary: i fs rules' fs' cmds)
  case (Cons r rs)
  obtain r1 fs1 c1 where step: "agent_rule_step env i r fs = (r1, fs1, c1)" by (cases "agent_rule_step env i r fs")
  obtain rs2 fs2 c2 where rest: "agent_cycle env (Suc i) rs fs1 = (rs2, fs2, c2)" by (cases "agent_cycle env (Suc i) rs fs1")
  show ?case using Cons.IH [OF rest] rule_step_safe [OF step] Cons.prems by (auto simp: step rest safe_command_Cons)
qed simp

lemma safe_command_cong:
  assumes "map (\<lambda>r. (ar_level r, ar_action r)) rules' = map (\<lambda>r. (ar_level r, ar_action r)) rules"
  shows "safe_command rules' c = safe_command rules c"
proof -
  have "safe_command rs c \<longleftrightarrow> is_ledger_append c \<or> (DECISION_SAFE, c) \<in> set (map (\<lambda>r. (ar_level r, ar_action r)) rs)" for rs
    by (force simp: safe_command_def)
  then show ?thesis by (simp only: assms)
qed

lemma loop_safe: "\<forall>c \<in> set (snd (agent_loop envs rules fs)). safe_command rules c"
proof (induction envs arbitrary: rules fs)
  case (Cons env envs)
  obtain rs1 fs1 c1 where cyc: "agent_cycle env 0 rules fs = (rs1, fs1, c1)" by (cases "agent_cycle env 0 rules fs")
  note cycle = cycle_safe [OF cyc]
  have "safe_command rs1 c = safe_command rules c" for c using cycle by (intro safe_command_cong) simp
  then show ?case using cycle Cons [of rs1 "save_agent_state env fs1"]
    by (simp add: cyc case_prod_beta) blast
qed simp

text \<open>C21: The engine runs nothing on its own but ledger entries and the actions of rules of level SAFE, whatever the ledger
  holds, in every mode and over any number of cycles. In particular an action that waits for approval is not run, and not
  after its approval either.\<close>

theorem agent_runs_only_safe:
  "list_all (safe_command agent_rules) (snd (snd (agent_main envs argv fs)))"
proof (cases envs)
  case (Cons env rest)
  obtain rs1 fs1 c1 where cyc: "agent_cycle env 0 agent_rules fs = (rs1, fs1, c1)" by (cases "agent_cycle env 0 agent_rules fs")
  have log: "safe_command agent_rules (agent_log_ledger t d)" for t d by (simp add: safe_command_def)
  show ?thesis
    using cycle_safe [OF cyc] loop_safe [of envs agent_rules "agent_system env [agent_log_ledger ''ADE_STARTED'' ''motor_autonomo_iniciado''] fs"]
    by (auto simp: list_all_iff agent_main_def Cons cyc agent_guardian_def Let_def log split: prod.splits)
qed (simp add: agent_main_def)

section \<open>What a cycle decides\<close>










definition demo_agent_env :: "int \<Rightarrow> agent_env" where
  "demo_agent_env now = \<lparr>ag_clock = (\<lambda>_. demo_clock now), ag_files = open_env, ag_shell = (\<lambda>_ fs. fs)\<rparr>"


section \<open>The engine and the audit ledger\<close>

definition LEDGER_FILE :: string where
  \<comment> \<open>\<open>LEDGER_PATH\<close> of \<open>chrono_ledger.c\<close>\<close>
  "LEDGER_FILE = ''./security/ledger/chrono_ledger.jsonl''"

text \<open>The engine does not see the audit ledger: where neither of the two files it looks for exists, a cycle runs no command
  and changes nothing, whatever the ledger program has written to its own file.\<close>

theorem agent_blind_to_ledger:
  assumes "fs AGENT_LEDGER = None" and "fs AGENT_LEDGER_ALT = None"
  shows "snd (agent_cycle env i agent_rules (fs(LEDGER_FILE := text))) = (fs(LEDGER_FILE := text), [])"
proof -
  have "count_recent_events env i (fs(LEDGER_FILE := text)) ev = 0" for i ev
    using assms by (simp add: count_recent_events_def agent_ledger_text_def f_read_def LEDGER_FILE_def AGENT_LEDGER_def AGENT_LEDGER_ALT_def)
  then have "agent_rule_step env i r (fs(LEDGER_FILE := text)) = (r\<lparr>ar_count := 0\<rparr>, fs(LEDGER_FILE := text), [])" for i r
    by (auto simp: agent_rule_step_def Let_def)
  then have "snd (agent_cycle env i rules (fs(LEDGER_FILE := text))) = (fs(LEDGER_FILE := text), [])" for i rules
    by (induction rules arbitrary: i) (simp_all add: case_prod_beta)
  then show ?thesis .
qed

theorem agent_blind_to_ledger_witness:
  "snd (agent_cycle (demo_agent_env 0) 0 agent_rules ((\<lambda>_. None)(LEDGER_FILE := Some ''USB_UNAUTHORIZED''))) =
    ((\<lambda>_. None)(LEDGER_FILE := Some ''USB_UNAUTHORIZED''), [])"
  by (rule agent_blind_to_ledger) simp_all

definition ledger_format :: "string \<Rightarrow> bool" where
  \<comment> \<open>a line as \<open>chrono_ledger_append\<close> writes it\<close>
  "ledger_format l \<longleftrightarrow> (\<exists>ts ev de ph h. l = record_line (record_text ts ev de ph) h)"

lemma ledger_format_record [simp]: "ledger_format (record_line (record_text ts ev de ph) h)"
  unfolding ledger_format_def by blast

lemma strptime_brace: "snd (strptime_iso (CHR 0x7B # s)) = None"
  by (simp add: strptime_iso_def iso_format_def strp_number_def c_isspace_def c_isdigit_def code_def)

text \<open>On records of the audit ledger there is no time window: in a file of such records the engine counts every line that contains
  the name of the event, however old, because the time stamp is not where it is looked for.\<close>

theorem agent_counts_all_ages:
  assumes "agent_ledger_text env fs = Some (unlines ls)" and "short_lines 1023 ls" and "\<forall>l \<in> set ls. ledger_format l \<and> NUL \<notin> set l"
  shows "count_recent_events env i fs ev = int (length (filter (\<lambda>l. c_strstr ev (l @ [NL]) \<noteq> None) ls))"
proof -
  have line: "event_counts ck ev (cstr (l @ [NL])) \<longleftrightarrow> c_strstr ev (l @ [NL]) \<noteq> None" if "l \<in> set ls" for ck l
  proof -
    have "cstr (l @ [NL]) = l @ [NL]" using assms(3) that by (intro cstr_no_nul) auto
    moreover have "hd l = CHR 0x7B \<and> l \<noteq> []" using assms(3) that by (auto simp: ledger_format_def record_line_def record_text_def)
    then have "snd (strptime_iso (l @ [NL])) = None" using strptime_brace [of "tl l @ [NL]"] by (cases l) auto
    ultimately show ?thesis by (auto simp: event_counts_def split: prod.splits option.splits)
  qed
  have "filter (event_counts (ag_clock env (Counting i)) ev) (map cstr (read_lines 1023 (unlines ls))) =
      map (\<lambda>l. cstr (l @ [NL])) (filter (\<lambda>l. event_counts (ag_clock env (Counting i)) ev (cstr (l @ [NL]))) ls)"
    by (simp add: read_lines_unlines [OF assms(2)] filter_map o_def)
  moreover have "filter (\<lambda>l. event_counts (ag_clock env (Counting i)) ev (cstr (l @ [NL]))) ls = filter (\<lambda>l. c_strstr ev (l @ [NL]) \<noteq> None) ls"
    by (rule filter_cong) (simp_all add: line)
  ultimately show ?thesis by (simp add: count_recent_events_def assms(1))
qed

theorem agent_counts_all_ages_witness:
  "count_recent_events (demo_agent_env 86400) 0 ((\<lambda>_. None)(AGENT_LEDGER \<mapsto> unlines [record_line (record_text ''2020'' ''CAN_ANOMALY'' ''x'' ''0'') ''1'']))
     ''CAN_ANOMALY'' = int (length (filter (\<lambda>l. c_strstr ''CAN_ANOMALY'' (l @ [NL]) \<noteq> None) [record_line (record_text ''2020'' ''CAN_ANOMALY'' ''x'' ''0'') ''1'']))"
  by (rule agent_counts_all_ages)
    (simp_all add: agent_ledger_text_def f_read_def demo_agent_env_def, simp_all add: record_line_def record_text_def json_key_def)

end
