(* ===== verification/Vault.thy ===== *)
theory Vault
  imports Files CScan CTime
begin

text \<open>
  \<open>core/vault/chrono_vault.c\<close>: files encrypted under a passphrase. The key derivation and the authenticated cipher of OpenSSL
  are a \<open>vault_crypto\<close>, the random salt and nonce are arguments. A result of \<open>None\<close> is a run with undefined behaviour: a
  vault file that is shorter than its header leaves the salt, nonce or tag unset and makes the length of the
  ciphertext negative. Lengths of files are \<open>long\<close>; OpenSSL takes them as \<open>int\<close>, so its functions get a buffer and the
  length that is left of it, \<open>wrap32\<close>, and what they do with a length that is not that of the buffer is theirs.
\<close>

definition VAULT_DIR :: string where "VAULT_DIR = ''./vault/personal''"
definition VAULT_INDEX :: string where "VAULT_INDEX = ''./vault/personal/.index''"
definition SALT_LEN :: nat where "SALT_LEN = 32"
definition IV_LEN :: nat where "IV_LEN = 12"
definition TAG_LEN :: nat where "TAG_LEN = 16"

record vault_crypto =
  vc_kdf :: "string \<Rightarrow> string \<Rightarrow> string"                         \<comment> \<open>passphrase, salt\<close>
  vc_encrypt :: "string \<Rightarrow> string \<Rightarrow> (string \<times> int) list \<Rightarrow> string \<times> string"
    \<comment> \<open>key, nonce, the buffer and \<open>int\<close> length of each \<open>EVP_EncryptUpdate\<close>: ciphertext and tag\<close>
  vc_decrypt :: "string \<Rightarrow> string \<Rightarrow> string \<Rightarrow> int \<Rightarrow> string \<Rightarrow> string option"
    \<comment> \<open>key, nonce, the buffer and \<open>int\<close> length of the one \<open>EVP_DecryptUpdate\<close>, tag\<close>

definition evp_len :: "string \<Rightarrow> int" where
  \<comment> \<open>a \<open>long\<close> length as the \<open>int\<close> parameter \<open>inl\<close> receives it\<close>
  "evp_len buf = wrap32 (int (length buf))"

definition vault_filename :: "int \<Rightarrow> string option \<Rightarrow> string" where
  "vault_filename t label = snprintf_buf 256
     (VAULT_DIR @ CHR ''/'' # int_str t @ CHR ''_'' # (case label of None \<Rightarrow> ''item'' | Some l \<Rightarrow> l) @ ''.cvault'')"

definition index_line :: "clock \<Rightarrow> string option \<Rightarrow> nat \<Rightarrow> string" where
  "index_line ck label fsize =
     now_iso_text ck @ BAR # (case label of None \<Rightarrow> ''sin_etiqueta'' | Some l \<Rightarrow> l) @ BAR # vault_filename (ck_now ck) label @ BAR #
     int_str (int fsize) @ '' bytes''"

definition vault_store ::
  "vault_crypto \<Rightarrow> file_env \<Rightarrow> clock \<Rightarrow> string \<Rightarrow> string \<Rightarrow> string \<Rightarrow> string \<Rightarrow> string option \<Rightarrow> files \<Rightarrow> int \<times> files" where
  "vault_store C env ck salt iv filepath passphrase label fs =
     (case f_read env fs filepath of
        None \<Rightarrow> (1, fs)
      | Some plaintext \<Rightarrow>
          let key = vc_kdf C passphrase salt; (ciphertext, tag) = vc_encrypt C key iv [(plaintext, evp_len plaintext)] in
          (case f_write env fs (vault_filename (ck_now ck) label) (salt @ iv @ tag @ ciphertext) of
             None \<Rightarrow> (1, fs)
           | Some fs \<Rightarrow> (0, f_append_or_skip env fs VAULT_INDEX (index_line ck label (length plaintext) @ [NL]))))"

definition vault_retrieve ::
  "vault_crypto \<Rightarrow> file_env \<Rightarrow> string \<Rightarrow> string \<Rightarrow> string \<Rightarrow> files \<Rightarrow> (int \<times> files) option" where
  "vault_retrieve C env vault_file passphrase output_path fs =
     (case f_read env fs vault_file of
        None \<Rightarrow> Some (1, fs)
      | Some content \<Rightarrow>
          if length content < SALT_LEN + IV_LEN + TAG_LEN then None
          else
            let salt = take SALT_LEN content; iv = take IV_LEN (drop SALT_LEN content);
                tag = take TAG_LEN (drop (SALT_LEN + IV_LEN) content); ciphertext = drop (SALT_LEN + IV_LEN + TAG_LEN) content;
                key = vc_kdf C passphrase salt in
            (case vc_decrypt C key iv ciphertext (evp_len ciphertext) tag of
               None \<Rightarrow> Some (1, fs)
             | Some plaintext \<Rightarrow>
                 (case f_write env fs output_path plaintext of None \<Rightarrow> Some (1, fs) | Some fs \<Rightarrow> Some (0, fs))))"

definition index_row :: "string \<Rightarrow> string \<Rightarrow> (string \<times> string \<times> string) option" where
  \<comment> \<open>date, label and size as shown; \<open>junk\<close> is the size when its conversion fails\<close>
  "index_row junk raw =
     (let vs = scan [Upto 31 BAR, Lit BAR, Upto 63 BAR, Lit BAR, Upto 255 BAR, Lit BAR, Upto 31 NL] (cstr raw) in
      if length vs \<ge> 3 then Some (str_at vs 0 [], str_at vs 1 [], str_at vs 3 junk) else None)"

definition vault_list :: "file_env \<Rightarrow> (nat \<Rightarrow> string) \<Rightarrow> files \<Rightarrow> (string \<times> string \<times> string) list option" where
  \<comment> \<open>the rows of the table; \<open>None\<close>: the vault is reported to be empty\<close>
  "vault_list env junk fs =
     (case f_read env fs VAULT_INDEX of
        None \<Rightarrow> None
      | Some text \<Rightarrow> let ls = read_lines 511 text in Some (List.map_filter (\<lambda>(k, raw). index_row (junk k) raw) (zip [0..<length ls] ls)))"

definition vault_main ::
  "vault_crypto \<Rightarrow> file_env \<Rightarrow> clock \<Rightarrow> string \<Rightarrow> string \<Rightarrow> string list \<Rightarrow> files \<Rightarrow> (int \<times> files) option" where
  "vault_main C env ck salt iv argv fs =
     (if length argv < 2 then Some (1, fs)
      else if argv ! 1 = ''store'' \<and> length argv \<ge> 4 then
        Some (vault_store C env ck salt iv (argv ! 2) (argv ! 3) (if length argv \<ge> 5 then Some (argv ! 4) else None) fs)
      else if argv ! 1 = ''retrieve'' \<and> length argv \<ge> 5 then vault_retrieve C env (argv ! 2) (argv ! 3) (argv ! 4) fs
      else if argv ! 1 = ''list'' then Some (0, fs)
      else Some (1, fs))"

section \<open>The cipher\<close>

definition aead_correct :: "vault_crypto \<Rightarrow> bool" where
  \<comment> \<open>what is documented of AES-256-GCM in OpenSSL, for buffers whose length an \<open>int\<close> can hold: the ciphertext is as long as
    the text, decryption with the same key and nonce restores the text, tags have 16 bytes\<close>
  "aead_correct C \<longleftrightarrow> (\<forall>k iv us c t. list_all (\<lambda>(b, n). n = int (length b) \<and> length b < 2 ^ 31) us \<longrightarrow> vc_encrypt C k iv us = (c, t) \<longrightarrow>
     length t = 16 \<and> length c = length (concat (map fst us)) \<and>
     (length c < 2 ^ 31 \<longrightarrow> vc_decrypt C k iv c (int (length c)) t = Some (concat (map fst us))))"

lemma aead_correctD:
  assumes "aead_correct C" and "list_all (\<lambda>(b, n). n = int (length b) \<and> length b < 2 ^ 31) us" and "vc_encrypt C k iv us = (c, t)"
  shows "length t = 16" "length c = length (concat (map fst us))"
    "length c < 2 ^ 31 \<Longrightarrow> vc_decrypt C k iv c (int (length c)) t = Some (concat (map fst us))"
  using assms unfolding aead_correct_def by blast+

lemma evp_len_id: "length buf < 2 ^ 31 \<Longrightarrow> evp_len buf = int (length buf)"
  by (simp add: evp_len_def)

definition demo_crypto :: vault_crypto where
  "demo_crypto = \<lparr>vc_kdf = (\<lambda>p s. p), vc_encrypt = (\<lambda>k iv us. (rev (concat (map fst us)), take 16 (k @ replicate 16 NUL))),
     vc_decrypt = (\<lambda>k iv c n t. if t = take 16 (k @ replicate 16 NUL) then Some (rev c) else None)\<rparr>"

lemma demo_crypto_correct: "aead_correct demo_crypto"
  by (auto simp: aead_correct_def demo_crypto_def min_def)

lemma filename_not_index: "vault_filename t label \<noteq> VAULT_INDEX"
proof
  assume eq: "vault_filename t label = VAULT_INDEX"
  have "int_str t \<noteq> []" by (simp add: int_str_def)
  then obtain c r where cr: "int_str t = c # r" by (cases "int_str t") auto
  then have "c_isdigit c \<or> c = CHR ''-''" using nat_str_digits by (auto simp: int_str_def split: if_splits) (metis list.set_intros(1))+
  moreover have "vault_filename t label ! 17 = c"
    by (simp add: vault_filename_def snprintf_buf_def VAULT_DIR_def cr)
  moreover have "VAULT_INDEX ! 17 = CHR ''.''" by (simp add: VAULT_INDEX_def)
  ultimately show False using eq by (auto simp: c_isdigit_def code_def)
qed

lemma vault_roundtrip_lemma:
  assumes "aead_correct C" and "length salt = 32" and "length iv = 12" and "fs path = Some content"
    and "vault_store C env ck salt iv path pass label fs = (0, fs')"
    and "fs'' (vault_filename (ck_now ck) label) = fs' (vault_filename (ck_now ck) label)"
    and "length content < 2 ^ 31" and "fe_room env (vault_filename (ck_now ck) label) = None"
    and "fe_readable env (vault_filename (ck_now ck) label)" and "can_write env out"
  shows "vault_retrieve C env (vault_filename (ck_now ck) label) pass out fs'' = Some (0, fs''(out \<mapsto> content))"
proof -
  let ?file = "vault_filename (ck_now ck) label"
  let ?us = "[(content, evp_len content)]"
  obtain c t where enc: "vc_encrypt C (vc_kdf C pass salt) iv ?us = (c, t)" by (cases "vc_encrypt C (vc_kdf C pass salt) iv ?us")
  then have tag: "length t = 16" and dec: "vc_decrypt C (vc_kdf C pass salt) iv c (evp_len c) t = Some content"
    using aead_correctD [OF assms(1) _ enc] assms(7) by (simp_all add: evp_len_id)
  have "fs' ?file = Some (salt @ iv @ t @ c)"
    using assms(4,5,8) enc filename_not_index [of "ck_now ck" label]
    by (auto simp: vault_store_def f_read_def f_write_def f_append_or_skip_def f_append_def fe_written_def split: if_splits)
  then have "f_read env fs'' ?file = Some (salt @ iv @ t @ c)" using assms(6,9) by (simp add: f_read_def)
  then show ?thesis
    using assms(2,3,10) tag dec by (simp add: vault_retrieve_def SALT_LEN_def IV_LEN_def TAG_LEN_def f_write_def)
qed

text \<open>C20: What is stored can be retrieved: after a store that returned 0, of a file of less than 2 GiB and with room for the vault file on
  the disk, retrieving the new vault file with the same passphrase returns 0 and writes the original content to the output file,
  whatever salt and nonce were drawn, as long as the vault file is left alone and can be read, and the output can be opened and written in full.
  Decryption is assumed to undo encryption for buffers whose length an \<open>int\<close> can hold.\<close>

theorem vault_roundtrip:
  assumes "aead_correct C" and "length salt = 32" and "length iv = 12" and "fs path = Some content"
    and "vault_store C env ck salt iv path pass label fs = (0, fs')"
    and "fs'' (vault_filename (ck_now ck) label) = fs' (vault_filename (ck_now ck) label)"
    and "length content < 2 ^ 31" and "fe_room env (vault_filename (ck_now ck) label) = None"
    and "fe_readable env (vault_filename (ck_now ck) label)" and "can_write env out"
  shows "vault_retrieve C env (vault_filename (ck_now ck) label) pass out fs'' = Some (0, fs''(out \<mapsto> content))"
  using assms by (rule vault_roundtrip_lemma)

theorem vault_roundtrip_witness:
  "\<exists>fs'. vault_store demo_crypto open_env (demo_clock 60) (replicate 32 NUL) (replicate 12 NUL) ''a'' ''p'' None
       ((\<lambda>_. None)(''a'' \<mapsto> ''secret'')) = (0, fs') \<and>
     vault_retrieve demo_crypto open_env (vault_filename (ck_now (demo_clock 60)) None) ''p'' ''b'' fs' = Some (0, fs'(''b'' \<mapsto> ''secret''))"
proof -
  let ?st = "vault_store demo_crypto open_env (demo_clock 60) (replicate 32 NUL) (replicate 12 NUL) ''a'' ''p'' None
       ((\<lambda>_. None)(''a'' \<mapsto> ''secret''))"
  have st: "?st = (0, snd ?st)"
    by (simp add: vault_store_def f_read_def f_write_def split: prod.splits)
  have "vault_retrieve demo_crypto open_env (vault_filename (ck_now (demo_clock 60)) None) ''p'' ''b'' (snd ?st) = Some (0, (snd ?st)(''b'' \<mapsto> ''secret''))"
    by (rule vault_roundtrip [OF demo_crypto_correct _ _ _ st]) simp_all
  with st show ?thesis by blast
qed

text \<open>A passphrase that does not decrypt leaves no trace: retrieving reports 1 and no file is written or changed.\<close>

theorem vault_wrong_passphrase:
  assumes "f_read env fs file = Some content" and "length content \<ge> 60"
    and "\<forall>c n. vc_decrypt C (vc_kdf C pass (take 32 content)) (take 12 (drop 32 content)) c n (take 16 (drop 44 content)) = None"
  shows "vault_retrieve C env file pass out fs = Some (1, fs)"
  using assms by (simp add: vault_retrieve_def SALT_LEN_def IV_LEN_def TAG_LEN_def)

theorem vault_wrong_passphrase_witness:
  "vault_retrieve demo_crypto open_env ''v'' ''wrong'' ''out'' ((\<lambda>_. None)(''v'' \<mapsto> replicate 60 NUL)) = Some (1, (\<lambda>_. None)(''v'' \<mapsto> replicate 60 NUL))"
  by (rule vault_wrong_passphrase [where content = "replicate 60 NUL"]) (simp_all add: f_read_def demo_crypto_def numeral_eq_Suc)

text \<open>Two items stored with the same label in the same second share their vault file: the second one replaces the first, whose
  content is gone although both stores report success and both are listed in the index.\<close>

theorem vault_same_second_overwrites:
  assumes "aead_correct C" and "length salt' = 32" and "length iv' = 12" and "fs' path' = Some content'"
    and "vault_store C env ck salt iv path pass label fs = (0, fs')"
    and "vault_store C env ck salt' iv' path' pass label fs' = (0, fs'')"
    and "length content' < 2 ^ 31" and "fe_room env (vault_filename (ck_now ck) label) = None"
    and "fe_readable env (vault_filename (ck_now ck) label)" and "can_write env out"
  shows "vault_retrieve C env (vault_filename (ck_now ck) label) pass out fs'' = Some (0, fs''(out \<mapsto> content'))"
  by (rule vault_roundtrip_lemma [OF assms(1-4) assms(6) _ assms(7-10)]) simp

theorem vault_same_second_overwrites_witness:
  "\<exists>fs' fs''. vault_store demo_crypto open_env (demo_clock 60) (replicate 32 NUL) (replicate 12 NUL) ''a'' ''p'' None
       ((\<lambda>_. None)(''a'' \<mapsto> ''one'', ''b'' \<mapsto> ''two'')) = (0, fs') \<and>
     vault_retrieve demo_crypto open_env (vault_filename (ck_now (demo_clock 60)) None) ''p'' ''c'' fs'' = Some (0, fs''(''c'' \<mapsto> ''two''))"
proof -
  let ?st = "\<lambda>p fs. vault_store demo_crypto open_env (demo_clock 60) (replicate 32 NUL) (replicate 12 NUL) p ''p'' None fs"
  let ?fs = "(\<lambda>_. None)(''a'' \<mapsto> ''one'', ''b'' \<mapsto> ''two'')"
  have fname: "vault_filename t None \<noteq> [c]" for t c by (simp add: vault_filename_def snprintf_buf_def VAULT_DIR_def)
  have st: "?st ''a'' ?fs = (0, snd (?st ''a'' ?fs))" and b: "snd (?st ''a'' ?fs) ''b'' = Some ''two''"
    using fname [of 60 "CHR ''b''"]
    by (simp_all add: vault_store_def f_read_def f_write_def f_append_or_skip_def f_append_def VAULT_INDEX_def split: prod.splits)
  then have st2: "?st ''b'' (snd (?st ''a'' ?fs)) = (0, snd (?st ''b'' (snd (?st ''a'' ?fs))))"
    by (simp add: vault_store_def [of _ _ _ _ _ "''b''"] f_read_def f_write_def split: prod.splits)
  have "vault_retrieve demo_crypto open_env (vault_filename (ck_now (demo_clock 60)) None) ''p'' ''c'' (snd (?st ''b'' (snd (?st ''a'' ?fs))))
    = Some (0, (snd (?st ''b'' (snd (?st ''a'' ?fs))))(''c'' \<mapsto> ''two''))"
    by (rule vault_same_second_overwrites [OF demo_crypto_correct _ _ b st st2]) simp_all
  with st show ?thesis by blast
qed

text \<open>A file of 2 GiB is lost: the length that OpenSSL receives is negative, and if it encrypts nothing for such a length then the store
  returns 0, and so does retrieving, which writes an empty file.\<close>

theorem vault_two_gib_lost:
  assumes "aead_correct C" and "length salt = 32" and "length iv = 12" and "fs path = Some content" and "length content = 2 ^ 31"
    and "vc_encrypt C (vc_kdf C pass salt) iv [(content, - (2 ^ 31))] = vc_encrypt C (vc_kdf C pass salt) iv []"
    and "can_write env (vault_filename (ck_now ck) label)" and "fe_readable env path"
    and "fe_readable env (vault_filename (ck_now ck) label)" and "can_write env out"
  shows "\<exists>fs'. vault_store C env ck salt iv path pass label fs = (0, fs') \<and>
    vault_retrieve C env (vault_filename (ck_now ck) label) pass out fs' = Some (0, fs'(out \<mapsto> []))"
proof -
  let ?file = "vault_filename (ck_now ck) label"
  obtain c t where enc: "vc_encrypt C (vc_kdf C pass salt) iv [] = (c, t)" by (cases "vc_encrypt C (vc_kdf C pass salt) iv []")
  then have ct: "length t = 16" "c = []" "vc_decrypt C (vc_kdf C pass salt) iv c (evp_len c) t = Some []"
    using aead_correctD [OF assms(1) _ enc] by (simp_all add: evp_len_id)
  have len: "evp_len content = - (2 ^ 31)" by (simp add: evp_len_def wrap32_def assms(5))
  let ?st = "vault_store C env ck salt iv path pass label fs"
  have st: "?st = (0, snd ?st)" and f: "snd ?st ?file = Some (salt @ iv @ t @ c)"
    using assms(4,7,8) enc filename_not_index [of "ck_now ck" label] len assms(6)
    by (simp_all add: vault_store_def f_read_def f_write_def f_append_or_skip_def f_append_def)
  from f assms(2,3,9,10) ct have "vault_retrieve C env ?file pass out (snd ?st) = Some (0, (snd ?st)(out \<mapsto> []))"
    by (simp add: vault_retrieve_def f_read_def SALT_LEN_def IV_LEN_def TAG_LEN_def f_write_def)
  with st show ?thesis by blast
qed

section \<open>The index\<close>

definition label_ok :: "string \<Rightarrow> bool" where
  "label_ok l \<longleftrightarrow> l \<noteq> [] \<and> length l \<le> 63 \<and> BAR \<notin> set l \<and> NL \<notin> set l \<and> NUL \<notin> set l"

record vault_item =
  vi_time :: int
  vi_label :: "string option"
  vi_size :: nat

definition item_ok :: "clock \<Rightarrow> vault_item \<Rightarrow> bool" where
  "item_ok ck i \<longleftrightarrow> tm_ok (ck_localtime ck (vi_time i)) \<and> (case vi_label i of None \<Rightarrow> True | Some l \<Rightarrow> label_ok l) \<and> vi_size i < 2 ^ 31"

definition item_line :: "clock \<Rightarrow> vault_item \<Rightarrow> string" where
  "item_line ck i = index_line (ck\<lparr>ck_now := vi_time i\<rparr>) (vi_label i) (vi_size i)"

definition item_row :: "clock \<Rightarrow> vault_item \<Rightarrow> string \<times> string \<times> string" where
  "item_row ck i = (fmt_iso (ck_localtime ck (vi_time i)), case vi_label i of None \<Rightarrow> ''sin_etiqueta'' | Some l \<Rightarrow> l, nat_str (vi_size i) @ '' bytes'')"

definition shown_label :: "vault_item \<Rightarrow> string" where
  "shown_label i = (case vi_label i of None \<Rightarrow> ''sin_etiqueta'' | Some l \<Rightarrow> l)"

lemma item_line_parts:
  "item_line ck i = fmt_iso (ck_localtime ck (vi_time i)) @ BAR # shown_label i @ BAR # vault_filename (vi_time i) (vi_label i) @ BAR #
     nat_str (vi_size i) @ '' bytes''"
  by (simp add: item_line_def index_line_def now_iso_text_def shown_label_def)

lemma filename_parts:
  assumes "case label of None \<Rightarrow> True | Some l \<Rightarrow> label_ok l"
  shows "vault_filename t label \<noteq> []" "length (vault_filename t label) < 256"
    "BAR \<notin> set (vault_filename t label)" "NL \<notin> set (vault_filename t label)" "NUL \<notin> set (vault_filename t label)"
proof -
  let ?s = "VAULT_DIR @ CHR ''/'' # int_str t @ CHR ''_'' # (case label of None \<Rightarrow> ''item'' | Some l \<Rightarrow> l) @ ''.cvault''"
  show "vault_filename t label \<noteq> []" by (simp add: vault_filename_def snprintf_buf_def VAULT_DIR_def)
  show "length (vault_filename t label) < 256" unfolding vault_filename_def by (rule length_snprintf_buf) simp
  have "BAR \<notin> set ?s \<and> NL \<notin> set ?s \<and> NUL \<notin> set ?s"
    using assms by (auto simp: VAULT_DIR_def int_str_def label_ok_def dest: nat_str_digits split: option.splits if_splits)
  then show "BAR \<notin> set (vault_filename t label)" "NL \<notin> set (vault_filename t label)" "NUL \<notin> set (vault_filename t label)"
    using set_snprintf_buf [of 256 ?s] unfolding vault_filename_def by blast+
qed

lemma item_row_read:
  assumes "item_ok ck i"
  shows "index_row junk (item_line ck i @ [NL]) = Some (item_row ck i)"
    and "NL \<notin> set (item_line ck i)" and "length (item_line ck i) < 511"
proof -
  let ?d = "fmt_iso (ck_localtime ck (vi_time i))" let ?f = "vault_filename (vi_time i) (vi_label i)" let ?s = "nat_str (vi_size i) @ '' bytes''"
  have d: "?d \<noteq> []" "length ?d \<le> 31" "BAR \<notin> set ?d" "NL \<notin> set ?d" "NUL \<notin> set ?d"
    using assms length_fmt_year [of "ck_localtime ck (vi_time i)"] by (simp_all add: item_ok_def fmt_iso_free) (simp add: fmt_iso_def)
  have l: "shown_label i \<noteq> []" "length (shown_label i) \<le> 63" "BAR \<notin> set (shown_label i)" "NL \<notin> set (shown_label i)" "NUL \<notin> set (shown_label i)"
    using assms by (auto simp: item_ok_def label_ok_def shown_label_def split: option.splits)
  have f: "?f \<noteq> []" "length ?f \<le> 255" "BAR \<notin> set ?f" "NL \<notin> set ?f" "NUL \<notin> set ?f"
    using filename_parts [of "vi_label i" "vi_time i"] assms by (simp_all add: item_ok_def)
  have s: "length ?s \<le> 16" "NL \<notin> set ?s" "NUL \<notin> set ?s"
    using nat_str_length_mono [of "vi_size i" 10] assms by (auto simp: item_ok_def dest: nat_str_digits)
  show "NL \<notin> set (item_line ck i)" "length (item_line ck i) < 511" using d l f s by (auto simp: item_line_parts)
  have "cstr (item_line ck i @ [NL]) = item_line ck i @ [NL]"
    using d l f s by (intro cstr_no_nul) (auto simp: item_line_parts)
  moreover have "scan [Upto 31 BAR, Lit BAR, Upto 63 BAR, Lit BAR, Upto 255 BAR, Lit BAR, Upto 31 NL] (item_line ck i @ [NL]) =
      map VS [?d, shown_label i, ?f, ?s]"
    using d l f s scan_field(1) [of NL ?s 31 "[]" "[]"] by (simp add: item_line_parts scan_field(1) [of BAR])
  ultimately show "index_row junk (item_line ck i @ [NL]) = Some (item_row ck i)"
    by (simp add: index_row_def item_row_def shown_label_def Let_def numeral_3_eq_3)
qed

text \<open>The index is complete: over an index file of stored items with well-formed labels, the listing shows every item, in order,
  with its date, label and size.\<close>

theorem vault_index_complete:
  assumes "list_all (item_ok ck) items" and "f_read env fs VAULT_INDEX = Some (unlines (map (item_line ck) items))"
  shows "vault_list env junk fs = Some (map (item_row ck) items)"
proof -
  have "short_lines 511 (map (item_line ck) items)"
    using assms(1) item_row_read by (auto simp: short_lines_def list_all_iff)
  then have "read_lines 511 (unlines (map (item_line ck) items)) = map (\<lambda>i. item_line ck i @ [NL]) items"
    by (simp add: read_lines_unlines)
  moreover have "List.map_filter (\<lambda>(k, raw). index_row (junk k) raw) (zip [m..<m + length items] (map (\<lambda>i. item_line ck i @ [NL]) items)) = map (item_row ck) items" for m
    using assms(1)
  proof (induction items arbitrary: m)
    case (Cons i items)
    have "[m..<m + length (i # items)] = m # [Suc m..<Suc m + length items]" by (simp add: upt_conv_Cons del: upt_Suc)
    then show ?case using Cons.prems Cons.IH [of "Suc m"] item_row_read(1) [of ck i "junk m"]
      by (simp add: map_filter_simps del: upt_Suc)
  qed (simp add: map_filter_simps)
  from this [of 0] calculation show ?thesis using assms(2) by (simp add: vault_list_def)
qed

theorem vault_index_complete_witness:
  "vault_list open_env (\<lambda>_. []) ((\<lambda>_. None)(VAULT_INDEX \<mapsto> unlines (map (item_line (demo_clock 0))
      [\<lparr>vi_time = 60, vi_label = Some ''docs'', vi_size = 7\<rparr>, \<lparr>vi_time = 90, vi_label = None, vi_size = 0\<rparr>]))) =
    Some (map (item_row (demo_clock 0)) [\<lparr>vi_time = 60, vi_label = Some ''docs'', vi_size = 7\<rparr>, \<lparr>vi_time = 90, vi_label = None, vi_size = 0\<rparr>])"
  using demo_clock_ok [of 60 0] demo_clock_ok [of 90 0]
  by (intro vault_index_complete) (simp_all add: item_ok_def label_ok_def clock_ok_def f_read_def)

end
