(* ===== verification/HardwareGuard.thy ===== *)
theory HardwareGuard
  imports Files CScan CTime "HOL-Library.Word"
begin

text \<open>
  \<open>core/engine/chrono_hardware_guard.c\<close>: the scan of connected devices, their fingerprints and the logical quarantine. The
  attributes of a device are files below its directory of \<open>/sys\<close>, listings of directories are the parameter \<open>hw_dir\<close>.
\<close>

definition HW_WHITELIST :: string where "HW_WHITELIST = ''./etc/chrono/hw_whitelist.conf''"
definition QUARANTINE_LOG :: string where "QUARANTINE_LOG = ''./security/auth/quarantine.log''"
definition BLACKBOX :: string where "BLACKBOX = ''/mnt/data/power_blackbox.log''"

record hw_env =
  hw_clock :: "nat \<Rightarrow> clock"            \<comment> \<open>at the successive calls of \<open>time\<close>, one for each device\<close>
  hw_files :: file_env
  hw_dir :: "string \<Rightarrow> string list option"   \<comment> \<open>\<open>opendir\<close> and \<open>readdir\<close>\<close>

section \<open>Fingerprints\<close>

definition fnv_step :: "64 word \<Rightarrow> char \<Rightarrow> 64 word" where
  "fnv_step hash c = (xor hash (word_of_nat (code c))) * 16777619"

definition fnv1a :: "string \<Rightarrow> 64 word" where
  "fnv1a str = foldl fnv_step 2166136261 str"

fun hex_lower :: "nat \<Rightarrow> string" where
  "hex_lower n = (if n < 16 then [hex_digit n] else hex_lower (n div 16) @ [hex_digit (n mod 16)])"

declare hex_lower.simps [simp del]

definition fmt_08lx :: "64 word \<Rightarrow> string" where
  "fmt_08lx h = (let s = hex_lower (unat h) in replicate (8 - length s) (CHR ''0'') @ s)"

definition fp_hex :: "64 word \<Rightarrow> string" where
  \<comment> \<open>\<open>char fp_hex[16]; snprintf(fp_hex, sizeof(fp_hex), "%08lx", ...)\<close>\<close>
  "fp_hex h = snprintf_buf 16 (fmt_08lx h)"

definition read_attr :: "hw_env \<Rightarrow> files \<Rightarrow> string \<Rightarrow> string \<Rightarrow> nat \<Rightarrow> string option" where
  "read_attr env fs base attr len =
     (case f_read (hw_files env) fs (snprintf_buf 512 (base @ CHR ''/'' # attr)) of
        None \<Rightarrow> None
      | Some content \<Rightarrow> if content = [] then None else Some (takeWhile (\<lambda>c. c \<noteq> NL) (cstr (fgets_take (len - 1) content))))"

definition device_base :: "string \<Rightarrow> string \<Rightarrow> string" where
  "device_base class_path name = snprintf_buf 512 (class_path @ CHR ''/'' # name)"

definition device_fingerprint :: "hw_env \<Rightarrow> files \<Rightarrow> string \<Rightarrow> string" where
  "device_fingerprint env fs devbase =
     (let vendor = (case read_attr env fs devbase ''idVendor'' 64 of None \<Rightarrow> ''unknown'' | Some v \<Rightarrow> v);
          product = (case read_attr env fs devbase ''idProduct'' 64 of None \<Rightarrow> ''unknown'' | Some v \<Rightarrow> v);
          serial = (case read_attr env fs devbase ''serial'' 128 of None \<Rightarrow> ''none'' | Some v \<Rightarrow> v)
      in fp_hex (fnv1a (snprintf_buf 256 (vendor @ CHR '':'' # product @ CHR '':'' # serial))))"

section \<open>Quarantine\<close>

definition whitelist_line :: "string \<Rightarrow> string \<Rightarrow> bool" where
  \<comment> \<open>the body of the loop over the whitelist\<close>
  "whitelist_line fingerprint raw =
     (let line = cstr raw in
      \<not> (line \<noteq> [] \<and> (hd line = CHR ''#'' \<or> hd line = NL)) \<and> starts_with fingerprint (takeWhile (\<lambda>c. c \<noteq> NL) line))"

definition is_whitelisted :: "hw_env \<Rightarrow> files \<Rightarrow> string \<Rightarrow> bool" where
  "is_whitelisted env fs fingerprint =
     (case f_read (hw_files env) fs HW_WHITELIST of
        None \<Rightarrow> False | Some text \<Rightarrow> list_ex (whitelist_line fingerprint) (read_lines 255 text))"

definition blackbox_line :: "tm \<Rightarrow> string \<Rightarrow> string \<Rightarrow> string \<Rightarrow> bool \<Rightarrow> string" where
  \<comment> \<open>\<open>%08lx\<close> of \<open>strtoul(fingerprint, NULL, 16)\<close>; fingerprints are hexadecimal digits\<close>
  "blackbox_line now label fingerprint devpath authorized =
     ''['' @ fmt_plain now @ ''] [hw-guard] '' @ label @ '' fingerprint='' @ fmt_08lx (word_of_nat (hex_digits_val (take_hex fingerprint))) @
     '' path='' @ devpath @ '' authorized='' @ (if authorized then ''yes'' else ''NO'') @ [NL]"

definition quarantine_line :: "tm \<Rightarrow> string \<Rightarrow> string \<Rightarrow> string \<Rightarrow> string" where
  "quarantine_line now label fingerprint devpath =
     ''['' @ fmt_plain now @ ''] CUARENTENA: '' @ label @ '' (fingerprint '' @ fingerprint @ '') en '' @ devpath @
     '' - acceso a bovedas DENEGADO hasta aprobacion manual'' @ [NL]"

definition hw_log_event :: "hw_env \<Rightarrow> nat \<Rightarrow> string \<Rightarrow> string \<Rightarrow> string \<Rightarrow> bool \<Rightarrow> files \<Rightarrow> files" where
  "hw_log_event env k label fingerprint devpath authorized fs =
     (let now = ck_localtime (hw_clock env k) (ck_now (hw_clock env k));
          fs = f_append_or_skip (hw_files env) fs BLACKBOX (blackbox_line now label fingerprint devpath authorized)
      in if authorized then fs else f_append_or_skip (hw_files env) fs QUARANTINE_LOG (quarantine_line now label fingerprint devpath))"

definition scan_device :: "hw_env \<Rightarrow> string \<Rightarrow> string \<Rightarrow> string \<Rightarrow> nat \<times> files \<Rightarrow> nat \<times> files" where
  \<comment> \<open>the state is the number of readings of the clock so far, and the files\<close>
  "scan_device env class_path label name s =
     (case s of (k, fs) \<Rightarrow>
        let devbase = device_base class_path name; fp = device_fingerprint env fs devbase in
        (Suc k, hw_log_event env k label fp devbase (is_whitelisted env fs fp) fs))"

definition scanned :: "string list \<Rightarrow> string list" where
  \<comment> \<open>the entries that do not start with a dot\<close>
  "scanned names = filter (\<lambda>n. n = [] \<or> hd n \<noteq> CHR ''.'') names"

definition scan_class :: "hw_env \<Rightarrow> string \<Rightarrow> string \<Rightarrow> nat \<times> files \<Rightarrow> nat \<times> files" where
  "scan_class env class_path label s =
     (case hw_dir env class_path of None \<Rightarrow> s | Some names \<Rightarrow> fold (scan_device env class_path label) (scanned names) s)"

definition hardware_main :: "hw_env \<Rightarrow> files \<Rightarrow> int \<times> files" where
  "hardware_main env fs =
     (0, snd (scan_class env ''/sys/class/block'' ''STORAGE'' (scan_class env ''/sys/class/tty'' ''SERIAL''
        (scan_class env ''/sys/bus/usb/devices'' ''USB'' (0, fs)))))"

section \<open>The hash\<close>

definition fnv1a_32 :: "string \<Rightarrow> 32 word" where
  \<comment> \<open>the 32-bit FNV-1a of its authors\<close>
  "fnv1a_32 str = foldl (\<lambda>hash c. (xor hash (word_of_nat (code c))) * 0x01000193) 0x811C9DC5 str"

lemma ucast_mult: "(ucast (a * b :: 64 word) :: 32 word) = ucast a * ucast b"
proof (transfer)
  fix a b :: int
  have "take_bit 32 (take_bit 64 a * take_bit 64 b) = take_bit 32 (take_bit 32 (take_bit 64 a) * take_bit 32 (take_bit 64 b))"
    by (rule take_bit_mult [symmetric])
  then show "take_bit LENGTH(32) (take_bit LENGTH(64) (a * b)) = take_bit LENGTH(32) (take_bit LENGTH(64) a * take_bit LENGTH(64) b)"
    by (simp add: take_bit_mult)
qed

lemma ucast_xor: "(ucast (xor a b :: 64 word) :: 32 word) = xor (ucast a) (ucast b)"
  by transfer (simp add: take_bit_xor)

lemma ucast_of_nat: "(ucast (word_of_nat n :: 64 word) :: 32 word) = word_of_nat n"
  by transfer simp

text \<open>The hash is FNV-1a carried in 64 bits: its low 32 bits are the standard 32-bit FNV-1a of the text.\<close>

lemma hw_fnv_low32: "ucast (fnv1a str) = fnv1a_32 str"
proof -
  have "ucast (foldl fnv_step h str) = foldl (\<lambda>hash c. (xor hash (word_of_nat (code c))) * 0x01000193) (ucast h :: 32 word) str" for h :: "64 word"
  proof (induction str arbitrary: h)
    case (Cons c str)
    have "ucast (fnv_step h c) = (xor (ucast h) (word_of_nat (code c))) * (0x01000193 :: 32 word)"
      by (simp add: fnv_step_def ucast_mult ucast_xor ucast_of_nat)
    then show ?case using Cons [of "fnv_step h c"] by simp
  qed simp
  from this [of 2166136261] show ?thesis by (simp add: fnv1a_def fnv1a_32_def)
qed

section \<open>Truncated fingerprints\<close>

lemma length_hex_lower: "16 ^ k \<le> n \<Longrightarrow> n < 16 ^ Suc k \<Longrightarrow> length (hex_lower n) = Suc k"
proof (induction k arbitrary: n)
  case 0
  then show ?case by (subst hex_lower.simps) simp
next
  case (Suc k)
  have "16 ^ k \<le> n div 16" "n div 16 < 16 ^ Suc k"
    using Suc.prems by (simp_all add: less_eq_div_iff_mult_less_eq div_less_iff_less_mult mult.commute)
  moreover have "(16::nat) \<le> 16 ^ Suc k" by simp
  then have "\<not> n < 16" using Suc.prems(1) by linarith
  ultimately show ?case using Suc.IH [of "n div 16"] by (subst hex_lower.simps) simp
qed

lemma fp_hex_big:
  assumes "2 ^ 60 \<le> unat h"
  shows "fp_hex h = hex_lower (unat h div 16)"
proof -
  have "unat h < 2 ^ 64" using unsigned_less [of h] by simp
  then have "length (hex_lower (unat h div 16)) = Suc 14" by (intro length_hex_lower) (use assms in simp_all)
  moreover have "hex_lower (unat h) = hex_lower (unat h div 16) @ [hex_digit (unat h mod 16)]"
    using assms by (subst hex_lower.simps) simp
  ultimately show ?thesis by (simp add: fp_hex_def fmt_08lx_def snprintf_buf_def Let_def)
qed

text \<open>Long fingerprints lose their last digit: the buffer holds 15 characters, so two devices whose 64-bit hashes have 16
  digits and differ in the last one only have the same fingerprint, and an approval of one is an approval of the other.\<close>

theorem hw_fingerprint_truncated:
  assumes "2 ^ 60 \<le> unat h" and "2 ^ 60 \<le> unat h'" and "unat h div 16 = unat h' div 16"
  shows "fp_hex h = fp_hex h' \<and> length (fp_hex h) = 15"
proof -
  have "unat h < 2 ^ 64" using unsigned_less [of h] by simp
  then have "length (hex_lower (unat h div 16)) = Suc 14" by (intro length_hex_lower) (use assms in simp_all)
  then show ?thesis using assms by (simp add: fp_hex_big)
qed

theorem hw_fingerprint_truncated_witness:
  "fp_hex 0xF000000000000001 = fp_hex 0xF000000000000002 \<and> length (fp_hex 0xF000000000000001) = 15"
  by (rule hw_fingerprint_truncated) simp_all

section \<open>The scan\<close>

definition sysfs :: "string \<Rightarrow> bool" where
  \<comment> \<open>a path below \<open>/sys\<close>\<close>
  "sysfs p \<longleftrightarrow> take 5 p = ''/sys/''"

lemma sysfs_base: "sysfs class_path \<Longrightarrow> sysfs (device_base class_path name)"
  by (cases "length class_path \<ge> 5") (auto simp: sysfs_def device_base_def snprintf_buf_def min_def dest: arg_cong [where f = length])

lemma read_attr_log:
  assumes "sysfs base" and "p \<in> {BLACKBOX, QUARANTINE_LOG}"
  shows "read_attr env (fs(p \<mapsto> t)) base attr len = read_attr env fs base attr len"
proof -
  have "sysfs (snprintf_buf 512 (base @ CHR ''/'' # attr))"
    using assms(1) by (cases "length base \<ge> 5") (auto simp: sysfs_def snprintf_buf_def min_def dest: arg_cong [where f = length])
  then have "snprintf_buf 512 (base @ CHR ''/'' # attr) \<noteq> p"
    using assms(2) by (auto simp: sysfs_def BLACKBOX_def QUARANTINE_LOG_def)
  then show ?thesis by (simp add: read_attr_def)
qed

definition hw_view :: "hw_env \<Rightarrow> files \<Rightarrow> files \<Rightarrow> bool" where
  \<comment> \<open>two states of the files in which the devices and the whitelist look the same\<close>
  "hw_view env fs fs' \<longleftrightarrow> (\<forall>base. sysfs base \<longrightarrow> device_fingerprint env fs' base = device_fingerprint env fs base) \<and>
     is_whitelisted env fs' = is_whitelisted env fs"

lemma hw_view_refl [simp]: "hw_view env fs fs" by (simp add: hw_view_def)

lemma hw_view_log: "p \<in> {BLACKBOX, QUARANTINE_LOG} \<Longrightarrow> hw_view env fs (fs(p \<mapsto> t))"
proof -
  assume p: "p \<in> {BLACKBOX, QUARANTINE_LOG}"
  then have "HW_WHITELIST \<noteq> p" by (auto simp: HW_WHITELIST_def BLACKBOX_def QUARANTINE_LOG_def)
  then have "is_whitelisted env (fs(p \<mapsto> t)) = is_whitelisted env fs" by (rule_tac ext) (simp add: is_whitelisted_def)
  then show ?thesis using read_attr_log [OF _ p] by (simp add: hw_view_def device_fingerprint_def)
qed

lemma hw_view_trans: "hw_view env fs fs' \<Longrightarrow> hw_view env fs' fs'' \<Longrightarrow> hw_view env fs fs''"
  by (simp add: hw_view_def)

lemma log_event_view: "hw_view env fs (hw_log_event env k label fp devpath auth fs)"
  by (auto simp: hw_log_event_def f_append_or_skip_def f_append_def Let_def split: option.splits
      intro: hw_view_log hw_view_trans [OF hw_view_log hw_view_log])

definition device_quarantine :: "hw_env \<Rightarrow> nat \<Rightarrow> string \<Rightarrow> string \<Rightarrow> files \<Rightarrow> string \<Rightarrow> string" where
  \<comment> \<open>what the scan of one device adds to the quarantine\<close>
  "device_quarantine env k class_path label fs name =
     (let base = device_base class_path name; fp = device_fingerprint env fs base in
      if is_whitelisted env fs fp then [] else quarantine_line (ck_localtime (hw_clock env k) (ck_now (hw_clock env k))) label fp base)"

definition quarantine_of :: "files \<Rightarrow> string" where
  "quarantine_of fs = (case fs QUARANTINE_LOG of None \<Rightarrow> [] | Some t \<Rightarrow> t)"

lemma scan_device_quarantine:
  "quarantine_of (snd (scan_device env class_path label name (k, fs))) = quarantine_of fs @
     (if fe_writable (hw_files env) QUARANTINE_LOG
      then fe_written (hw_files env) QUARANTINE_LOG (device_quarantine env k class_path label fs name) else [])"
proof -
  have "BLACKBOX \<noteq> QUARANTINE_LOG" by (simp add: BLACKBOX_def QUARANTINE_LOG_def)
  then show ?thesis
    by (auto simp: scan_device_def hw_log_event_def device_quarantine_def quarantine_of_def f_append_or_skip_def f_append_def Let_def split: option.splits)
qed

text \<open>C24: The quarantine is complete where its log can be opened: a scan of a directory of \<open>/sys\<close> then adds to the
  quarantine log one entry for every listed device whose fingerprint is not on the whitelist, in order and with the time at which it was seen,
  and none for the others; each entry as far as the disk has room for it. Where the log cannot be opened, the scan goes on all the same and
  nothing is quarantined.\<close>

theorem hw_scan_quarantines:
  assumes "sysfs class_path" and "hw_dir env class_path = Some names"
  shows "quarantine_of (snd (scan_class env class_path label (k, fs))) =
    quarantine_of fs @ (if fe_writable (hw_files env) QUARANTINE_LOG
      then concat (map (\<lambda>(i, n). fe_written (hw_files env) QUARANTINE_LOG (device_quarantine env i class_path label fs n)) (enumerate k (scanned names)))
      else [])"
proof -
  let ?q = "\<lambda>fs i n. if fe_writable (hw_files env) QUARANTINE_LOG
    then fe_written (hw_files env) QUARANTINE_LOG (device_quarantine env i class_path label fs n) else []"
  have "quarantine_of (snd (fold (scan_device env class_path label) ns (k, fs'))) =
      quarantine_of fs' @ concat (map (\<lambda>(i, n). ?q fs i n) (enumerate k ns))" if "hw_view env fs fs'" for ns fs' k
    using that
  proof (induction ns arbitrary: fs' k)
    case (Cons n ns)
    obtain fs1 where one: "scan_device env class_path label n (k, fs') = (Suc k, fs1)" by (simp add: scan_device_def Let_def)
    then have "hw_view env fs fs1"
      using Cons.prems log_event_view unfolding scan_device_def Let_def by (auto intro: hw_view_trans)
    moreover have "device_quarantine env k class_path label fs' n = device_quarantine env k class_path label fs n"
      using Cons.prems sysfs_base [OF assms(1)] by (simp add: device_quarantine_def hw_view_def Let_def)
    ultimately show ?case using Cons.IH [of fs1 "Suc k"] one scan_device_quarantine [of env class_path label n k fs'] by simp
  qed simp
  from this [of fs "scanned names" k] assms(2) show ?thesis by (simp add: scan_class_def)
qed

definition demo_hw_env :: hw_env where
  "demo_hw_env = \<lparr>hw_clock = (\<lambda>k. demo_clock (60 + int k)), hw_files = open_env, hw_dir = (\<lambda>_. Some [''.'', ''..'', ''tty0'', ''tty1''])\<rparr>"

theorem hw_scan_quarantines_witness:
  "quarantine_of (snd (scan_class demo_hw_env ''/sys/class/tty'' ''SERIAL'' (5, \<lambda>_. None))) =
    device_quarantine demo_hw_env 5 ''/sys/class/tty'' ''SERIAL'' (\<lambda>_. None) ''tty0'' @
    device_quarantine demo_hw_env 6 ''/sys/class/tty'' ''SERIAL'' (\<lambda>_. None) ''tty1''"
proof -
  have dir: "hw_dir demo_hw_env ''/sys/class/tty'' = Some [''.'', ''..'', ''tty0'', ''tty1'']" by (simp add: demo_hw_env_def)
  have s: "sysfs ''/sys/class/tty''" by (simp add: sysfs_def)
  have f: "hw_files demo_hw_env = open_env" by (simp add: demo_hw_env_def)
  show ?thesis unfolding hw_scan_quarantines [OF s dir] f
    by (simp add: scanned_def quarantine_of_def)
qed

definition anonymous :: "files \<Rightarrow> string \<Rightarrow> bool" where
  \<comment> \<open>a device without the three attributes, as serial ports and disks are\<close>
  "anonymous fs base \<longleftrightarrow> (\<forall>attr \<in> {''idVendor'', ''idProduct'', ''serial''}. fs (snprintf_buf 512 (base @ CHR ''/'' # attr)) = None)"

text \<open>Devices without identification are one device: everything that has none of the three attributes has the same fingerprint,
  so once any serial port or disk is approved, no other one is ever put into quarantine.\<close>

theorem hw_anonymous_share_approval:
  assumes "anonymous fs (device_base c d)" and "anonymous fs (device_base c' d')"
    and "is_whitelisted env fs (device_fingerprint env fs (device_base c d))"
  shows "device_quarantine env k c' label fs d' = []"
proof -
  have "device_fingerprint env fs base = fp_hex (fnv1a (snprintf_buf 256 ''unknown:unknown:none''))" if "anonymous fs base" for base
    using that by (simp add: device_fingerprint_def anonymous_def read_attr_def f_read_def)
  then have "device_fingerprint env fs (device_base c d) = device_fingerprint env fs (device_base c' d')" using assms(1,2) by simp
  then show ?thesis using assms(3) by (simp add: device_quarantine_def Let_def)
qed

lemma hex_lower_chars: "c \<in> set (hex_lower n) \<Longrightarrow> is_lower_hex c"
proof (induction n rule: hex_lower.induct)
  case (1 n)
  then show ?case by (cases "n < 16") (auto simp: hex_lower.simps [of n])
qed

lemma fp_hex_chars: "c \<in> set (fp_hex h) \<Longrightarrow> is_lower_hex c"
proof -
  assume "c \<in> set (fp_hex h)"
  then have "c \<in> set (fmt_08lx h)" using set_snprintf_buf [of 16 "fmt_08lx h"] by (auto simp: fp_hex_def)
  then show ?thesis by (auto simp: fmt_08lx_def Let_def dest: hex_lower_chars) (simp add: is_lower_hex_def code_def)
qed

text \<open>An approval line for a fingerprint approves it.\<close>

lemma approval_line: "whitelist_line (fp_hex h) (fp_hex h @ CHR '' '' # owner @ [NL])" if "NUL \<notin> set owner" "NL \<notin> set owner"
proof -
  have chars: "\<forall>c \<in> set (fp_hex h). is_lower_hex c" by (simp add: fp_hex_chars)
  then have free: "NUL \<notin> set (fp_hex h)" "NL \<notin> set (fp_hex h)" "CHR ''#'' \<notin> set (fp_hex h)"
    by (auto simp: is_lower_hex_def code_def)
  moreover have "fp_hex h \<noteq> []"
  proof -
    have "hex_lower (unat h) \<noteq> []" by (subst hex_lower.simps) simp
    then show ?thesis by (simp add: fp_hex_def fmt_08lx_def snprintf_buf_def Let_def)
  qed
  then obtain c r where cr: "fp_hex h = c # r" by (cases "fp_hex h") auto
  have "takeWhile (\<lambda>c. c \<noteq> NL) ((fp_hex h @ CHR '' '' # owner) @ NL # []) = fp_hex h @ CHR '' '' # owner"
    by (rule takeWhile_stop) (use free that in auto)
  then have "takeWhile (\<lambda>c. c \<noteq> NL) (fp_hex h @ CHR '' '' # owner @ [NL]) = fp_hex h @ CHR '' '' # owner" by simp
  moreover have "cstr (fp_hex h @ CHR '' '' # owner @ [NL]) = fp_hex h @ CHR '' '' # owner @ [NL]"
    using free that by (intro cstr_no_nul) auto
  ultimately show ?thesis using free cr by (auto simp: whitelist_line_def Let_def starts_with_def)
qed

theorem hw_anonymous_share_approval_witness:
  "device_quarantine demo_hw_env 0 ''/sys/class/block'' ''STORAGE''
     ((\<lambda>_. None)(HW_WHITELIST \<mapsto> fp_hex (fnv1a ''unknown:unknown:none'') @ '' tty0'' @ [NL])) ''sda'' = []"
proof (rule hw_anonymous_share_approval [where c = "''/sys/class/tty''" and d = "''tty0''"])
  let ?fs = "(\<lambda>_. None)(HW_WHITELIST \<mapsto> fp_hex (fnv1a ''unknown:unknown:none'') @ '' tty0'' @ [NL])"
  show a: "anonymous ?fs (device_base ''/sys/class/tty'' ''tty0'')" "anonymous ?fs (device_base ''/sys/class/block'' ''sda'')"
    by (simp_all add: anonymous_def device_base_def snprintf_buf_def HW_WHITELIST_def)
  have fp: "device_fingerprint demo_hw_env ?fs (device_base ''/sys/class/tty'' ''tty0'') = fp_hex (fnv1a ''unknown:unknown:none'')"
    using a(1) by (simp add: device_fingerprint_def anonymous_def read_attr_def f_read_def)
  have "read_lines 255 (fp_hex (fnv1a ''unknown:unknown:none'') @ '' tty0'' @ [NL]) = [fp_hex (fnv1a ''unknown:unknown:none'') @ '' tty0'' @ [NL]]"
  proof -
    have "NL \<notin> set (fp_hex (fnv1a ''unknown:unknown:none''))" using fp_hex_chars is_lower_hex_special(2) by blast
    moreover have "length (fp_hex (fnv1a ''unknown:unknown:none'')) \<le> 15" by (simp add: fp_hex_def snprintf_buf_def)
    ultimately show ?thesis using read_lines_line [of "fp_hex (fnv1a ''unknown:unknown:none'') @ '' tty0''" 255 "[]"] by simp
  qed
  then show "is_whitelisted demo_hw_env ?fs (device_fingerprint demo_hw_env ?fs (device_base ''/sys/class/tty'' ''tty0''))"
    unfolding fp using approval_line [of "''tty0''" "fnv1a ''unknown:unknown:none''"]
    by (simp add: is_whitelisted_def f_read_def demo_hw_env_def)
qed

end
