(* ===== verification/Chronoctl.thy ===== *)
theory Chronoctl
  imports Files CScan
begin

text \<open>
  \<open>cli/chronoctl/src/main.c\<close>: the command line front end. It finds the service daemon by its name under \<open>/proc\<close> and sends
  it a signal. A run is the result with the lines printed to standard output and the signals sent, in order.
\<close>

definition CHRONO_VERSION :: string where "CHRONO_VERSION = ''1.1.0-alpha''"
definition SERVICE_NAME :: string where "SERVICE_NAME = ''chronod''"
definition SIGTERM :: nat where "SIGTERM = 15"

record ctl_env =
  ctl_proc :: "string list option"        \<comment> \<open>\<open>opendir("/proc")\<close> and its entries\<close>
  ctl_files :: "string \<Rightarrow> string option"  \<comment> \<open>what can be opened for reading\<close>
  ctl_kill :: "int \<Rightarrow> bool"               \<comment> \<open>\<open>kill\<close> succeeds\<close>

record ctl_run =
  run_result :: int
  run_signals :: "(int \<times> nat) list"
  run_output :: "string list"

definition strtol_end :: "string \<Rightarrow> int \<times> string" where
  \<comment> \<open>\<open>strtol(s, &end, 10)\<close> with what \<open>end\<close> points to\<close>
  "strtol_end s =
     (let (sg, t) = sign_of (dropWhile c_isspace s); ds = takeWhile c_isdigit t in
      if ds = [] then (0, s) else (clamp64 (sg * int (digits_val ds)), drop (length ds) t))"

definition comm_path :: "int \<Rightarrow> string" where
  "comm_path pid = snprintf_buf 256 (''/proc/'' @ int_str pid @ ''/comm'')"

definition entry_pid :: "ctl_env \<Rightarrow> string \<Rightarrow> string \<Rightarrow> int option" where
  \<comment> \<open>the body of the loop: the process of an entry of \<open>/proc\<close> when it has the name\<close>
  "entry_pid env name d_name =
     (let (pid, rest) = strtol_end d_name in
      if rest \<noteq> [] \<or> pid \<le> 0 then None
      else case ctl_files env (comm_path pid) of
        None \<Rightarrow> None
      | Some text \<Rightarrow>
          if text \<noteq> [] \<and> takeWhile (\<lambda>c. c \<noteq> NL) (cstr (fgets_take 127 text)) = name then Some (wrap32 pid) else None)"

fun first_pid :: "ctl_env \<Rightarrow> string \<Rightarrow> string list \<Rightarrow> int option" where
  "first_pid env name [] = None"
| "first_pid env name (d # ds) = (case entry_pid env name d of Some pid \<Rightarrow> Some pid | None \<Rightarrow> first_pid env name ds)"

definition find_process :: "ctl_env \<Rightarrow> string \<Rightarrow> int option" where
  "find_process env name = (case ctl_proc env of None \<Rightarrow> None | Some ds \<Rightarrow> first_pid env name ds)"

definition usage_text :: "string list" where
  "usage_text = [''ChronoCTL '' @ CHRONO_VERSION, [], ''Usage:'', ''  chronoctl status'', ''  chronoctl services'', ''  chronoctl stop chronod'',
     ''  chronoctl restart chronod'', ''  chronoctl logs'', ''  chronoctl version'']"

definition command_status :: "ctl_env \<Rightarrow> ctl_run" where
  "command_status env = \<lparr>run_result = 0, run_signals = [], run_output =
     [''ChronoOS '' @ CHRONO_VERSION, ''--------------------------------''] @
     (case find_process env SERVICE_NAME of
        Some pid \<Rightarrow> [''Init:     RUNNING'', ''ChronoD:  RUNNING'', ''PID:      '' @ int_str pid]
      | None \<Rightarrow> [''Init:     UNKNOWN'', ''ChronoD:  STOPPED''])\<rparr>"

definition command_services :: "ctl_env \<Rightarrow> ctl_run" where
  "command_services env = \<lparr>run_result = 0, run_signals = [], run_output =
     [''ChronoOS Services'', ''--------------------------------''] @
     (case find_process env SERVICE_NAME of
        Some pid \<Rightarrow> [SERVICE_NAME @ replicate (12 - length SERVICE_NAME) (CHR '' '') @ '' RUNNING  PID='' @ int_str pid]
      | None \<Rightarrow> [SERVICE_NAME @ replicate (12 - length SERVICE_NAME) (CHR '' '') @ '' STOPPED''])\<rparr>"

definition command_stop :: "ctl_env \<Rightarrow> string \<Rightarrow> ctl_run" where
  "command_stop env service =
     (if service \<noteq> SERVICE_NAME then \<lparr>run_result = 1, run_signals = [], run_output = []\<rparr>
      else case find_process env service of
        None \<Rightarrow> \<lparr>run_result = 0, run_signals = [], run_output = [''ChronoD is not running.'']\<rparr>
      | Some pid \<Rightarrow>
          let out = [''[chronoctl] Stopping '' @ service @ '' (PID '' @ int_str pid @ '')...''] in
          if \<not> ctl_kill env pid then \<lparr>run_result = 1, run_signals = [], run_output = out\<rparr>
          else \<lparr>run_result = 0, run_signals = [(pid, SIGTERM)], run_output = out @ [''[chronoctl] Stop signal sent.'']\<rparr>)"

definition command_restart :: "ctl_env \<Rightarrow> string \<Rightarrow> ctl_run" where
  "command_restart env service =
     (let requested = [''[chronoctl] Service restart requested.'', ''[chronoctl] The init supervisor will restart '' @ service @ ''.''] in
      if service \<noteq> SERVICE_NAME then \<lparr>run_result = 1, run_signals = [], run_output = []\<rparr>
      else case find_process env service of
        None \<Rightarrow> \<lparr>run_result = 0, run_signals = [], run_output = requested\<rparr>
      | Some pid \<Rightarrow>
          let out = [''[chronoctl] Stopping '' @ service @ '' (PID '' @ int_str pid @ '')...''] in
          if \<not> ctl_kill env pid then \<lparr>run_result = 1, run_signals = [], run_output = out\<rparr>
          else \<lparr>run_result = 0, run_signals = [(pid, SIGTERM)], run_output = out @ requested\<rparr>)"

definition command_logs :: ctl_run where
  "command_logs = \<lparr>run_result = 0, run_signals = [], run_output =
     [''ChronoOS logging interface'', ''--------------------------------'',
      ''Runtime logs are currently emitted by chrono-init and ChronoD.'',
      ''Persistent structured logging is scheduled for the next subsystem stage.'']\<rparr>"

definition ctl_main :: "ctl_env \<Rightarrow> string list \<Rightarrow> ctl_run" where
  "ctl_main env argv =
     (if length argv < 2 then \<lparr>run_result = 1, run_signals = [], run_output = usage_text\<rparr>
      else if argv ! 1 = ''status'' then command_status env
      else if argv ! 1 = ''services'' then command_services env
      else if argv ! 1 = ''logs'' then command_logs
      else if argv ! 1 = ''version'' then \<lparr>run_result = 0, run_signals = [], run_output = [''ChronoCTL '' @ CHRONO_VERSION]\<rparr>
      else if argv ! 1 = ''stop'' then
        (if length argv < 3 then \<lparr>run_result = 1, run_signals = [], run_output = []\<rparr> else command_stop env (argv ! 2))
      else if argv ! 1 = ''restart'' then
        (if length argv < 3 then \<lparr>run_result = 1, run_signals = [], run_output = []\<rparr> else command_restart env (argv ! 2))
      else \<lparr>run_result = 1, run_signals = [], run_output = usage_text\<rparr>)"

section \<open>Who is signalled\<close>

lemma first_pid_entry: "first_pid env name ds = Some pid \<Longrightarrow> \<exists>d \<in> set ds. entry_pid env name d = Some pid"
  by (induction ds) (auto split: option.splits)

lemma strtol_end_nat: "n < 2 ^ 63 \<Longrightarrow> strtol_end (nat_str n) = (int n, [])"
proof -
  assume n: "n < 2 ^ 63"
  obtain c r where cr: "nat_str n = c # r" by (cases "nat_str n") auto
  have all: "\<forall>x \<in> set (nat_str n). c_isdigit x" by (simp add: nat_str_digits)
  then have c: "c_isdigit c" using cr by simp
  have dw: "dropWhile c_isspace (nat_str n) = nat_str n" using cr isdigit_not_isspace [OF c] by simp
  have sg: "sign_of (nat_str n) = (1, nat_str n)" using c cr by (auto simp: sign_of_def)
  have tw: "takeWhile c_isdigit (nat_str n) = nat_str n" using all by (intro takeWhile_all) simp
  show ?thesis using n unfolding strtol_end_def dw sg Let_def prod.case tw by (simp add: digits_val_nat_str)
qed

definition process_named :: "ctl_env \<Rightarrow> nat \<Rightarrow> string \<Rightarrow> bool" where
  \<comment> \<open>a process with this number is listed and has the name\<close>
  "process_named env n name \<longleftrightarrow> nat_str n \<in> set (case ctl_proc env of None \<Rightarrow> [] | Some ds \<Rightarrow> ds) \<and>
     ctl_files env (comm_path (int n)) = Some (name @ [NL])"

definition proc_entry :: "ctl_env \<Rightarrow> string \<Rightarrow> bool" where
  \<comment> \<open>what \<open>/proc\<close> holds: names that start with a letter, and numbers of processes with a one-line name\<close>
  "proc_entry env d \<longleftrightarrow> (d \<noteq> [] \<and> \<not> c_isspace (hd d) \<and> \<not> c_isdigit (hd d) \<and> hd d \<notin> {CHR ''-'', CHR ''+''}) \<or>
     (\<exists>n < 2 ^ 31. 0 < n \<and> d = nat_str n \<and> (\<exists>name. ctl_files env (comm_path (int n)) = Some (name @ [NL]) \<and>
        length name < 16 \<and> NL \<notin> set name \<and> NUL \<notin> set name))"

lemma entry_pid_named:
  assumes "proc_entry env d" and "entry_pid env name d = Some pid"
  shows "\<exists>n. pid = int n \<and> d = nat_str n \<and> ctl_files env (comm_path pid) = Some (name @ [NL])"
proof -
  consider (other) "d \<noteq> []" "\<not> c_isspace (hd d)" "\<not> c_isdigit (hd d)" "hd d \<notin> {CHR ''-'', CHR ''+''}"
    | (num) n nm where "n < 2 ^ 31" "d = nat_str n" "ctl_files env (comm_path (int n)) = Some (nm @ [NL])" "length nm < 16"
        "NL \<notin> set nm" "NUL \<notin> set nm"
    using assms(1) unfolding proc_entry_def by blast
  then show ?thesis
  proof cases
    case other
    then have "strtol_end d = (0, d)" by (cases d) (auto simp: strtol_end_def sign_of_def)
    with other assms(2) show ?thesis by (simp add: entry_pid_def)
  next
    case num
    have "strtol_end d = (int n, [])" using num strtol_end_nat [of n] by simp
    moreover have "takeWhile (\<lambda>c. c \<noteq> NL) (cstr (fgets_take 127 (nm @ [NL]))) = nm"
    proof -
      have "fgets_take 127 (nm @ [NL]) = nm @ [NL]" using num fgets_len_line [of nm 127 "[]"] by (simp add: fgets_take_def)
      moreover have "cstr (nm @ [NL]) = nm @ [NL]" using num by (intro cstr_no_nul) simp
      moreover have "takeWhile (\<lambda>c. c \<noteq> NL) (nm @ [NL]) = nm" by (rule takeWhile_stop) (use num in auto)
      ultimately show ?thesis by simp
    qed
    ultimately show ?thesis using assms(2) num by (auto simp: entry_pid_def split: if_splits)
  qed
qed

text \<open>The front end signals the service daemon and nothing else: whatever the command line, at most one signal is sent, it is
  \<open>SIGTERM\<close>, and it goes to a listed process whose name is that of the daemon.\<close>

theorem ctl_signals_only_daemon:
  assumes "\<forall>d \<in> set (case ctl_proc env of None \<Rightarrow> [] | Some ds \<Rightarrow> ds). proc_entry env d"
  shows "run_signals (ctl_main env argv) = [] \<or>
    (\<exists>n. run_signals (ctl_main env argv) = [(int n, SIGTERM)] \<and> process_named env n SERVICE_NAME)"
proof -
  have found: "\<exists>n. pid = int n \<and> process_named env n SERVICE_NAME" if found: "find_process env SERVICE_NAME = Some pid" for pid
  proof -
    obtain ds where ds: "ctl_proc env = Some ds" "first_pid env SERVICE_NAME ds = Some pid"
      using found by (auto simp: find_process_def split: option.splits)
    then obtain d where d: "d \<in> set ds" "entry_pid env SERVICE_NAME d = Some pid" using first_pid_entry by blast
    then show ?thesis using entry_pid_named [OF _ d(2)] assms ds by (auto simp: process_named_def)
  qed
  then show ?thesis
    by (auto simp: ctl_main_def command_status_def command_services_def command_logs_def command_stop_def command_restart_def Let_def
        split: option.splits)
qed

definition demo_ctl :: ctl_env where
  "demo_ctl = \<lparr>ctl_proc = Some [''self'', nat_str 7], ctl_files = (\<lambda>_. None)(comm_path (int 7) \<mapsto> ''chronod'' @ [NL]), ctl_kill = (\<lambda>_. True)\<rparr>"

theorem ctl_signals_only_daemon_witness:
  "run_signals (ctl_main demo_ctl [''chronoctl'', ''stop'', ''chronod'']) = [] \<or>
    (\<exists>n. run_signals (ctl_main demo_ctl [''chronoctl'', ''stop'', ''chronod'']) = [(int n, SIGTERM)] \<and> process_named demo_ctl n SERVICE_NAME)"
proof (rule ctl_signals_only_daemon)
  have "proc_entry demo_ctl ''self''" by (simp add: proc_entry_def c_isspace_def c_isdigit_def code_def)
  moreover have "proc_entry demo_ctl (nat_str 7)"
    unfolding proc_entry_def by (rule disjI2, rule exI [of _ 7]) (simp add: demo_ctl_def exI [of _ "''chronod''"])
  ultimately show "\<forall>d \<in> set (case ctl_proc demo_ctl of None \<Rightarrow> [] | Some ds \<Rightarrow> ds). proc_entry demo_ctl d"
    by (simp add: demo_ctl_def)
qed

text \<open>A restart of a daemon that does not run does nothing: no signal is sent and nothing is started, yet the command announces
  that the supervisor will restart it and reports success.\<close>

theorem ctl_restart_of_stopped:
  assumes "find_process env SERVICE_NAME = None"
  shows "ctl_main env [prog, ''restart'', SERVICE_NAME] = \<lparr>run_result = 0, run_signals = [],
    run_output = [''[chronoctl] Service restart requested.'', ''[chronoctl] The init supervisor will restart chronod.'']\<rparr>"
  using assms by (simp add: ctl_main_def command_restart_def SERVICE_NAME_def)

theorem ctl_restart_of_stopped_witness:
  "ctl_main \<lparr>ctl_proc = None, ctl_files = (\<lambda>_. None), ctl_kill = (\<lambda>_. True)\<rparr> [''chronoctl'', ''restart'', SERVICE_NAME] =
   \<lparr>run_result = 0, run_signals = [],
    run_output = [''[chronoctl] Service restart requested.'', ''[chronoctl] The init supervisor will restart chronod.'']\<rparr>"
  by (rule ctl_restart_of_stopped) (simp add: find_process_def)

end
