(* ===== verification/ContextAuth.thy ===== *)
theory ContextAuth
  imports Files CScan CTime
begin

text \<open>
  \<open>core/auth/chrono_context_auth.c\<close>: authentication by PIN and physical context. \<open>H\<close> is SHA-256. The
  commands that would describe the context are given to the disabled shell.
\<close>

definition AUTH_DB :: string where "AUTH_DB = ''./security/auth/context_profiles.conf''"
definition ACCESS_LOG :: string where "ACCESS_LOG = ''./security/auth/access.log''"

definition auth_sha256_hex :: "(string \<Rightarrow> string) \<Rightarrow> string \<Rightarrow> string" where
  "auth_sha256_hex H input = hex_of (H input)"

definition gather_network_context :: "nat \<Rightarrow> string" where
  "gather_network_context outlen =
     (let buf = guarded_output 2047 ''ip addr show 2>/dev/null | grep 'inet ' | awk '{print $2}' | head -5'';
          buf2 = guarded_output 511 ''wg show 2>/dev/null | grep peer | head -5''
      in snprintf_buf outlen (''NET:'' @ buf @ ''|WG:'' @ buf2))"

definition gather_hw_context :: "nat \<Rightarrow> string" where
  "gather_hw_context outlen =
     (let buf = guarded_output 511 ''getprop ro.serialno 2>/dev/null || cat /proc/cpuinfo 2>/dev/null | grep Serial | head -1''
      in snprintf_buf outlen (''HW:'' @ buf))"

definition generate_token :: "(string \<Rightarrow> string) \<Rightarrow> string \<Rightarrow> string" where
  "generate_token H pin =
     (let net = gather_network_context 2048; hw = gather_hw_context 512 in
      auth_sha256_hex H (snprintf_buf 4096 (pin @ BAR # net @ BAR # hw)))"

definition auth_enroll :: "(string \<Rightarrow> string) \<Rightarrow> file_env \<Rightarrow> tm \<Rightarrow> string \<Rightarrow> string \<Rightarrow> files \<Rightarrow> files" where
  "auth_enroll H env now user pin fs =
     (let token = generate_token H pin in
      f_append_or_skip env fs AUTH_DB (user @ COMMA # token @ COMMA # fmt_iso now @ [NL]))"

fun auth_lookup :: "string \<Rightarrow> string \<Rightarrow> string list \<Rightarrow> bool" where
  \<comment> \<open>the loop over the profiles: the first one of the user decides\<close>
  "auth_lookup current user [] = False"
| "auth_lookup current user (raw # raws) =
     (let vs = scan [Upto 63 COMMA, Lit COMMA, Upto 64 COMMA] (cstr raw) in
      if length vs = 2 \<and> str_at vs 0 [] = user then str_at vs 1 [] = current
      else auth_lookup current user raws)"

definition auth_verify :: "(string \<Rightarrow> string) \<Rightarrow> file_env \<Rightarrow> string \<Rightarrow> string \<Rightarrow> files \<Rightarrow> bool \<times> files" where
  "auth_verify H env user pin fs =
     (let current = generate_token H pin in
      case f_read env fs AUTH_DB of
        None \<Rightarrow> (False, fs)
      | Some db \<Rightarrow>
          if auth_lookup current user (read_lines 255 db) then (True, fs)
          else (False, f_append_or_skip env fs ACCESS_LOG (''FAILED context_auth user='' @ user @ [NL])))"

definition auth_main :: "(string \<Rightarrow> string) \<Rightarrow> file_env \<Rightarrow> tm \<Rightarrow> string list \<Rightarrow> files \<Rightarrow> int \<times> files" where
  "auth_main H env now argv fs =
     (if length argv < 4 then (1, fs)
      else if argv ! 1 = ''enroll'' then (0, auth_enroll H env now (argv ! 2) (argv ! 3) fs)
      else if argv ! 1 = ''verify'' then
        (case auth_verify H env (argv ! 2) (argv ! 3) fs of (ok, fs) \<Rightarrow> (if ok then 0 else 1, fs))
      else (0, fs))"

section \<open>What the token depends on\<close>

text \<open>The physical context is not part of the token: it is the digest of the PIN and a constant text, the same on
  every device and in every network. Whoever knows the PIN is accepted everywhere.\<close>

theorem auth_token_is_pin_only:
  assumes "length pin < 4000"
  shows "generate_token H pin = hex_of (H (pin @ ''|NET:|WG:|HW:''))"
  using assms by (simp add: generate_token_def gather_network_context_def gather_hw_context_def auth_sha256_hex_def)

theorem auth_token_is_pin_only_witness: "generate_token rev ''1234'' = hex_of (rev (''1234'' @ ''|NET:|WG:|HW:''))"
  by (rule auth_token_is_pin_only) simp

definition auth_user_ok :: "string \<Rightarrow> bool" where
  "auth_user_ok user \<longleftrightarrow> user \<noteq> [] \<and> length user \<le> 63 \<and> COMMA \<notin> set user \<and> NL \<notin> set user \<and> NUL \<notin> set user"

definition auth_line :: "(string \<Rightarrow> string) \<Rightarrow> tm \<Rightarrow> string \<Rightarrow> string \<Rightarrow> string" where
  "auth_line H now user pin = user @ COMMA # generate_token H pin @ COMMA # fmt_iso now"

lemma auth_lookup_line:
  assumes "auth_user_ok user'" and "\<forall>x. length (H x) = 32"
  shows "auth_lookup current user ((auth_line H now user' pin @ [NL]) # raws) =
    (if user = user' then current = generate_token H pin else auth_lookup current user raws)"
proof -
  have tok: "generate_token H pin \<noteq> []" "length (generate_token H pin) \<le> 64" "COMMA \<notin> set (generate_token H pin)"
      "NUL \<notin> set (generate_token H pin)"
    using assms(2) by (auto simp: generate_token_def auth_sha256_hex_def Let_def cstr_simps length_0_conv [symmetric] simp del: length_0_conv)
  have "NUL \<notin> set (auth_line H now user' pin @ [NL])"
    using assms(1) tok by (auto simp: auth_line_def auth_user_ok_def fmt_iso_free)
  moreover have "scan [Upto 63 COMMA, Lit COMMA, Upto 64 COMMA] (auth_line H now user' pin @ [NL]) = [VS user', VS (generate_token H pin)]"
    using assms(1) tok by (simp add: auth_line_def auth_user_ok_def scan_field)
  ultimately show ?thesis by (auto simp: numeral_2_eq_2 simp del: append_Cons)
qed

definition auth_db_of :: "(string \<Rightarrow> string) \<Rightarrow> (tm \<times> string \<times> string) list \<Rightarrow> string" where
  \<comment> \<open>the profiles after a list of enrolments (time, user, PIN)\<close>
  "auth_db_of H es = unlines (map (\<lambda>(t, u, p). auth_line H t u p) es)"

definition enrolled :: "(tm \<times> string \<times> string) list \<Rightarrow> string \<Rightarrow> string option" where
  \<comment> \<open>the PIN of the first enrolment of a user\<close>
  "enrolled es = map_of (map snd es)"

definition auth_entries_ok :: "(tm \<times> string \<times> string) list \<Rightarrow> bool" where
  "auth_entries_ok es \<longleftrightarrow> list_all (\<lambda>(t, u, p). auth_user_ok u \<and> tm_year t < 10000) es"

lemma auth_line_short:
  assumes "auth_user_ok user" and "tm_year now < 10000" and "\<forall>x. length (H x) = 32"
  shows "NL \<notin> set (auth_line H now user pin) \<and> length (auth_line H now user pin) < 255"
proof -
  have "length (nat_str (tm_year now)) \<le> 4" by (rule nat_str_length_mono) (use assms(2) in simp_all)
  moreover have "NL \<notin> set (generate_token H pin)" "length (generate_token H pin) = 64"
    using assms(3) by (auto simp: generate_token_def auth_sha256_hex_def Let_def cstr_simps)
  ultimately show ?thesis using assms(1) by (auto simp: auth_line_def auth_user_ok_def fmt_iso_free)
qed

lemma auth_lookup_db:
  assumes "auth_entries_ok es" and "\<forall>x. length (H x) = 32"
  shows "auth_lookup current user (read_lines 255 (auth_db_of H es)) =
    (case enrolled es user of None \<Rightarrow> False | Some pin \<Rightarrow> current = generate_token H pin)"
proof -
  have "short_lines 255 (map (\<lambda>(t, u, p). auth_line H t u p) es)"
    using assms auth_line_short by (fastforce simp: short_lines_def auth_entries_ok_def list_all_iff)
  then have "read_lines 255 (auth_db_of H es) = map (\<lambda>l. l @ [NL]) (map (\<lambda>(t, u, p). auth_line H t u p) es)"
    unfolding auth_db_of_def by (rule read_lines_unlines)
  moreover have "auth_lookup current user (map (\<lambda>l. l @ [NL]) (map (\<lambda>(t, u, p). auth_line H t u p) es)) =
      (case enrolled es user of None \<Rightarrow> False | Some pin \<Rightarrow> current = generate_token H pin)"
    using assms(1)
    by (induction es)
      (auto simp: enrolled_def auth_entries_ok_def auth_lookup_line [OF _ assms(2)] simp del: auth_lookup.simps(2))
  ultimately show ?thesis by simp
qed

lemma enroll_db:
  "fs AUTH_DB = (if es = [] then None else Some (auth_db_of H es)) \<Longrightarrow> can_write env AUTH_DB \<Longrightarrow>
     auth_enroll H env now user pin fs AUTH_DB = Some (auth_db_of H (es @ [(now, user, pin)]))"
  by (simp add: auth_enroll_def f_append_or_skip_def f_append_def auth_db_of_def auth_line_def Let_def)

fun auth_enroll_all :: "(string \<Rightarrow> string) \<Rightarrow> file_env \<Rightarrow> (tm \<times> string \<times> string) list \<Rightarrow> files \<Rightarrow> files" where
  "auth_enroll_all H env [] fs = fs"
| "auth_enroll_all H env ((now, user, pin) # es) fs = auth_enroll_all H env es (auth_enroll H env now user pin fs)"

lemma auth_enroll_all_db:
  "fs AUTH_DB = (if ds = [] then None else Some (auth_db_of H ds)) \<Longrightarrow> can_write env AUTH_DB \<Longrightarrow> ds @ es \<noteq> []
    \<Longrightarrow> auth_enroll_all H env es fs AUTH_DB = Some (auth_db_of H (ds @ es))"
proof (induction es arbitrary: ds fs)
  case (Cons e es)
  obtain now user pin where e: "e = (now, user, pin)" by (cases e)
  have "auth_enroll H env now user pin fs AUTH_DB = Some (auth_db_of H (ds @ [e]))"
    using enroll_db [of fs ds H env now user pin] Cons.prems(1,2) e by simp
  then show ?case using Cons.IH [of "auth_enroll H env now user pin fs" "ds @ [e]"] Cons.prems(2) e by simp
qed simp

text \<open>Verification decides by the first enrolment: after any sequence of enrolments in an empty database, a user is
  accepted exactly when the token of the given PIN is that of the PIN of the first enrolment of this user.
  Enrolling a user again (say, after the PIN was compromised) changes nothing.\<close>

theorem auth_first_enrolment_decides:
  assumes "fs AUTH_DB = None" and "es \<noteq> []" and "auth_entries_ok es" and "\<forall>x. length (H x) = 32"
    and "can_write env AUTH_DB" and "fe_readable env AUTH_DB"
  shows "fst (auth_verify H env user pin (auth_enroll_all H env es fs)) \<longleftrightarrow>
    (\<exists>pin'. enrolled es user = Some pin' \<and> generate_token H pin = generate_token H pin')"
proof -
  have "f_read env (auth_enroll_all H env es fs) AUTH_DB = Some (auth_db_of H es)"
    using auth_enroll_all_db [of fs "[]" H env es] assms(1,2,5,6) by (simp add: f_read_def)
  then show ?thesis
    by (auto simp: auth_verify_def Let_def auth_lookup_db [OF assms(3,4)] split: option.splits)
qed

theorem auth_first_enrolment_decides_witness:
  "fst (auth_verify pad32 open_env ''ana'' ''2''
      (auth_enroll_all pad32 open_env [(demo_tm, ''ana'', ''1''), (demo_tm, ''ana'', ''2'')] (\<lambda>_. None))) \<longleftrightarrow>
    (\<exists>pin'. enrolled [(demo_tm, ''ana'', ''1''), (demo_tm, ''ana'', ''2'')] ''ana'' = Some pin' \<and>
      generate_token pad32 ''2'' = generate_token pad32 pin')"
  by (rule auth_first_enrolment_decides) (simp_all add: auth_entries_ok_def auth_user_ok_def demo_tm_def)

end
