(* ===== verification/DeviceIdentity.thy ===== *)
theory DeviceIdentity
  imports Files
begin

text \<open>
  \<open>core/identity/chrono_device_identity.c\<close>: the identity of a device and the check of its hardware. \<open>H\<close> is
  SHA-256. A result of \<open>None\<close> is a crash (a \<open>NULL\<close> stream or string is used). \<open>junk\<close> is what the array
  \<open>combo\<close> holds behind the formatted text: the digest is taken over 96 bytes, also when the random
  secret contains a NUL byte and the text is shorter.
\<close>

definition DEVICE_IDENTITY_FILE :: string where "DEVICE_IDENTITY_FILE = ''./security/auth/device_identity.json''"

definition identity_sha256_hex :: "(string \<Rightarrow> string) \<Rightarrow> string \<Rightarrow> string" where
  "identity_sha256_hex H data = hex_of (H data)"

definition gather_hw_fingerprint :: "nat \<Rightarrow> bool \<times> string" where
  "gather_hw_fingerprint outlen =
     (let buf = guarded_output 2047 (''cat /proc/cpuinfo 2>/dev/null | grep -i 'hardware'' @ BSLASH # ''|serial' | head -3'');
          buf2 = guarded_output 511 ''getprop ro.serialno 2>/dev/null || cat /sys/class/dmi/id/board_serial 2>/dev/null'';
          out = take (outlen - 1) (buf @ take (2048 - length buf - 1) buf2)
      in (length out > 0, out))"

definition secret_bytes :: "string \<Rightarrow> string \<Rightarrow> string" where
  \<comment> \<open>the 32 bytes behind \<open>hw_hash\<close> in \<open>combo\<close> after \<open>%.*s\<close> with precision 32\<close>
  "secret_bytes junk secret = (let t = take 32 (cstr secret) in if length t < 32 then take 32 (t @ NUL # junk) else t)"

definition device_identity_text :: "string \<Rightarrow> string \<Rightarrow> string" where
  "device_identity_text combined_id hw_hash = unlines
     [''{'', ''  '' @ QUOTE # ''device_id'' @ QUOTE # '': '' @ QUOTE # combined_id @ QUOTE # '','',
      ''  '' @ QUOTE # ''hw_fingerprint_hash'' @ QUOTE # '': '' @ QUOTE # hw_hash @ QUOTE # '','',
      ''  '' @ QUOTE # ''generated_offline'' @ QUOTE # '': true,'',
      ''  '' @ QUOTE # ''authority'' @ QUOTE # '': '' @ QUOTE # ''none'' @ [QUOTE], ''}'']"

definition identity_generate ::
  "(string \<Rightarrow> string) \<Rightarrow> file_env \<Rightarrow> string option \<Rightarrow> string \<Rightarrow> files \<Rightarrow> (int \<times> files) option" where
  \<comment> \<open>\<open>secret\<close>: 32 bytes of \<open>/dev/urandom\<close>, or \<open>None\<close> when it cannot be opened\<close>
  "identity_generate H env secret junk fs =
     (let (found, fp) = gather_hw_fingerprint 2048;
          hw_fp = (if found then fp else ''no_hw_fp_available_fallback'') in
      case secret of
        None \<Rightarrow> None
      | Some s \<Rightarrow>
          let hw_hash = identity_sha256_hex H hw_fp;
              combined_id = identity_sha256_hex H (hw_hash @ secret_bytes junk s) in
          (case f_write env fs DEVICE_IDENTITY_FILE (device_identity_text combined_id hw_hash) of
             None \<Rightarrow> None
           | Some fs \<Rightarrow> Some (0, fs)))"

fun stored_hash :: "string \<Rightarrow> string list \<Rightarrow> string option" where
  \<comment> \<open>the loop that looks for the stored digest; a line without \<open>": \<close> crashes\<close>
  "stored_hash stored [] = Some stored"
| "stored_hash stored (raw # raws) =
     (case c_strstr ''hw_fingerprint_hash'' (cstr raw) of
        None \<Rightarrow> stored_hash stored raws
      | Some _ \<Rightarrow>
          (case c_strstr ('': '' @ [QUOTE]) (cstr raw) of
             None \<Rightarrow> None
           | Some t \<Rightarrow>
               let v = take 64 (takeWhile (\<lambda>c. c \<noteq> QUOTE) (drop 3 t)) in
               stored_hash (if v = [] then stored else v) raws))"

definition identity_verify_hw :: "(string \<Rightarrow> string) \<Rightarrow> file_env \<Rightarrow> files \<Rightarrow> int option" where
  "identity_verify_hw H env fs =
     (let (found, current_fp) = gather_hw_fingerprint 2048; current_hash = identity_sha256_hex H current_fp in
      case f_read env fs DEVICE_IDENTITY_FILE of
        None \<Rightarrow> Some 1
      | Some content \<Rightarrow>
          (case stored_hash [] (read_lines 255 content) of
             None \<Rightarrow> None
           | Some stored \<Rightarrow> Some (if current_hash = stored then 0 else 1)))"

definition identity_main ::
  "(string \<Rightarrow> string) \<Rightarrow> file_env \<Rightarrow> string option \<Rightarrow> string \<Rightarrow> string list \<Rightarrow> files \<Rightarrow> (int \<times> files) option" where
  "identity_main H env secret junk argv fs =
     (if length argv < 2 \<or> argv ! 1 = ''generate'' then identity_generate H env secret junk fs
      else if argv ! 1 = ''verify-hw'' then map_option (\<lambda>rc. (rc, fs)) (identity_verify_hw H env fs)
      else Some (0, fs))"

section \<open>Generating and then verifying\<close>

lemma gather_empty: "gather_hw_fingerprint n = (False, [])"
  by (simp add: gather_hw_fingerprint_def)

lemma strstr_absent: "q \<notin> set s \<Longrightarrow> c_strstr (q # p) s = None"
  using strstr_skip_free [of q s p "[]"] by simp

definition id_line :: "string \<Rightarrow> string" where
  "id_line cid = ''  '' @ QUOTE # ''device_id'' @ QUOTE # '': '' @ QUOTE # cid @ QUOTE # '',''"

definition hash_line :: "string \<Rightarrow> string" where
  "hash_line h = ''  '' @ QUOTE # ''hw_fingerprint_hash'' @ QUOTE # '': '' @ QUOTE # h @ QUOTE # '',''"

definition hex64 :: "string \<Rightarrow> bool" where
  "hex64 h \<longleftrightarrow> length h = 64 \<and> (\<forall>c \<in> set h. is_lower_hex c)"

lemma hex64_free: "hex64 h \<Longrightarrow> \<not> is_lower_hex d \<Longrightarrow> d \<notin> set h"
  by (auto simp: hex64_def)

lemma hex64_hex_of: "\<forall>x. length (H x) = 32 \<Longrightarrow> hex64 (hex_of (H x))"
  by (simp add: hex64_def hex_of_lower)

lemma skip_id_line: "hex64 cid \<Longrightarrow> stored_hash st ((id_line cid @ [NL]) # raws) = stored_hash st raws"
proof -
  assume h: "hex64 cid"
  have "NUL \<notin> set (id_line cid @ [NL])" "CHR ''h'' \<notin> set (id_line cid @ [NL])"
    using hex64_free [OF h] by (auto simp: id_line_def is_lower_hex_def code_def)
  then show ?thesis by (simp add: strstr_absent)
qed

lemma read_hash_line: "hex64 h \<Longrightarrow> stored_hash st ((hash_line h @ [NL]) # raws) = stored_hash h raws"
proof -
  assume h: "hex64 h"
  let ?l = "hash_line h @ [NL]"
  have nul: "NUL \<notin> set ?l" using hex64_free [OF h] by (auto simp: hash_line_def)
  have "?l = (''  '' @ [QUOTE]) @ (''hw_fingerprint_hash'' @ QUOTE # '': '' @ QUOTE # h @ QUOTE # '','' @ [NL])"
    by (simp add: hash_line_def)
  then have f: "c_strstr ''hw_fingerprint_hash'' ?l \<noteq> None"
    by (simp only: strstr_skip_free [of "CHR ''h''" "''  '' @ [QUOTE]"]) (simp add: starts_with_def)
  have "?l = (''  '' @ QUOTE # ''hw_fingerprint_hash'' @ [QUOTE]) @ (('': '' @ [QUOTE]) @ h @ QUOTE # '','' @ [NL])"
    by (simp add: hash_line_def)
  moreover have "CHR '':'' \<notin> set (''  '' @ QUOTE # ''hw_fingerprint_hash'' @ [QUOTE])" by simp
  ultimately have g: "c_strstr ('': '' @ [QUOTE]) ?l = Some (('': '' @ [QUOTE]) @ h @ QUOTE # '','' @ [NL])"
    using strstr_skip_free [of "CHR '':''" "''  '' @ QUOTE # ''hw_fingerprint_hash'' @ [QUOTE]" "'' '' @ [QUOTE]"]
    by (simp add: starts_with_def)
  have "takeWhile (\<lambda>c. c \<noteq> QUOTE) (h @ QUOTE # '','' @ [NL]) = h"
    using hex64_free [OF h, of QUOTE] by (intro takeWhile_stop) auto
  moreover have "take 64 h = h" "h \<noteq> []" using h by (auto simp: hex64_def)
  ultimately have v: "take 64 (takeWhile (\<lambda>c. c \<noteq> QUOTE) (drop 3 (('': '' @ [QUOTE]) @ h @ QUOTE # '','' @ [NL]))) = h" by simp
  from f obtain t where "c_strstr ''hw_fingerprint_hash'' ?l = Some t" by blast
  then show ?thesis using g v \<open>h \<noteq> []\<close> cstr_no_nul [OF nul] by (simp only: stored_hash.simps option.case Let_def if_False)
qed

lemma stored_hash_text:
  assumes "hex64 cid" and "hex64 h"
  shows "stored_hash [] (read_lines 255 (device_identity_text cid h)) = Some h"
proof -
  define a where "a = ''  '' @ QUOTE # ''generated_offline'' @ QUOTE # '': true,''"
  define b where "b = ''  '' @ QUOTE # ''authority'' @ QUOTE # '': '' @ QUOTE # ''none'' @ [QUOTE]"
  let ?ls = "[''{'', id_line cid, hash_line h, a, b, ''}'']"
  have "short_lines 255 ?ls"
    using assms hex64_free [OF assms(1), of NL] hex64_free [OF assms(2), of NL]
    by (simp add: id_line_def hash_line_def hex64_def a_def b_def)
  moreover have "device_identity_text cid h = unlines ?ls" by (simp add: device_identity_text_def id_line_def hash_line_def a_def b_def)
  ultimately have "read_lines 255 (device_identity_text cid h) = map (\<lambda>l. l @ [NL]) ?ls" by (simp add: read_lines_unlines del: unlines_simps)
  then have "read_lines 255 (device_identity_text cid h)
      = (''{'' @ [NL]) # (id_line cid @ [NL]) # (hash_line h @ [NL]) # [a @ [NL], b @ [NL], ''}'' @ [NL]]" by simp
  moreover have "stored_hash st ((''{'' @ [NL]) # raws) = stored_hash st raws" for st raws by (simp add: cstr_def starts_with_def)
  moreover have "stored_hash st [a @ [NL], b @ [NL], ''}'' @ [NL]] = Some st" for st
    by (simp add: cstr_def starts_with_def a_def b_def)
  ultimately show ?thesis
    by (simp only: skip_id_line [OF assms(1)] read_hash_line [OF assms(2)])
qed

text \<open>The hardware check raises a false alarm: right after an identity was generated, and without any
  change, \<open>verify-hw\<close> reports a changed fingerprint (exit code 1), unless SHA-256 gives the empty text and the fallback
  text the same digest. Generation replaces an empty fingerprint by the fallback text and verification does
  not, and the fingerprint is always empty since its commands go to the disabled shell.\<close>

theorem identity_false_alarm:
  assumes "identity_main H env secret junk [p, ''generate''] fs = Some (rc, fs')"
    and "fe_room env DEVICE_IDENTITY_FILE = None"
    and "fe_readable env DEVICE_IDENTITY_FILE" and "\<forall>x. length (H x) = 32" and "H [] \<noteq> H ''no_hw_fp_available_fallback''"
  shows "identity_main H env secret' junk' [q, ''verify-hw''] fs' = Some (1, fs')"
proof -
  obtain s where s: "secret = Some s" using assms(1) by (auto simp: identity_main_def identity_generate_def split: option.splits prod.splits)
  let ?h = "hex_of (H ''no_hw_fp_available_fallback'')"
  from assms(1) obtain cid where "fs' = fs(DEVICE_IDENTITY_FILE \<mapsto> device_identity_text (hex_of (H cid)) ?h)"
    by (auto simp: identity_main_def identity_generate_def gather_empty s identity_sha256_hex_def f_write_def fe_written_def assms(2) Let_def split: if_splits)
  then have "f_read env fs' DEVICE_IDENTITY_FILE = Some (device_identity_text (hex_of (H cid)) ?h)" using assms(3) by (simp add: f_read_def)
  moreover have "stored_hash [] (read_lines 255 (device_identity_text (hex_of (H cid)) ?h)) = Some ?h"
    using assms(4) by (intro stored_hash_text hex64_hex_of)
  moreover have "hex_of (H []) \<noteq> ?h" using assms(5) hex_of_inject by blast
  ultimately show ?thesis
    by (simp add: identity_main_def identity_verify_hw_def gather_empty identity_sha256_hex_def)
qed

lemma pad32_differ: "pad32 [] \<noteq> pad32 ''no_hw_fp_available_fallback''"
proof
  assume "pad32 [] = pad32 ''no_hw_fp_available_fallback''"
  then have "hd (pad32 []) = hd (pad32 ''no_hw_fp_available_fallback'')" by simp
  then show False by (simp add: pad32_def)
qed

theorem identity_false_alarm_witness:
  "identity_main pad32 open_env None [] [''d'', ''verify-hw''] ((\<lambda>_. None)(DEVICE_IDENTITY_FILE \<mapsto> device_identity_text
      (identity_sha256_hex pad32 (identity_sha256_hex pad32 ''no_hw_fp_available_fallback'' @ secret_bytes [] (replicate 32 (CHR ''s''))))
      (identity_sha256_hex pad32 ''no_hw_fp_available_fallback'')))
   = Some (1, (\<lambda>_. None)(DEVICE_IDENTITY_FILE \<mapsto> device_identity_text
      (identity_sha256_hex pad32 (identity_sha256_hex pad32 ''no_hw_fp_available_fallback'' @ secret_bytes [] (replicate 32 (CHR ''s''))))
      (identity_sha256_hex pad32 ''no_hw_fp_available_fallback'')))"
  by (rule identity_false_alarm [where secret = "Some (replicate 32 (CHR ''s''))" and junk = "[]" and rc = 0 and p = "''d''" and fs = "\<lambda>_. None"])
    (simp_all add: identity_main_def identity_generate_def gather_empty f_write_def Let_def pad32_differ)

end
