(* ===== verification/Destruction.thy ===== *)
theory Destruction
  imports Files CTime
begin

text \<open>
  Destruction of keys: \<open>core/chrono_secure_purge.c\<close>, \<open>core/chrono_panic_protocol.c\<close> and
  \<open>core/attestation/chrono_provable_destruction.c\<close>. Overwriting a file is the list of contents it has
  on the disk, one after the other. \<open>H\<close> is SHA-256 and \<open>hmac\<close> HMAC-SHA256 of OpenSSL.
  What the programs do to memory and how they end is in \<open>PanicHalt\<close>.
\<close>

section \<open>Overwriting\<close>

record shred_env =
  sh_open :: "string \<Rightarrow> bool"           \<comment> \<open>\<open>open(path, O_WRONLY)\<close> of an existing file\<close>
  sh_fstat :: bool
  sh_malloc :: bool
  sh_random :: "nat \<Rightarrow> string option"   \<comment> \<open>what \<open>read\<close> of \<open>/dev/urandom\<close> returns for a length\<close>
  sh_pwrite :: "nat \<Rightarrow> nat"             \<comment> \<open>bytes that the \<open>pwrite\<close> of each pass writes at most, 0 when it fails\<close>
  sh_device_write :: nat               \<comment> \<open>the same for the \<open>write\<close> to the device\<close>
  sh_unlink :: "string \<Rightarrow> bool"

definition write_start :: "nat \<Rightarrow> string \<Rightarrow> string \<Rightarrow> string" where
  \<comment> \<open>at most \<open>n\<close> bytes of the buffer replace the start of the content\<close>
  "write_start n buf content = take n buf @ drop (min n (length buf)) content"

definition overwrites :: "shred_env \<Rightarrow> string \<Rightarrow> string list" where
  \<comment> \<open>what the file holds after each of the three passes; the results of \<open>pwrite\<close> and \<open>read\<close> are ignored, and
    a short read leaves the end of the buffer as it was\<close>
  "overwrites env content =
     (let n = length content;
          zeros = write_start (sh_pwrite env 0) (replicate n NUL) content;
          ones = write_start (sh_pwrite env 1) (replicate n (CHR 0xFF)) zeros in
      [zeros, ones] @ (case sh_random env n of None \<Rightarrow> []
        | Some r \<Rightarrow> [write_start (sh_pwrite env 2) (take n r @ drop (length r) (replicate n (CHR 0xFF))) ones]))"

definition unlink_file :: "shred_env \<Rightarrow> files \<Rightarrow> string \<Rightarrow> int \<times> files" where
  "unlink_file env fs path = (if sh_unlink env path then (0, fs(path := None)) else (-1, fs))"

definition forensic_shred_file :: "shred_env \<Rightarrow> files \<Rightarrow> string \<Rightarrow> int \<times> files \<times> string list" where
  \<comment> \<open>result, files and the contents the file had after each pass\<close>
  "forensic_shred_file env fs path =
     (case fs path of
        None \<Rightarrow> (-1, fs, [])
      | Some content \<Rightarrow>
          if \<not> sh_open env path then (-1, fs, [])
          else if \<not> sh_fstat env then (-1, fs, [])
          else if content = [] then (0, snd (unlink_file env fs path), [])
          else if \<not> sh_malloc env then (-1, fs, [])
          else
            let passes = overwrites env content;
                (rc, fs) = unlink_file env (fs(path \<mapsto> last passes)) path in
            if rc \<noteq> 0 then (-1, fs, passes) else (0, fs, passes))"

definition forensic_shred :: "shred_env \<Rightarrow> files \<Rightarrow> string \<Rightarrow> int \<times> files \<times> string list" where
  "forensic_shred env fs path =
     (case fs path of
        None \<Rightarrow> (-1, fs, [])
      | Some content \<Rightarrow>
          if \<not> sh_open env path then (-1, fs, [])
          else if \<not> sh_fstat env then (-1, fs, [])
          else if content = [] then (0, snd (unlink_file env fs path), [])
          else if \<not> sh_malloc env then (-1, fs, [])
          else
            let passes = overwrites env content;
                (rc, fs) = unlink_file env (fs(path \<mapsto> last passes)) path in
            (rc, fs, passes))"

definition MASTER_KEY :: string where "MASTER_KEY = ''./security/auth/master.key''"
definition MESH_KEY :: string where "MESH_KEY = ''./crypto_keys/mesh_master.key''"
definition PANIC_TRIGGER :: string where "PANIC_TRIGGER = ''./config/.panic_trigger''"

definition purge_target :: "shred_env \<Rightarrow> files \<Rightarrow> string \<Rightarrow> files \<times> string list" where
  \<comment> \<open>one turn of the loop: the files and what is printed\<close>
  "purge_target env fs path =
     (if fs path \<noteq> None then
        (case forensic_shred_file env fs path of (rc, fs, passes) \<Rightarrow>
           (fs, if rc = 0 then [''[PURGE] Archivo destruido forensemente: '' @ path] else []))
      else (fs, []))"

definition execute_system_panic_purge :: "shred_env \<Rightarrow> files \<Rightarrow> files \<times> string list" where
  "execute_system_panic_purge env fs =
     (let (fs, out1) = purge_target env fs MASTER_KEY; (fs, out2) = purge_target env fs PANIC_TRIGGER in (fs, out1 @ out2))"

definition SSD_DEVICE :: string where "SSD_DEVICE = ''/dev/nvme0n1p2''"

definition execute_ssd_crypto_shred :: "shred_env \<Rightarrow> files \<Rightarrow> files" where
  \<comment> \<open>the first 16 MB of a device become zero; without the device, a command for the disabled shell\<close>
  "execute_ssd_crypto_shred env fs =
     (case fs SSD_DEVICE of
        Some content \<Rightarrow>
          if sh_open env SSD_DEVICE then
            (if sh_malloc env then fs(SSD_DEVICE \<mapsto> write_start (sh_device_write env) (replicate (16 * 1024 * 1024) NUL) content) else fs)
          else fs
      | None \<Rightarrow> fs)"

definition ssd_fallback :: "shred_env \<Rightarrow> files \<Rightarrow> int option" where
  \<comment> \<open>the result of the command that replaces the shredding of the device\<close>
  "ssd_fallback env fs =
     (if fs SSD_DEVICE \<noteq> None \<and> sh_open env SSD_DEVICE then None
      else Some (chrono_system_disabled (Some
        ''dd if=/dev/urandom of=./security/auth/master.key bs=1 count=32 conv=notrunc 2>/dev/null || true'')))"

definition execute_total_panic_protocol :: "shred_env \<Rightarrow> files \<Rightarrow> files" where
  "execute_total_panic_protocol env fs =
     (let fs = execute_ssd_crypto_shred env fs;
          fs = fst (snd (forensic_shred env fs MESH_KEY));
          fs = fst (snd (forensic_shred env fs PANIC_TRIGGER)) in fs)"

lemma unlink_other: "q \<noteq> p \<Longrightarrow> snd (unlink_file env fs p) q = fs q"
  by (simp add: unlink_file_def)

lemma shred_other: "q \<noteq> p \<Longrightarrow> fst (snd (forensic_shred env fs p)) q = fs q"
  by (auto simp: forensic_shred_def Let_def unlink_file_def split: option.splits)

lemma shred_file_other: "q \<noteq> p \<Longrightarrow> fst (snd (forensic_shred_file env fs p)) q = fs q"
  by (auto simp: forensic_shred_file_def Let_def unlink_file_def split: option.splits)

lemma shred_same: "forensic_shred env fs p = forensic_shred_file env fs p"
  by (auto simp: forensic_shred_def forensic_shred_file_def Let_def unlink_file_def split: option.splits)

lemma length_write_start [simp]: "length buf = length content \<Longrightarrow> length (write_start n buf content) = length content"
  by (simp add: write_start_def)

lemma take_write_start: "length buf = length content \<Longrightarrow> take n (write_start n buf content) = take n buf"
  by (cases "n \<le> length content") (simp_all add: write_start_def min_def)

lemma overwrites_length: "s \<in> set (overwrites env content) \<Longrightarrow> length s = length content"
  by (auto simp: overwrites_def Let_def split: option.splits)

lemma overwrites_patterns:
  "2 \<le> length (overwrites env content)"
  "take (sh_pwrite env 0) (overwrites env content ! 0) = replicate (min (sh_pwrite env 0) (length content)) NUL"
  "take (sh_pwrite env 1) (overwrites env content ! 1) = replicate (min (sh_pwrite env 1) (length content)) (CHR 0xFF)"
  by (simp_all add: overwrites_def Let_def take_write_start)

text \<open>C26: A shredding that reports success leaves no file: the name is gone and every other file is as it was, unless the file was
  empty and could not be unlinked, in which case success is reported and nothing has changed. The contents that a non-empty
  file went through all have its length; as far as the write of the first pass went they are zeros, and as far as that of the second
  pass went ones, both in full when the writes, whose results are ignored, were complete.\<close>

theorem shred_destroys:
  assumes "forensic_shred_file env fs p = (0, fs', passes)" and "fs p = Some content"
  shows "fs' = (if content = [] \<and> \<not> sh_unlink env p then fs else fs(p := None)) \<and>
    (content \<noteq> [] \<longrightarrow> 2 \<le> length passes \<and> list_all (\<lambda>s. length s = length content) passes \<and>
       take (sh_pwrite env 0) (passes ! 0) = replicate (min (sh_pwrite env 0) (length content)) NUL \<and>
       take (sh_pwrite env 1) (passes ! 1) = replicate (min (sh_pwrite env 1) (length content)) (CHR 0xFF))"
proof (cases "content = []")
  case True
  with assms show ?thesis by (auto simp: forensic_shred_file_def unlink_file_def split: if_splits)
next
  case False
  then have "passes = overwrites env content" "fs' = fs(p := None)"
    using assms by (auto simp: forensic_shred_file_def unlink_file_def Let_def split: if_splits)
  with False show ?thesis using overwrites_patterns(3) [of env content] by (simp add: overwrites_patterns(1,2) overwrites_length list_all_iff)
qed

theorem shred_destroys_witness:
  "\<exists>env. forensic_shred_file env ((\<lambda>_. None)(''k'' \<mapsto> ''s'')) ''k'' = (0, (\<lambda>_. None), [[NUL], [CHR 0xFF]]) \<and>
    list_all (\<lambda>s. length s = length ''s'') [[NUL], [CHR 0xFF]]"
proof -
  let ?env = "\<lparr>sh_open = \<lambda>_. True, sh_fstat = True, sh_malloc = True, sh_random = \<lambda>_. None, sh_pwrite = \<lambda>_. 1,
    sh_device_write = 0, sh_unlink = \<lambda>_. True\<rparr>"
  have run: "forensic_shred_file ?env ((\<lambda>_. None)(''k'' \<mapsto> ''s'')) ''k'' = (0, (\<lambda>_. None), [[NUL], [CHR 0xFF]])"
    by (simp add: forensic_shred_file_def unlink_file_def overwrites_def write_start_def Let_def fun_eq_iff)
  with shred_destroys [OF run, of "''s''"] show ?thesis by (intro exI [of _ ?env]) simp
qed

text \<open>The panic protocol leaves the master key: whatever happens in it, the file \<open>master.key\<close> is afterwards what
  it was before. Of the key files only the mesh key is destroyed; the overwriting of the master key is a command for
  the disabled shell.\<close>

theorem panic_keeps_master_key: "execute_total_panic_protocol env fs MASTER_KEY = fs MASTER_KEY"
proof -
  have "execute_ssd_crypto_shred env fs MASTER_KEY = fs MASTER_KEY"
    by (auto simp: execute_ssd_crypto_shred_def SSD_DEVICE_def MASTER_KEY_def split: option.split)
  moreover have "MASTER_KEY \<noteq> MESH_KEY" "MASTER_KEY \<noteq> PANIC_TRIGGER"
    by (simp_all add: MASTER_KEY_def MESH_KEY_def PANIC_TRIGGER_def)
  ultimately show ?thesis by (simp add: execute_total_panic_protocol_def shred_other)
qed

text \<open>The purge program does destroy it.\<close>

theorem purge_destroys_master_key:
  assumes "fs MASTER_KEY = Some content" and "sh_open env MASTER_KEY" "sh_fstat env" "sh_malloc env" "sh_unlink env MASTER_KEY"
  shows "fst (execute_system_panic_purge env fs) MASTER_KEY = None"
proof -
  have "fst (purge_target env fs MASTER_KEY) MASTER_KEY = None"
    using assms by (auto simp: purge_target_def forensic_shred_file_def unlink_file_def Let_def)
  moreover have "fst (purge_target env g PANIC_TRIGGER) MASTER_KEY = g MASTER_KEY" for g
    using shred_file_other [of MASTER_KEY PANIC_TRIGGER env g]
    by (simp add: purge_target_def MASTER_KEY_def PANIC_TRIGGER_def case_prod_beta)
  ultimately show ?thesis by (simp add: execute_system_panic_purge_def case_prod_beta)
qed

section \<open>Provable destruction\<close>

definition CERT_PATH :: string where "CERT_PATH = ''/mnt/data/destruction_certificate.json''"
definition LEDGER_CERT :: string where "LEDGER_CERT = ''/mnt/data/chrono_ledger.log''"

record destruction_env =
  de_files :: file_env
  de_remove :: bool   \<comment> \<open>\<open>remove(KEY_PATH)\<close> succeeds\<close>
  de_now :: tm

definition destruction_record :: "tm \<Rightarrow> bool \<Rightarrow> string" where
  "destruction_record now key_loaded =
     (let vault_state_hash = (case chrono_popen_disabled (Some ''find ./security/vaults -type f 2>/dev/null | sort | xargs sha256sum 2>/dev/null | sha256sum | cut -d' ' -f1'') (Some ''r'')
        of None \<Rightarrow> ''no_vaults_present'' | Some out \<Rightarrow> cstr (fgets_take 64 out))
      in snprintf_buf 2048 (''timestamp='' @ fmt_iso now @ ''|key_present='' @ (if key_loaded then ''YES'' else ''NO'') @
           ''|vault_hash='' @ vault_state_hash @ ''|protocol=CHRONO_PANIC_V2''))"

definition sign_with_key_to_be_destroyed :: "(string \<Rightarrow> string \<Rightarrow> string) \<Rightarrow> string \<Rightarrow> string \<Rightarrow> string" where
  "sign_with_key_to_be_destroyed hmac record key = hex_of (take 32 (hmac key (snprintf_buf 2048 (record @ ''|DESTRUCTION_IMMINENT''))))"

definition json_field :: "string \<Rightarrow> string \<Rightarrow> string" where
  "json_field name value = ''  '' @ QUOTE # name @ QUOTE # '': '' @ QUOTE # value @ QUOTE # '',''"

definition certificate_text :: "tm \<Rightarrow> string \<Rightarrow> string \<Rightarrow> string" where
  "certificate_text now record signature = snprintf_buf 4096 (unlines
     [''{'', json_field ''version'' ''CHRONO_DESTRUCTION_CERT_V2'', json_field ''timestamp'' (fmt_iso now), json_field ''record'' record,
      json_field ''signature'' signature, json_field ''signature_algo'' ''HMAC-SHA256-with-master-key'',
      json_field ''verification_note'' ''La firma usa la llave maestra que fue destruida en el mismo acto. Verifica que la firma era valida ANTES de la destruccion consultando el Ledger encadenado.'',
      json_field ''threat_model'' ''Protege contra acceso remoto o fisico limitado. NO protege contra laboratorio forense con disco previamente clonado.'',
      ''  '' @ QUOTE # ''steps_completed'' @ QUOTE # '': ['' @ QUOTE # ''master_key_destroyed'' @ QUOTE # '', '' @
        QUOTE # ''vaults_purged'' @ QUOTE # '', '' @ QUOTE # ''5g_stopped'' @ QUOTE # '', '' @
        QUOTE # ''hw_identity_invalidated'' @ QUOTE # '', '' @ QUOTE # ''kernel_cache_dropped'' @ QUOTE # '']'', ''}''])"

definition destroy_key_file :: "destruction_env \<Rightarrow> files \<Rightarrow> files" where
  "destroy_key_file env fs =
     (case f_write (de_files env) fs MASTER_KEY (replicate 32 NUL) of
        None \<Rightarrow> fs
      | Some fs \<Rightarrow> if de_remove env then fs(MASTER_KEY := None) else fs)"

definition execute_provable_destruction ::
  "(string \<Rightarrow> string) \<Rightarrow> (string \<Rightarrow> string \<Rightarrow> string) \<Rightarrow> destruction_env \<Rightarrow> files \<Rightarrow> int \<times> files" where
  \<comment> \<open>the commands for the disabled shell between the steps have no effect\<close>
  "execute_provable_destruction H hmac env fs =
     (let key_loaded = (case f_read (de_files env) fs MASTER_KEY of None \<Rightarrow> False | Some k \<Rightarrow> length k \<ge> 32);
          master_key = (case f_read (de_files env) fs MASTER_KEY of None \<Rightarrow> [] | Some k \<Rightarrow> take 32 k);
          record = destruction_record (de_now env) key_loaded;
          signature = (if key_loaded then sign_with_key_to_be_destroyed hmac record master_key else ''no_key_to_sign'');
          fs = destroy_key_file env fs;
          full_cert = certificate_text (de_now env) record signature;
          fs = f_append_or_skip (de_files env) fs LEDGER_CERT (''DESTRUCTION_CERT|'' @ hex_of (H full_cert) @ BAR # signature @ [NL]);
          fs = (case f_write (de_files env) fs CERT_PATH full_cert of None \<Rightarrow> fs | Some fs \<Rightarrow> fs)
      in (0, fs))"

definition verify_cert :: "file_env \<Rightarrow> files \<Rightarrow> string \<Rightarrow> int \<times> string" where
  \<comment> \<open>the certificate is printed and nothing is verified\<close>
  "verify_cert env fs path = (case f_read env fs path of None \<Rightarrow> (1, []) | Some content \<Rightarrow> (0, concat (map cstr (read_lines 255 content))))"

definition destruction_main ::
  "(string \<Rightarrow> string) \<Rightarrow> (string \<Rightarrow> string \<Rightarrow> string) \<Rightarrow> destruction_env \<Rightarrow> string list \<Rightarrow> files \<Rightarrow> int \<times> files" where
  "destruction_main H hmac env argv fs =
     (if length argv < 2 then (1, fs)
      else if argv ! 1 = ''execute'' then execute_provable_destruction H hmac env fs
      else if argv ! 1 = ''verify'' \<and> length argv \<ge> 3 then (fst (verify_cert (de_files env) fs (argv ! 2)), fs)
      else (1, fs))"

lemma paths_differ [simp]:
  "MASTER_KEY \<noteq> LEDGER_CERT" "MASTER_KEY \<noteq> CERT_PATH" "LEDGER_CERT \<noteq> CERT_PATH" "LEDGER_CERT \<noteq> MASTER_KEY" "CERT_PATH \<noteq> MASTER_KEY" "CERT_PATH \<noteq> LEDGER_CERT"
  by (simp_all add: MASTER_KEY_def LEDGER_CERT_def CERT_PATH_def)

lemma strstr_inside: "c_strstr p (a @ p @ b) \<noteq> None"
proof (induction a)
  case Nil
  have "starts_with p (p @ b)" by simp
  then show ?case using strstr_here [of p "p @ b"] by simp
qed simp

lemma destruction_result:
  "execute_provable_destruction H hmac env fs = (0, snd (execute_provable_destruction H hmac env fs))"
  by (simp add: prod_eq_iff execute_provable_destruction_def Let_def)

text \<open>C27: A destruction with a key of 32 bytes that can be read, opened for writing and removed, removes the key. The certificate carries
  the HMAC, under the destroyed key, of the record of this run; where its file can be opened it holds the certificate, and where
  the ledger file can be opened it gets the digest of the certificate and the signature as its next line, both as far as the disk has room; a file
  that cannot be opened is left as it is, and the result is 0 all the same.\<close>

theorem destruction_certified:
  assumes "fs MASTER_KEY = Some key" and "length key = 32"
    and "fe_readable (de_files env) MASTER_KEY" and "fe_writable (de_files env) MASTER_KEY" and "de_remove env"
    and "execute_provable_destruction H hmac env fs = (rc, fs')"
  shows "rc = 0 \<and> fs' MASTER_KEY = None \<and>
    (let record = destruction_record (de_now env) True;
         cert = certificate_text (de_now env) record (hex_of (take 32 (hmac key (snprintf_buf 2048 (record @ ''|DESTRUCTION_IMMINENT'')))))
     in fs' CERT_PATH = (if fe_writable (de_files env) CERT_PATH then Some (fe_written (de_files env) CERT_PATH cert) else fs CERT_PATH) \<and>
        fs' LEDGER_CERT = (if fe_writable (de_files env) LEDGER_CERT then
          Some ((case fs LEDGER_CERT of None \<Rightarrow> [] | Some l \<Rightarrow> l) @ fe_written (de_files env) LEDGER_CERT
            (''DESTRUCTION_CERT|'' @ hex_of (H cert) @ BAR # hex_of (take 32 (hmac key (snprintf_buf 2048 (record @ ''|DESTRUCTION_IMMINENT'')))) @ [NL]))
          else fs LEDGER_CERT))"
  using assms
  by (auto simp: execute_provable_destruction_def destroy_key_file_def f_write_def f_read_def f_append_or_skip_def f_append_def
    sign_with_key_to_be_destroyed_def Let_def split: option.splits)

theorem destruction_certified_witness:
  "let hmac = (\<lambda>k x. pad32 (k @ x)); env = \<lparr>de_files = open_env, de_remove = True, de_now = demo_tm\<rparr>;
       fs = (\<lambda>_. None)(MASTER_KEY \<mapsto> pad32 ''key''); fs' = snd (execute_provable_destruction pad32 hmac env fs) in
   fs' MASTER_KEY = None \<and>
    (let record = destruction_record (de_now env) True;
         cert = certificate_text (de_now env) record (hex_of (take 32 (hmac (pad32 ''key'') (snprintf_buf 2048 (record @ ''|DESTRUCTION_IMMINENT'')))))
     in fs' CERT_PATH = Some cert \<and>
        fs' LEDGER_CERT = Some ((case fs LEDGER_CERT of None \<Rightarrow> [] | Some l \<Rightarrow> l) @ ''DESTRUCTION_CERT|'' @ hex_of (pad32 cert) @ BAR #
          hex_of (take 32 (hmac (pad32 ''key'') (snprintf_buf 2048 (record @ ''|DESTRUCTION_IMMINENT'')))) @ [NL]))"
proof -
  let ?hmac = "\<lambda>k x. pad32 (k @ x)" let ?env = "\<lparr>de_files = open_env, de_remove = True, de_now = demo_tm\<rparr>"
  let ?fs = "(\<lambda>_. None)(MASTER_KEY \<mapsto> pad32 ''key'')"
  have k: "?fs MASTER_KEY = Some (pad32 ''key'')" "length (pad32 ''key'') = 32" "fe_readable (de_files ?env) MASTER_KEY"
    "fe_writable (de_files ?env) MASTER_KEY" "de_remove ?env" by simp_all
  from destruction_certified [where fs = ?fs and env = ?env and hmac = ?hmac and H = pad32, OF k destruction_result] show ?thesis by (simp add: Let_def)
qed

definition has_part :: "string \<Rightarrow> string \<Rightarrow> bool" where
  "has_part p s \<longleftrightarrow> (\<exists>a b. s = a @ p @ b)"

lemma has_part_strstr: "has_part p s \<Longrightarrow> c_strstr p s \<noteq> None"
  using strstr_inside by (auto simp: has_part_def)

lemma has_part_right: "has_part p s \<Longrightarrow> has_part p (x @ s)"
  unfolding has_part_def by (metis append.assoc)

lemma has_part_left: "has_part p s \<Longrightarrow> has_part p (s @ y)"
  unfolding has_part_def by (metis append.assoc)

lemma has_part_self: "has_part p (p @ y)"
  unfolding has_part_def by (metis append_Nil)

lemma has_part_Cons: "has_part p s \<Longrightarrow> has_part p (c # s)"
  using has_part_right [of p s "[c]"] by simp

text \<open>The certificate fits its array, so nothing of it is cut off.\<close>

definition cert_steps :: string where
  "cert_steps = ''  '' @ QUOTE # ''steps_completed'' @ QUOTE # '': ['' @ QUOTE # ''master_key_destroyed'' @ QUOTE # '', '' @
        QUOTE # ''vaults_purged'' @ QUOTE # '', '' @ QUOTE # ''5g_stopped'' @ QUOTE # '', '' @
        QUOTE # ''hw_identity_invalidated'' @ QUOTE # '', '' @ QUOTE # ''kernel_cache_dropped'' @ QUOTE # '']''"

definition cert_front :: "tm \<Rightarrow> string" where
  "cert_front now = unlines [''{'', json_field ''version'' ''CHRONO_DESTRUCTION_CERT_V2'', json_field ''timestamp'' (fmt_iso now)] @
     ''  '' @ QUOTE # ''record'' @ QUOTE # '': '' @ [QUOTE]"

definition cert_back :: "string \<Rightarrow> string" where
  "cert_back signature = QUOTE # '','' @ [NL] @ unlines
     [json_field ''signature'' signature, json_field ''signature_algo'' ''HMAC-SHA256-with-master-key'',
      json_field ''verification_note'' ''La firma usa la llave maestra que fue destruida en el mismo acto. Verifica que la firma era valida ANTES de la destruccion consultando el Ledger encadenado.'',
      json_field ''threat_model'' ''Protege contra acceso remoto o fisico limitado. NO protege contra laboratorio forense con disco previamente clonado.'']"

lemma certificate_parts:
  assumes "length (fmt_iso now) \<le> 19" and "length record \<le> 200" and "length signature \<le> 64"
  shows "certificate_text now record signature = cert_front now @ record @ cert_back signature @ cert_steps @ [NL] @ ''}'' @ [NL]"
proof -
  let ?t = "cert_front now @ record @ cert_back signature @ cert_steps @ [NL] @ ''}'' @ [NL]"
  have "length (cert_front now) \<le> 200" using assms(1) by (simp add: cert_front_def json_field_def)
  moreover have "length (cert_back signature) \<le> 1000" using assms(3) by (simp add: cert_back_def json_field_def)
  moreover have "length cert_steps \<le> 300" by (simp add: cert_steps_def)
  ultimately have "length ?t < 4096" using assms(2) by simp
  then have "snprintf_buf 4096 ?t = ?t" by (rule snprintf_buf_fits)
  moreover have "certificate_text now record signature = snprintf_buf 4096 ?t"
    by (simp add: certificate_text_def cert_front_def cert_back_def cert_steps_def json_field_def)
  ultimately show ?thesis by simp
qed

text \<open>The certificate states steps that nothing performed: in every run the vaults, the identity of the device and
  every other file but the key, the ledger file and the certificate are unchanged, while the certificate lists the vaults
  as purged and the identity as invalidated and its record says that there were no vaults.\<close>

theorem destruction_certificate_false:
  assumes "execute_provable_destruction H hmac env fs = (rc, fs')" and "tm_year (de_now env) < 10000"
    and "\<forall>k x. length (hmac k x) = 32" and "can_write (de_files env) CERT_PATH"
  shows "(\<forall>p. p \<notin> {MASTER_KEY, LEDGER_CERT, CERT_PATH} \<longrightarrow> fs' p = fs p) \<and>
    (\<exists>cert. fs' CERT_PATH = Some cert \<and> c_strstr ''vaults_purged'' cert \<noteq> None \<and>
       c_strstr ''hw_identity_invalidated'' cert \<noteq> None \<and> c_strstr ''vault_hash=no_vaults_present'' cert \<noteq> None)"
proof -
  define loaded where "loaded = (case f_read (de_files env) fs MASTER_KEY of None \<Rightarrow> False | Some k \<Rightarrow> length k \<ge> 32)"
  define sig where "sig = (if loaded then sign_with_key_to_be_destroyed hmac (destruction_record (de_now env) loaded)
      (case f_read (de_files env) fs MASTER_KEY of None \<Rightarrow> [] | Some k \<Rightarrow> take 32 k) else ''no_key_to_sign'')"
  define cert where "cert = certificate_text (de_now env) (destruction_record (de_now env) loaded) sig"
  have other: "\<forall>p. p \<notin> {MASTER_KEY, LEDGER_CERT, CERT_PATH} \<longrightarrow> fs' p = fs p"
    using assms(1) by (auto simp: execute_provable_destruction_def destroy_key_file_def f_write_def f_append_or_skip_def f_append_def Let_def split: if_splits)
  have "fs' CERT_PATH = Some cert"
    using assms(1,4) unfolding execute_provable_destruction_def Let_def
    by (auto simp: f_write_def cert_def sig_def loaded_def)
  moreover have "length (nat_str (tm_year (de_now env))) \<le> 4" by (rule nat_str_length_mono) (use assms(2) in simp_all)
  then have iso: "length (fmt_iso (de_now env)) \<le> 19" by simp
  have rec: "destruction_record (de_now env) loaded = (''timestamp='' @ fmt_iso (de_now env) @ ''|key_present='' @ (if loaded then ''YES'' else ''NO'') @ ''|'') @
      ''vault_hash=no_vaults_present'' @ ''|protocol=CHRONO_PANIC_V2''"
    using iso by (simp add: destruction_record_def chrono_popen_disabled_def)
  have "length sig \<le> 64" using assms(3) by (simp add: sig_def sign_with_key_to_be_destroyed_def)
  moreover have "length (destruction_record (de_now env) loaded) \<le> 200" using iso by (simp add: rec)
  ultimately have parts: "cert = cert_front (de_now env) @ destruction_record (de_now env) loaded @ cert_back sig @ cert_steps @ [NL] @ ''}'' @ [NL]"
    unfolding cert_def using iso by (intro certificate_parts)
  have "has_part ''vaults_purged'' cert_steps" "has_part ''hw_identity_invalidated'' cert_steps"
    unfolding cert_steps_def by (intro has_part_right has_part_Cons has_part_self)+
  moreover have "has_part p cert" if "has_part p cert_steps" for p
    unfolding parts by (rule has_part_right, rule has_part_right, rule has_part_right, rule has_part_left, rule that)
  moreover have "has_part ''vault_hash=no_vaults_present'' cert"
    unfolding parts rec by (rule has_part_right, rule has_part_left, rule has_part_right, rule has_part_self)
  ultimately have parts: "has_part ''vaults_purged'' cert" "has_part ''hw_identity_invalidated'' cert" "has_part ''vault_hash=no_vaults_present'' cert"
    by blast+
  show ?thesis
    by (intro conjI exI [of _ cert] other \<open>fs' CERT_PATH = Some cert\<close> has_part_strstr parts)
qed

theorem destruction_certificate_false_witness:
  "let fs = (\<lambda>_. None)(''./security/vaults/a'' \<mapsto> ''x'');
       fs' = snd (execute_provable_destruction pad32 (\<lambda>k x. pad32 x) \<lparr>de_files = open_env, de_remove = True, de_now = demo_tm\<rparr> fs) in
   (\<forall>p. p \<notin> {MASTER_KEY, LEDGER_CERT, CERT_PATH} \<longrightarrow> fs' p = fs p) \<and>
    (\<exists>cert. fs' CERT_PATH = Some cert \<and> c_strstr ''vaults_purged'' cert \<noteq> None \<and>
       c_strstr ''hw_identity_invalidated'' cert \<noteq> None \<and> c_strstr ''vault_hash=no_vaults_present'' cert \<noteq> None)"
  unfolding Let_def
  by (rule destruction_certificate_false [where rc = 0 and env = "\<lparr>de_files = open_env, de_remove = True, de_now = demo_tm\<rparr>"
      and H = pad32 and hmac = "\<lambda>k x. pad32 x", OF destruction_result])
    (simp_all add: demo_tm_def)

end
