(* ===== verification/Guarded.thy ===== *)
theory Guarded
  imports Files CTime
begin

text \<open>
  Programs whose work is done by commands for the shell, which is disabled: \<open>core/tpm/chrono_tpm.c\<close>,
  \<open>core/print/chrono_print_guard.c\<close>, \<open>core/chrono_master_orchestrator.c\<close>, and the two files of \<open>kernel/power\<close>. A run is the result with the commands
  given to the shell and the ledger entries asked for, in order (these too are commands for the disabled shell).
\<close>

record guarded_run =
  gr_result :: int
  gr_commands :: "string list"
  gr_requests :: "(string \<times> string) list"

definition shell_ok :: "string \<Rightarrow> bool" where
  \<comment> \<open>\<open>chrono_system_disabled(command) == 0\<close>\<close>
  "shell_ok command \<longleftrightarrow> chrono_system_disabled (Some command) = 0"

lemma shell_never_ok [simp]: "\<not> shell_ok command"
  by (simp add: shell_ok_def chrono_system_disabled_def)

section \<open>TPM\<close>

definition TPM_PROBE :: string where "TPM_PROBE = ''tpm2_getrandom 1 > /dev/null 2>&1''"

definition tpm_available :: bool where
  "tpm_available = shell_ok TPM_PROBE"

definition tpm_get_random :: "int \<Rightarrow> string list \<times> (string \<times> string) list" where
  \<comment> \<open>commands and ledger entries; this one goes to the disabled \<open>popen\<close>\<close>
  "tpm_get_random bytes =
     (let cmd = snprintf_buf 256 (''tpm2_getrandom '' @ int_str bytes @ '' --hex 2>/dev/null || head -c '' @ int_str bytes @ '' /dev/urandom | xxd -p'') in
      case chrono_popen_disabled (Some cmd) (Some ''r'') of
        None \<Rightarrow> ([cmd], [])
      | Some out \<Rightarrow> ([cmd], [(''TPM_RANDOM_GENERATED'', ''bytes=hardware_entropy'')]))"

definition tpm_seal_master_key :: "string list \<times> (string \<times> string) list" where
  "tpm_seal_master_key =
     (if \<not> tpm_available then ([TPM_PROBE], [(''TPM_SEAL_SIMULATED'', ''tpm_not_available_using_software_fallback'')])
      else ([TPM_PROBE, ''tpm2_createpolicy --policy-pcr --pcr-list sha256:0,1,7 --policy /tmp/chrono_tpm_policy.bin 2>/dev/null'',
        ''tpm2_create -C 0x81000001 -i ./security/auth/master.key -u /tmp/chrono_tpm_sealed.pub -r /tmp/chrono_tpm_sealed.priv -L /tmp/chrono_tpm_policy.bin 2>/dev/null && tpm2_load -C 0x81000001 -u /tmp/chrono_tpm_sealed.pub -r /tmp/chrono_tpm_sealed.priv -n /tmp/chrono_tpm_sealed.name 2>/dev/null''],
        [(''TPM_KEY_SEALED'', ''pcr=0,1,7 hardware=tpm2'')]))"

definition tpm_measure :: "string list \<times> (string \<times> string) list" where
  "tpm_measure =
     (if \<not> tpm_available then ([TPM_PROBE, ''./bin/chrono-attest-verify 2>/dev/null || echo '[i] Atestacion de software como fallback'' @ [CHR 0x27]],
        [(''TPM_MEASURE_SIMULATED'', ''software_attestation_fallback'')])
      else ([TPM_PROBE, ''tpm2_pcrread sha256:0,1,7 2>/dev/null'',
        ''sha256sum ./bin/chrono-core ./bin/chrono-panic ./bin/chrono-ledger 2>/dev/null | tpm2_pcrevent sha256:8 2>/dev/null''],
        [(''TPM_SYSTEM_MEASURED'', ''pcr=0,1,7,8 hardware=tpm2'')]))"

definition tpm_remote_attestation :: "string list \<times> (string \<times> string) list" where
  "tpm_remote_attestation =
     (if \<not> tpm_available then ([TPM_PROBE], [(''TPM_ATTESTATION_SIMULATED'', ''requires_hardware_tpm2'')])
      else ([TPM_PROBE, ''tpm2_getrandom 32 --hex > /tmp/chrono_nonce.hex 2>/dev/null'',
        ''tpm2_quote -c 0x81000002 -l sha256:0,1,7 -q $(cat /tmp/chrono_nonce.hex) -m /tmp/chrono_quote.msg -s /tmp/chrono_quote.sig -o /tmp/chrono_pcrs.out 2>/dev/null''],
        [(''TPM_ATTESTATION_GENERATED'', ''quote_signed_by_hardware'')]))"

definition tpm_panic_integration :: "string list \<times> (string \<times> string) list" where
  "tpm_panic_integration =
     (if \<not> tpm_available then ([TPM_PROBE], [(''TPM_PANIC_SIMULATED'', ''requires_hardware_tpm2'')])
      else ([TPM_PROBE, ''tpm2_evictcontrol -C o -c 0x81000001 2>/dev/null''],
        [(''TPM_KEY_EVICTED'', ''hardware_key_permanently_destroyed'')]))"

definition tpm_main :: "string list \<Rightarrow> guarded_run" where
  "tpm_main argv =
     (let run = \<lambda>(cmds, reqs). \<lparr>gr_result = 0, gr_commands = TPM_PROBE # cmds, gr_requests = reqs\<rparr> in
      if length argv < 2 then \<lparr>gr_result = 1, gr_commands = [TPM_PROBE], gr_requests = []\<rparr>
      else if argv ! 1 = ''random'' then run (tpm_get_random (if length argv > 2 then c_atoi (argv ! 2) else 32))
      else if argv ! 1 = ''seal'' then run tpm_seal_master_key
      else if argv ! 1 = ''measure'' then run tpm_measure
      else if argv ! 1 = ''attest'' then run tpm_remote_attestation
      else if argv ! 1 = ''panic'' then run tpm_panic_integration
      else run ([], []))"

lemma tpm_random_nothing: "snd (tpm_get_random n) = []"
  by (simp add: tpm_get_random_def chrono_popen_disabled_def)

lemma tpm_simulated:
  "tpm_seal_master_key = ([TPM_PROBE], [(''TPM_SEAL_SIMULATED'', ''tpm_not_available_using_software_fallback'')])"
  "tpm_measure = ([TPM_PROBE, ''./bin/chrono-attest-verify 2>/dev/null || echo '[i] Atestacion de software como fallback'' @ [CHR 0x27]],
     [(''TPM_MEASURE_SIMULATED'', ''software_attestation_fallback'')])"
  "tpm_remote_attestation = ([TPM_PROBE], [(''TPM_ATTESTATION_SIMULATED'', ''requires_hardware_tpm2'')])"
  "tpm_panic_integration = ([TPM_PROBE], [(''TPM_PANIC_SIMULATED'', ''requires_hardware_tpm2'')])"
  by (simp_all add: tpm_seal_master_key_def tpm_measure_def tpm_remote_attestation_def tpm_panic_integration_def tpm_available_def)

text \<open>The TPM layer never reaches a TPM: whatever the arguments, also on hardware with a TPM, no entry is asked for that
  a key was sealed or evicted, the system measured, or an attestation or randomness generated. The probe for the chip is itself a
  command for the disabled shell.\<close>

theorem tpm_always_simulated:
  "fst ` set (gr_requests (tpm_main argv)) \<subseteq>
     {''TPM_SEAL_SIMULATED'', ''TPM_MEASURE_SIMULATED'', ''TPM_ATTESTATION_SIMULATED'', ''TPM_PANIC_SIMULATED''}"
  unfolding tpm_main_def Let_def
  by (simp add: case_prod_beta tpm_random_nothing tpm_simulated)

section \<open>Print guard\<close>

definition verify_gcode_integrity :: "string \<Rightarrow> string \<Rightarrow> bool" where
  "verify_gcode_integrity gcode_path bundle_path =
     shell_ok (snprintf_buf 2048 (''./bin/chrono-pin-verify '' @ gcode_path @ '' '' @ bundle_path @ '' > /tmp/print_verify.log 2>&1''))"

definition print_event :: "string \<Rightarrow> string \<Rightarrow> string \<Rightarrow> string \<times> string" where
  "print_event event_type filename operator_id =
     (event_type, snprintf_buf 512 (''file='' @ filename @ '' operator='' @ operator_id))"

definition moonraker_upload_cmd :: "string \<Rightarrow> string \<Rightarrow> nat \<Rightarrow> string" where
  "moonraker_upload_cmd printer_ip gcode_path out_len = snprintf_buf out_len
     (''curl -s -X POST http://'' @ printer_ip @ '':7125/server/files/upload -F '' @ QUOTE # ''file=@'' @ gcode_path @ QUOTE #
      '' -F '' @ QUOTE # ''root=gcodes'' @ [QUOTE])"

definition moonraker_print_start_cmd :: "string \<Rightarrow> string \<Rightarrow> nat \<Rightarrow> string" where
  "moonraker_print_start_cmd printer_ip filename out_len = snprintf_buf out_len
     (''curl -s -X POST '' @ QUOTE # ''http://'' @ printer_ip @ '':7125/printer/print/start?filename='' @ filename @ [QUOTE])"

definition moonraker_status_cmd :: "string \<Rightarrow> nat \<Rightarrow> string" where
  "moonraker_status_cmd printer_ip out_len = snprintf_buf out_len
     (''curl -s http://'' @ printer_ip @ '':7125/printer/objects/query?print_stats'')"

definition print_guard_main :: "string list \<Rightarrow> int \<times> (string \<times> string) list \<times> string list" where
  \<comment> \<open>result, ledger entries asked for and the commands shown to the operator\<close>
  "print_guard_main argv =
     (if length argv < 5 then (1, [], [])
      else
        let printer_ip = argv ! 1; gcode_path = argv ! 2; bundle_path = argv ! 3; operator_id = argv ! 4 in
        if \<not> verify_gcode_integrity gcode_path bundle_path then
          (1, [print_event ''PRINT_BLOCKED_INTEGRITY_FAIL'' gcode_path operator_id], [])
        else
          (0, [print_event ''PRINT_AUTHORIZED'' gcode_path operator_id, print_event ''PRINT_COMMANDS_GENERATED'' gcode_path operator_id],
           [moonraker_upload_cmd printer_ip gcode_path 2048, moonraker_print_start_cmd printer_ip gcode_path 1024,
            moonraker_status_cmd printer_ip 512]))"

text \<open>The print guard blocks every job: it ends with 1, shows no command and never asks for an authorisation entry,
  also for a file whose bundle verifies, since the verifier is started through the disabled shell.\<close>

theorem print_guard_blocks_all:
  "fst (print_guard_main argv) = 1 \<and> snd (snd (print_guard_main argv)) = [] \<and>
   (\<forall>r \<in> set (fst (snd (print_guard_main argv))). fst r = ''PRINT_BLOCKED_INTEGRITY_FAIL'')"
  by (simp add: print_guard_main_def verify_gcode_integrity_def print_event_def Let_def)

section \<open>Orchestrator\<close>

datatype orchestrator_outcome = ReplacedBy string | ReturnsWith int

definition orchestrator_main :: "(string \<Rightarrow> bool) \<Rightarrow> string list \<Rightarrow> orchestrator_outcome" where
  \<comment> \<open>\<open>runnable\<close>: \<open>execl\<close> of the path succeeds\<close>
  "orchestrator_main runnable argv =
     (if length argv > 1 \<and> argv ! 1 = ''--panic'' then
        (if runnable ''./build/chrono_panic_protocol'' then ReplacedBy ''./build/chrono_panic_protocol'' else ReturnsWith 1)
      else ReturnsWith 0)"

section \<open>Power of the kernel tree\<close>

definition GRID_STABLE :: int where "GRID_STABLE = 0"

definition solar_shield_monitor :: "int \<Rightarrow> string list \<times> string list" where
  \<comment> \<open>\<open>chrono_power_shield_monitor\<close>: the lines printed and the commands given to the shell\<close>
  "solar_shield_monitor grid_stable =
     (let start = ''[ChronoPower] Iniciando monitor de resiliencia geomagnetica...'' in
      if grid_stable = 0 then
        ([start, ''[ALERTA] Anomalia electrica global detectada. Activando perfil de supervivencia.''],
         [''echo 'CONSERVATION' > /sys/power/chrono_state''])
      else ([start, ''[ChronoPower] Red electrica estable. Operacion normal.''], []))"

definition sync_local_rtc :: "string list \<times> string list" where
  "sync_local_rtc =
     ([''[ChronoRTC] Red de tiempo global inaccesible. Activando sincronizacion por consenso Mesh local...'',
       ''[ChronoRTC] Reloj del sistema blindado con referencia local autonoma.''],
      [''hwclock --systohc --local''])"

text \<open>The monitor reads a constant: it always announces the survival profile, and neither its command nor that of the clock is ever run.\<close>

lemma power_kernel_announces:
  "last (fst (solar_shield_monitor GRID_STABLE)) = ''[ALERTA] Anomalia electrica global detectada. Activando perfil de supervivencia.''"
  "list_all (\<lambda>command. \<not> shell_ok command) (snd (solar_shield_monitor GRID_STABLE) @ snd sync_local_rtc)"
  by (simp_all add: solar_shield_monitor_def GRID_STABLE_def list_all_iff)

end
