(* ===== verification/CoreCrypt.thy ===== *)
theory CoreCrypt
  imports Vault
begin

text \<open>
  \<open>core/engine/chrono_core.c\<close>: encryption and decryption of files under a key file. The cipher is that of the vault, the
  nonce an argument (\<open>None\<close>: the generator failed). Opening a file for writing empties it, which matters where source
  and destination are the same file; output is buffered until the file is closed or 4096 bytes are written, so nothing of it is
  on the disk when the source is first read. The source is encrypted in pieces of 4096 bytes and decrypted in one, whose length is
  narrowed to an \<open>int\<close>. The count of bytes that encryption prints, an \<open>int\<close> that overflows at 2 GiB, is left out.
\<close>

record core_env =
  cr_files :: file_env
  cr_remove :: "string \<Rightarrow> bool"   \<comment> \<open>\<open>remove(out_path)\<close> succeeds\<close>

definition read_key :: "core_env \<Rightarrow> files \<Rightarrow> string \<Rightarrow> string option" where
  "read_key env fs keypath =
     (case f_read (cr_files env) fs keypath of
        None \<Rightarrow> None | Some k \<Rightarrow> if length k \<ge> 32 then Some (take 32 k) else None)"

fun chunks :: "nat \<Rightarrow> string \<Rightarrow> string list" where
  \<comment> \<open>what \<open>while ((n = fread(buf, 1, k, fin)) > 0)\<close> reads, with \<open>Suc k\<close> for the size\<close>
  "chunks k s = (if s = [] then [] else take (Suc k) s # chunks k (drop (Suc k) s))"

declare chunks.simps [simp del]

lemma chunks_Nil [simp]: "chunks k [] = []"
  by (simp add: chunks.simps)

lemma concat_chunks [simp]: "concat (chunks k s) = s"
  by (induction k s rule: chunks.induct) (subst chunks.simps, auto simp: chunks.simps)

lemma length_chunks: "b \<in> set (chunks k s) \<Longrightarrow> length b \<le> Suc k"
proof (induction k s rule: chunks.induct)
  case (1 k s)
  then show ?case by (subst (asm) (2) chunks.simps) (auto split: if_splits)
qed

definition updates :: "string \<Rightarrow> (string \<times> int) list" where
  \<comment> \<open>one \<open>EVP_EncryptUpdate\<close> for each 4096 bytes of the source\<close>
  "updates source = map (\<lambda>b. (b, int (length b))) (chunks 4095 source)"

lemma updates_Nil [simp]: "updates [] = []"
  by (simp add: updates_def)

lemma updates_ok: "list_all (\<lambda>(b, n). n = int (length b) \<and> length b < 2 ^ 31) (updates source)"
  using length_chunks by (fastforce simp: updates_def list_all_iff)

lemma concat_updates [simp]: "concat (map fst (updates source)) = source"
  by (simp add: updates_def comp_def)

definition encrypt_file ::
  "vault_crypto \<Rightarrow> core_env \<Rightarrow> string option \<Rightarrow> string \<Rightarrow> string \<Rightarrow> string \<Rightarrow> files \<Rightarrow> int \<times> files" where
  "encrypt_file C env random in_path out_path keypath fs =
     (case read_key env fs keypath of
        None \<Rightarrow> (1, fs)
      | Some key \<Rightarrow>
          (case random of
             None \<Rightarrow> (1, fs)
           | Some iv \<Rightarrow>
               if f_read (cr_files env) fs in_path = None then (1, fs)
               else case f_write (cr_files env) fs out_path [] of
                 None \<Rightarrow> (1, fs)
               | Some fs \<Rightarrow>
                   let source = (case fs in_path of None \<Rightarrow> [] | Some s \<Rightarrow> s);
                       (ciphertext, tag) = vc_encrypt C key iv (updates source) in
                   (0, fs(out_path \<mapsto> fe_written (cr_files env) out_path (iv @ ciphertext @ tag)))))"

definition decrypt_file :: "vault_crypto \<Rightarrow> core_env \<Rightarrow> string \<Rightarrow> string \<Rightarrow> string \<Rightarrow> files \<Rightarrow> int \<times> files" where
  "decrypt_file C env in_path out_path keypath fs =
     (case read_key env fs keypath of
        None \<Rightarrow> (1, fs)
      | Some key \<Rightarrow>
          (case f_read (cr_files env) fs in_path of
             None \<Rightarrow> (1, fs)
           | Some content \<Rightarrow>
               if length content < IV_LEN + TAG_LEN then (1, fs)
               else
                 let n = length content - IV_LEN - TAG_LEN; iv = take IV_LEN content;
                     cbuf = take n (drop IV_LEN content); tag = take TAG_LEN (drop (IV_LEN + n) content) in
                 (case f_write (cr_files env) fs out_path [] of
                    None \<Rightarrow> (1, fs)
                  | Some fs \<Rightarrow>
                      (case vc_decrypt C key iv cbuf (evp_len cbuf) tag of
                         None \<Rightarrow> (1, if cr_remove env out_path then fs(out_path := None) else fs)
                       | Some plaintext \<Rightarrow> (0, fs(out_path \<mapsto> fe_written (cr_files env) out_path plaintext))))))"

definition core_main :: "vault_crypto \<Rightarrow> core_env \<Rightarrow> string option \<Rightarrow> string list \<Rightarrow> files \<Rightarrow> int \<times> files" where
  "core_main C env random argv fs =
     (if length argv < 2 then (1, fs)
      else if argv ! 1 = ''status'' then (0, fs)
      else if argv ! 1 = ''encrypt'' then
        (if length argv < 5 then (1, fs) else encrypt_file C env random (argv ! 2) (argv ! 3) (argv ! 4) fs)
      else if argv ! 1 = ''decrypt'' then
        (if length argv < 5 then (1, fs) else decrypt_file C env (argv ! 2) (argv ! 3) (argv ! 4) fs)
      else (1, fs))"

definition open_core :: core_env where
  "open_core = \<lparr>cr_files = open_env, cr_remove = \<lambda>_. True\<rparr>"

lemma open_core_simps [simp]: "cr_files open_core = open_env" "cr_remove open_core p"
  by (simp_all add: open_core_def)

section \<open>Properties\<close>

lemma encrypt_ok:
  assumes "encrypt_file C env (Some iv) a b keypath fs = (0, fs')" and "a \<noteq> b"
  shows "\<exists>key s. read_key env fs keypath = Some key \<and> fs a = Some s \<and>
    fs' = fs(b \<mapsto> fe_written (cr_files env) b (iv @ fst (vc_encrypt C key iv (updates s)) @ snd (vc_encrypt C key iv (updates s))))"
  using assms by (auto simp: encrypt_file_def f_read_def f_write_def case_prod_beta Let_def split: option.splits if_splits)

lemma decrypt_ok:
  assumes "aead_correct C" and "length iv = 12" and "read_key env fs keypath = Some key" and "vc_encrypt C key iv (updates s) = (c, t)"
    and "length s < 2 ^ 31"
    and "f_read (cr_files env) fs a = Some (iv @ c @ t)" and "can_write (cr_files env) b"
  shows "decrypt_file C env a b keypath fs = (0, fs(b \<mapsto> s))"
proof -
  have "length t = 16" "vc_decrypt C key iv c (evp_len c) t = Some s"
    using aead_correctD [OF assms(1) updates_ok assms(4)] assms(5) by (simp_all add: evp_len_id)
  then show ?thesis using assms(2-7) by (simp add: decrypt_file_def f_write_def IV_LEN_def TAG_LEN_def Let_def)
qed

text \<open>C31: Encryption is undone by decryption: a file of less than 2 GiB that was encrypted, with result 0 and room for the
  ciphertext on the disk, to another name is restored by decrypting that name with the same key, as long as the ciphertext is not changed in
  between and can be read, and the output can be opened and written in full. Decryption is assumed to undo encryption for buffers whose length an
  \<open>int\<close> can hold.\<close>

theorem core_roundtrip:
  assumes "aead_correct C" and "length iv = 12" and "a \<noteq> b" and "encrypt_file C env (Some iv) a b keypath fs = (0, fs')"
    and "length (the (fs a)) < 2 ^ 31" and "fe_room (cr_files env) b = None"
    and "fs'' b = fs' b" and "read_key env fs'' keypath = read_key env fs keypath" and "fe_readable (cr_files env) b"
    and "can_write (cr_files env) out"
  shows "decrypt_file C env b out keypath fs'' = (0, fs''(out := fs a))"
proof -
  obtain key s where k: "read_key env fs keypath = Some key" and s: "fs a = Some s"
    and "fs' = fs(b \<mapsto> fe_written (cr_files env) b (iv @ fst (vc_encrypt C key iv (updates s)) @ snd (vc_encrypt C key iv (updates s))))"
    using encrypt_ok [OF assms(4,3)] by blast
  then have "f_read (cr_files env) fs'' b = Some (iv @ fst (vc_encrypt C key iv (updates s)) @ snd (vc_encrypt C key iv (updates s)))"
    using assms(6,7,9) by (simp add: f_read_def fe_written_def)
  moreover have "length s < 2 ^ 31" using assms(5) s by simp
  ultimately show ?thesis using decrypt_ok [OF assms(1,2) _ prod.collapse [symmetric] _ _ assms(10)] assms(8) k s by metis
qed

theorem core_roundtrip_witness:
  "\<exists>fs'. encrypt_file demo_crypto open_core (Some (replicate 12 NUL)) ''a'' ''b'' ''k''
       ((\<lambda>_. None)(''a'' \<mapsto> ''secret'', ''k'' \<mapsto> replicate 32 NUL)) = (0, fs') \<and>
     decrypt_file demo_crypto open_core ''b'' ''c'' ''k'' fs' = (0, fs'(''c'' := ((\<lambda>_. None)(''a'' \<mapsto> ''secret'', ''k'' \<mapsto> replicate 32 NUL)) ''a''))"
proof -
  let ?fs = "(\<lambda>_. None)(''a'' \<mapsto> ''secret'', ''k'' \<mapsto> replicate 32 NUL)"
  let ?e = "encrypt_file demo_crypto open_core (Some (replicate 12 NUL)) ''a'' ''b'' ''k'' ?fs"
  have e: "?e = (0, snd ?e)"
    by (simp add: encrypt_file_def read_key_def f_read_def f_write_def case_prod_beta Let_def)
  have "read_key open_core (snd ?e) ''k'' = read_key open_core ?fs ''k''"
    by (simp add: encrypt_file_def read_key_def f_read_def f_write_def case_prod_beta Let_def)
  then have "decrypt_file demo_crypto open_core ''b'' ''c'' ''k'' (snd ?e) = (0, (snd ?e)(''c'' := ?fs ''a''))"
    by (intro core_roundtrip [OF demo_crypto_correct _ _ e]) simp_all
  with e show ?thesis by blast
qed

text \<open>A file of 2 GiB is encrypted with success and cannot be decrypted: the decryption gets a negative length for it, and where OpenSSL
  does not authenticate the text with that length, the result is 1.\<close>

theorem core_two_gib_refused:
  assumes "read_key env fs keypath = Some key" and "f_read (cr_files env) fs a = Some (iv @ c @ t)" and "length iv = 12"
    and "length t = 16" and "length c = 2 ^ 31" and "vc_decrypt C key iv c (- (2 ^ 31)) t = None"
  shows "fst (decrypt_file C env a b keypath fs) = 1"
proof -
  have "evp_len c = - (2 ^ 31)" using assms(5) by (simp add: evp_len_def wrap32_def)
  with assms show ?thesis by (simp add: decrypt_file_def IV_LEN_def TAG_LEN_def Let_def split: option.splits)
qed

text \<open>Encrypting a file onto itself destroys it: the destination is emptied before the source is read, the program reports
  success, and decryption of the result gives the empty file.\<close>

theorem core_encrypt_in_place_loses:
  assumes "aead_correct C" and "length iv = 12" and "encrypt_file C env (Some iv) a a keypath fs = (0, fs')"
    and "keypath \<noteq> a" and "fe_room (cr_files env) a = None" and "fe_readable (cr_files env) a" and "can_write (cr_files env) out"
  shows "decrypt_file C env a out keypath fs' = (0, fs'(out \<mapsto> []))"
proof -
  obtain key where k: "read_key env fs keypath = Some key"
    and fs': "fs' = fs(a \<mapsto> iv @ fst (vc_encrypt C key iv []) @ snd (vc_encrypt C key iv []))"
    using assms(3,5) by (auto simp: encrypt_file_def f_write_def fe_written_def case_prod_beta Let_def split: option.splits if_splits)
  then have "f_read (cr_files env) fs' a = Some (iv @ fst (vc_encrypt C key iv []) @ snd (vc_encrypt C key iv []))"
    using assms(6) by (simp add: f_read_def)
  moreover have "read_key env fs' keypath = Some key" using k assms(4) by (simp add: fs' read_key_def)
  ultimately show ?thesis using decrypt_ok [OF assms(1,2) _ _ _ _ assms(7), where s = "[]" and keypath = keypath and a = a and key = key
      and c = "fst (vc_encrypt C key iv [])" and t = "snd (vc_encrypt C key iv [])"] by simp
qed

theorem core_encrypt_in_place_loses_witness:
  "\<exists>fs'. encrypt_file demo_crypto open_core (Some (replicate 12 NUL)) ''a'' ''a'' ''k''
       ((\<lambda>_. None)(''a'' \<mapsto> ''secret'', ''k'' \<mapsto> replicate 32 NUL)) = (0, fs') \<and>
     decrypt_file demo_crypto open_core ''a'' ''c'' ''k'' fs' = (0, fs'(''c'' \<mapsto> []))"
proof -
  let ?e = "encrypt_file demo_crypto open_core (Some (replicate 12 NUL)) ''a'' ''a'' ''k''
       ((\<lambda>_. None)(''a'' \<mapsto> ''secret'', ''k'' \<mapsto> replicate 32 NUL))"
  have e: "?e = (0, snd ?e)"
    by (simp add: encrypt_file_def read_key_def f_read_def f_write_def case_prod_beta Let_def)
  have "decrypt_file demo_crypto open_core ''a'' ''c'' ''k'' (snd ?e) = (0, (snd ?e)(''c'' \<mapsto> []))"
    by (rule core_encrypt_in_place_loses [OF demo_crypto_correct _ e]) simp_all
  with e show ?thesis by blast
qed

text \<open>Decrypting a file onto itself with a wrong key deletes it: the failed verification removes the destination, which is the
  only copy of the ciphertext.\<close>

theorem core_wrong_key_deletes:
  assumes "read_key env fs keypath = Some key" and "f_read (cr_files env) fs a = Some (iv @ c @ t)" and "length iv = 12"
    and "length t = 16" and "vc_decrypt C key iv c (evp_len c) t = None" and "can_write (cr_files env) a" and "cr_remove env a"
  shows "decrypt_file C env a a keypath fs = (1, fs(a := None))"
  using assms by (simp add: decrypt_file_def f_write_def IV_LEN_def TAG_LEN_def Let_def)

theorem core_wrong_key_deletes_witness:
  "decrypt_file demo_crypto open_core ''a'' ''a'' ''k'' ((\<lambda>_. None)(''k'' \<mapsto> replicate 32 (CHR ''x''), ''a'' \<mapsto> replicate 12 NUL @ ''data'' @ replicate 16 NUL)) =
   (1, ((\<lambda>_. None)(''k'' \<mapsto> replicate 32 (CHR ''x''), ''a'' \<mapsto> replicate 12 NUL @ ''data'' @ replicate 16 NUL))(''a'' := None))"
  by (rule core_wrong_key_deletes [where key = "replicate 32 (CHR ''x'')" and iv = "replicate 12 NUL" and c = "''data''" and t = "replicate 16 NUL"])
    (simp_all add: read_key_def f_read_def demo_crypto_def numeral_eq_Suc)

end
