(* ===== verification/PowerShield.thy ===== *)
theory PowerShield
  imports Files CScan CTime
begin

text \<open>
  \<open>core/engine/chrono_power_shield.c\<close>: the battery monitor with its append-only log, and \<open>core/chrono_power_shield.c\<close>: the energy
  daemon with its modes. What the kernel shows below \<open>/sys\<close> at a turn of a loop is part of the environment of that
  turn; the loops run for the turns before the signal that ends them.
\<close>

section \<open>Battery monitor\<close>

definition BLACKBOX_LOG :: string where "BLACKBOX_LOG = ''/mnt/data/power_blackbox.log''"
definition CRITICAL_CAPACITY :: int where "CRITICAL_CAPACITY = 5"

record power_env =
  pw_sys :: files                             \<comment> \<open>readable files below \<open>/sys\<close>\<close>
  pw_dir :: "string list option"              \<comment> \<open>entries of \<open>/sys/class/power_supply\<close>\<close>
  pw_clock :: clock
  pw_files :: file_env

definition blackbox_write :: "power_env \<Rightarrow> string \<Rightarrow> files \<Rightarrow> files" where
  "blackbox_write env msg fs = f_append_or_skip (pw_files env) fs BLACKBOX_LOG
     (''['' @ fmt_plain (ck_localtime (pw_clock env) (ck_now (pw_clock env))) @ ''] '' @ msg @ [NL])"

definition read_sysfs_int :: "power_env \<Rightarrow> string \<Rightarrow> int option" where
  "read_sysfs_int env path =
     (case pw_sys env path of None \<Rightarrow> None | Some text \<Rightarrow> map_option fst (scan_dec text))"

definition read_sysfs_str :: "power_env \<Rightarrow> string \<Rightarrow> nat \<Rightarrow> string option" where
  "read_sysfs_str env path len =
     (case pw_sys env path of
        None \<Rightarrow> None
      | Some text \<Rightarrow> if text = [] then None else Some (takeWhile (\<lambda>c. c \<noteq> NL) (cstr (fgets_take (len - 1) text))))"

definition SUPPLY_DIR :: string where "SUPPLY_DIR = ''/sys/class/power_supply/''"

fun first_battery :: "power_env \<Rightarrow> string list \<Rightarrow> string option" where
  "first_battery env [] = None"
| "first_battery env (d # ds) =
     (if d \<noteq> [] \<and> hd d = CHR ''.'' then first_battery env ds
      else if read_sysfs_str env (snprintf_buf 256 (SUPPLY_DIR @ d @ ''/type'')) 32 = Some ''Battery''
      then Some (snprintf_buf 256 (SUPPLY_DIR @ d))
      else first_battery env ds)"

definition find_battery_path :: "power_env \<Rightarrow> string option" where
  "find_battery_path env = (case pw_dir env of None \<Rightarrow> None | Some ds \<Rightarrow> first_battery env ds)"

type_synonym reading = "int \<times> string"

definition power_reading :: "power_env \<Rightarrow> string \<Rightarrow> reading" where
  \<comment> \<open>\<open>capacity\<close> and \<open>status\<close> of one turn; what cannot be read keeps its initial value\<close>
  "power_reading env battery_path =
     (case read_sysfs_int env (snprintf_buf 300 (battery_path @ ''/capacity'')) of None \<Rightarrow> -1 | Some n \<Rightarrow> n,
      case read_sysfs_str env (snprintf_buf 300 (battery_path @ ''/status'')) 32 of None \<Rightarrow> [] | Some s \<Rightarrow> s)"

definition status_message :: "reading \<Rightarrow> string" where
  "status_message r = ''[chrono-power-shield] Capacidad: '' @ int_str (fst r) @ ''% | Estado: '' @ snd r"

definition critical :: "reading \<Rightarrow> bool" where
  "critical r \<longleftrightarrow> fst r \<ge> 0 \<and> fst r \<le> CRITICAL_CAPACITY \<and> snd r = ''Discharging''"

definition critical_messages :: "reading \<Rightarrow> string list" where
  "critical_messages r =
     [''[chrono-power-shield] CRITICO: bateria en '' @ int_str (fst r) @ ''% y descargando. Ejecutando shutdown limpio preventivo.'',
      ''[chrono-power-shield] Sync completado. El sistema puede perder energia en cualquier momento.'']"

definition power_turn :: "power_env \<Rightarrow> string \<Rightarrow> reading \<Rightarrow> reading \<times> string list" where
  \<comment> \<open>one turn with a battery: the last reading and the messages for the log\<close>
  "power_turn env battery_path prev =
     (let r = power_reading env battery_path in
      (if r \<noteq> prev then r else prev,
       (if r \<noteq> prev then [status_message r] else []) @ (if critical r then critical_messages r else [])))"

fun power_loop :: "power_env list \<Rightarrow> string \<Rightarrow> reading \<Rightarrow> files \<Rightarrow> files" where
  "power_loop [] battery_path prev fs = fs"
| "power_loop (env # envs) battery_path prev fs =
     (if battery_path = [] then power_loop envs battery_path prev fs
      else let (prev, msgs) = power_turn env battery_path prev in
        power_loop envs battery_path prev (fold (blackbox_write env) msgs fs))"

definition power_main :: "power_env \<Rightarrow> power_env list \<Rightarrow> power_env \<Rightarrow> files \<Rightarrow> int \<times> files" where
  \<comment> \<open>the environments at the start, in each turn and at the end\<close>
  "power_main start turns end_env fs =
     (let (path, fs) = (case find_battery_path start of
          None \<Rightarrow> ([], blackbox_write start ''[chrono-power-shield] ADVERTENCIA: no se detecto nodo de bateria en sysfs. Monitor limitado.'' fs)
        | Some path \<Rightarrow> (path, blackbox_write start (''[chrono-power-shield] Iniciado. Nodo de bateria: '' @ path) fs));
          fs = power_loop turns path (-1, []) fs
      in (0, blackbox_write end_env ''[chrono-power-shield] Deteniendose por senal. Apagado ordenado.'' fs))"

fun turn_messages :: "power_env list \<Rightarrow> string \<Rightarrow> reading \<Rightarrow> (power_env \<times> string) list" where
  \<comment> \<open>the messages of the turns with the environments in which they are written\<close>
  "turn_messages [] path prev = []"
| "turn_messages (env # envs) path prev =
     (let (prev', msgs) = power_turn env path prev in map (Pair env) msgs @ turn_messages envs path prev')"

lemma power_loop_messages:
  "path \<noteq> [] \<Longrightarrow> power_loop envs path prev fs = fold (\<lambda>(env, msg). blackbox_write env msg) (turn_messages envs path prev) fs"
proof (induction envs arbitrary: prev fs)
  case (Cons env envs)
  then show ?case by (simp add: case_prod_beta fold_map comp_def)
qed simp

definition is_status :: "string \<Rightarrow> bool" where
  "is_status msg \<longleftrightarrow> starts_with ''[chrono-power-shield] Capacidad: '' msg"

lemma status_of_turn: "filter is_status (snd (power_turn env path prev)) =
    (if power_reading env path \<noteq> prev then [status_message (power_reading env path)] else [])"
  by (simp add: power_turn_def Let_def is_status_def status_message_def critical_messages_def starts_with_def)

text \<open>The status entries of the black box are the changes: over any run with a battery they are the readings of the turns
  with consecutive repetitions removed, in order, starting from the unknown reading; so nothing that changed is
  missing and nothing is repeated. Every entry of the run is written by \<open>power_loop\<close> in this order.\<close>

theorem power_log_changes:
  assumes "path \<noteq> []"
  shows "power_loop envs path prev fs = fold (\<lambda>(env, msg). blackbox_write env msg) (turn_messages envs path prev) fs \<and>
    filter is_status (map snd (turn_messages envs path prev)) =
      map status_message (tl (remdups_adj (prev # map (\<lambda>env. power_reading env path) envs)))"
proof (rule conjI [OF power_loop_messages [OF assms]])
  show "filter is_status (map snd (turn_messages envs path prev)) =
      map status_message (tl (remdups_adj (prev # map (\<lambda>env. power_reading env path) envs)))"
  proof (induction envs arbitrary: prev)
    case (Cons env envs)
    let ?r = "power_reading env path" let ?rs = "map (\<lambda>env. power_reading env path) envs"
    have "hd (remdups_adj (?r # ?rs)) = ?r" "remdups_adj (?r # ?rs) \<noteq> []" by (simp_all add: hd_remdups_adj)
    then obtain us where us: "remdups_adj (?r # ?rs) = ?r # us" by (cases "remdups_adj (?r # ?rs)") auto
    have "fst (power_turn env path prev) = ?r" by (simp add: power_turn_def Let_def)
    then show ?case using Cons [of ?r] us by (cases "?r = prev") (auto simp: case_prod_beta status_of_turn o_def)
  qed simp
qed

definition demo_power_env :: "string \<Rightarrow> power_env" where
  "demo_power_env capacity = \<lparr>pw_sys = (\<lambda>_. None)(''/sys/class/power_supply/BAT0/capacity'' \<mapsto> capacity @ [NL],
     ''/sys/class/power_supply/BAT0/status'' \<mapsto> ''Discharging'' @ [NL]), pw_dir = Some [''BAT0''], pw_clock = demo_clock 0, pw_files = open_env\<rparr>"

theorem power_log_changes_witness:
  "power_loop [demo_power_env ''6'', demo_power_env ''6'', demo_power_env ''5''] (SUPPLY_DIR @ ''BAT0'') (-1, []) (\<lambda>_. None) =
     fold (\<lambda>(env, msg). blackbox_write env msg)
       (turn_messages [demo_power_env ''6'', demo_power_env ''6'', demo_power_env ''5''] (SUPPLY_DIR @ ''BAT0'') (-1, [])) (\<lambda>_. None) \<and>
   filter is_status (map snd (turn_messages [demo_power_env ''6'', demo_power_env ''6'', demo_power_env ''5''] (SUPPLY_DIR @ ''BAT0'') (-1, []))) =
      map status_message (tl (remdups_adj ((-1, []) # map (\<lambda>env. power_reading env (SUPPLY_DIR @ ''BAT0''))
        [demo_power_env ''6'', demo_power_env ''6'', demo_power_env ''5''])))"
  by (rule power_log_changes) (simp add: SUPPLY_DIR_def)

section \<open>Energy daemon\<close>

datatype power_mode = POWER_MODE_NORMAL | POWER_MODE_CONSERVATION | POWER_MODE_DEEP_SLEEP_OFFGRID

definition POWER_STATE :: string where "POWER_STATE = ''/var/run/chrono_power_state''"
definition FLIGHT_LOG :: string where "FLIGHT_LOG = ''vault/carrington_safe/blackbox_flight.log''"
definition HEARTBEAT :: string where "HEARTBEAT = ''config/.last_heartbeat''"

definition sysfs_int_or :: "power_env \<Rightarrow> string \<Rightarrow> int \<Rightarrow> int" where
  "sysfs_int_or env path default_val = (case read_sysfs_int env path of None \<Rightarrow> default_val | Some n \<Rightarrow> n)"

definition write_system_state :: "power_env \<Rightarrow> string \<Rightarrow> files \<Rightarrow> files" where
  "write_system_state env state_str fs = (case f_write (pw_files env) fs POWER_STATE (state_str @ [NL]) of None \<Rightarrow> fs | Some fs \<Rightarrow> fs)"

definition log_blackbox :: "power_env \<Rightarrow> string \<Rightarrow> string \<Rightarrow> files \<Rightarrow> files" where
  "log_blackbox env level msg fs = f_append_or_skip (pw_files env) fs FLIGHT_LOG
     (''['' @ fmt_plain (ck_localtime (pw_clock env) (ck_now (pw_clock env))) @ ''] ['' @ level @ ''] [DAEMON-POWER] '' @ msg @ [NL])"

definition update_heartbeat :: "power_env \<Rightarrow> files \<Rightarrow> files" where
  "update_heartbeat env fs = (case f_write (pw_files env) fs HEARTBEAT (int_str (ck_now (pw_clock env)) @ [NL]) of None \<Rightarrow> fs | Some fs \<Rightarrow> fs)"

definition execute_power_action :: "power_env \<Rightarrow> power_mode \<Rightarrow> files \<Rightarrow> files" where
  \<comment> \<open>the log entry; the commands that would act are given to the disabled shell\<close>
  "execute_power_action env mode fs =
     (case mode of
        POWER_MODE_DEEP_SLEEP_OFFGRID \<Rightarrow> log_blackbox env ''CRITICAL'' ''Aislamiento extremo: Apagando interfaces de red no esenciales.'' fs
      | POWER_MODE_CONSERVATION \<Rightarrow> log_blackbox env ''WARNING'' (''Modo Conservaci'' @ [CHR 0xC3, CHR 0xB3] @ ''n: Limitando frecuencia de CPU a perfil eco.'') fs
      | POWER_MODE_NORMAL \<Rightarrow> log_blackbox env ''INFO'' ''Restaurando rendimiento nominal del procesador.'' fs)"

definition power_sources :: "power_env \<Rightarrow> int \<times> int" where
  \<comment> \<open>\<open>grid_stable\<close> and \<open>batt_level\<close>\<close>
  "power_sources env =
     (let ac = sysfs_int_or env ''/sys/class/power_supply/AC/online'' (-1) in
      (if ac = -1 then sysfs_int_or env ''/sys/class/power_supply/ACAD/online'' 1 else ac,
       sysfs_int_or env ''/sys/class/power_supply/BAT0/capacity'' 100))"

definition choose_mode :: "int \<Rightarrow> int \<Rightarrow> power_mode" where
  "choose_mode grid_stable batt_level =
     (if grid_stable = 0 \<or> batt_level < 20 then
        (if batt_level < 10 then POWER_MODE_DEEP_SLEEP_OFFGRID else POWER_MODE_CONSERVATION)
      else POWER_MODE_NORMAL)"

fun mode_state :: "power_mode \<Rightarrow> string" where
  "mode_state POWER_MODE_NORMAL = ''NORMAL''"
| "mode_state POWER_MODE_CONSERVATION = ''CONSERVATION''"
| "mode_state POWER_MODE_DEEP_SLEEP_OFFGRID = ''DEEP_SLEEP_OFFGRID''"

definition daemon_turn :: "power_env \<Rightarrow> files \<Rightarrow> files" where
  "daemon_turn env fs =
     (let (grid_stable, batt_level) = power_sources env; mode = choose_mode grid_stable batt_level;
          fs = log_blackbox env ''DEBUG'' (snprintf_buf 256 (''Estado Grid AC: '' @ int_str grid_stable @ '' | Nivel Bater'' @
            [CHR 0xC3, CHR 0xAD] @ ''a: '' @ int_str batt_level @ ''%'')) fs;
          fs = write_system_state env (mode_state mode) fs
      in update_heartbeat env (execute_power_action env mode fs))"

definition daemon_loop :: "power_env \<Rightarrow> power_env list \<Rightarrow> power_env \<Rightarrow> files \<Rightarrow> files" where
  "daemon_loop start turns end_env fs =
     log_blackbox end_env ''INFO'' (''Daemon de energ'' @ [CHR 0xC3, CHR 0xAD] @ ''a detenido de forma segura.'')
       (fold daemon_turn turns
         (log_blackbox start ''INFO'' (''Iniciando daemon aut'' @ [CHR 0xC3, CHR 0xB3] @ ''nomo de resiliencia y telemetr'' @ [CHR 0xC3, CHR 0xAD] @
            ''a de energ'' @ [CHR 0xC3, CHR 0xAD] @ ''a.'') fs))"

text \<open>Modes are ordered by how much they switch off.\<close>

fun mode_rank :: "power_mode \<Rightarrow> nat" where
  "mode_rank POWER_MODE_NORMAL = 0"
| "mode_rank POWER_MODE_CONSERVATION = 1"
| "mode_rank POWER_MODE_DEEP_SLEEP_OFFGRID = 2"

instantiation power_mode :: linorder
begin

definition less_eq_power_mode :: "power_mode \<Rightarrow> power_mode \<Rightarrow> bool" where
  "less_eq_power_mode a b \<longleftrightarrow> mode_rank a \<le> mode_rank b"

definition less_power_mode :: "power_mode \<Rightarrow> power_mode \<Rightarrow> bool" where
  "less_power_mode a b \<longleftrightarrow> mode_rank a < mode_rank b"

instance
proof
  fix a b :: power_mode
  show "a \<le> b \<Longrightarrow> b \<le> a \<Longrightarrow> a = b" by (cases a; cases b) (simp_all add: less_eq_power_mode_def)
qed (auto simp: less_eq_power_mode_def less_power_mode_def)

end

lemma power_paths [simp]:
  "POWER_STATE \<noteq> FLIGHT_LOG" "POWER_STATE \<noteq> HEARTBEAT" "HEARTBEAT \<noteq> FLIGHT_LOG"
  "FLIGHT_LOG \<noteq> POWER_STATE" "HEARTBEAT \<noteq> POWER_STATE" "FLIGHT_LOG \<noteq> HEARTBEAT"
  by (simp_all add: POWER_STATE_def FLIGHT_LOG_def HEARTBEAT_def)

lemma log_keeps: "p \<noteq> FLIGHT_LOG \<Longrightarrow> log_blackbox env level msg fs p = fs p"
  by (auto simp: log_blackbox_def f_append_or_skip_def f_append_def split: option.splits)

lemma action_keeps: "p \<noteq> FLIGHT_LOG \<Longrightarrow> execute_power_action env mode fs p = fs p"
  by (cases mode) (simp_all add: execute_power_action_def log_keeps)

lemma daemon_turn_files:
  assumes "can_write (pw_files env) POWER_STATE" and "can_write (pw_files env) HEARTBEAT"
  shows "daemon_turn env fs POWER_STATE = Some (mode_state (case_prod choose_mode (power_sources env)) @ [NL])"
    and "daemon_turn env fs HEARTBEAT = Some (int_str (ck_now (pw_clock env)) @ [NL])"
  using assms
  by (simp_all add: daemon_turn_def update_heartbeat_def write_system_state_def f_write_def case_prod_beta Let_def action_keeps log_keeps)

text \<open>The daemon publishes the mode of its last turn and proves to be alive: after any run with at least one turn, the state file
  holds the mode for the power sources of the last turn and the heartbeat file its time; and the mode is monotone, a lower
  battery or a lost grid never gives a mode that switches off less.\<close>

theorem power_mode_published:
  assumes "turns \<noteq> []" and "can_write (pw_files (last turns)) POWER_STATE" and "can_write (pw_files (last turns)) HEARTBEAT"
  shows "daemon_loop start turns end_env fs POWER_STATE = Some (mode_state (case_prod choose_mode (power_sources (last turns))) @ [NL]) \<and>
    daemon_loop start turns end_env fs HEARTBEAT = Some (int_str (ck_now (pw_clock (last turns))) @ [NL]) \<and>
    (b \<le> b' \<longrightarrow> choose_mode g b' \<le> choose_mode g b \<and> choose_mode g b \<le> choose_mode 0 b)"
proof -
  have "fold daemon_turn turns f = daemon_turn (last turns) (fold daemon_turn (butlast turns) f)" for f
    using assms(1) by (cases turns rule: rev_cases) simp_all
  moreover have "b \<le> b' \<longrightarrow> choose_mode g b' \<le> choose_mode g b \<and> choose_mode g b \<le> choose_mode 0 b"
    by (simp add: choose_mode_def less_eq_power_mode_def)
  ultimately show ?thesis
    using daemon_turn_files [OF assms(2,3)] by (simp add: daemon_loop_def log_keeps)
qed

theorem power_mode_published_witness:
  "daemon_loop (demo_power_env ''7'') [demo_power_env ''7''] (demo_power_env ''7'') (\<lambda>_. None) POWER_STATE =
     Some (mode_state (case_prod choose_mode (power_sources (last [demo_power_env ''7'']))) @ [NL]) \<and>
   daemon_loop (demo_power_env ''7'') [demo_power_env ''7''] (demo_power_env ''7'') (\<lambda>_. None) HEARTBEAT =
     Some (int_str (ck_now (pw_clock (last [demo_power_env ''7'']))) @ [NL]) \<and> choose_mode 1 20 \<le> choose_mode 1 10"
  using power_mode_published [of "[demo_power_env ''7'']" "demo_power_env ''7''" "demo_power_env ''7''" "\<lambda>_. None" 10 20 1]
  by (simp add: demo_power_env_def)

text \<open>Sensors that cannot be read count as full power: without any readable file below \<open>/sys\<close> the mode is NORMAL.\<close>

theorem power_fails_open:
  assumes "pw_sys env = (\<lambda>_. None)"
  shows "case_prod choose_mode (power_sources env) = POWER_MODE_NORMAL"
  using assms by (simp add: power_sources_def sysfs_int_or_def read_sysfs_int_def choose_mode_def)

end
