(* ===== verification/CFloat.thy ===== *)
theory CFloat
  imports CDouble CScan
begin

text \<open>
  Binary floating-point formats and the conversion of text to them. A format has a precision and a range of exponents; a
  number is rounded to nearest, ties to even, as \<open>CDouble\<close> prints it. \<open>c_strtod\<close> is \<open>strtod\<close> in the C locale with
  decimal and hexadecimal numbers, infinities and NaNs; with the format \<open>binary32\<close> it is \<open>strtof\<close>.
\<close>

record fformat =
  ff_prec :: nat
  ff_emin :: int
  ff_emax :: int

definition binary64 :: fformat where "binary64 = \<lparr>ff_prec = 53, ff_emin = -1022, ff_emax = 1023\<rparr>"
definition binary32 :: fformat where "binary32 = \<lparr>ff_prec = 24, ff_emin = -126, ff_emax = 127\<rparr>"

section \<open>Rounding\<close>

fun bit_count :: "nat \<Rightarrow> nat" where
  "bit_count n = (if n = 0 then 0 else Suc (bit_count (n div 2)))"

declare bit_count.simps [simp del]

definition ilog2 :: "rat \<Rightarrow> int" where
  \<comment> \<open>the exponent of a positive number\<close>
  "ilog2 q =
     (case quotient_of q of (a, b) \<Rightarrow>
        let e = int (bit_count (nat a)) - int (bit_count (nat b)) in if q < 2 powi e then e - 1 else e)"

definition ulp :: "fformat \<Rightarrow> rat \<Rightarrow> rat" where
  "ulp f q = 2 powi (max (ilog2 q) (ff_emin f) - int (ff_prec f) + 1)"

definition round_mag :: "fformat \<Rightarrow> rat \<Rightarrow> rat" where
  "round_mag f q = of_int (round_even (q / ulp f q)) * ulp f q"

definition fl :: "fformat \<Rightarrow> bool \<Rightarrow> rat \<Rightarrow> double" where
  \<comment> \<open>the number with that sign and that magnitude\<close>
  "fl f neg q =
     (let r = (if q = 0 then 0 else round_mag f q) in
      if r = 0 then (if neg then DNegZero else DNum 0)
      else if r \<ge> 2 powi (ff_emax f + 1) then DInf neg
      else DNum (if neg then - r else r))"

definition range_error :: "fformat \<Rightarrow> rat \<Rightarrow> bool" where
  \<comment> \<open>\<open>ERANGE\<close>: overflow, or an inexact result below the normal numbers\<close>
  "range_error f q \<longleftrightarrow>
     q \<noteq> 0 \<and> (round_mag f q \<ge> 2 powi (ff_emax f + 1) \<or> (q < 2 powi ff_emin f \<and> round_mag f q \<noteq> q))"

fun to_single :: "double \<Rightarrow> double" where
  \<comment> \<open>the conversion of a \<open>double\<close> to \<open>float\<close>\<close>
  "to_single (DNum q) = fl binary32 (q < 0) \<bar>q\<bar>"
| "to_single v = v"

lemma bit_count_bounds: "0 < n \<Longrightarrow> 2 ^ (bit_count n - 1) \<le> n \<and> n < 2 ^ bit_count n \<and> 0 < bit_count n"
proof (induction n rule: bit_count.induct)
  case (1 n)
  show ?case
  proof (cases "n div 2 = 0")
    case True
    then have "n = 1" using 1(2) by simp
    then show ?thesis by (simp add: bit_count.simps)
  next
    case False
    then have ih: "2 ^ (bit_count (n div 2) - 1) \<le> n div 2" "n div 2 < 2 ^ bit_count (n div 2)" "0 < bit_count (n div 2)"
      using 1 by auto
    obtain k where k: "bit_count (n div 2) = Suc k" using ih(3) by (cases "bit_count (n div 2)") auto
    have "bit_count n = Suc (Suc k)" using 1(2) k by (subst bit_count.simps) simp
    moreover have "2 * 2 ^ k \<le> n" "n < 4 * 2 ^ k" using ih k by auto
    ultimately show ?thesis by simp
  qed
qed

lemma ilog2_bounds:
  assumes "0 < q" shows "2 powi ilog2 q \<le> q" and "q < 2 powi (ilog2 q + 1)"
proof -
  obtain a b where ab: "quotient_of q = (a, b)" by (cases "quotient_of q")
  have b: "0 < b" using quotient_of_denom_pos [OF ab] .
  have q: "q = of_int a / of_int b" using quotient_of_div [OF ab] .
  have a: "0 < a" using assms b unfolding q by (simp add: zero_less_divide_iff)
  define m n where "m = bit_count (nat a)" and "n = bit_count (nat b)"
  have pow: "(2 ^ (m - 1) :: rat) \<le> of_int a" "(of_int a :: rat) < 2 ^ m" "(2 ^ (n - 1) :: rat) \<le> of_int b" "(of_int b :: rat) < 2 ^ n" "0 < m" "0 < n"
  proof -
    have A: "2 ^ (m - 1) \<le> nat a" "nat a < 2 ^ m" "0 < m" using bit_count_bounds [of "nat a"] a by (auto simp: m_def)
    have B: "2 ^ (n - 1) \<le> nat b" "nat b < 2 ^ n" "0 < n" using bit_count_bounds [of "nat b"] b by (auto simp: n_def)
    have ra: "(of_int a :: rat) = of_nat (nat a)" "(of_int b :: rat) = of_nat (nat b)" using a b by simp_all
    show "(2 ^ (m - 1) :: rat) \<le> of_int a" unfolding ra using A(1) of_nat_mono [of "2 ^ (m - 1)" "nat a", where 'a = rat] by simp
    show "(of_int a :: rat) < 2 ^ m" unfolding ra using A(2) of_nat_less_iff [of "nat a" "2 ^ m", where 'a = rat] by simp
    show "(2 ^ (n - 1) :: rat) \<le> of_int b" unfolding ra using B(1) of_nat_mono [of "2 ^ (n - 1)" "nat b", where 'a = rat] by simp
    show "(of_int b :: rat) < 2 ^ n" unfolding ra using B(2) of_nat_less_iff [of "nat b" "2 ^ n", where 'a = rat] by simp
  qed (use bit_count_bounds [of "nat a"] bit_count_bounds [of "nat b"] a b in \<open>auto simp: m_def n_def\<close>)
  have up: "q < 2 powi (int m - int n + 1)"
  proof -
    have "q < 2 ^ m / 2 ^ (n - 1)" unfolding q using pow b a by (intro frac_less) (auto simp: less_imp_le)
    also have "2 ^ m / 2 ^ (n - 1) = (2 :: rat) powi (int m - int (n - 1))" by (simp add: power_int_diff)
    also have "int m - int (n - 1) = int m - int n + 1" using pow(6) by simp
    finally show ?thesis .
  qed
  have lo: "2 powi (int m - int n - 1) \<le> q"
  proof -
    have "int m - int n - 1 = int (m - 1) - int n" using pow(5) by simp
    then have "(2 :: rat) powi (int m - int n - 1) = 2 powi (int (m - 1) - int n)" by (rule arg_cong)
    also have "\<dots> = 2 powi int (m - 1) / 2 powi int n" by (rule power_int_diff) simp
    also have "\<dots> = 2 ^ (m - 1) / 2 ^ n" by simp
    also have "\<dots> \<le> q" unfolding q using pow a b by (intro frac_le) auto
    finally show ?thesis .
  qed
  have ilog2: "ilog2 q = (if q < 2 powi (int m - int n) then int m - int n - 1 else int m - int n)"
    by (simp add: ilog2_def ab m_def n_def Let_def)
  show "2 powi ilog2 q \<le> q" "q < 2 powi (ilog2 q + 1)"
    using up lo by (auto simp: ilog2 add.commute)
qed

lemma powi_less: "(2 :: rat) powi a < 2 powi b \<Longrightarrow> a < b"
  using power_int_increasing [of b a "2 :: rat"] by (cases "a < b") auto

lemma ilog2_unique:
  assumes "2 powi e \<le> q" and "q < 2 powi (e + 1)" shows "ilog2 q = e"
proof -
  have "0 < q" using assms(1) by (rule order.strict_trans2 [rotated]) simp
  note b = ilog2_bounds [OF this]
  have "(2 :: rat) powi ilog2 q < 2 powi (e + 1)" "(2 :: rat) powi e < 2 powi (ilog2 q + 1)" using assms b by auto
  then have "ilog2 q < e + 1" "e < ilog2 q + 1" by (auto dest: powi_less)
  then show ?thesis by simp
qed

lemma ulp_pos [simp]: "0 < ulp f q"
  by (simp add: ulp_def)

lemma ulp_nonzero [simp]: "ulp f q \<noteq> 0"
  using ulp_pos [of f q] by linarith

lemma round_even_of_int [simp]: "round_even (of_int n) = n"
  by (simp add: round_even_def)

lemma round_even_near: "\<bar>of_int (round_even q) - q\<bar> \<le> 1 / 2"
proof -
  have "of_int \<lfloor>q\<rfloor> \<le> q" "q < of_int \<lfloor>q\<rfloor> + 1" by linarith+
  then show ?thesis by (auto simp: round_even_def Let_def abs_le_iff)
qed

lemma round_mag_near: "\<bar>round_mag f q - q\<bar> \<le> ulp f q / 2"
proof -
  have u: "0 < ulp f q" by simp
  have "round_mag f q - q = (of_int (round_even (q / ulp f q)) - q / ulp f q) * ulp f q"
    using u by (simp add: round_mag_def left_diff_distrib)
  then have "\<bar>round_mag f q - q\<bar> = \<bar>of_int (round_even (q / ulp f q)) - q / ulp f q\<bar> * ulp f q"
    using abs_of_pos [OF u] by (simp only: abs_mult)
  also have "\<dots> \<le> 1 / 2 * ulp f q" by (rule mult_right_mono [OF round_even_near less_imp_le [OF u]])
  finally show ?thesis by simp
qed

lemma round_mag_exact: "q = of_int m * ulp f q \<Longrightarrow> round_mag f q = q"
proof -
  assume q: "q = of_int m * ulp f q"
  have "q / ulp f q = of_int m" using ulp_pos [of f q] by (subst q) simp
  then show ?thesis by (simp add: round_mag_def q [symmetric])
qed

text \<open>Whole numbers below \<open>2 ^ prec\<close> are numbers of the format.\<close>

lemma round_mag_nat:
  assumes "0 < n" and "n < 2 ^ ff_prec f" and "ff_emin f \<le> 0"
  shows "round_mag f (of_nat n) = of_nat n"
proof -
  let ?q = "of_nat n :: rat"
  have q: "0 < ?q" using assms(1) by simp
  have "(1 :: rat) < 2 powi (ilog2 ?q + 1)"
  proof -
    have "(1 :: rat) \<le> ?q" using assms(1) by simp
    also note ilog2_bounds(2) [OF q]
    finally show ?thesis .
  qed
  then have "(2 :: rat) powi 0 < 2 powi (ilog2 ?q + 1)" by simp
  from powi_less [OF this] have lo: "0 \<le> ilog2 ?q" by simp
  have "(2 :: rat) powi ilog2 ?q < 2 powi int (ff_prec f)"
  proof -
    have "?q < 2 powi int (ff_prec f)" using assms(2) by (simp flip: of_nat_power add: of_nat_less_iff)
    with ilog2_bounds(1) [OF q] show ?thesis by (rule le_less_trans)
  qed
  from powi_less [OF this] have hi: "ilog2 ?q < int (ff_prec f)" .
  define k where "k = nat (int (ff_prec f) - 1 - ilog2 ?q)"
  have "max (ilog2 ?q) (ff_emin f) - int (ff_prec f) + 1 = - int k" using lo hi assms(3) by (simp add: k_def)
  then have u: "ulp f ?q = 2 powi (- int k)" by (simp only: ulp_def)
  have "?q = of_int (int n * 2 ^ k) * ulp f ?q" unfolding u by (simp add: power_int_minus)
  then show ?thesis by (rule round_mag_exact)
qed

lemma fl_nat:
  assumes "0 < n" and "n < 2 ^ ff_prec f" and "ff_emin f \<le> 0" and "int (ff_prec f) \<le> ff_emax f"
  shows "fl f neg (of_nat n) = DNum (if neg then - of_nat n else of_nat n)"
proof -
  have "(of_nat n :: rat) < 2 ^ ff_prec f" using assms(2) by (simp flip: of_nat_power add: of_nat_less_iff)
  also have "(2 :: rat) ^ ff_prec f = 2 powi int (ff_prec f)" by simp
  also have "(2 :: rat) powi int (ff_prec f) \<le> 2 powi (ff_emax f + 1)" using assms(4) by (intro power_int_increasing) simp_all
  finally show ?thesis using assms(1) by (simp add: fl_def round_mag_nat [OF assms(1-3)])
qed

text \<open>A normal number is off by at most half of itself: enough to compare rounded constants with limits that are far away.\<close>

lemma round_mag_coarse:
  assumes "2 powi ff_emin f \<le> q" and "1 \<le> ff_prec f" shows "0 \<le> round_mag f q" and "round_mag f q \<le> 3 / 2 * q"
proof -
  have q: "0 < q" using assms(1) by (rule order.strict_trans2 [rotated]) simp
  have "(2 :: rat) powi ff_emin f < 2 powi (ilog2 q + 1)" using assms(1) ilog2_bounds(2) [OF q] by simp
  from powi_less [OF this] have "ff_emin f \<le> ilog2 q" by simp
  then have "ulp f q \<le> 2 powi ilog2 q" using assms(2) unfolding ulp_def by (intro power_int_increasing) auto
  then have u: "ulp f q \<le> q" using ilog2_bounds(1) [OF q] by simp
  have "\<bar>round_mag f q - q\<bar> \<le> q / 2" using round_mag_near [of f q] u by simp
  then have "round_mag f q - q \<le> q / 2" "- (q / 2) \<le> round_mag f q - q" unfolding abs_le_iff by linarith+
  then show "0 \<le> round_mag f q" "round_mag f q \<le> 3 / 2 * q" using q by linarith+
qed

lemma binary64_simps [simp]: "ff_prec binary64 = 53" "ff_emin binary64 = -1022" "ff_emax binary64 = 1023"
  by (simp_all add: binary64_def)

lemma binary32_simps [simp]: "ff_prec binary32 = 24" "ff_emin binary32 = -126" "ff_emax binary32 = 127"
  by (simp_all add: binary32_def)

definition d_of :: "rat \<Rightarrow> double" where
  \<comment> \<open>a constant of type \<open>double\<close>\<close>
  "d_of q = fl binary64 (q < 0) \<bar>q\<bar>"

lemma d_of_near:
  assumes "1 / 2 ^ 8 \<le> \<bar>q\<bar>" and "3 / 2 * \<bar>q\<bar> < of_nat n" and "n < 2 ^ 8"
  shows "\<not> d_gt (d_of q) (DNum (of_nat n))" and "\<not> d_lt (d_of q) (DNum (- of_nat n))"
proof -
  define r B where "r = round_mag binary64 \<bar>q\<bar>" and "B = (2 :: rat) powi (ff_emax binary64 + 1)"
  have "(2 :: rat) powi ff_emin binary64 \<le> 2 powi (- 8)" by (rule power_int_increasing) simp_all
  also have "(2 :: rat) powi (- 8) = 1 / 2 ^ 8" by (simp add: power_int_minus)
  also note assms(1)
  finally have "(2 :: rat) powi ff_emin binary64 \<le> \<bar>q\<bar>" .
  note coarse = round_mag_coarse [OF this]
  have p: "1 \<le> ff_prec binary64" by simp
  have r: "0 \<le> r" unfolding r_def by (rule coarse(1) [OF p])
  have r2: "r \<le> 3 / 2 * \<bar>q\<bar>" unfolding r_def by (rule coarse(2) [OF p])
  note r = r r2
  have "(of_nat n :: rat) \<le> of_nat (2 ^ 8)" using assms(3) by (intro of_nat_mono) simp
  then have "(of_nat n :: rat) \<le> 2 ^ 8" by simp
  also have "(2 :: rat) ^ 8 = 2 powi 8" by simp
  also have "(2 :: rat) powi 8 \<le> B" unfolding B_def by (intro power_int_increasing) simp_all
  finally have B: "r < B" using r assms(2) by linarith
  have n: "r < of_nat n" "(0 :: rat) < of_nat n" using r assms(2) by linarith+
  have "d_of q = (if q = 0 \<or> r = 0 then (if q < 0 then DNegZero else DNum 0) else DNum (if q < 0 then - r else r))"
    unfolding d_of_def fl_def r_def [symmetric] B_def [symmetric] Let_def using B by (cases "q = 0") auto
  then show "\<not> d_gt (d_of q) (DNum (of_nat n))" "\<not> d_lt (d_of q) (DNum (- of_nat n))"
    using r n unfolding d_gt_def by (auto split: if_splits)
qed

lemma d_of_nat: "n < 2 ^ 53 \<Longrightarrow> d_of (of_nat n) = DNum (of_nat n)" "0 < n \<Longrightarrow> n < 2 ^ 53 \<Longrightarrow> d_of (- of_nat n) = DNum (- of_nat n)"
  using fl_nat [of n binary64] by (cases "n = 0"; simp add: d_of_def fl_def)+

section \<open>\<open>strtod\<close>\<close>

definition c_lower :: "char \<Rightarrow> char" where
  "c_lower c = (if 65 \<le> code c \<and> code c \<le> 90 then char_of (code c + 32) else c)"

definition has_word :: "string \<Rightarrow> string \<Rightarrow> bool" where
  "has_word w s \<longleftrightarrow> map c_lower (take (length w) s) = w"

definition point_digits :: "(char \<Rightarrow> bool) \<Rightarrow> string \<Rightarrow> (string \<times> string \<times> string) option" where
  \<comment> \<open>digits with at most one point: those before it, those after it, and the rest\<close>
  "point_digits digit s =
     (let ip = takeWhile digit s; r = dropWhile digit s;
          (fp, r) = (case r of [] \<Rightarrow> ([], r) | c # r1 \<Rightarrow> if c = CHR ''.'' then (takeWhile digit r1, dropWhile digit r1) else ([], r)) in
      if ip = [] \<and> fp = [] then None else Some (ip, fp, r))"

definition exponent_part :: "char \<Rightarrow> string \<Rightarrow> int \<times> string" where
  "exponent_part e s =
     (case s of
        [] \<Rightarrow> (0, s)
      | c # r \<Rightarrow>
          if c_lower c = e then
            (let (sg, t) = sign_of r; ds = takeWhile c_isdigit t in
             if ds = [] then (0, s) else (sg * int (digits_val ds), dropWhile c_isdigit t))
          else (0, s))"

definition dec_number :: "string \<Rightarrow> (rat \<times> string) option" where
  "dec_number s =
     (case point_digits c_isdigit s of
        None \<Rightarrow> None
      | Some (ip, fp, r) \<Rightarrow>
          (let (ex, r) = exponent_part (CHR ''e'') r in Some (of_nat (digits_val (ip @ fp)) * 10 powi (ex - int (length fp)), r)))"

definition hex_number :: "string \<Rightarrow> (rat \<times> string) option" where
  "hex_number s =
     (case point_digits (\<lambda>c. hex_val c \<noteq> None) s of
        None \<Rightarrow> None
      | Some (ip, fp, r) \<Rightarrow>
          (let (ex, r) = exponent_part (CHR ''p'') r in
           Some (of_nat (hex_digits_val (take_hex (ip @ fp))) * 2 powi (ex - 4 * int (length fp)), r)))"

definition number_at :: "string \<Rightarrow> (rat \<times> string) option" where
  "number_at s =
     (case (if has_word ''0x'' s then hex_number (drop 2 s) else None) of
        Some res \<Rightarrow> Some res
      | None \<Rightarrow> dec_number s)"

definition nan_tail :: "string \<Rightarrow> string" where
  \<comment> \<open>an optional \<open>(...)\<close> of letters, digits and underscores\<close>
  "nan_tail s =
     (let word = (\<lambda>c. c_isdigit c \<or> (97 \<le> code (c_lower c) \<and> code (c_lower c) \<le> 122) \<or> c = CHR ''_'') in
      case s of
        [] \<Rightarrow> s
      | c # r \<Rightarrow>
          if c = CHR ''('' then (case dropWhile word r of [] \<Rightarrow> s | d # t \<Rightarrow> if d = CHR '')'' then t else s) else s)"

definition c_strtod :: "fformat \<Rightarrow> string \<Rightarrow> double \<times> string \<times> bool" where
  \<comment> \<open>the value, what \<open>end\<close> points to, and whether \<open>errno\<close> is set to \<open>ERANGE\<close>\<close>
  "c_strtod f s =
     (let (sg, t) = sign_of (dropWhile c_isspace s); neg = (sg < 0) in
      if has_word ''infinity'' t then (DInf neg, drop 8 t, False)
      else if has_word ''inf'' t then (DInf neg, drop 3 t, False)
      else if has_word ''nan'' t then (DNaN neg, nan_tail (drop 3 t), False)
      else case number_at t of
        None \<Rightarrow> (DNum 0, s, False)
      | Some (q, r) \<Rightarrow> (fl f neg q, r, range_error f q))"

lemma strtod_words:
  "c_strtod f ''nan'' = (DNaN False, [], False)" "c_strtod f ''-inf'' = (DInf True, [], False)"
  by (simp_all add: c_strtod_def has_word_def c_lower_def code_def sign_of_def nan_tail_def c_isspace_def)

lemma c_lower_digit: "c_isdigit c \<Longrightarrow> c_lower c = c"
  by (simp add: c_lower_def c_isdigit_def)

lemma strtod_nat_exact:
  assumes "n < 2 ^ ff_prec f" and "ff_emin f \<le> 0" and "int (ff_prec f) \<le> ff_emax f"
  shows "c_strtod f (nat_str n) = (DNum (of_nat n), [], range_error f (of_nat n))"
proof -
  obtain c r where cr: "nat_str n = c # r" by (cases "nat_str n") auto
  have all: "\<forall>x \<in> set (nat_str n). c_isdigit x" by (simp add: nat_str_digits)
  then have c: "c_isdigit c" using cr by simp
  have sp: "dropWhile c_isspace (nat_str n) = nat_str n" using cr isdigit_not_isspace [OF c] by simp
  have sg: "sign_of (nat_str n) = (1, nat_str n)" using c cr by (auto simp: sign_of_def)
  have word: "\<not> has_word (w # ws) (nat_str n)" if "\<not> c_isdigit w" for w ws
    using that c c_lower_digit [OF c] cr by (auto simp: has_word_def)
  have hexw: "\<not> has_word ''0x'' (nat_str n)"
  proof
    assume "has_word ''0x'' (nat_str n)"
    then obtain d t where "r = d # t" "c_lower d = CHR ''x''" using cr by (cases r) (auto simp: has_word_def)
    moreover from this have "c_isdigit d" using all cr by simp
    ultimately show False using c_lower_digit [of d] by (auto simp: c_isdigit_def code_def)
  qed
  have tw: "takeWhile c_isdigit (nat_str n) = nat_str n" using all by (intro takeWhile_all) simp
  have dw: "dropWhile c_isdigit (nat_str n) = []" using all by simp
  have "point_digits c_isdigit (nat_str n) = Some (nat_str n, [], [])" unfolding point_digits_def tw dw by simp
  then have num: "number_at (nat_str n) = Some (of_nat n, [])"
    using hexw by (simp add: number_at_def dec_number_def exponent_part_def digits_val_nat_str)
  have st: "c_strtod f (nat_str n) = (fl f False (of_nat n), [], range_error f (of_nat n))"
    unfolding c_strtod_def sp sg by (simp add: word num c_isdigit_def code_def)
  show ?thesis unfolding st using fl_nat [of n f False] assms by (cases "n = 0") (simp_all add: fl_def)
qed

section \<open>Printed numbers\<close>

lemma fmt_fixed_chars: "c \<in> set (fmt_fixed p q) \<Longrightarrow> c_isdigit c \<or> c = CHR ''.''"
proof -
  have "c_isdigit (CHR ''0'')" by (simp add: c_isdigit_def code_def)
  then show "c \<in> set (fmt_fixed p q) \<Longrightarrow> c_isdigit c \<or> c = CHR ''.''"
    by (auto simp: fmt_fixed_def Let_def dest: nat_str_digits split: if_splits)
qed

lemma fmt_f_free: "NL \<notin> set (fmt_f p v)" "NUL \<notin> set (fmt_f p v)" "COMMA \<notin> set (fmt_f p v)"
  by (cases "(p, v)" rule: fmt_f.cases; auto dest: fmt_fixed_chars)+

end
