(* ===== verification/IotEngine.thy ===== *)
theory IotEngine
  imports Files CScan CTime CFloat
begin

text \<open>
  \<open>core/iot/chrono_iot_engine.c\<close>: sensors, alarm rules and readings. The values are C \<open>float\<close>s, read from text as in \<open>CFloat\<close>:
  \<open>%f\<close> of \<open>sscanf\<close> for the rules, \<open>atof\<close> and a conversion to \<open>float\<close> for a reading. What is printed is modelled
  for \<open>status\<close> only.
\<close>

definition SENSOR_WHITELIST :: string where "SENSOR_WHITELIST = ''./etc/chrono/iot_sensors.conf''"
definition ALARM_RULES :: string where "ALARM_RULES = ''./etc/chrono/iot_alarm_rules.conf''"
definition BUFFER_PATH :: string where "BUFFER_PATH = ''./var/db/iot_buffer.csv''"
definition MAX_SENSORS :: nat where "MAX_SENSORS = 256"
definition MAX_ALARM_RULES :: nat where "MAX_ALARM_RULES = 128"

record sensor =
  sn_id :: string
  sn_type :: string
  sn_location :: string
  sn_active :: bool

record alarm_rule =
  al_sensor :: string
  al_metric :: string
  al_min :: double
  al_max :: double
  al_level :: string
  al_action :: string

definition comment_line :: "string \<Rightarrow> bool" where
  "comment_line line \<longleftrightarrow> line \<noteq> [] \<and> (hd line = CHR ''#'' \<or> hd line = NL)"

definition sensor_of_line :: "string \<Rightarrow> sensor option" where
  "sensor_of_line raw =
     (let line = cstr raw; vs = scan [Upto 63 COMMA, Lit COMMA, Upto 31 COMMA, Lit COMMA, Upto 127 NL] line in
      if comment_line line then None
      else if length vs \<ge> 3 then Some \<lparr>sn_id = str_at vs 0 [], sn_type = str_at vs 1 [], sn_location = str_at vs 2 [], sn_active = True\<rparr>
      else None)"

fun load_until :: "nat \<Rightarrow> (string \<Rightarrow> 'a option) \<Rightarrow> 'a list \<Rightarrow> string list \<Rightarrow> 'a list" where
  \<comment> \<open>\<open>while (fgets(...) && count < MAX)\<close> with the lines that are taken\<close>
  "load_until n f xs [] = xs"
| "load_until n f xs (raw # raws) =
     (if length xs < n then load_until n f (case f raw of None \<Rightarrow> xs | Some x \<Rightarrow> xs @ [x]) raws else xs)"

definition load_sensors :: "file_env \<Rightarrow> files \<Rightarrow> sensor list" where
  "load_sensors env fs =
     (case f_read env fs SENSOR_WHITELIST of None \<Rightarrow> [] | Some text \<Rightarrow> load_until MAX_SENSORS sensor_of_line [] (read_lines 255 text))"

definition scan_upto :: "nat \<Rightarrow> char \<Rightarrow> string \<Rightarrow> (string \<times> string) option" where
  \<comment> \<open>one \<open>%n[^d]\<close>\<close>
  "scan_upto n d s = (let t = take n (takeWhile (\<lambda>c. c \<noteq> d) s) in if t = [] then None else Some (t, drop (length t) s))"

definition scan_comma :: "string \<Rightarrow> string option" where
  "scan_comma s = (case s of [] \<Rightarrow> None | c # r \<Rightarrow> if c = COMMA then Some r else None)"

definition scan_f :: "string \<Rightarrow> (double \<times> string) option" where
  \<comment> \<open>\<open>%f\<close>. A number that is cut off, as in \<open>1e,\<close>, is a matching failure of \<open>sscanf\<close>; here the rest then does not begin with
    the comma that the format asks for next, so that the conversions end at the same place\<close>
  "scan_f s = (case c_strtod binary32 s of (v, r, _) \<Rightarrow> if r = s then None else Some (v, r))"

definition alarm_of_line :: "string \<Rightarrow> alarm_rule option" where
  \<comment> \<open>\<open>%63[^,],%31[^,],%f,%f,%15[^,],%63[^\n]\<close>, used when all six are converted\<close>
  "alarm_of_line raw =
     (let line = cstr raw in
      if comment_line line then None
      else
        Option.bind (scan_upto 63 COMMA line) (\<lambda>(sensor, s).
        Option.bind (scan_comma s) (\<lambda>s.
        Option.bind (scan_upto 31 COMMA s) (\<lambda>(metric, s).
        Option.bind (scan_comma s) (\<lambda>s.
        Option.bind (scan_f s) (\<lambda>(lo, s).
        Option.bind (scan_comma s) (\<lambda>s.
        Option.bind (scan_f s) (\<lambda>(hi, s).
        Option.bind (scan_comma s) (\<lambda>s.
        Option.bind (scan_upto 15 COMMA s) (\<lambda>(level, s).
        Option.bind (scan_comma s) (\<lambda>s.
        Option.bind (scan_upto 63 NL s) (\<lambda>(action, s).
          Some \<lparr>al_sensor = sensor, al_metric = metric, al_min = lo, al_max = hi, al_level = level, al_action = action\<rparr>))))))))))))"

definition load_rules :: "file_env \<Rightarrow> files \<Rightarrow> alarm_rule list" where
  "load_rules env fs =
     (case f_read env fs ALARM_RULES of None \<Rightarrow> [] | Some text \<Rightarrow> load_until MAX_ALARM_RULES alarm_of_line [] (read_lines 255 text))"

definition is_authorized :: "sensor list \<Rightarrow> string \<Rightarrow> bool" where
  "is_authorized sensors sensor_id = list_ex (\<lambda>s. sn_id s = sensor_id) sensors"

definition buffer_line :: "string \<Rightarrow> string \<Rightarrow> string \<Rightarrow> double \<Rightarrow> string" where
  "buffer_line ts sensor_id metric val = ts @ COMMA # sensor_id @ COMMA # metric @ COMMA # fmt_f 4 val @ '',PENDING''"

definition buffer_reading :: "file_env \<Rightarrow> string \<Rightarrow> string \<Rightarrow> double \<Rightarrow> string \<Rightarrow> files \<Rightarrow> files" where
  "buffer_reading env sensor_id metric val ts fs = f_append_or_skip env fs BUFFER_PATH (buffer_line ts sensor_id metric val @ [NL])"

definition rule_applies :: "string \<Rightarrow> string \<Rightarrow> alarm_rule \<Rightarrow> bool" where
  "rule_applies sensor_id metric r \<longleftrightarrow> (al_sensor r = sensor_id \<or> al_sensor r = ''*'') \<and> al_metric r = metric"

definition alarm_raised :: "double \<Rightarrow> alarm_rule \<Rightarrow> bool" where
  "alarm_raised val r \<longleftrightarrow> d_lt val (al_min r) \<or> d_gt val (al_max r)"

definition alarm_request :: "string \<Rightarrow> string \<Rightarrow> double \<Rightarrow> alarm_rule \<Rightarrow> string \<times> string" where
  "alarm_request sensor_id metric val r = (''IOT_ALARM'', snprintf_buf 512
     (''sensor='' @ sensor_id @ '' metrica='' @ metric @ '' valor='' @ fmt_f 2 val @ '' nivel='' @ al_level r))"

fun check_alarms :: "alarm_rule list \<Rightarrow> string \<Rightarrow> string \<Rightarrow> double \<Rightarrow> (string \<times> string) list" where
  \<comment> \<open>the ledger entries asked for\<close>
  "check_alarms [] sensor_id metric val = []"
| "check_alarms (r # rs) sensor_id metric val =
     (if rule_applies sensor_id metric r then
        (if alarm_raised val r then [alarm_request sensor_id metric val r] else [])
      else []) @ check_alarms rs sensor_id metric val"

definition process_reading ::
  "sensor list \<Rightarrow> alarm_rule list \<Rightarrow> file_env \<Rightarrow> clock \<Rightarrow> string \<Rightarrow> string \<Rightarrow> double \<Rightarrow> files \<Rightarrow> files \<times> (string \<times> string) list" where
  "process_reading sensors rules env ck sensor_id metric val fs =
     (if \<not> is_authorized sensors sensor_id then (fs, [(''IOT_UNAUTHORIZED_SENSOR'', sensor_id)])
      else
        (buffer_reading env sensor_id metric val (now_iso_text ck) fs,
         check_alarms rules sensor_id metric val @
         [(''IOT_READING'', snprintf_buf 256 (''sensor='' @ sensor_id @ '' metrica='' @ metric @ '' valor='' @ fmt_f 2 val))]))"

definition pending_readings :: "file_env \<Rightarrow> files \<Rightarrow> nat" where
  "pending_readings env fs =
     (case f_read env fs BUFFER_PATH of
        None \<Rightarrow> 0 | Some text \<Rightarrow> length (filter (\<lambda>raw. c_strstr ''PENDING'' (cstr raw) \<noteq> None) (read_lines 255 text)))"

definition iot_status :: "sensor list \<Rightarrow> alarm_rule list \<Rightarrow> file_env \<Rightarrow> files \<Rightarrow> string list" where
  "iot_status sensors rules env fs =
     [''=== ChronoOS IoT Engine Status ==='', ''Sensores autorizados: '' @ int_str (int (length sensors)),
      ''Reglas de alarma:     '' @ int_str (int (length rules)), ''Lecturas en buffer:   '' @ int_str (int (pending_readings env fs))]"

definition atof_single :: "string \<Rightarrow> double" where
  \<comment> \<open>\<open>atof\<close> of an argument, passed as a \<open>float\<close>\<close>
  "atof_single s = to_single (fst (c_strtod binary64 s))"

definition iot_main :: "file_env \<Rightarrow> clock \<Rightarrow> string list \<Rightarrow> files \<Rightarrow> int \<times> files \<times> (string \<times> string) list \<times> string list" where
  \<comment> \<open>the exit status, the files, the ledger entries asked for and the status shown\<close>
  "iot_main env ck argv fs =
     (let sensors = load_sensors env fs; rules = load_rules env fs in
      if length argv < 2 then (1, fs, [], [])
      else if argv ! 1 = ''process'' \<and> length argv \<ge> 5 then
        (case process_reading sensors rules env ck (argv ! 2) (argv ! 3) (atof_single (argv ! 4)) fs of
           (fs, requests) \<Rightarrow> (0, fs, requests, []))
      else if argv ! 1 = ''status'' then (0, fs, [], iot_status sensors rules env fs)
      else (0, fs, [], []))"

section \<open>Alarms\<close>

text \<open>The numbers behind the floats, on a line from minus to plus infinity; a NaN is no number.\<close>

fun number_of :: "double \<Rightarrow> (int \<times> rat) option" where
  "number_of (DNum q) = Some (0, q)"
| "number_of DNegZero = Some (0, 0)"
| "number_of (DInf negative) = Some (if negative then -1 else 1, 0)"
| "number_of (DNaN s) = None"

definition below :: "int \<times> rat \<Rightarrow> int \<times> rat \<Rightarrow> bool" where
  "below x y \<longleftrightarrow> fst x < fst y \<or> fst x = fst y \<and> snd x < snd y"

definition outside_range :: "double \<Rightarrow> double \<Rightarrow> double \<Rightarrow> bool" where
  \<comment> \<open>the value is a number below the number \<open>lo\<close> or above the number \<open>hi\<close>\<close>
  "outside_range lo val hi \<longleftrightarrow> (case number_of val of None \<Rightarrow> False
     | Some v \<Rightarrow> (case number_of lo of None \<Rightarrow> False | Some l \<Rightarrow> below v l) \<or> (case number_of hi of None \<Rightarrow> False | Some h \<Rightarrow> below h v))"

lemma d_lt_number: "d_lt x y = (case number_of x of None \<Rightarrow> False | Some a \<Rightarrow> (case number_of y of None \<Rightarrow> False | Some b \<Rightarrow> below a b))"
  by (cases x; cases y) (auto simp: below_def)

lemma alarm_raised_outside: "alarm_raised val r = outside_range (al_min r) val (al_max r)"
  by (auto simp: alarm_raised_def outside_range_def d_gt_def d_lt_number split: option.splits)

lemma check_alarms_filter:
  "check_alarms rules sensor_id metric val =
     map (alarm_request sensor_id metric val) (filter (\<lambda>r. rule_applies sensor_id metric r \<and> alarm_raised val r) rules)"
  by (induction rules) auto

text \<open>C32: Every violated rule raises its alarm and no other does: for an authorised sensor the ledger is asked for one alarm entry for each
  rule of the sensor or of all sensors for its metric of which the value is a number below the minimum or above the maximum, in the order of
  the rules, and then for the reading; for any other sensor for one entry, and nothing is stored. A reading that is not a
  number violates no rule, and a limit that is not a number is never violated.\<close>

theorem iot_alarms_exact:
  "snd (process_reading sensors rules env ck sensor_id metric val fs) =
     (if is_authorized sensors sensor_id then
        map (alarm_request sensor_id metric val)
          (filter (\<lambda>r. al_sensor r \<in> {sensor_id, ''*''} \<and> al_metric r = metric \<and> outside_range (al_min r) val (al_max r)) rules) @
        [(''IOT_READING'', snprintf_buf 256 (''sensor='' @ sensor_id @ '' metrica='' @ metric @ '' valor='' @ fmt_f 2 val))]
      else [(''IOT_UNAUTHORIZED_SENSOR'', sensor_id)]) \<and>
   (is_authorized sensors sensor_id \<or> fst (process_reading sensors rules env ck sensor_id metric val fs) = fs)"
proof -
  have "(\<lambda>r. rule_applies sensor_id metric r \<and> alarm_raised val r) =
      (\<lambda>r. al_sensor r \<in> {sensor_id, ''*''} \<and> al_metric r = metric \<and> outside_range (al_min r) val (al_max r))"
    by (rule ext) (auto simp: rule_applies_def alarm_raised_outside)
  then show ?thesis by (simp add: process_reading_def check_alarms_filter)
qed

text \<open>A sensor that reports not-a-number never raises an alarm, whatever the rules: both comparisons with it are false.\<close>

theorem iot_nan_unnoticed: "check_alarms rules sensor_id metric (DNaN s) = []"
  by (simp add: check_alarms_filter alarm_raised_def filter_False)

section \<open>The buffer\<close>

record stored_reading =
  sr_time :: int
  sr_sensor :: string
  sr_metric :: string
  sr_value :: double

definition stored_line :: "clock \<Rightarrow> stored_reading \<Rightarrow> string" where
  "stored_line ck r = buffer_line (fmt_iso (ck_localtime ck (sr_time r))) (sr_sensor r) (sr_metric r) (sr_value r)"

definition process_all :: "sensor list \<Rightarrow> alarm_rule list \<Rightarrow> file_env \<Rightarrow> clock \<Rightarrow> stored_reading list \<Rightarrow> files \<Rightarrow> files" where
  "process_all sensors rules env ck rs fs =
     fold (\<lambda>r fs. fst (process_reading sensors rules env (ck\<lparr>ck_now := sr_time r\<rparr>) (sr_sensor r) (sr_metric r) (sr_value r) fs)) rs fs"

definition short_reading :: "clock \<Rightarrow> stored_reading \<Rightarrow> bool" where
  \<comment> \<open>the line fits into the reader's buffer and the names hold no line ends\<close>
  "short_reading ck r \<longleftrightarrow> length (stored_line ck r) < 255 \<and> NL \<notin> set (sr_sensor r) \<and> NL \<notin> set (sr_metric r) \<and>
     NUL \<notin> set (sr_sensor r) \<and> NUL \<notin> set (sr_metric r)"

lemma strstr_suffix: "c_strstr p (s @ p @ t) \<noteq> None"
proof (induction s)
  case Nil
  show ?case using strstr_here [of p "p @ t"] by simp
qed simp

lemma stored_line_counts:
  assumes "short_reading ck r"
  shows "c_strstr ''PENDING'' (cstr (stored_line ck r @ [NL])) \<noteq> None" and "NL \<notin> set (stored_line ck r)"
proof -
  have free: "NL \<notin> set (stored_line ck r)" "NUL \<notin> set (stored_line ck r)"
    using assms by (auto simp: stored_line_def buffer_line_def short_reading_def fmt_f_free fmt_iso_free)
  then show "NL \<notin> set (stored_line ck r)" by simp
  have "cstr (stored_line ck r @ [NL]) = stored_line ck r @ [NL]" using free by (intro cstr_no_nul) simp
  moreover have "stored_line ck r @ [NL] = (fmt_iso (ck_localtime ck (sr_time r)) @ COMMA # sr_sensor r @ COMMA # sr_metric r @ COMMA #
      fmt_f 4 (sr_value r) @ '','') @ ''PENDING'' @ [NL]"
    by (simp add: stored_line_def buffer_line_def)
  ultimately show "c_strstr ''PENDING'' (cstr (stored_line ck r @ [NL])) \<noteq> None" by (simp only: strstr_suffix not_False_eq_True)
qed

lemma process_all_buffer:
  "list_all (\<lambda>r. is_authorized sensors (sr_sensor r)) rs \<Longrightarrow> can_write env BUFFER_PATH \<Longrightarrow> fs BUFFER_PATH = Some content \<Longrightarrow>
     process_all sensors rules env ck rs fs BUFFER_PATH = Some (content @ unlines (map (stored_line ck) rs))"
proof (induction rs arbitrary: fs content)
  case (Cons r rs)
  let ?fs = "fst (process_reading sensors rules env (ck\<lparr>ck_now := sr_time r\<rparr>) (sr_sensor r) (sr_metric r) (sr_value r) fs)"
  have "?fs BUFFER_PATH = Some (content @ stored_line ck r @ [NL])"
    using Cons.prems by (simp add: process_reading_def buffer_reading_def f_append_or_skip_def f_append_def stored_line_def now_iso_text_def)
  from Cons.IH [where fs = ?fs, OF _ Cons.prems(2) this] Cons.prems(1) show ?case by (simp add: process_all_def)
qed (simp add: process_all_def)

text \<open>The status counts the readings: after any number of readings of authorised sensors into an empty buffer file, the number of
  pending readings shown is their number.\<close>

theorem iot_pending_counts:
  assumes "list_all (\<lambda>r. is_authorized sensors (sr_sensor r) \<and> short_reading ck r) rs" and "fs BUFFER_PATH = Some []"
    and "can_write env BUFFER_PATH" and "fe_readable env BUFFER_PATH"
  shows "pending_readings env (process_all sensors rules env ck rs fs) = length rs"
proof -
  have "process_all sensors rules env ck rs fs BUFFER_PATH = Some (unlines (map (stored_line ck) rs))"
    using process_all_buffer [of sensors rs env fs "[]" rules ck] assms by (simp add: list_all_iff)
  moreover have "short_lines 255 (map (stored_line ck) rs)"
    using assms(1) stored_line_counts(2) by (auto simp: short_lines_def list_all_iff short_reading_def)
  then have "read_lines 255 (unlines (map (stored_line ck) rs)) = map (\<lambda>r. stored_line ck r @ [NL]) rs"
    by (simp add: read_lines_unlines)
  moreover have "filter (\<lambda>raw. c_strstr ''PENDING'' (cstr raw) \<noteq> None) (map (\<lambda>r. stored_line ck r @ [NL]) rs) = map (\<lambda>r. stored_line ck r @ [NL]) rs"
    using assms(1) stored_line_counts(1) by (intro filter_True) (auto simp: list_all_iff)
  ultimately show ?thesis using assms(4) by (simp add: pending_readings_def f_read_def)
qed

theorem iot_pending_counts_witness:
  "pending_readings open_env (process_all [\<lparr>sn_id = ''t1'', sn_type = ''temp'', sn_location = ''x'', sn_active = True\<rparr>] [] open_env (demo_clock 0)
     [\<lparr>sr_time = 60, sr_sensor = ''t1'', sr_metric = ''temp'', sr_value = DNegZero\<rparr>] ((\<lambda>_. None)(BUFFER_PATH \<mapsto> []))) =
   length [\<lparr>sr_time = 60, sr_sensor = ''t1'', sr_metric = ''temp'', sr_value = DNegZero\<rparr>]"
proof (rule iot_pending_counts)
  have "length (fmt_iso (ck_localtime (demo_clock 0) 60)) \<le> 19"
    using demo_clock_ok [of 60 0] length_fmt_year [of "ck_localtime (demo_clock 0) 60"] by (simp add: clock_ok_def)
  moreover have "length (fmt_f 4 DNegZero) = 7" by (simp add: fmt_fixed_def round_even_def nat_str.simps)
  ultimately have "length (stored_line (demo_clock 0) \<lparr>sr_time = 60, sr_sensor = ''t1'', sr_metric = ''temp'', sr_value = DNegZero\<rparr>) < 255"
    by (simp add: stored_line_def buffer_line_def)
  then show "list_all (\<lambda>r. is_authorized [\<lparr>sn_id = ''t1'', sn_type = ''temp'', sn_location = ''x'', sn_active = True\<rparr>] (sr_sensor r) \<and>
      short_reading (demo_clock 0) r) [\<lparr>sr_time = 60, sr_sensor = ''t1'', sr_metric = ''temp'', sr_value = DNegZero\<rparr>]"
    by (simp add: is_authorized_def short_reading_def)
qed simp_all

end
