(* ===== verification/Antenna.thy ===== *)
theory Antenna
  imports Files CFloat "HOL-Library.Word"
begin

text \<open>
  \<open>core/antenna/chrono_antenna.c\<close>: antennas, their registry and the analysis of their metrics. Doubles are those of \<open>CDouble\<close>,
  read from arguments by \<open>c_strtod\<close>; \<open>unsigned long\<close> is a 64-bit word. The C standard leaves open
  whether a stream opened for appending is first positioned at the beginning or at the end of the file:
  \<open>at_end\<close> says which.
\<close>

record antenna =
  an_id :: string
  an_latitude :: double
  an_longitude :: double
  an_technology :: string
  an_owner :: string
  an_status :: string
  an_authorized :: int
  an_signal :: double
  an_noise :: double
  an_latency :: double
  an_loss :: double
  an_temperature :: double
  an_uptime :: "64 word"

definition ANTENNA_ID_MAX :: nat where "ANTENNA_ID_MAX = 64"
definition ANTENNA_TECH_MAX :: nat where "ANTENNA_TECH_MAX = 32"
definition ANTENNA_OWNER_MAX :: nat where "ANTENNA_OWNER_MAX = 128"

section \<open>Validation\<close>

definition safe_text :: "string \<Rightarrow> nat \<Rightarrow> bool" where
  "safe_text s size_of \<longleftrightarrow> s \<noteq> [] \<and> \<not> length s \<ge> size_of \<and> COMMA \<notin> set s"

definition antenna_validate :: "antenna option \<Rightarrow> bool" where
  "antenna_validate a =
     (case a of
        None \<Rightarrow> False
      | Some a \<Rightarrow>
          if \<not> safe_text (an_id a) ANTENNA_ID_MAX then False
          else if \<not> safe_text (an_technology a) ANTENNA_TECH_MAX then False
          else if \<not> safe_text (an_owner a) ANTENNA_OWNER_MAX then False
          else if d_lt (an_latitude a) (DNum (-90)) \<or> d_gt (an_latitude a) (DNum 90) then False
          else if d_lt (an_longitude a) (DNum (-180)) \<or> d_gt (an_longitude a) (DNum 180) then False
          else if an_authorized a \<noteq> 0 \<and> an_authorized a \<noteq> 1 then False
          else True)"

section \<open>The registry\<close>

definition ANTENNA_REGISTRY :: string where "ANTENNA_REGISTRY = ''var/antenna/registry.csv''"

definition antenna_header :: string where
  "antenna_header = ''id,latitude,longitude,technology,owner,status,authorized_access,signal,noise,latency_ms,packet_loss,temperature_c,uptime_seconds''"

definition antenna_fields :: "antenna \<Rightarrow> string list" where
  "antenna_fields a =
     [an_id a, fmt_f 8 (an_latitude a), fmt_f 8 (an_longitude a), an_technology a, an_owner a, an_status a, int_str (an_authorized a),
      fmt_f 3 (an_signal a), fmt_f 3 (an_noise a), fmt_f 3 (an_latency a), fmt_f 5 (an_loss a), fmt_f 2 (an_temperature a),
      nat_str (unat (an_uptime a))]"

definition antenna_register :: "file_env \<Rightarrow> bool \<Rightarrow> string option \<Rightarrow> antenna option \<Rightarrow> files \<Rightarrow> int \<times> files" where
  "antenna_register env at_end registry a fs =
     (case (registry, a) of
        (Some path, Some an) \<Rightarrow>
          if \<not> antenna_validate a then (-1, fs)
          else
            let old = (case fs path of None \<Rightarrow> [] | Some c \<Rightarrow> c);
                position = (if at_end then length old else 0);
                header = (if position = 0 then antenna_header @ [NL] else []) in
            (case f_append env fs path (header @ join COMMA (antenna_fields an) @ [NL]) of None \<Rightarrow> (-1, fs) | Some fs' \<Rightarrow> (0, fs'))
      | _ \<Rightarrow> (-1, fs))"

section \<open>Analysis\<close>

definition warning_if :: "bool \<Rightarrow> string \<Rightarrow> string list" where
  "warning_if b w = (if b then [''WARNING: '' @ w] else [])"

definition radio_warnings :: "antenna \<Rightarrow> string list" where
  "radio_warnings a =
     warning_if (d_lt (an_signal a) (DNum (-110))) ''weak signal metric'' @ warning_if (d_gt (an_noise a) (DNum (-80))) ''elevated noise metric''"

definition network_warnings :: "antenna \<Rightarrow> string list" where
  "network_warnings a =
     warning_if (d_gt (an_latency a) (DNum 100)) ''high latency'' @ warning_if (d_gt (an_loss a) (DNum 2)) ''packet loss elevated''"

definition hardware_warnings :: "antenna \<Rightarrow> string list" where
  "hardware_warnings a = warning_if (d_gt (an_temperature a) (DNum 80)) ''high temperature''"

definition antenna_analyze :: "antenna option \<Rightarrow> int \<times> string list" where
  \<comment> \<open>the result and the lines printed, without the empty ones\<close>
  "antenna_analyze a =
     (case a of
        None \<Rightarrow> (-1, [])
      | Some an \<Rightarrow>
          if \<not> antenna_validate a then (-1, [])
          else
            let warnings = int (length (radio_warnings an @ network_warnings an @ hardware_warnings an)) in
            (warnings,
             [''=== CHRONO ANTENNA INTELLIGENCE ==='', ''ID:           '' @ an_id an, ''Technology:   '' @ an_technology an,
              ''Owner:        '' @ an_owner an, ''Coordinates:  '' @ fmt_f 6 (an_latitude an) @ '', '' @ fmt_f 6 (an_longitude an),
              ''Status:       '' @ an_status an,
              ''Access:       '' @ (if an_authorized an \<noteq> 0 then ''AUTHORIZED'' else ''PUBLIC/NO MANAGEMENT ACCESS''),
              ''--- RADIO ---'', ''Signal:       '' @ fmt_f 2 (an_signal an), ''Noise:        '' @ fmt_f 2 (an_noise an)] @ radio_warnings an @
             [''--- NETWORK ---'', ''Latency:      '' @ fmt_f 3 (an_latency an) @ '' ms'', ''Packet loss:  '' @ fmt_f 5 (an_loss an) @ '' %''] @
             network_warnings an @
             [''--- HARDWARE ---'', ''Temperature:  '' @ fmt_f 2 (an_temperature an) @ '' C'',
              ''Uptime:       '' @ nat_str (unat (an_uptime an)) @ '' seconds''] @ hardware_warnings an @
             ''--- SECURITY BOUNDARY ---'' #
             (if an_authorized an \<noteq> 0 then [''Management analysis: AUTHORIZED'', ''External access:     NOT performed by CAI'']
              else [''Management analysis: NOT AUTHORIZED'', ''Analysis limited to supplied/public data.'']) @
             ''--- RESULT ---'' #
             (if warnings = 0 then [''STATUS: OPERATIONAL''] else [''STATUS: ATTENTION REQUIRED'', ''Warnings: '' @ int_str warnings])))"

definition antenna_print :: "antenna option \<Rightarrow> string list" where
  "antenna_print a =
     (case a of
        None \<Rightarrow> []
      | Some a \<Rightarrow> [an_id a @ '' | '' @ fmt_f 6 (an_latitude a) @ COMMA # fmt_f 6 (an_longitude a) @ '' | '' @ an_technology a @ '' | '' @
          an_owner a @ '' | '' @ an_status a @ '' | access='' @ int_str (an_authorized a)])"

section \<open>The program\<close>

definition antenna_usage :: "string \<Rightarrow> string list" where
  "antenna_usage program =
     [''Chrono Antenna Intelligence'', ''Usage:'', ''  '' @ program @ '' --help'', ''  '' @ program @ '' --self-test'',
      ''  '' @ program @ '' --register ID LAT LON TECH OWNER [AUTHORIZED]'',
      ''  '' @ program @ '' --analyze ID LAT LON TECH OWNER SIGNAL NOISE LATENCY LOSS TEMP UPTIME [AUTHORIZED]'']"

definition parse_double :: "string \<Rightarrow> double option" where
  "parse_double s =
     (case c_strtod binary64 s of (v, end_ptr, erange) \<Rightarrow> if erange \<or> end_ptr = s \<or> end_ptr \<noteq> [] then None else Some v)"

definition parse_ulong :: "string \<Rightarrow> 64 word option" where
  \<comment> \<open>\<open>strtoul\<close>: out of range sets \<open>errno\<close>, a minus sign negates modulo \<open>2 ^ 64\<close>\<close>
  "parse_ulong s =
     (let (sg, t) = sign_of (dropWhile c_isspace s); ds = takeWhile c_isdigit t in
      if ds = [] then None
      else if digits_val ds \<ge> 2 ^ 64 then None
      else if drop (length ds) t \<noteq> [] then None
      else Some (word_of_int (sg * int (digits_val ds))))"

definition zero_antenna :: antenna where
  \<comment> \<open>\<open>memset(&a, 0, sizeof(a))\<close>\<close>
  "zero_antenna =
     \<lparr>an_id = [], an_latitude = DNum 0, an_longitude = DNum 0, an_technology = [], an_owner = [], an_status = [], an_authorized = 0,
      an_signal = DNum 0, an_noise = DNum 0, an_latency = DNum 0, an_loss = DNum 0, an_temperature = DNum 0, an_uptime = 0\<rparr>"

definition self_test_antenna :: antenna where
  "self_test_antenna =
     \<lparr>an_id = ''CAI-SELFTEST'', an_latitude = d_of (4711 / 1000), an_longitude = d_of (- 74072 / 1000), an_technology = ''TEST'',
      an_owner = ''CHRONO'', an_status = ''ONLINE'', an_authorized = 1, an_signal = d_of (- of_nat 70), an_noise = d_of (- of_nat 100),
      an_latency = d_of (of_nat 10), an_loss = d_of (1 / 100), an_temperature = d_of (of_nat 40), an_uptime = 3600\<rparr>"

definition named_antenna :: "string \<Rightarrow> string \<Rightarrow> string \<Rightarrow> string \<Rightarrow> antenna" where
  \<comment> \<open>the \<open>strncpy\<close>s into the zeroed record\<close>
  "named_antenna ident technology owner status = zero_antenna
     \<lparr>an_id := take (ANTENNA_ID_MAX - 1) ident, an_technology := take (ANTENNA_TECH_MAX - 1) technology,
      an_owner := take (ANTENNA_OWNER_MAX - 1) owner, an_status := status\<rparr>"

definition register_args :: "string list \<Rightarrow> antenna option" where
  \<comment> \<open>the antenna of the arguments of \<open>--register\<close>; \<open>None\<close> for invalid coordinates\<close>
  "register_args argv =
     (case (parse_double (argv ! 3), parse_double (argv ! 4)) of
        (Some lat, Some lon) \<Rightarrow> Some ((named_antenna (argv ! 2) (argv ! 5) (argv ! 6) ''REGISTERED'')
          \<lparr>an_latitude := lat, an_longitude := lon, an_authorized := (if length argv = 8 \<and> c_atoi (argv ! 7) \<noteq> 0 then 1 else 0)\<rparr>)
      | _ \<Rightarrow> None)"

definition analyze_args :: "string list \<Rightarrow> antenna option" where
  "analyze_args argv =
     (case (parse_double (argv ! 3), parse_double (argv ! 4), parse_double (argv ! 7), parse_double (argv ! 8), parse_double (argv ! 9),
            parse_double (argv ! 10), parse_double (argv ! 11), parse_ulong (argv ! 12)) of
        (Some lat, Some lon, Some signal, Some noise, Some latency, Some loss, Some temp, Some uptime) \<Rightarrow>
          Some ((named_antenna (argv ! 2) (argv ! 5) (argv ! 6) ''ONLINE'')
            \<lparr>an_latitude := lat, an_longitude := lon, an_signal := signal, an_noise := noise, an_latency := latency, an_loss := loss,
             an_temperature := temp, an_uptime := uptime, an_authorized := (if length argv = 14 \<and> c_atoi (argv ! 13) \<noteq> 0 then 1 else 0)\<rparr>)
      | _ \<Rightarrow> None)"

definition antenna_main :: "file_env \<Rightarrow> bool \<Rightarrow> string list \<Rightarrow> files \<Rightarrow> int \<times> string list \<times> files" where
  \<comment> \<open>the exit status, what is printed (on both streams) and the files\<close>
  "antenna_main env at_end argv fs =
     (let program = (case argv of [] \<Rightarrow> [] | p # _ \<Rightarrow> p) in
      if length argv < 2 \<or> argv ! 1 = ''--help'' then (if length argv < 2 then 1 else 0, antenna_usage program, fs)
      else if argv ! 1 = ''--self-test'' then
        (if \<not> antenna_validate (Some self_test_antenna) then (1, [''[FAIL] antenna validation''], fs)
         else (0, ''[OK] antenna validation'' # snd (antenna_analyze (Some self_test_antenna)), fs))
      else if argv ! 1 = ''--register'' then
        (if length argv < 7 \<or> length argv > 8 then (1, antenna_usage program, fs)
         else case register_args argv of
           None \<Rightarrow> (1, [''[FAIL] invalid coordinates''], fs)
         | Some a \<Rightarrow>
             if \<not> antenna_validate (Some a) then (1, [''[FAIL] invalid antenna''], fs)
             else (case antenna_register env at_end (Some ANTENNA_REGISTRY) (Some a) fs of (rc, fs') \<Rightarrow>
               if rc \<noteq> 0 then (1, [''[FAIL] registry write''], fs') else (0, [''[OK] antenna registered: '' @ an_id a], fs')))
      else if argv ! 1 = ''--analyze'' then
        (if length argv < 13 \<or> length argv > 14 then (1, antenna_usage program, fs)
         else case analyze_args argv of
           None \<Rightarrow> (1, [''[FAIL] invalid metric''], fs)
         | Some a \<Rightarrow> (case antenna_analyze (Some a) of (r, out) \<Rightarrow> (if r < 0 then 1 else 0, out, fs)))
      else (1, antenna_usage program, fs))"

section \<open>What a registration writes\<close>

lemma antenna_fields_free:
  assumes "antenna_validate (Some a)" and "COMMA \<notin> set (an_status a)"
  shows "\<forall>f \<in> set (antenna_fields a). COMMA \<notin> set f"
proof -
  have i: "COMMA \<notin> set (int_str i)" for i by (simp add: int_str_def nat_str_free c_isdigit_def code_def)
  have n: "COMMA \<notin> set (nat_str k)" for k by (simp add: nat_str_free c_isdigit_def code_def)
  show ?thesis using assms by (auto simp: antenna_fields_def antenna_validate_def safe_text_def i n fmt_f_free split: if_splits)
qed

lemma antenna_register_ok:
  assumes "antenna_validate (Some a)" and "can_write env path"
  shows "antenna_register env at_end (Some path) (Some a) fs =
    (0, fs(path \<mapsto> (case fs path of None \<Rightarrow> [] | Some c \<Rightarrow> c) @
       (if at_end \<and> fs path \<notin> {None, Some []} then [] else antenna_header @ [NL]) @ join COMMA (antenna_fields a) @ [NL]))"
  using assms by (auto simp: antenna_register_def f_append_def Let_def split: option.splits)

text \<open>A successful registration adds exactly one record: when the program exits with 0 on \<open>--register\<close>, the antenna of the
  arguments is valid, only the registry has changed, and what is appended to it, on a disk with room, is, after an optional header, one record that
  splits at its commas into the thirteen values in the order of the header; on every other exit no file has changed.\<close>

theorem antenna_register_exact:
  assumes "antenna_main env at_end (program # ''--register'' # args) fs = (rc, out, fs')" and "fe_room env ANTENNA_REGISTRY = None"
  shows "(rc = 0 \<and> (\<exists>a header. register_args (program # ''--register'' # args) = Some a \<and> antenna_validate (Some a) \<and>
       header \<in> {[], antenna_header @ [NL]} \<and>
       fs' = fs(ANTENNA_REGISTRY \<mapsto> (case fs ANTENNA_REGISTRY of None \<Rightarrow> [] | Some c \<Rightarrow> c) @ header @ join COMMA (antenna_fields a) @ [NL]) \<and>
       split_on COMMA (join COMMA (antenna_fields a)) = antenna_fields a \<and> length (antenna_fields a) = 13)) \<or>
    (rc = 1 \<and> fs' = fs)"
proof (cases "register_args (program # ''--register'' # args)")
  case None
  with assms show ?thesis by (auto simp: antenna_main_def split: if_splits)
next
  case (Some a)
  show ?thesis
  proof (cases "(length args = 5 \<or> length args = 6) \<and> antenna_validate (Some a) \<and> can_write env ANTENNA_REGISTRY")
    case True
    have "an_status a = ''REGISTERED''" using Some by (auto simp: register_args_def named_antenna_def zero_antenna_def split: option.splits)
    then have "COMMA \<notin> set (an_status a)" by simp
    then have sp: "split_on COMMA (join COMMA (antenna_fields a)) = antenna_fields a"
      using antenna_fields_free [of a] True by (intro split_on_join) (auto simp: antenna_fields_def)
    have len: "length (antenna_fields a) = 13" by (simp add: antenna_fields_def)
    define header where "header = (if at_end \<and> fs ANTENNA_REGISTRY \<notin> {None, Some []} then [] else antenna_header @ [NL])"
    have "antenna_main env at_end (program # ''--register'' # args) fs = (0, [''[OK] antenna registered: '' @ an_id a],
        fs(ANTENNA_REGISTRY \<mapsto> (case fs ANTENNA_REGISTRY of None \<Rightarrow> [] | Some c \<Rightarrow> c) @ header @ join COMMA (antenna_fields a) @ [NL]))"
      using True Some by (auto simp: antenna_main_def antenna_register_ok header_def)
    with assms have "rc = 0 \<and> fs' = fs(ANTENNA_REGISTRY \<mapsto> (case fs ANTENNA_REGISTRY of None \<Rightarrow> [] | Some c \<Rightarrow> c) @ header @ join COMMA (antenna_fields a) @ [NL])"
      by simp
    moreover have "header \<in> {[], antenna_header @ [NL]}" by (simp add: header_def)
    ultimately show ?thesis using Some True sp len by blast
  next
    case False
    with assms Some show ?thesis
      by (auto simp: antenna_main_def antenna_register_def f_append_def can_write_def Let_def split: if_splits option.splits)
  qed
qed

theorem antenna_register_exact_witness:
  "\<exists>a. register_args [''chrono-antenna'', ''--register'', ''A1'', ''4'', ''74'', ''LTE'', ''OP''] = Some a \<and>
     antenna_main open_env True [''chrono-antenna'', ''--register'', ''A1'', ''4'', ''74'', ''LTE'', ''OP''] (\<lambda>_. None) =
       (0, [''[OK] antenna registered: A1''], (\<lambda>_. None)(ANTENNA_REGISTRY \<mapsto> antenna_header @ [NL] @ join COMMA (antenna_fields a) @ [NL]))"
proof -
  let ?argv = "[''chrono-antenna'', ''--register'', ''A1'', ''4'', ''74'', ''LTE'', ''OP'']"
  have dbl: "parse_double (nat_str n) = Some (DNum (of_nat n))" if "0 < n" "n < 100" for n
  proof -
    have "range_error binary64 (of_nat n) = False"
      using that round_mag_nat [of n binary64] fl_nat [of n binary64 False] by (auto simp: range_error_def fl_def split: if_splits)
    then show ?thesis using that strtod_nat_exact [of n binary64] nat_str_nonempty [of n, symmetric] by (simp add: parse_double_def)
  qed
  have "nat_str 4 = ''4''" "nat_str 74 = ''74''" by (simp_all add: nat_str.simps digit_char_def char_of_def bit_iff_odd)
  with dbl [of 4] dbl [of 74] have p: "parse_double ''4'' = Some (DNum 4)" "parse_double ''74'' = Some (DNum 74)" by simp_all
  define a where "a = (named_antenna ''A1'' ''LTE'' ''OP'' ''REGISTERED'')\<lparr>an_latitude := DNum 4, an_longitude := DNum 74, an_authorized := 0\<rparr>"
  have a: "register_args ?argv = Some a" by (simp add: register_args_def p a_def)
  have v: "antenna_validate (Some a)"
    by (simp add: a_def antenna_validate_def safe_text_def named_antenna_def zero_antenna_def ANTENNA_ID_MAX_def ANTENNA_TECH_MAX_def ANTENNA_OWNER_MAX_def d_gt_def)
  have ident: "an_id a = ''A1''" by (simp add: a_def named_antenna_def zero_antenna_def ANTENNA_ID_MAX_def)
  have "antenna_main open_env True ?argv (\<lambda>_. None) =
       (0, [''[OK] antenna registered: A1''], (\<lambda>_. None)(ANTENNA_REGISTRY \<mapsto> antenna_header @ [NL] @ join COMMA (antenna_fields a) @ [NL]))"
    using a v ident by (simp add: antenna_main_def antenna_register_ok)
  with antenna_register_exact [OF this] a show ?thesis by blast
qed

section \<open>The header of the registry\<close>

definition register_antennas :: "file_env \<Rightarrow> bool \<Rightarrow> string \<Rightarrow> antenna list \<Rightarrow> files \<Rightarrow> files" where
  "register_antennas env at_end path as fs = fold (\<lambda>a fs. snd (antenna_register env at_end (Some path) (Some a) fs)) as fs"

definition antenna_record :: "antenna \<Rightarrow> string" where
  "antenna_record a = join COMMA (antenna_fields a) @ [NL]"

lemma register_antennas_at_end:
  "list_all (\<lambda>a. antenna_validate (Some a)) as \<Longrightarrow> can_write env path \<Longrightarrow> fs path = Some content \<Longrightarrow> content \<noteq> [] \<Longrightarrow>
     register_antennas env True path as fs path = Some (content @ concat (map antenna_record as))"
proof (induction as arbitrary: fs content)
  case (Cons a as)
  let ?fs = "snd (antenna_register env True (Some path) (Some a) fs)"
  have "?fs path = Some (content @ antenna_record a)" using Cons.prems by (simp add: antenna_register_ok antenna_record_def)
  from Cons.IH [where fs = ?fs, OF _ Cons.prems(2) this] Cons.prems show ?case by (simp add: register_antennas_def)
qed (simp add: register_antennas_def)

lemma register_antennas_at_start:
  "list_all (\<lambda>a. antenna_validate (Some a)) as \<Longrightarrow> can_write env path \<Longrightarrow> fs path = Some content \<Longrightarrow>
     register_antennas env False path as fs path = Some (content @ concat (map (\<lambda>a. antenna_header @ [NL] @ antenna_record a) as))"
proof (induction as arbitrary: fs content)
  case (Cons a as)
  let ?fs = "snd (antenna_register env False (Some path) (Some a) fs)"
  have "?fs path = Some (content @ antenna_header @ [NL] @ antenna_record a)"
    using Cons.prems by (simp add: antenna_register_ok antenna_record_def)
  from Cons.IH [where fs = ?fs, OF _ Cons.prems(2) this] Cons.prems show ?case by (simp add: register_antennas_def)
qed (simp add: register_antennas_def)

text \<open>Whether the registry is a table depends on the C library: with streams positioned at the end of the file, any number of
  registrations into an empty registry gives the header and one line each; with streams positioned at the beginning,
  which the C standard equally allows, the header is written again before every record.\<close>

theorem antenna_header_repeats:
  assumes "list_all (\<lambda>a. antenna_validate (Some a)) (a # as)" and "can_write env path" and "fs path = Some []"
  shows "register_antennas env True path (a # as) fs path = Some (antenna_header @ [NL] @ concat (map antenna_record (a # as))) \<and>
    register_antennas env False path (a # as) fs path = Some (concat (map (\<lambda>a. antenna_header @ [NL] @ antenna_record a) (a # as)))"
proof -
  let ?fs = "snd (antenna_register env True (Some path) (Some a) fs)"
  have "?fs path = Some (antenna_header @ [NL] @ antenna_record a)"
    using assms by (simp add: antenna_register_ok antenna_record_def)
  from register_antennas_at_end [of as env path ?fs, OF _ assms(2) this] register_antennas_at_start [of "a # as" env path fs "[]"] assms
  show ?thesis by (simp add: register_antennas_def)
qed

section \<open>What the analysis says\<close>

text \<open>The result of an analysis is between -1 and 5; it is -1 exactly when the antenna is refused, in which case nothing is printed,
  and otherwise the number of the five limits that the metrics exceed, with the verdict printed last or before
  the number.\<close>

theorem antenna_analyze_bounds:
  "(case antenna_analyze (Some a) of (r, out) \<Rightarrow>
     -1 \<le> r \<and> r \<le> 5 \<and> ((r = -1) = (\<not> antenna_validate (Some a))) \<and> ((r = -1) = (out = [])) \<and>
     (r = -1 \<or> r = int (length (filter (\<lambda>b. b) [d_lt (an_signal a) (DNum (-110)), d_gt (an_noise a) (DNum (-80)),
        d_gt (an_latency a) (DNum 100), d_gt (an_loss a) (DNum 2), d_gt (an_temperature a) (DNum 80)]))) \<and>
     ((''STATUS: OPERATIONAL'' = last out \<and> r \<noteq> -1) = (r = 0)))"
proof (cases "antenna_validate (Some a)")
  case True
  let ?w = "radio_warnings a @ network_warnings a @ hardware_warnings a"
  have len: "length ?w = length (filter (\<lambda>b. b) [d_lt (an_signal a) (DNum (-110)), d_gt (an_noise a) (DNum (-80)),
        d_gt (an_latency a) (DNum 100), d_gt (an_loss a) (DNum 2), d_gt (an_temperature a) (DNum 80)])"
    by (simp add: radio_warnings_def network_warnings_def hardware_warnings_def warning_if_def)
  then have "length ?w \<le> 5" by (simp split: if_splits)
  with True len show ?thesis
    by (simp add: antenna_analyze_def Let_def del: length_append filter.simps)
next
  case False
  then show ?thesis by (simp add: antenna_analyze_def)
qed

text \<open>A coordinate that is not a number passes the validation: both comparisons with it are false, so that such an antenna is
  registered, with \<open>nan\<close> in its record.\<close>

theorem antenna_nan_registered:
  "antenna_validate (Some (a\<lparr>an_latitude := DNaN s, an_longitude := DNaN t\<rparr>)) =
     antenna_validate (Some (a\<lparr>an_latitude := DNum 0, an_longitude := DNum 0\<rparr>)) \<and>
   parse_double ''nan'' = Some (DNaN False) \<and> antenna_fields (a\<lparr>an_latitude := DNaN False\<rparr>) ! 1 = ''nan''"
  by (simp add: antenna_validate_def safe_text_def d_gt_def parse_double_def strtod_words antenna_fields_def)

text \<open>The self test passes and finds an operational antenna, although the constants are rounded.\<close>

theorem antenna_self_test:
  "antenna_validate (Some self_test_antenna) \<and> fst (antenna_analyze (Some self_test_antenna)) = 0 \<and>
   fst (antenna_main env at_end [program, ''--self-test''] fs) = 0"
proof -
  have lat: "\<not> d_gt (d_of (4711 / 1000)) (DNum 90)" "\<not> d_lt (d_of (4711 / 1000)) (DNum (- 90))"
    using d_of_near [of "4711 / 1000" 90] by simp_all
  have lon: "\<not> d_gt (d_of (- 74072 / 1000)) (DNum 180)" "\<not> d_lt (d_of (- 74072 / 1000)) (DNum (- 180))"
    using d_of_near [of "- 74072 / 1000" 180] by simp_all
  have loss: "\<not> d_gt (d_of (1 / 100)) (DNum 2)"
    using d_of_near(1) [of "1 / 100" 2] by simp
  have nums: "d_of (- of_nat 70) = DNum (-70)" "d_of (- of_nat 100) = DNum (-100)" "d_of (of_nat 10) = DNum 10" "d_of (of_nat 40) = DNum 40"
    using d_of_nat [of 70] d_of_nat [of 100] d_of_nat [of 10] d_of_nat [of 40] by simp_all
  have v: "antenna_validate (Some self_test_antenna)"
    using lat lon by (simp add: antenna_validate_def self_test_antenna_def safe_text_def ANTENNA_ID_MAX_def ANTENNA_TECH_MAX_def ANTENNA_OWNER_MAX_def)
  have "radio_warnings self_test_antenna = []" "network_warnings self_test_antenna = []" "hardware_warnings self_test_antenna = []"
    using loss nums by (simp_all add: radio_warnings_def network_warnings_def hardware_warnings_def warning_if_def self_test_antenna_def d_gt_def)
  then have "fst (antenna_analyze (Some self_test_antenna)) = 0" using v by (simp add: antenna_analyze_def Let_def)
  with v show ?thesis by (simp add: antenna_main_def)
qed

end
