(* ===== verification/VolatileShield.thy ===== *)
theory VolatileShield
  imports Main
begin

text \<open>
  \<open>core/engine/chrono_volatile_shield.c\<close>: a registry of sensitive buffers that are overwritten before they are freed. Memory is a map
  from the address of a block to its bytes; what a freed block held stays visible in \<open>vs_freed\<close>. The
  allocator, \<open>mlock\<close> and \<open>rand\<close> are parameters.
\<close>

definition MAX_BUFFERS :: nat where "MAX_BUFFERS = 64"

record shield_env =
  ve_malloc :: "nat list \<Rightarrow> nat \<Rightarrow> (nat \<times> nat list) option"
    \<comment> \<open>given the addresses in use and the size: the address and the first content\<close>
  ve_mlock :: "nat \<Rightarrow> bool"
  ve_rand :: "nat \<Rightarrow> nat"

record sensitive_buffer =
  sb_ptr :: nat
  sb_size :: nat

record shield =
  vs_registry :: "sensitive_buffer list"
  vs_blocks :: "(nat \<times> nat list) list"          \<comment> \<open>the live blocks, by address\<close>
  vs_freed :: "(nat \<times> nat list) list"
  vs_locked :: "nat list"
  vs_calls :: nat                                \<comment> \<open>calls of \<open>rand\<close>\<close>

definition shield_init :: shield where
  "shield_init = \<lparr>vs_registry = [], vs_blocks = [], vs_freed = [], vs_locked = [], vs_calls = 0\<rparr>"

fun set_block :: "nat \<Rightarrow> nat list \<Rightarrow> (nat \<times> nat list) list \<Rightarrow> (nat \<times> nat list) list" where
  "set_block p bs [] = []"
| "set_block p bs ((q, cs) # rest) = (if q = p then (q, bs) # rest else (q, cs) # set_block p bs rest)"

definition c_memset :: "nat \<Rightarrow> nat \<Rightarrow> nat \<Rightarrow> shield \<Rightarrow> shield" where
  \<comment> \<open>\<open>memset(p, v, n)\<close> inside the block at \<open>p\<close>\<close>
  "c_memset p v n st =
     (case map_of (vs_blocks st) p of
        None \<Rightarrow> st
      | Some bs \<Rightarrow> st\<lparr>vs_blocks := set_block p (replicate n v @ drop n bs) (vs_blocks st)\<rparr>)"

definition alloc_sensitive :: "shield_env \<Rightarrow> nat \<Rightarrow> shield \<Rightarrow> nat option \<times> shield" where
  "alloc_sensitive env sz st =
     (if length (vs_registry st) \<ge> MAX_BUFFERS then (None, st)
      else case ve_malloc env (map fst (vs_blocks st)) sz of
        None \<Rightarrow> (None, st)
      | Some (ptr, content) \<Rightarrow>
          (Some ptr, st
             \<lparr>vs_blocks := (ptr, content) # vs_blocks st, vs_locked := (if ve_mlock env ptr then [ptr] else []) @ vs_locked st,
              vs_registry := vs_registry st @ [\<lparr>sb_ptr = ptr, sb_size = sz\<rparr>]\<rparr>))"

definition random_pass :: "shield_env \<Rightarrow> nat \<Rightarrow> nat \<Rightarrow> shield \<Rightarrow> shield" where
  \<comment> \<open>\<open>for (j = 0; j < sz; j++) p[j] = (unsigned char) rand()\<close>\<close>
  "random_pass env p n st =
     (case map_of (vs_blocks st) p of
        None \<Rightarrow> st
      | Some bs \<Rightarrow> st\<lparr>vs_blocks := set_block p (map (\<lambda>j. ve_rand env (vs_calls st + j) mod 256) [0..<n] @ drop n bs) (vs_blocks st),
          vs_calls := vs_calls st + n\<rparr>)"

definition c_free :: "nat \<Rightarrow> shield \<Rightarrow> shield" where
  "c_free p st =
     (case map_of (vs_blocks st) p of
        None \<Rightarrow> st
      | Some bs \<Rightarrow> st\<lparr>vs_blocks := filter (\<lambda>b. fst b \<noteq> p) (vs_blocks st), vs_freed := vs_freed st @ [(p, bs)]\<rparr>)"

definition wipe_buffer :: "shield_env \<Rightarrow> sensitive_buffer \<Rightarrow> shield \<Rightarrow> shield" where
  "wipe_buffer env b st =
     (let p = sb_ptr b; sz = sb_size b;
          st = c_memset p 255 sz st;
          st = c_memset p 0 sz st;
          st = random_pass env p sz st;
          st = st\<lparr>vs_locked := removeAll p (vs_locked st)\<rparr> in
      c_free p st)"

definition wipe_total :: "shield \<Rightarrow> nat" where
  "wipe_total st = foldl (\<lambda>t b. t + sb_size b) 0 (vs_registry st)"

definition wipe_all :: "shield_env \<Rightarrow> shield \<Rightarrow> shield" where
  "wipe_all env st = (fold (wipe_buffer env) (vs_registry st) st)\<lparr>vs_registry := []\<rparr>"

definition shield_signal :: "shield_env \<Rightarrow> shield \<Rightarrow> int \<times> shield" where
  \<comment> \<open>the handler of \<open>SIGINT\<close> and \<open>SIGTERM\<close>: the exit status and the memory left\<close>
  "shield_signal env st = (0, wipe_all env st)"

definition shield_start :: "shield_env \<Rightarrow> shield" where
  \<comment> \<open>\<open>main\<close> up to the loop of \<open>pause()\<close>\<close>
  "shield_start env =
     (case alloc_sensitive env (1024 * 1024) shield_init of
        (None, st) \<Rightarrow> st
      | (Some p, st) \<Rightarrow> c_memset p 171 (1024 * 1024) st)"

section \<open>The state of the registry\<close>

text \<open>What an allocator promises: a fresh address and as many bytes as asked for.\<close>

definition malloc_ok :: "shield_env \<Rightarrow> bool" where
  "malloc_ok env \<longleftrightarrow> (\<forall>used n p bs. ve_malloc env used n = Some (p, bs) \<longrightarrow> p \<notin> set used \<and> length bs = n)"

definition shield_ok :: "shield \<Rightarrow> bool" where
  "shield_ok st \<longleftrightarrow>
     length (vs_registry st) \<le> MAX_BUFFERS \<and> distinct (map fst (vs_blocks st)) \<and> distinct (map sb_ptr (vs_registry st)) \<and>
     list_all (\<lambda>b. \<exists>bs. map_of (vs_blocks st) (sb_ptr b) = Some bs \<and> length bs = sb_size b) (vs_registry st)"

declare map_of_eq_Some_iff [simp del] Some_eq_map_of_iff [simp del]

lemma set_block_map_of: "map_of (set_block p bs xs) q = (if q = p \<and> map_of xs p \<noteq> None then Some bs else map_of xs q)"
  by (induction p bs xs rule: set_block.induct) auto

lemma set_block_addrs [simp]: "map fst (set_block p bs xs) = map fst xs"
  by (induction p bs xs rule: set_block.induct) auto

lemma set_block_fst [simp]: "fst ` set (set_block p bs xs) = fst ` set xs"
  by (metis list.set_map set_block_addrs)

lemma set_block_twice [simp]: "set_block p cs (set_block p bs xs) = set_block p cs xs"
  by (induction p bs xs rule: set_block.induct) auto

lemma filter_set_block [simp]: "distinct (map fst xs) \<Longrightarrow> filter (\<lambda>b. fst b \<noteq> p) (set_block p bs xs) = filter (\<lambda>b. fst b \<noteq> p) xs"
  by (induction p bs xs rule: set_block.induct) auto

lemma shield_init_ok: "shield_ok shield_init"
  by (simp add: shield_ok_def shield_init_def)

lemma alloc_ok:
  assumes "shield_ok st" and "malloc_ok env" shows "shield_ok (snd (alloc_sensitive env sz st))"
proof (cases "ve_malloc env (map fst (vs_blocks st)) sz")
  case (Some r)
  obtain p bs where r: "r = (p, bs)" by (cases r)
  from assms(2) Some r have fresh: "p \<notin> set (map fst (vs_blocks st))" "length bs = sz" unfolding malloc_ok_def by blast+
  then have none: "map_of (vs_blocks st) p = None" by (simp add: map_of_eq_None_iff)
  then have ne: "sb_ptr b \<noteq> p" if "b \<in> set (vs_registry st)" for b
    using assms(1) that by (fastforce simp: shield_ok_def list_all_iff)
  with assms(1) Some r fresh show ?thesis
    by (auto simp: alloc_sensitive_def shield_ok_def list_all_iff MAX_BUFFERS_def)
qed (use assms(1) in \<open>simp add: alloc_sensitive_def\<close>)

lemma memset_ok: "shield_ok st \<Longrightarrow> b \<in> set (vs_registry st) \<Longrightarrow> n \<le> sb_size b \<Longrightarrow> shield_ok (c_memset (sb_ptr b) v n st)"
  by (auto simp: shield_ok_def c_memset_def list_all_iff set_block_map_of split: option.splits)
    (metis le_add_diff_inverse option.inject)

text \<open>The effect of wiping one buffer.\<close>

lemma wipe_buffer_eq:
  assumes "map_of (vs_blocks st) (sb_ptr b) = Some bs" and "length bs = sb_size b" and "distinct (map fst (vs_blocks st))"
  shows "wipe_buffer env b st = st
    \<lparr>vs_blocks := filter (\<lambda>c. fst c \<noteq> sb_ptr b) (vs_blocks st),
     vs_freed := vs_freed st @ [(sb_ptr b, map (\<lambda>j. ve_rand env (vs_calls st + j) mod 256) [0..<sb_size b])],
     vs_locked := removeAll (sb_ptr b) (vs_locked st), vs_calls := vs_calls st + sb_size b\<rparr>"
  using assms by (simp add: wipe_buffer_def c_memset_def random_pass_def c_free_def set_block_map_of Let_def)

fun noise :: "shield_env \<Rightarrow> nat \<Rightarrow> sensitive_buffer list \<Rightarrow> (nat \<times> nat list) list" where
  \<comment> \<open>what the freed blocks hold after a wipe\<close>
  "noise env k [] = []"
| "noise env k (b # bs) = (sb_ptr b, map (\<lambda>j. ve_rand env (k + j) mod 256) [0..<sb_size b]) # noise env (k + sb_size b) bs"

lemma wipe_fold:
  assumes "distinct (map fst (vs_blocks st))" and "distinct (map sb_ptr bs)"
    and "list_all (\<lambda>b. \<exists>cs. map_of (vs_blocks st) (sb_ptr b) = Some cs \<and> length cs = sb_size b) bs"
  shows "fold (wipe_buffer env) bs st = st
    \<lparr>vs_blocks := filter (\<lambda>c. fst c \<notin> sb_ptr ` set bs) (vs_blocks st), vs_freed := vs_freed st @ noise env (vs_calls st) bs,
     vs_locked := filter (\<lambda>p. p \<notin> sb_ptr ` set bs) (vs_locked st), vs_calls := vs_calls st + sum_list (map sb_size bs)\<rparr>"
  using assms
proof (induction bs arbitrary: st)
  case Nil
  then show ?case by simp
next
  case (Cons b bs)
  from Cons.prems(3) obtain cs where cs: "map_of (vs_blocks st) (sb_ptr b) = Some cs" "length cs = sb_size b" by auto
  let ?st = "wipe_buffer env b st"
  note w = wipe_buffer_eq [OF cs Cons.prems(1)]
  have other: "map_of (filter (\<lambda>c. fst c \<noteq> q) xs) p = map_of xs p" if "p \<noteq> q" for p q and xs :: "(nat \<times> nat list) list"
    using that by (induction xs) auto
  have "distinct (map fst (vs_blocks ?st))" using Cons.prems(1) by (simp add: w distinct_map_filter)
  moreover have "list_all (\<lambda>b. \<exists>cs. map_of (vs_blocks ?st) (sb_ptr b) = Some cs \<and> length cs = sb_size b) bs"
    using Cons.prems(2,3) other by (auto simp: w list_all_iff image_iff)
  ultimately have "fold (wipe_buffer env) bs ?st = ?st
    \<lparr>vs_blocks := filter (\<lambda>c. fst c \<notin> sb_ptr ` set bs) (vs_blocks ?st), vs_freed := vs_freed ?st @ noise env (vs_calls ?st) bs,
     vs_locked := filter (\<lambda>p. p \<notin> sb_ptr ` set bs) (vs_locked ?st), vs_calls := vs_calls ?st + sum_list (map sb_size bs)\<rparr>"
    using Cons.prems(2) by (intro Cons.IH) auto
  then show ?case by (simp add: w removeAll_filter_not_eq conj_commute eq_commute [of "sb_ptr b"])
qed

lemma wipe_all_eq:
  "shield_ok st \<Longrightarrow> wipe_all env st = st
    \<lparr>vs_registry := [], vs_blocks := filter (\<lambda>c. fst c \<notin> sb_ptr ` set (vs_registry st)) (vs_blocks st),
     vs_freed := vs_freed st @ noise env (vs_calls st) (vs_registry st),
     vs_locked := filter (\<lambda>p. p \<notin> sb_ptr ` set (vs_registry st)) (vs_locked st),
     vs_calls := vs_calls st + sum_list (map sb_size (vs_registry st))\<rparr>"
  unfolding wipe_all_def by (subst wipe_fold) (simp_all add: shield_ok_def)

section \<open>Runs\<close>

text \<open>The program that uses the shield allocates buffers and writes inside of them.\<close>

datatype shield_op = Alloc nat | Fill nat nat nat   \<comment> \<open>a registered buffer, a value and a number of bytes\<close>

definition shield_op_step :: "shield_env \<Rightarrow> shield_op \<Rightarrow> shield \<Rightarrow> shield" where
  "shield_op_step env oper st =
     (case oper of
        Alloc n \<Rightarrow> snd (alloc_sensitive env n st)
      | Fill i v n \<Rightarrow>
          if i < length (vs_registry st) then c_memset (sb_ptr (vs_registry st ! i)) v (min n (sb_size (vs_registry st ! i))) st else st)"

definition shield_run :: "shield_env \<Rightarrow> shield_op list \<Rightarrow> shield" where
  "shield_run env ops = fold (shield_op_step env) ops shield_init"

lemma shield_run_ok: "malloc_ok env \<Longrightarrow> shield_ok (shield_run env ops)"
proof -
  assume env: "malloc_ok env"
  have "shield_ok st \<Longrightarrow> shield_ok (shield_op_step env oper st)" for oper st
    using env alloc_ok memset_ok by (cases oper) (auto simp: shield_op_step_def)
  then have "shield_ok st \<Longrightarrow> shield_ok (fold (shield_op_step env) ops st)" for st
    by (induction ops arbitrary: st) auto
  then show ?thesis by (simp add: shield_run_def shield_init_ok)
qed

lemma only_registered: "map fst (vs_blocks (shield_run env ops)) = rev (map sb_ptr (vs_registry (shield_run env ops)))
    \<and> vs_freed (shield_run env ops) = [] \<and> vs_calls (shield_run env ops) = 0 \<and> set (vs_locked (shield_run env ops)) \<subseteq> sb_ptr ` set (vs_registry (shield_run env ops))"
proof -
  let ?I = "\<lambda>st. map fst (vs_blocks st) = rev (map sb_ptr (vs_registry st)) \<and> vs_freed st = [] \<and> vs_calls st = 0 \<and>
    set (vs_locked st) \<subseteq> sb_ptr ` set (vs_registry st)"
  have "?I st \<Longrightarrow> ?I (shield_op_step env oper st)" for oper st
    by (cases oper) (auto simp: shield_op_step_def alloc_sensitive_def c_memset_def split: option.splits if_splits)
  then have "?I st \<Longrightarrow> ?I (fold (shield_op_step env) ops st)" for st
    by (induction ops arbitrary: st) auto
  then show ?thesis by (simp add: shield_run_def shield_init_def)
qed

text \<open>C30: After the purge nothing is left of any buffer: whatever buffers were allocated and whatever was written into them, no
  block is live or locked and the registry is empty, and the freed blocks hold values of \<open>rand\<close> only,
  which depend on the sizes of the buffers but not on what was in them.\<close>

theorem shield_purges:
  assumes "malloc_ok env"
  shows "wipe_all env (shield_run env ops) =
    \<lparr>vs_registry = [], vs_blocks = [], vs_freed = noise env 0 (vs_registry (shield_run env ops)), vs_locked = [],
     vs_calls = sum_list (map sb_size (vs_registry (shield_run env ops)))\<rparr>"
proof -
  let ?st = "shield_run env ops"
  have "set (map fst (vs_blocks ?st)) = sb_ptr ` set (vs_registry ?st)" using only_registered [of env ops] by simp
  then have "filter (\<lambda>c. fst c \<notin> sb_ptr ` set (vs_registry ?st)) (vs_blocks ?st) = []" by (auto simp: filter_empty_conv)
  moreover have "filter (\<lambda>p. p \<notin> sb_ptr ` set (vs_registry ?st)) (vs_locked ?st) = []"
    using only_registered [of env ops] by (auto simp: filter_empty_conv)
  ultimately show ?thesis using wipe_all_eq [OF shield_run_ok [OF assms]] only_registered [of env ops] by simp
qed

text \<open>The program is one such run, ended by a signal.\<close>

lemma shield_start_run: "shield_start env = shield_run env [Alloc (1024 * 1024), Fill 0 171 (1024 * 1024)]"
proof -
  obtain p st where a: "alloc_sensitive env (1024 * 1024) shield_init = (p, st)" by (cases "alloc_sensitive env (1024 * 1024) shield_init")
  then have "vs_registry st = (case p of None \<Rightarrow> [] | Some q \<Rightarrow> [\<lparr>sb_ptr = q, sb_size = 1024 * 1024\<rparr>])"
    by (auto simp: alloc_sensitive_def shield_init_def MAX_BUFFERS_def split: option.splits)
  with a show ?thesis by (cases p) (simp_all add: shield_start_def shield_run_def shield_op_step_def)
qed

lemma shield_program_purges:
  "malloc_ok env \<Longrightarrow> fst (shield_signal env (shield_start env)) = 0 \<and> vs_blocks (snd (shield_signal env (shield_start env))) = []"
proof -
  assume env: "malloc_ok env"
  let ?st = "shield_run env [Alloc (1024 * 1024), Fill 0 171 (1024 * 1024)]"
  have "set (map fst (vs_blocks ?st)) = sb_ptr ` set (vs_registry ?st)"
    using only_registered [of env "[Alloc (1024 * 1024), Fill 0 171 (1024 * 1024)]"] by (simp only: set_rev set_map)
  then have "filter (\<lambda>c. fst c \<notin> sb_ptr ` set (vs_registry ?st)) (vs_blocks ?st) = []" by (auto simp: filter_empty_conv)
  then show ?thesis by (simp add: shield_signal_def shield_start_run wipe_all_eq [OF shield_run_ok [OF env]])
qed

definition demo_shield :: shield_env where
  "demo_shield = \<lparr>ve_malloc = (\<lambda>used n. Some (Suc (sum_list used), replicate n 0)), ve_mlock = (\<lambda>_. True), ve_rand = (\<lambda>k. 7 * k)\<rparr>"

lemma demo_shield_ok: "malloc_ok demo_shield"
proof -
  have "Suc (sum_list xs) \<notin> set xs" for xs :: "nat list"
    using member_le_sum_list [of "Suc (sum_list xs)" xs] by auto
  then show ?thesis by (auto simp: malloc_ok_def demo_shield_def)
qed

theorem shield_purges_witness:
  "vs_freed (wipe_all demo_shield (shield_run demo_shield [Alloc 3, Fill 0 171 3])) = [(1, [0, 7, 14])]"
proof -
  have "vs_registry (shield_run demo_shield [Alloc 3, Fill 0 171 3]) = [\<lparr>sb_ptr = 1, sb_size = 3\<rparr>]"
    by (simp add: shield_run_def shield_op_step_def alloc_sensitive_def c_memset_def shield_init_def demo_shield_def MAX_BUFFERS_def)
  then show ?thesis using shield_purges [OF demo_shield_ok, of "[Alloc 3, Fill 0 171 3]"]
    by (simp add: demo_shield_def upt_rec)
qed

text \<open>The registry is not without limit: from the sixty-fifth on, an allocation is refused and changes nothing, whatever
  memory there is.\<close>

theorem shield_registry_full:
  "length (vs_registry st) < 64 \<or> (alloc_sensitive env sz st = (None, st))"
  by (auto simp: alloc_sensitive_def MAX_BUFFERS_def)

end
