(* ===== verification/SyntheticEntity.thy ===== *)
theory SyntheticEntity
  imports Files CScan
begin

text \<open>
  \<open>core/chrono_synthetic_life.c\<close>: an entity whose genome is mutated three times and stored after every change. SHA-256 and the bytes
  of \<open>/dev/urandom\<close> are parameters. Sequences of bytes are strings.
\<close>

definition GENOME_SIZE :: nat where "GENOME_SIZE = 32"

record synthetic_entity =
  se_name :: string
  se_dna :: string
  se_generation :: nat        \<comment> \<open>\<open>unsigned long\<close>\<close>
  se_birth :: int
  se_stability :: int

record entity_env =
  ee_files :: file_env
  ee_sha256 :: "string \<Rightarrow> string"
  ee_urandom :: "string option"            \<comment> \<open>what is read for the first genome; \<open>None\<close>: it cannot be opened\<close>
  ee_rand :: "nat \<Rightarrow> nat"
  ee_mutation :: "nat \<Rightarrow> char option"     \<comment> \<open>the byte read in each cycle; \<open>None\<close>: it cannot be opened\<close>
  ee_now :: int

definition generate_entropy_dna :: "entity_env \<Rightarrow> string" where
  "generate_entropy_dna env =
     (case ee_urandom env of
        Some bytes \<Rightarrow> bytes
      | None \<Rightarrow> map (\<lambda>i. char_of (ee_rand env i mod 256)) [0..<GENOME_SIZE])"

definition derive_entity_name :: "(string \<Rightarrow> string) \<Rightarrow> string \<Rightarrow> string" where
  "derive_entity_name sha dna =
     (let prefix = foldl (\<lambda>a c. 256 * a + code c) 0 (take 4 (sha dna)) in snprintf_buf 64 (''CHRONO-ENTITY-'' @ fmt_X 8 prefix))"

definition byte_xor :: "char \<Rightarrow> char \<Rightarrow> char" where
  "byte_xor a b = char_of (xor (code a) (code b))"

definition mutate_entity_genome :: "(string \<Rightarrow> string) \<Rightarrow> char option \<Rightarrow> synthetic_entity \<Rightarrow> synthetic_entity" where
  \<comment> \<open>the descriptor is closed before the second \<open>read\<close>, which fails and leaves \<open>mutation_byte\<close> as it was\<close>
  "mutate_entity_genome sha urandom entity =
     (case urandom of
        None \<Rightarrow> entity
      | Some mutation_byte \<Rightarrow>
          let target_index = code mutation_byte mod GENOME_SIZE;
              dna = (se_dna entity)[target_index := byte_xor (se_dna entity ! target_index) mutation_byte];
              generation = (se_generation entity + 1) mod 2 ^ 64;
              stability = wrap32 (100 - int generation * 2);
              stability = (if stability < 10 then 10 else stability) in
          entity\<lparr>se_dna := dna, se_generation := generation, se_stability := stability, se_name := derive_entity_name sha dna\<rparr>)"

definition entity_path :: "synthetic_entity \<Rightarrow> string" where
  "entity_path entity = snprintf_buf 256 (''vault/sentient_entities/'' @ se_name entity @ ''.json'')"

definition entity_json :: "synthetic_entity \<Rightarrow> string" where
  "entity_json entity =
     unlines [''{'', ''  '' @ QUOTE # ''name'' @ QUOTE # '': '' @ QUOTE # se_name entity @ QUOTE # '','',
       ''  '' @ QUOTE # ''generation'' @ QUOTE # '': '' @ nat_str (se_generation entity) @ '','',
       ''  '' @ QUOTE # ''birth_timestamp'' @ QUOTE # '': '' @ int_str (se_birth entity) @ '','',
       ''  '' @ QUOTE # ''stability_score'' @ QUOTE # '': '' @ int_str (se_stability entity) @ '','',
       ''  '' @ QUOTE # ''dna_hex'' @ QUOTE # '': '' @ QUOTE # hex_of (se_dna entity) @ [QUOTE], ''}'']"

definition persist_entity :: "file_env \<Rightarrow> synthetic_entity \<Rightarrow> files \<Rightarrow> files" where
  "persist_entity env entity fs = (case f_write env fs (entity_path entity) (entity_json entity) of None \<Rightarrow> fs | Some fs' \<Rightarrow> fs')"

definition entity_genesis :: "entity_env \<Rightarrow> synthetic_entity" where
  "entity_genesis env =
     (let dna = generate_entropy_dna env in
      \<lparr>se_name = derive_entity_name (ee_sha256 env) dna, se_dna = dna, se_generation = 0, se_birth = ee_now env, se_stability = 100\<rparr>)"

definition entity_cycle :: "entity_env \<Rightarrow> nat \<Rightarrow> synthetic_entity \<times> files \<Rightarrow> synthetic_entity \<times> files" where
  "entity_cycle env k = (\<lambda>(entity, fs).
     let entity = mutate_entity_genome (ee_sha256 env) (ee_mutation env k) entity in (entity, persist_entity (ee_files env) entity fs))"

definition entity_main :: "entity_env \<Rightarrow> files \<Rightarrow> synthetic_entity \<times> files" where
  "entity_main env fs =
     (let entity = entity_genesis env in fold (entity_cycle env) [1, 2, 3] (entity, persist_entity (ee_files env) entity fs))"

section \<open>Mutations\<close>

lemma code_byte_xor: "code (byte_xor a b) = xor (code a) (code b)"
proof -
  have "take_bit 8 (xor (code a) (code b)) = xor (take_bit 8 (code a)) (take_bit 8 (code b))" by (rule take_bit_xor)
  also have "\<dots> = xor (code a) (code b)" by (simp add: code_def take_bit_eq_mod)
  finally show ?thesis by (simp add: byte_xor_def code_def take_bit_eq_mod)
qed

lemma xor_mod_32: "xor (m :: nat) n mod 32 = xor (m mod 32) (n mod 32)"
  using take_bit_xor [of 5 m n] by (simp add: take_bit_eq_mod)

definition low_bits :: "char \<Rightarrow> nat" where "low_bits c = code c mod 32"

lemma mutate_low_bits:
  assumes "length (se_dna e) = GENOME_SIZE" and "j < GENOME_SIZE"
  shows "low_bits (se_dna (mutate_entity_genome sha r e) ! j) \<in> {low_bits (se_dna e ! j), xor (low_bits (se_dna e ! j)) j}"
    and "length (se_dna (mutate_entity_genome sha r e)) = GENOME_SIZE"
proof -
  show "length (se_dna (mutate_entity_genome sha r e)) = GENOME_SIZE"
    using assms by (simp add: mutate_entity_genome_def Let_def split: option.splits)
  show "low_bits (se_dna (mutate_entity_genome sha r e) ! j) \<in> {low_bits (se_dna e ! j), xor (low_bits (se_dna e ! j)) j}"
  proof (cases r)
    case (Some b)
    with assms show ?thesis
      by (cases "code b mod 32 = j") (auto simp: mutate_entity_genome_def Let_def low_bits_def code_byte_xor xor_mod_32 GENOME_SIZE_def)
  qed (simp add: mutate_entity_genome_def)
qed

text \<open>A mutation is confined by its own index: because the second random byte is never read, the byte that is changed at index i
  is changed by a mask whose low five bits are i. After any number of mutations the low five bits of every byte of the genome
  are the old ones or the old ones combined with the index, and those of the first byte never change.\<close>

theorem entity_mutation_confined:
  assumes "length (se_dna e) = GENOME_SIZE" and "j < GENOME_SIZE"
  shows "low_bits (se_dna (fold (mutate_entity_genome sha) rs e) ! j) \<in> {low_bits (se_dna e ! j), xor (low_bits (se_dna e ! j)) j} \<and>
    low_bits (se_dna (fold (mutate_entity_genome sha) rs e) ! 0) = low_bits (se_dna e ! 0)"
proof -
  have gen: "low_bits (se_dna (fold (mutate_entity_genome sha) rs e) ! k) \<in> {low_bits (se_dna e ! k), xor (low_bits (se_dna e ! k)) k}"
    if "length (se_dna e) = GENOME_SIZE" "k < GENOME_SIZE" for k e
    using that
  proof (induction rs arbitrary: e)
    case (Cons r rs)
    let ?e = "mutate_entity_genome sha r e"
    have len: "length (se_dna ?e) = GENOME_SIZE" by (rule mutate_low_bits(2) [OF Cons.prems])
    have "low_bits (se_dna ?e ! k) \<in> {low_bits (se_dna e ! k), xor (low_bits (se_dna e ! k)) k}" by (rule mutate_low_bits(1) [OF Cons.prems])
    moreover have "xor (xor (low_bits (se_dna e ! k)) k) k = low_bits (se_dna e ! k)" by (simp add: xor.assoc)
    ultimately show ?case using Cons.IH [OF len Cons.prems(2)] by auto
  qed simp
  have "low_bits (se_dna (fold (mutate_entity_genome sha) rs e) ! 0) = low_bits (se_dna e ! 0)"
    using gen [of e 0] assms(1) by (simp add: GENOME_SIZE_def)
  with gen [OF assms] show ?thesis by simp
qed

theorem entity_mutation_confined_witness:
  "\<exists>e. length (se_dna e) = 32 \<and>
     low_bits (se_dna (fold (mutate_entity_genome (\<lambda>s. s)) [Some CHR 0x23, Some CHR 0x40] e) ! 3) \<in> {low_bits (se_dna e ! 3), xor (low_bits (se_dna e ! 3)) 3}"
proof -
  let ?e = "\<lparr>se_name = [], se_dna = replicate 32 (CHR 0x41), se_generation = 0, se_birth = 0, se_stability = 100\<rparr>"
  have "length (se_dna ?e) = GENOME_SIZE" "3 < GENOME_SIZE" by (simp_all add: GENOME_SIZE_def)
  from entity_mutation_confined [OF this, of "\<lambda>s. s" "[Some CHR 0x23, Some CHR 0x40]"]
  have "length (se_dna ?e) = 32 \<and>
     low_bits (se_dna (fold (mutate_entity_genome (\<lambda>s. s)) [Some CHR 0x23, Some CHR 0x40] ?e) ! 3) \<in> {low_bits (se_dna ?e ! 3), xor (low_bits (se_dna ?e ! 3)) 3}"
    by simp
  then show ?thesis by blast
qed

section \<open>A run\<close>

definition entity_ok :: "(string \<Rightarrow> string) \<Rightarrow> synthetic_entity \<Rightarrow> bool" where
  "entity_ok sha e \<longleftrightarrow> se_generation e \<le> 3 \<and> se_stability e = 100 - 2 * int (se_generation e) \<and> se_name e = derive_entity_name sha (se_dna e)"

lemma mutate_ok:
  assumes "entity_ok sha e" and "se_generation e \<le> 2"
  shows "entity_ok sha (mutate_entity_genome sha r e) \<and>
    se_generation (mutate_entity_genome sha r e) = se_generation e + (if r = None then 0 else 1) \<and>
    se_birth (mutate_entity_genome sha r e) = se_birth e"
proof (cases r)
  case (Some b)
  have "(se_generation e + 1) mod 2 ^ 64 = se_generation e + 1" using assms(2) by simp
  with Some assms show ?thesis by (simp add: mutate_entity_genome_def entity_ok_def Let_def)
qed (use assms in \<open>simp add: mutate_entity_genome_def\<close>)

text \<open>A run ends with the entity it has stored: the generation is the number of cycles in which \<open>/dev/urandom\<close> could be
  opened, the stability follows from it and stays between 94 and 100, the name is the one
  derived from the genome, and the file of that name holds this entity.\<close>

theorem entity_run_stored:
  "(case entity_main env fs of (e, fs') \<Rightarrow>
     se_generation e = length (filter (\<lambda>k. ee_mutation env k \<noteq> None) [1, 2, 3]) \<and>
     se_stability e = 100 - 2 * int (se_generation e) \<and> 94 \<le> se_stability e \<and> se_stability e \<le> 100 \<and>
     se_name e = derive_entity_name (ee_sha256 env) (se_dna e) \<and> se_birth e = ee_now env \<and>
     fs' (entity_path e) = (if fe_writable (ee_files env) (entity_path e) then Some (fe_written (ee_files env) (entity_path e) (entity_json e)) else fs' (entity_path e)))"
proof -
  let ?m = "\<lambda>k. mutate_entity_genome (ee_sha256 env) (ee_mutation env k)"
  let ?g = "entity_genesis env"
  have g: "entity_ok (ee_sha256 env) ?g" "se_generation ?g = 0" "se_birth ?g = ee_now env" by (simp_all add: entity_genesis_def entity_ok_def Let_def)
  note m1 = mutate_ok [OF g(1), of "ee_mutation env 1"]
  then have g1: "entity_ok (ee_sha256 env) (?m 1 ?g)" "se_generation (?m 1 ?g) \<le> 2" "se_generation (?m 1 ?g) \<le> 1" using g by auto
  note m2 = mutate_ok [OF g1(1,2), of "ee_mutation env 2"]
  then have g2: "entity_ok (ee_sha256 env) (?m 2 (?m 1 ?g))" "se_generation (?m 2 (?m 1 ?g)) \<le> 2" using g g1 by auto
  note m3 = mutate_ok [OF g2, of "ee_mutation env 3"]
  define e where "e = ?m 3 (?m 2 (?m 1 ?g))"
  obtain fs2 where main: "entity_main env fs = (e, persist_entity (ee_files env) e fs2)"
    by (simp add: entity_main_def entity_cycle_def e_def Let_def)
  have gen: "se_generation e = length (filter (\<lambda>k. ee_mutation env k \<noteq> None) [1, 2, 3])"
    using m1 m2 m3 g by (auto simp: e_def)
  then have "se_generation e \<le> 3" by (auto split: if_splits)
  moreover have "entity_ok (ee_sha256 env) e" "se_birth e = ee_now env" using m1 m2 m3 g by (auto simp: e_def)
  moreover have "persist_entity (ee_files env) e fs2 (entity_path e) =
      (if fe_writable (ee_files env) (entity_path e) then Some (fe_written (ee_files env) (entity_path e) (entity_json e)) else persist_entity (ee_files env) e fs2 (entity_path e))"
    by (simp add: persist_entity_def f_write_def)
  ultimately show ?thesis unfolding main prod.case using gen by (auto simp: entity_ok_def)
qed

end
