(* ===== verification/EarlyInit.thy ===== *)
theory EarlyInit
  imports Files
begin

text \<open>
  The two early init programs, \<open>init/chrono_init.c\<close> and \<open>initramfs/init/chrono_init.c\<close>, as step relations. A state holds the
  console shells and the other children that are alive; children come and go on their own: an orphan is
  inherited, a process ends and stays until it is waited for. Forks and mounts may fail.
\<close>

section \<open>Start\<close>

type_synonym mount_call = "string \<times> string \<times> string"   \<comment> \<open>source, target, type\<close>

definition init_mounts :: "mount_call list" where
  \<comment> \<open>the results are not looked at\<close>
  "init_mounts = [(''proc'', ''/proc'', ''proc''), (''sysfs'', ''/sys'', ''sysfs''), (''devtmpfs'', ''/dev'', ''devtmpfs''),
     (''devpts'', ''/dev/pts'', ''devpts''), (''tmpfs'', ''/run'', ''tmpfs'')]"

definition persistent_mount :: mount_call where "persistent_mount = (''/dev/vda'', ''/mnt/data'', ''ext4'')"

definition ramfs_mounts :: "mount_call list" where
  "ramfs_mounts = [(''proc'', ''/proc'', ''proc''), (''sysfs'', ''/sys'', ''sysfs''), (''devtmpfs'', ''/dev'', ''devtmpfs'')]"

definition mount_errors :: "(mount_call \<Rightarrow> bool) \<Rightarrow> string list" where
  \<comment> \<open>what the initramfs program reports\<close>
  "mount_errors mounts = map (\<lambda>m. ''[!] Error montando '' @ fst (snd m)) (filter (\<lambda>m. \<not> mounts m) ramfs_mounts)"

definition heartbeat_line :: "int \<Rightarrow> int \<Rightarrow> string" where
  "heartbeat_line pid now = ''[chrono-heartbeat] PID '' @ int_str pid @ '' activo en '' @ int_str now @ [NL]"

definition heartbeat_turn :: "file_env \<Rightarrow> int \<Rightarrow> int \<Rightarrow> files \<Rightarrow> files" where
  \<comment> \<open>one turn of the child's loop\<close>
  "heartbeat_turn env pid now fs = f_append_or_skip env fs ''/mnt/data/heartbeat.log'' (heartbeat_line pid now)"

section \<open>The loops\<close>

datatype console_phase = Forking | Waiting nat | WaitingFailed
  \<comment> \<open>\<open>Waiting p\<close>: in \<open>wait\<close> with \<open>p\<close> in the variable \<open>pid\<close>; \<open>WaitingFailed\<close>: with -1 in it\<close>

record console_state =
  is_phase :: console_phase
  is_shells :: "nat list"
  is_others :: "nat list"
  is_ended :: "nat list"

definition alive :: "console_state \<Rightarrow> nat list" where
  "alive st = is_shells st @ is_others st"

definition known :: "console_state \<Rightarrow> nat \<Rightarrow> bool" where
  "known st p \<longleftrightarrow> p \<in> set (is_shells st) \<or> p \<in> set (is_others st) \<or> p \<in> set (is_ended st)"

text \<open>What happens to the children, whatever the program does.\<close>

inductive child_step :: "console_state \<Rightarrow> console_state \<Rightarrow> bool" where
  inherit: "\<not> known st p \<Longrightarrow> child_step st (st\<lparr>is_others := p # is_others st\<rparr>)"
| ends: "p \<in> set (alive st) \<Longrightarrow>
    child_step st (st\<lparr>is_shells := removeAll p (is_shells st), is_others := removeAll p (is_others st), is_ended := p # is_ended st\<rparr>)"

text \<open>\<open>init/chrono_init.c\<close>: fork a shell, wait for any child, begin again.\<close>

inductive console_step :: "console_state \<Rightarrow> console_state \<Rightarrow> bool" where
  child: "child_step st st' \<Longrightarrow> console_step st st'"
| forked: "is_phase st = Forking \<Longrightarrow> \<not> known st p \<Longrightarrow> console_step st (st\<lparr>is_shells := p # is_shells st, is_phase := Waiting p\<rparr>)"
| fork_failed: "is_phase st = Forking \<Longrightarrow> console_step st st"
| waited: "is_phase st = Waiting p \<Longrightarrow> q \<in> set (is_ended st) \<Longrightarrow>
    console_step st (st\<lparr>is_ended := removeAll q (is_ended st), is_phase := Forking\<rparr>)"

text \<open>\<open>initramfs/init/chrono_init.c\<close>: fork again only when the child that \<open>wait\<close> returns is the shell. When that fork fails
  \<open>pid\<close> is -1, which is also what \<open>wait\<close> returns when there is no child.\<close>

inductive ramfs_step :: "console_state \<Rightarrow> console_state \<Rightarrow> bool" where
  child: "child_step st st' \<Longrightarrow> ramfs_step st st'"
| forked: "is_phase st = Forking \<Longrightarrow> \<not> known st p \<Longrightarrow> ramfs_step st (st\<lparr>is_shells := p # is_shells st, is_phase := Waiting p\<rparr>)"
| fork_failed: "is_phase st = Forking \<Longrightarrow> ramfs_step st (st\<lparr>is_phase := WaitingFailed\<rparr>)"
| waited_shell: "is_phase st = Waiting p \<Longrightarrow> p \<in> set (is_ended st) \<Longrightarrow>
    ramfs_step st (st\<lparr>is_ended := removeAll p (is_ended st), is_phase := Forking\<rparr>)"
| waited_other: "is_phase st \<noteq> Forking \<Longrightarrow> q \<in> set (is_ended st) \<Longrightarrow> is_phase st \<noteq> Waiting q \<Longrightarrow>
    ramfs_step st (st\<lparr>is_ended := removeAll q (is_ended st)\<rparr>)"
| no_child: "is_phase st = WaitingFailed \<Longrightarrow> alive st = [] \<Longrightarrow> is_ended st = [] \<Longrightarrow> ramfs_step st (st\<lparr>is_phase := Forking\<rparr>)"

inductive_cases child_stepE: "child_step st st'"

definition console_start :: "nat list \<Rightarrow> console_state" where
  \<comment> \<open>the children there are before the loop: the heartbeat, when its fork has succeeded\<close>
  "console_start others = \<lparr>is_phase = Forking, is_shells = [], is_others = others, is_ended = []\<rparr>"

definition console_reachable :: "nat list \<Rightarrow> console_state \<Rightarrow> bool" where
  "console_reachable others st \<longleftrightarrow> console_step\<^sup>*\<^sup>* (console_start others) st"

definition ramfs_start :: "nat option \<Rightarrow> console_state option" where
  \<comment> \<open>the first \<open>fork\<close>: when it fails the program returns, and with it process 1\<close>
  "ramfs_start pid = map_option (\<lambda>p. \<lparr>is_phase = Waiting p, is_shells = [p], is_others = [], is_ended = []\<rparr>) pid"

definition ramfs_reachable :: "console_state \<Rightarrow> bool" where
  "ramfs_reachable st \<longleftrightarrow> (\<exists>pid st0. ramfs_start pid = Some st0 \<and> ramfs_step\<^sup>*\<^sup>* st0 st)"

section \<open>Booting\<close>

definition persistent_message :: "bool \<Rightarrow> string" where
  "persistent_message mounted =
     (if mounted then ''Almacenamiento persistente montado en /mnt/data'' else ''[i] Sin disco persistente detectado (boot en RAM solamente)'')"

definition console_boot :: "int \<Rightarrow> (mount_call \<Rightarrow> bool) \<Rightarrow> nat option \<Rightarrow> string list \<times> console_state option" where
  \<comment> \<open>\<open>main\<close> up to its loop: the console and the state, \<open>None\<close> when it returns 1; \<open>svc\<close> is the fork of the heartbeat, whose failure is not noticed\<close>
  "console_boot pid mounts svc =
     (if pid \<noteq> 1 then ([''[!] ERROR FATAL: chrono_init debe ser PID 1.''], None)
      else
        ([[], ''  ============================================================'', ''   CHRONO-OS SOVEREIGN KERNEL INITIALIZED // PID 1 ACTIVE      '',
          ''  ============================================================'', ''[CHRONO-KERNEL] Montando sistemas de archivos virtuales...'',
          persistent_message (mounts persistent_mount), ''Entorno soberano configurado. Servicios iniciados. Consola lista...''],
         Some (console_start (case svc of None \<Rightarrow> [] | Some p \<Rightarrow> [p]))))"

definition ramfs_boot :: "int \<Rightarrow> (mount_call \<Rightarrow> bool) \<Rightarrow> nat option \<Rightarrow> int option \<times> string list \<times> console_state option" where
  \<comment> \<open>the value that \<open>main\<close> returns, when it does, its lines, and the state in which it waits\<close>
  "ramfs_boot pid mounts fork =
     (if pid \<noteq> 1 then (Some 1, [''[!] Error critico: chrono_init debe ejecutarse estrictamente como PID 1.''], None)
      else
        let out = [[], ''  ============================================================'', ''   CHRONO-OS KERNEL BOOT // PID 1 INITIALIZATION ENGAGED        '',
              ''  ============================================================'', ''[CHRONO-INIT] Montando sistemas de archivos virtuales del kernel...''] @
              mount_errors mounts @ [''Entorno de archivos base asegurado. Lanzando interfaz segura...''] in
        case fork of
          None \<Rightarrow> (Some 0, out @ [''[!] Error critico en fork de PID 1''], None)
        | Some p \<Rightarrow> (None, out, ramfs_start (Some p)))"

text \<open>Booting goes on as process 1 only; the initramfs program gives up, reporting success, when the first fork fails, while the other tries again in its
  loop. Failed mounts stop neither.\<close>

lemma console_boot_runs: "snd (console_boot pid mounts svc) \<noteq> None \<longleftrightarrow> pid = 1"
  by (simp add: console_boot_def)

lemma ramfs_boot_runs:
  "snd (snd (ramfs_boot pid mounts fork)) \<noteq> None \<longleftrightarrow> pid = 1 \<and> fork \<noteq> None"
  "fst (ramfs_boot pid mounts fork) = (if pid \<noteq> 1 then Some 1 else if fork = None then Some 0 else None)"
  by (auto simp: ramfs_boot_def ramfs_start_def Let_def split: option.split)

section \<open>How many shells\<close>

definition ramfs_ok :: "console_state \<Rightarrow> bool" where
  "ramfs_ok st \<longleftrightarrow> (case is_phase st of
      Waiting p \<Rightarrow> (is_shells st = [p] \<and> p \<notin> set (is_others st) \<and> p \<notin> set (is_ended st)) \<or>
        (is_shells st = [] \<and> p \<in> set (is_ended st) \<and> p \<notin> set (is_others st))
    | _ \<Rightarrow> is_shells st = [])"

lemma child_step_phase: "child_step st st' \<Longrightarrow> is_phase st' = is_phase st"
  by (auto elim: child_stepE)

lemma ramfs_child: "child_step st st' \<Longrightarrow> ramfs_ok st \<Longrightarrow> ramfs_ok st'"
  by (erule child_stepE) (auto simp: ramfs_ok_def known_def alive_def split: console_phase.splits if_splits)

lemma ramfs_preserved: "ramfs_step st st' \<Longrightarrow> ramfs_ok st \<Longrightarrow> ramfs_ok st'"
proof (induction rule: ramfs_step.induct)
  case (child st st')
  then show ?case by (rule ramfs_child)
next
  case (waited_other st q)
  then show ?case by (cases "is_phase st") (auto simp: ramfs_ok_def)
qed (auto simp: ramfs_ok_def known_def)

text \<open>C29: The initramfs init never runs two consoles: in every state it can reach, through any children that are inherited or end
  and any failing forks, at most one shell is alive, and while it waits for a shell that one is either alive or has ended and
  not been waited for, so that it will be replaced.\<close>

theorem ramfs_one_shell:
  assumes "ramfs_reachable st"
  shows "length (is_shells st) \<le> 1 \<and> (case is_phase st of Waiting p \<Rightarrow> is_shells st = [p] \<or> p \<in> set (is_ended st) | _ \<Rightarrow> is_shells st = [])"
proof -
  obtain pid st0 where st0: "ramfs_start pid = Some st0" and "ramfs_step\<^sup>*\<^sup>* st0 st" using assms by (auto simp: ramfs_reachable_def)
  from this(2) have "ramfs_ok st"
  proof (induction rule: rtranclp_induct)
    case base
    show ?case using st0 by (cases pid) (auto simp: ramfs_start_def ramfs_ok_def)
  next
    case (step y z)
    then show ?case by (blast intro: ramfs_preserved)
  qed
  then show ?thesis by (auto simp: ramfs_ok_def split: console_phase.splits)
qed

theorem ramfs_one_shell_witness:
  "ramfs_reachable \<lparr>is_phase = Forking, is_shells = [], is_others = [], is_ended = []\<rparr> \<and>
   length (is_shells \<lparr>is_phase = Forking, is_shells = [], is_others = [], is_ended = []\<rparr>) \<le> 1"
proof -
  let ?s0 = "\<lparr>is_phase = Waiting 7, is_shells = [7], is_others = [], is_ended = []\<rparr>"
  let ?s1 = "\<lparr>is_phase = Waiting 7, is_shells = [], is_others = [], is_ended = [7]\<rparr>"
  let ?s2 = "\<lparr>is_phase = Forking, is_shells = [], is_others = [], is_ended = []\<rparr>"
  have "ramfs_step ?s0 ?s1" using child_step.ends [of 7 ?s0] by (intro ramfs_step.child) (simp add: alive_def)
  moreover have "ramfs_step ?s1 ?s2" using ramfs_step.waited_shell [of ?s1 7] by simp
  moreover have "ramfs_start (Some 7) = Some ?s0" by (simp add: ramfs_start_def)
  ultimately have "ramfs_reachable ?s2" unfolding ramfs_reachable_def by (meson rtranclp.rtrancl_into_rtrancl rtranclp.rtrancl_refl)
  with ramfs_one_shell [OF this] show ?thesis by blast
qed

text \<open>The other init does: it begins again after any child has ended, so that each inherited process that ends gives one more
  shell on the console. For every number there is a reachable state with that many shells alive, with or without a heartbeat.\<close>

theorem console_shells_unbounded:
  "\<exists>st. console_reachable others st \<and> length (is_shells st) = n"
proof -
  have "\<exists>st. console_reachable others st \<and> is_phase st = Forking \<and> length (is_shells st) = n \<and> is_ended st = []"
  proof (induction n)
    case 0
    have "console_reachable others (console_start others)" by (simp add: console_reachable_def)
    then show ?case by (intro exI [of _ "console_start others"]) (simp add: console_start_def)
  next
    case (Suc n)
    then obtain st where st: "console_reachable others st" "is_phase st = Forking" "length (is_shells st) = n" "is_ended st = []" by blast
    define p where "p = Suc (sum_list (is_shells st @ is_others st))"
    have big: "x < p" if "x \<in> set (is_shells st @ is_others st)" for x
      using member_le_sum_list [OF that] by (simp add: p_def)
    define st1 where "st1 = st\<lparr>is_shells := p # is_shells st, is_phase := Waiting p\<rparr>"
    define st2 where "st2 = st1\<lparr>is_others := Suc p # is_others st1\<rparr>"
    define st3 where "st3 = st2\<lparr>is_shells := removeAll (Suc p) (is_shells st2), is_others := removeAll (Suc p) (is_others st2), is_ended := Suc p # is_ended st2\<rparr>"
    define st4 where "st4 = st3\<lparr>is_ended := removeAll (Suc p) (is_ended st3), is_phase := Forking\<rparr>"
    have "console_step st st1" unfolding st1_def using st big by (intro console_step.forked) (auto simp: known_def)
    moreover have "console_step st1 st2" unfolding st2_def
      using st big by (intro console_step.child child_step.inherit) (fastforce simp: known_def st1_def)
    moreover have "console_step st2 st3" unfolding st3_def
      by (intro console_step.child child_step.ends) (simp add: alive_def st2_def)
    moreover have "console_step st3 st4" unfolding st4_def
      by (intro console_step.waited [where p = p]) (simp_all add: st3_def st2_def st1_def)
    ultimately have "console_reachable others st4" using st(1) unfolding console_reachable_def by (meson rtranclp.rtrancl_into_rtrancl)
    moreover have "Suc p \<notin> set (is_shells st)" using big by fastforce
    then have "length (is_shells st4) = Suc n" using st(3) by (simp add: st4_def st3_def st2_def st1_def)
    moreover have "is_ended st4 = []" using st(4) by (simp add: st4_def st3_def st2_def st1_def)
    ultimately show ?case by (intro exI [of _ st4]) (simp add: st4_def)
  qed
  then show ?thesis by blast
qed

end
