(* ===== verification/CoreServices.thy ===== *)
theory CoreServices
  imports HardwareGuard
begin

text \<open>
  Small programs around the core: the logger (\<open>core/logger/logger.c\<close>), the daemon skeleton (\<open>services/chronod/src/main.c\<close>), the raw
  packet auditors (\<open>core/engine/chrono_packet_auditor.c\<close> and its initramfs version), and the initramfs versions of
  the kernel core and of the volatile shield (\<open>initramfs/core/engine\<close>).
\<close>

section \<open>The logger\<close>

definition CORE_LOG_FILE :: string where "CORE_LOG_FILE = ''../../var/logs/chrono.log''"

definition core_log :: "file_env \<Rightarrow> clock \<Rightarrow> string \<Rightarrow> string \<Rightarrow> string \<Rightarrow> files \<Rightarrow> files" where
  \<comment> \<open>a time that does not fit into its buffer leaves it undefined; here it is empty\<close>
  "core_log env ck level component message fs =
     (let timestamp = (case strftime_buf 32 (fmt_plain (ck_localtime ck (ck_now ck))) of None \<Rightarrow> [] | Some t \<Rightarrow> t) in
      f_append_or_skip env fs CORE_LOG_FILE (timestamp @ '' ['' @ level @ ''] ['' @ component @ ''] '' @ message @ [NL]))"

section \<open>The daemon\<close>

definition daemon_stamp :: "tm \<Rightarrow> string" where
  "daemon_stamp t = CHR ''['' # pad2 (tm_hour t) @ CHR '':'' # pad2 (tm_min t) @ CHR '':'' # pad2 (tm_sec t) @ ''] ''"

definition chronod_signals :: "nat list" where
  \<comment> \<open>\<open>SIGTERM\<close>, \<open>SIGINT\<close> and \<open>SIGHUP\<close>: each only clears \<open>running\<close>\<close>
  "chronod_signals = [15, 2, 1]"

datatype chronod_run = Daemon_running "string list" | Daemon_stopped int "string list" | Daemon_killed nat "string list"

definition chronod_main :: "(nat \<Rightarrow> tm) \<Rightarrow> nat option \<Rightarrow> chronod_run" where
  \<comment> \<open>the times of the calls of \<open>timestamp\<close>, and the first signal that comes; other signals have their default action\<close>
  "chronod_main t signal =
     (let out = [daemon_stamp (t 0) @ ''[ChronoD] Initializing...'', daemon_stamp (t 1) @ ''[ChronoD] Service manager started.''] in
      case signal of
        None \<Rightarrow> Daemon_running out
      | Some s \<Rightarrow>
          if s \<in> set chronod_signals then
            Daemon_stopped 0 (out @ [daemon_stamp (t 2) @ ''[ChronoD] Shutdown requested.'', daemon_stamp (t 3) @ ''[ChronoD] Service manager stopped.''])
          else Daemon_killed s out)"

section \<open>The packet auditors\<close>

record audit_run =
  ar_result :: int
  ar_lines :: "string list"
  ar_commands :: "string list"       \<comment> \<open>for the disabled shell\<close>

definition audit_fallback :: "string list \<Rightarrow> audit_run" where
  "audit_fallback help =
     \<lparr>ar_result = 0, ar_lines = help @ [''[*] Iniciando auditoria de sockets y descriptores de archivo locales...''],
      ar_commands = [''cat /proc/net/tcp 2>/dev/null || echo '' @ CHR 0x27 # ''No tcp proc access'' @ [CHR 0x27]]\<rparr>"

definition packet_line :: "string \<Rightarrow> nat \<Rightarrow> string" where
  \<comment> \<open>bytes 12 and 13 of the buffer are \<open>eth->h_proto\<close>, converted by \<open>ntohs\<close> and printed with \<open>%04x\<close>\<close>
  "packet_line buffer n =
     ''[PACKET] Capturado frame | Tamano: '' @ nat_str n @ '' bytes | Protocolo: 0x'' @ hex_of [buffer ! 12, buffer ! 13]"

fun audit_frames :: "nat \<Rightarrow> string \<Rightarrow> string option list \<Rightarrow> string list" where
  \<comment> \<open>the loop, with the frames still to be read, the buffer and the results of \<open>recvfrom\<close>; at the end of the list it blocks\<close>
  "audit_frames 0 buffer recvs = []"
| "audit_frames (Suc n) buffer [] = []"
| "audit_frames (Suc n) buffer (None # recvs) = [''[!] Error al recibir paquete de red'']"
| "audit_frames (Suc n) buffer (Some frame # recvs) =
     (let data = take 65536 frame; buffer = data @ drop (length data) buffer in
      packet_line buffer (length data) # audit_frames n buffer recvs)"

definition packet_help :: "string list" where
  "packet_help = [''ChronoOS Native Raw Packet Auditor v9.0'', ''Usage: chrono-packet-auditor [interface]'',
     ''Note: Requires root/CAP_NET_RAW privileges to capture live packets.'']"

definition packet_main :: "string list \<Rightarrow> bool \<Rightarrow> string \<Rightarrow> string option list \<Rightarrow> audit_run" where
  \<comment> \<open>whether the socket can be opened, and the first content of the buffer\<close>
  "packet_main argv socket_ok buffer recvs =
     (if length argv < 2 then audit_fallback packet_help
      else
        let start = ''[*] Abriendo socket de bajo nivel en la interfaz: '' @ argv ! 1 in
        if \<not> socket_ok then
          \<lparr>ar_result = 1, ar_lines = [start, ''[!] Error critico: No se pudo abrir el socket raw (Faltan privilegios root?)'',
             ''[*] Ejecutando analisis de respaldo de tablas de enrutamiento...''], ar_commands = [''ip route show'']\<rparr>
        else
          \<lparr>ar_result = 0,
           ar_lines = [start, ''[OK] Escuchando trafico real en la interfaz '' @ argv ! 1 @ ''...''] @ audit_frames 5 buffer recvs @
             [''[OK] Auditoria de paquetes completada exitosamente.''],
           ar_commands = []\<rparr>)"

definition ramfs_packet_main :: "string list \<Rightarrow> bool \<Rightarrow> audit_run" where
  "ramfs_packet_main argv socket_ok =
     (if length argv < 2 then audit_fallback []
      else if \<not> socket_ok then
        \<lparr>ar_result = 1, ar_lines = [''[!] Error critico: No se pudo abrir el socket raw''], ar_commands = [''ip route show'']\<rparr>
      else \<lparr>ar_result = 0, ar_lines = [''[OK] Escuchando trafico real en la interfaz '' @ argv ! 1 @ ''...''], ar_commands = []\<rparr>)"

text \<open>The protocol shown for a frame that is too short for a header is that of the frame before it, and the name of the interface
  has no influence on what is received: the socket is not bound to it.\<close>

lemma audit_frames_none [simp]: "audit_frames n buffer [] = []"
  by (cases n) simp_all

lemma packet_runt_stale:
  assumes "length runt < 12" and "14 \<le> length frame" and "length frame \<le> 65536"
  shows "audit_frames (Suc (Suc n)) buffer [Some frame, Some runt] =
    [packet_line frame (length frame),
     ''[PACKET] Capturado frame | Tamano: '' @ nat_str (length runt) @ '' bytes | Protocolo: 0x'' @ hex_of [frame ! 12, frame ! 13]]"
proof -
  have len: "length runt \<le> 65536" using assms(1) by simp
  have "(frame @ drop (length frame) buffer) ! 12 = frame ! 12" "(frame @ drop (length frame) buffer) ! 13 = frame ! 13"
    using assms(2) by (simp_all add: nth_append)
  moreover have "(runt @ drop (length runt) (frame @ drop (length frame) buffer)) ! k = frame ! k" if "k = 12 \<or> k = 13" for k
    using assms(1,2) that by (auto simp: nth_append)
  ultimately show ?thesis using assms(3) len by (simp add: packet_line_def Let_def)
qed

lemma packet_interface_unused:
  "drop 2 (ar_lines (packet_main [p, i] True buffer recvs)) = drop 2 (ar_lines (packet_main [p, j] True buffer recvs))"
  by (simp add: packet_main_def Let_def)

section \<open>The kernel core of the initramfs\<close>

record sys_info =
  si_totalram :: nat
  si_freeram :: nat
  si_procs :: nat

definition MAGIC_SIGNATURE :: nat where "MAGIC_SIGNATURE = 0x4348524E"
definition RAMFS_VERSION :: string where "RAMFS_VERSION = ''9.5-SOVEREIGN''"

definition ramfs_banner :: string where
  "ramfs_banner = ''       [ NATIVE C KERNEL ENGINE // AIR-GAPPED SECURITY v'' @ RAMFS_VERSION @ '' ]''"

definition chrono_fnv1a_hash :: "string \<Rightarrow> 32 word" where
  "chrono_fnv1a_hash s = foldl (\<lambda>hash c. (xor hash (word_of_nat (code c))) * 16777619) 2166136261 s"

definition audit_system_memory :: "sys_info option \<Rightarrow> string list" where
  "audit_system_memory si =
     (case si of
        Some i \<Rightarrow> [''[MEM] RAM Total en Sistema: '' @ nat_str (si_totalram i div 1024 div 1024) @ '' MB'',
          ''[MEM] RAM Libre Disponible: '' @ nat_str (si_freeram i div 1024 div 1024) @ '' MB'',
          ''[MEM] Procesos Activos (PID): '' @ nat_str (si_procs i)]
      | None \<Rightarrow> [''[!] Error obteniendo sysinfo del kernel''])"

definition secure_vault_wipe :: "string option \<Rightarrow> string list \<times> string option" where
  \<comment> \<open>the lines, and what the block that \<open>malloc\<close> has just returned holds when it is freed\<close>
  "secure_vault_wipe fresh =
     (let start = ''[!] [CRITICAL] Ejecutando purga criptografica de memoria segura en C...'' in
      case fresh of
        None \<Rightarrow> ([start], None)
      | Some block \<Rightarrow> ([start, ''[OK] Buferes de memoria del kernel purgados y anulados.''], Some (replicate 4096 NUL @ drop 4096 block)))"

definition ramfs_core_main :: "sys_info option \<Rightarrow> string option \<Rightarrow> string list \<Rightarrow> int \<times> string list" where
  "ramfs_core_main si fresh argv =
     (if length argv < 2 then (1, [ramfs_banner, ''Uso del Kernel CLI: chrono-core [status | memory | hash <str> | wipe]''])
      else if argv ! 1 = ''status'' then
        (0, [ramfs_banner, ''[STATUS] SCB Magic Signature: 0x'' @ fmt_X 8 MAGIC_SIGNATURE, ''[STATUS] Security State: ENCRYPTED_AIR_GAPPED''] @
          audit_system_memory si)
      else if argv ! 1 = ''memory'' then
        (0, ''[*] Realizando auditoria de memoria en espacio de kernel...'' # audit_system_memory si)
      else if argv ! 1 = ''hash'' then
        (if length argv < 3 then (1, [''[!] Error: Falta cadena para calcular hash FNV-1a.''])
         else (0, [''[HASH] FNV-1a('' @ CHR 0x27 # argv ! 2 @ CHR 0x27 # '') = 0x'' @ fmt_X 8 (unat (chrono_fnv1a_hash (argv ! 2)))]))
      else if argv ! 1 = ''wipe'' then (0, fst (secure_vault_wipe fresh))
      else (1, [''[!] Comando desconocido para chrono-core: '' @ argv ! 1]))"

text \<open>The two hashes of the repository agree: what \<open>chrono-core hash\<close> of the initramfs computes in 32 bits is the low half of the
  64-bit hash from which the hardware guard makes its fingerprints.\<close>

theorem fnv_hashes_agree: "chrono_fnv1a_hash s = ucast (fnv1a s)"
  by (simp add: hw_fnv_low32 chrono_fnv1a_hash_def fnv1a_32_def)

section \<open>The volatile shield of the initramfs\<close>

definition SECURE_BUFFER_SIZE :: nat where "SECURE_BUFFER_SIZE = 8192"

definition emergency_purge :: "string option \<Rightarrow> string option \<times> string option" where
  \<comment> \<open>\<open>protected_memory\<close> afterwards, and what the freed block holds\<close>
  "emergency_purge protected_memory =
     (case protected_memory of
        None \<Rightarrow> (None, None)
      | Some block \<Rightarrow> (None, Some (map (\<lambda>i. char_of (i mod 255)) [0..<SECURE_BUFFER_SIZE] @ drop SECURE_BUFFER_SIZE block)))"

lemma emergency_purge_content:
  "length b = SECURE_BUFFER_SIZE \<Longrightarrow> length b' = SECURE_BUFFER_SIZE \<Longrightarrow> emergency_purge (Some b) = emergency_purge (Some b')"
  by (simp add: emergency_purge_def)

definition ram_shield_main :: "string option \<Rightarrow> bool \<Rightarrow> int option \<times> string list \<times> string option" where
  \<comment> \<open>\<open>main\<close> with the block that \<open>malloc\<close> returns: the value it returns, if it does, its lines, and \<open>protected_memory\<close> while it waits for a signal\<close>
  "ram_shield_main block mlock =
     (case block of
        None \<Rightarrow> (Some 1, [], None)
      | Some b \<Rightarrow> (None, (if mlock then [''Paginas de memoria bloqueadas en RAM fisica (Anti-Swap).''] else []), Some b))"

text \<open>Whatever the block held, the signal leaves the same bytes in it, also when it could not be locked and nothing was said about it.\<close>

lemma ram_shield_signal:
  assumes "length b = SECURE_BUFFER_SIZE"
  shows "emergency_purge (snd (snd (ram_shield_main (Some b) mlock))) = (None, Some (map (\<lambda>i. char_of (i mod 255)) [0..<SECURE_BUFFER_SIZE]))"
  using assms by (simp add: ram_shield_main_def emergency_purge_def)

end
