(* ===== verification/Reports.thy ===== *)
theory Reports
  imports Cnem Cumbia Assurance Isp
begin

text \<open>
  The printed reports of the four telemetry engines, line by line (an empty string is an empty line), and what their last
  lines say about the verdict.
\<close>

section \<open>ISP\<close>

fun isp_severity_name :: "isp_severity \<Rightarrow> string" where
  "isp_severity_name SEV_INFO = ''INFO''"
| "isp_severity_name SEV_WARNING = ''WARNING''"
| "isp_severity_name SEV_CRITICAL = ''CRITICAL''"

fun isp_verdict :: "isp_severity \<Rightarrow> string" where
  "isp_verdict SEV_CRITICAL = ''INCIDENT''"
| "isp_verdict SEV_WARNING = ''DEGRADED''"
| "isp_verdict SEV_INFO = ''OPERATIONAL''"

definition isp_report :: "isp_telemetry \<Rightarrow> isp_incident \<Rightarrow> string list" where
  "isp_report t inc =
     [[],
      ''=== CHRONO ISP INTELLIGENCE ==='',
      ''Version:       '' @ ''1.0.0'',
      ''Node:          '' @ it_node_id t,
      ''Type:          '' @ it_node_type t,
      [],
      ''--- NETWORK ---'',
      ''Latency:       '' @ fmt_f 2 (it_latency_ms t) @ '' ms'',
      ''Jitter:        '' @ fmt_f 2 (it_jitter_ms t) @ '' ms'',
      ''Packet loss:   '' @ fmt_f 2 (it_packet_loss_pct t) @ '' %'',
      [],
      ''--- CAPACITY ---'',
      ''CPU:           '' @ fmt_f 2 (it_cpu_pct t) @ '' %'',
      ''Memory:        '' @ fmt_f 2 (it_memory_pct t) @ '' %'',
      ''Utilization:   '' @ fmt_f 2 (it_utilization_pct t) @ '' %'',
      [],
      ''--- BGP / RPKI ---'',
      ''BGP:           '' @ (if it_bgp_up t \<noteq> 0 then ''UP'' else ''DOWN''),
      ''RPKI valid:    '' @ (if it_rpki_valid t \<noteq> 0 then ''YES'' else ''NO''),
      ''RPKI invalid:  '' @ (if it_rpki_invalid t \<noteq> 0 then ''YES'' else ''NO''),
      [],
      ''--- IPv6 ---'',
      ''IPv6:          '' @ (if it_ipv6_enabled t \<noteq> 0 then ''ENABLED'' else ''NOT READY''),
      [],
      ''--- PON ---'',
      ''LOS:           '' @ (if it_pon_los t \<noteq> 0 then ''YES'' else ''NO''),
      ''Flapping:      '' @ (if it_pon_flapping t \<noteq> 0 then ''YES'' else ''NO''),
      ''ONU errors:    '' @ int_str (it_onu_errors t),
      [],
      ''--- SECURITY ---'',
      ''Management:    '' @ (if it_management_exposed t \<noteq> 0 then ''EXPOSED'' else ''NOT EXPOSED''),
      ''Config change: '' @ (if it_configuration_changed t \<noteq> 0 then ''YES'' else ''NO''),
      ''Certificate:   '' @ (if it_certificate_expired t \<noteq> 0 then ''EXPIRED'' else ''OK''),
      [],
      ''--- INCIDENT ENGINE ---'',
      ''ID:            '' @ ii_incident_id inc,
      ''Severity:      '' @ isp_severity_name (ii_severity inc),
      ''Category:      '' @ ii_category inc,
      ''Origin:        '' @ ii_probable_origin inc,
      ''Evidence:      '' @ ii_evidence inc,
      ''Recommendation:'' @ ii_recommendation inc,
      ''Impact:        '' @ int_str (ii_affected_customers inc) @ '' customers'',
      [],
      ''--- AUTHORIZATION BOUNDARY ---'',
      ''External access:       NOT performed'',
      ''Configuration changes: NOT performed'',
      ''Operator approval:     REQUIRED'',
      [],
      ''STATUS: '' @ isp_verdict (ii_severity inc)]"

section \<open>Cumbia\<close>

definition cumbia_report :: "cumbia_device option \<Rightarrow> cumbia_result option \<Rightarrow> string list" where
  "cumbia_report device result =
     (case (device, result) of
        (Some d, Some r) \<Rightarrow>
     [[],
      ''=== CUMBIA ==='',
      ''Version:       '' @ ''1.0.0'',
      ''Device:        '' @ cd_device_id d,
      ''Type:          '' @ cd_device_type d,
      ''Technology:    '' @ cd_technology d,
      ''Authorized:    '' @ (if cd_authorized d then ''YES'' else ''NO''),
      [],
      ''--- CONNECTIVITY ---'',
      ''Management:    '' @ (if cd_management_reachable d then ''OK'' else ''FAIL''),
      ''IP:            '' @ (if cd_ip_reachable d then ''OK'' else ''FAIL''),
      ''Gateway:       '' @ (if cd_gateway_reachable d then ''OK'' else ''FAIL''),
      ''DNS:           '' @ (if cd_dns_ok d then ''OK'' else ''FAIL''),
      ''IPv4:          '' @ (if cd_ipv4_ok d then ''OK'' else ''FAIL''),
      ''IPv6:          '' @ (if cd_ipv6_ok d then ''OK'' else ''FAIL''),
      ''Routing:       '' @ (if cd_routing_ok d then ''OK'' else ''FAIL''),
      [],
      ''--- ROUTING / SECURITY ---'',
      ''BGP:           '' @ (if cd_bgp_ok d then ''UP'' else ''DOWN''),
      ''RPKI:          '' @ (if cd_rpki_ok d then ''VALID'' else ''CHECK''),
      ''Certificate:   '' @ (if cd_certificate_ok d then ''OK'' else ''FAIL''),
      [],
      ''--- PERFORMANCE ---'',
      ''Latency:       '' @ fmt_f 2 (cd_latency_ms d) @ '' ms'',
      ''Jitter:        '' @ fmt_f 2 (cd_jitter_ms d) @ '' ms'',
      ''Packet loss:   '' @ fmt_f 2 (cd_packet_loss_pct d) @ '' %'',
      [],
      ''--- INCIDENT ENGINE ---'',
      ''ID:            '' @ cr_incident_id r,
      ''Status:        '' @ cumbia_status_name (cr_status r),
      ''Anomalies:     '' @ nat_str (cr_anomaly_count r),
      ''Category:      '' @ cr_category r,
      ''Origin:        '' @ cr_origin r,
      ''Evidence:      '' @ cr_evidence r,
      ''Recommendation:'' @ cr_recommendation r,
      ''Impact:        '' @ int_str (cd_affected_devices d) @ '' devices'',
      [],
      ''--- AUTHORIZATION BOUNDARY ---'',
      ''External access:       NOT performed'',
      ''Configuration changes: NOT performed'',
      ''Operator approval:     REQUIRED'',
      [],
      ''STATUS: '' @ cumbia_status_name (cr_status r)]
      | _ \<Rightarrow> [])"

section \<open>Assurance\<close>

definition assurance_report :: "assurance_observation option \<Rightarrow> assurance_result option \<Rightarrow> string list" where
  "assurance_report observation result =
     (case (observation, result) of
        (Some ob, Some r) \<Rightarrow>
     [[],
      ''=== CHRONO ASSURANCE ENGINE ==='',
      ''Version:             '' @ ''1.0.0'',
      ''Device:              '' @ ao_device_id ob,
      ''Site:                '' @ ao_site_id ob,
      ''Service:             '' @ ao_service_id ob,
      [],
      ''--- ROOT CAUSE ---'',
      ''Status:              '' @ assurance_status_name (ar_status r),
      ''Root cause:          '' @ assurance_root_name (ar_root_cause r),
      ''Category:            '' @ ar_category r,
      ''Origin:              '' @ ar_origin r,
      [],
      ''--- IMPACT ---'',
      ''Affected customers:  '' @ nat_str (ar_affected_customers r),
      ''Affected services:   '' @ nat_str (ar_affected_services r),
      ''SLA at risk:         '' @ (if ar_sla_at_risk r then ''YES'' else ''NO''),
      [],
      ''--- EVIDENCE ---'',
      ''Evidence count:      '' @ nat_str (ar_evidence_count r),
      ''Evidence:            '' @ ar_evidence r,
      [],
      ''--- RECOMMENDATION ---'',
      ar_recommendation r,
      [],
      ''--- CONTROL BOUNDARY ---'',
      ''Operator approval:   '' @ (if ar_requires_operator r then ''REQUIRED'' else ''NOT REQUIRED''),
      ''Rollback state:      '' @ (if ar_rollback_available r then ''AVAILABLE'' else ''UNAVAILABLE''),
      ''External access:     NOT performed'',
      ''Configuration change:NOT performed'',
      [],
      ''STATUS: '' @ assurance_status_name (ar_status r)]
      | _ \<Rightarrow> [])"

section \<open>CNEM\<close>

fun numbered :: "nat \<Rightarrow> string list \<Rightarrow> string list" where
  "numbered i [] = []"
| "numbered i (e # es) = (CHR ''['' # nat_str i @ ''] '' @ e) # numbered (i + 1) es"

definition cnem_report :: "cnem_incident option \<Rightarrow> string list" where
  "cnem_report incident =
     (case incident of
        None \<Rightarrow> []
      | Some inc \<Rightarrow>
     [[],
      ''=== CHRONO NETWORK EVENT MODEL ==='',
      ''Version:             '' @ ''1.0.0'',
      ''Incident:            '' @ ci_incident_id inc,
      ''Severity:            '' @ cnem_severity_name (ci_severity inc),
      ''Domain:              '' @ cnem_domain_name (ci_domain inc),
      [],
      ''--- ROOT CAUSE ---'',
      ''Root cause:          '' @ ci_root_cause inc,
      ''Category:            '' @ ci_category inc,
      ''Origin:              '' @ ci_origin inc,
      [],
      ''--- IMPACT ---'',
      ''Affected customers:  '' @ nat_str (ci_affected_customers inc),
      ''Affected devices:    '' @ nat_str (ci_affected_devices inc),
      ''Affected services:   '' @ nat_str (ci_affected_services inc),
      ''SLA at risk:         '' @ (if ci_sla_at_risk inc then ''YES'' else ''NO''),
      [],
      ''--- EVIDENCE ---'',
      ''Evidence count:      '' @ nat_str (length (ci_evidence inc))] @
      numbered 1 (ci_evidence inc) @
     [[],
      ''--- CONTROL ---'',
      ''Operator approval:   '' @ (if ci_operator_approval_required inc then ''REQUIRED'' else ''NOT REQUIRED'')])"

section \<open>What the last line says\<close>

text \<open>The ISP report ends with \<open>OPERATIONAL\<close> exactly for the telemetry that the analysis finds healthy.\<close>

lemma isp_report_verdict:
  "isp_analyze (Some t) = (rc, Some inc) \<Longrightarrow> last (isp_report t inc) = ''STATUS: OPERATIONAL'' \<longleftrightarrow> rc = 0"
  by (auto simp: isp_report_def isp_analyze_def isp_network_checks_def isp_fill_def Let_def split: if_splits)

lemma cumbia_online_iff:
  assumes "cumbia_analyze (Some d) = Some r" shows "cr_status r = CUMBIA_ONLINE \<longleftrightarrow> cr_anomaly_count r = 0"
proof (cases "cumbia_reachable d")
  case True
  have "cumbia_validate (Some d)" using assms by (auto simp: cumbia_analyze_def split: if_splits)
  from cumbia_analyze_reachable [OF this True] assms
  have *: "cr_anomaly_count r = length (cumbia_findings d)" "cr_status r = (if cumbia_findings d = [] then CUMBIA_ONLINE else fst (last (cumbia_findings d)))"
    by (auto split: if_splits) (metis fst_conv)
  have "f \<in> set (cumbia_findings d) \<Longrightarrow> fst f \<noteq> CUMBIA_ONLINE" for f
    by (auto simp: cumbia_findings_def split: if_splits)
  then have "cumbia_findings d \<noteq> [] \<Longrightarrow> fst (last (cumbia_findings d)) \<noteq> CUMBIA_ONLINE" by simp
  with * show ?thesis by auto
next
  case False
  with assms show ?thesis
    by (auto simp: cumbia_analyze_def cumbia_reachable_def cumbia_no_anomaly_def cumbia_note_def Let_def split: if_splits)
qed

text \<open>The Cumbia report of an analysed device ends with \<open>ONLINE\<close> exactly when no anomaly was counted.\<close>

lemma cumbia_report_verdict:
  "cumbia_analyze (Some d) = Some r \<Longrightarrow> last (cumbia_report (Some d) (Some r)) = ''STATUS: ONLINE'' \<longleftrightarrow> cr_anomaly_count r = 0"
  using cumbia_online_iff [of d r] by (cases "cr_status r") (simp_all add: cumbia_report_def)

text \<open>Every piece of evidence of a CNEM incident is printed with its number.\<close>

lemma numbered_nth: "i < length es \<Longrightarrow> numbered k es ! i = CHR ''['' # nat_str (k + i) @ ''] '' @ es ! i"
  by (induction k es arbitrary: i rule: numbered.induct) (auto simp: nth_Cons split: nat.splits)

lemma length_numbered [simp]: "length (numbered k es) = length es"
  by (induction k es rule: numbered.induct) auto

end
