(* ===== verification/FloatArith.thy ===== *)
theory FloatArith
  imports CFloat
begin

text \<open>
  Arithmetic in a binary format, every operation rounded to nearest once, as a compiler for SSE or AArch64 does without contracting
  expressions. Zeros carry their sign, infinities and NaNs propagate; the sign of a NaN made by an operation depends on the
  processor, here it is set. Finite numbers are reasoned about through their values: \<open>d_val\<close> of a result is the
  rounded value (\<open>rnd\<close>), rounding is monotone and fixes the numbers of the format, so that a range of numbers of the format
  bounds the result of an operation as it bounds the exact one (\<open>ranged\<close>).
\<close>

section \<open>Operations\<close>

fun d_signbit :: "double \<Rightarrow> bool" where
  "d_signbit (DNum q) \<longleftrightarrow> q < 0"
| "d_signbit DNegZero \<longleftrightarrow> True"
| "d_signbit (DInf s) \<longleftrightarrow> s"
| "d_signbit (DNaN s) \<longleftrightarrow> s"

fun d_neg :: "double \<Rightarrow> double" where
  "d_neg (DNum q) = (if q = 0 then DNegZero else DNum (- q))"
| "d_neg DNegZero = DNum 0"
| "d_neg (DInf s) = DInf (\<not> s)"
| "d_neg (DNaN s) = DNaN (\<not> s)"

fun d_fin :: "double \<Rightarrow> bool" where
  "d_fin (DNum _) = True"
| "d_fin DNegZero = True"
| "d_fin _ = False"

fun d_val :: "double \<Rightarrow> rat" where
  "d_val (DNum q) = q"
| "d_val _ = 0"

fun d_add :: "fformat \<Rightarrow> double \<Rightarrow> double \<Rightarrow> double" where
  "d_add f (DNaN s) _ = DNaN s"
| "d_add f _ (DNaN s) = DNaN s"
| "d_add f (DInf s) (DInf t) = (if s = t then DInf s else DNaN True)"
| "d_add f (DInf s) _ = DInf s"
| "d_add f _ (DInf t) = DInf t"
| "d_add f DNegZero DNegZero = DNegZero"
| "d_add f x y = (let s = d_val x + d_val y in fl f (s < 0) \<bar>s\<bar>)"

definition d_sub :: "fformat \<Rightarrow> double \<Rightarrow> double \<Rightarrow> double" where
  "d_sub f x y = (if d_nan y then d_add f x y else d_add f x (d_neg y))"

definition d_mul :: "fformat \<Rightarrow> double \<Rightarrow> double \<Rightarrow> double" where
  "d_mul f x y =
     (let neg = (d_signbit x \<noteq> d_signbit y) in
      if d_nan x then x else if d_nan y then y
      else if d_fin x \<and> d_fin y then fl f neg \<bar>d_val x * d_val y\<bar>
      else if (d_fin x \<and> d_val x = 0) \<or> (d_fin y \<and> d_val y = 0) then DNaN True
      else DInf neg)"

definition d_div :: "fformat \<Rightarrow> double \<Rightarrow> double \<Rightarrow> double" where
  "d_div f x y =
     (let neg = (d_signbit x \<noteq> d_signbit y) in
      if d_nan x then x else if d_nan y then y
      else if d_fin x \<and> d_fin y then
        (if d_val y = 0 then (if d_val x = 0 then DNaN True else DInf neg) else fl f neg \<bar>d_val x / d_val y\<bar>)
      else if d_fin y then DInf neg
      else if d_fin x then (if neg then DNegZero else DNum 0)
      else DNaN True)"

definition d_const :: "fformat \<Rightarrow> rat \<Rightarrow> double" where
  \<comment> \<open>a constant of the format, or an integer converted to it\<close>
  "d_const f q = fl f (q < 0) \<bar>q\<bar>"

definition d_trunc :: "double \<Rightarrow> int" where
  \<comment> \<open>the conversion to \<open>int\<close>; what is out of range gives the least integer, as the processor has it\<close>
  "d_trunc x =
     (let n = (if d_val x < 0 then \<lceil>d_val x\<rceil> else \<lfloor>d_val x\<rfloor>) in
      if d_fin x \<and> - (2 ^ 31) \<le> n \<and> n < 2 ^ 31 then n else - (2 ^ 31))"

section \<open>Rounding is monotone\<close>

lemma ulp_nonneg [simp]: "0 \<le> ulp f q"
  by (rule less_imp_le [OF ulp_pos])

lemma round_even_mono: "p \<le> q \<Longrightarrow> round_even p \<le> round_even q"
proof -
  assume "p \<le> q"
  then have fl: "\<lfloor>p\<rfloor> \<le> \<lfloor>q\<rfloor>" by (rule floor_mono)
  show ?thesis
  proof (cases "\<lfloor>p\<rfloor> = \<lfloor>q\<rfloor>")
    case True
    then have "p - of_int \<lfloor>p\<rfloor> \<le> q - of_int \<lfloor>q\<rfloor>" using \<open>p \<le> q\<close> by simp
    then show ?thesis using True unfolding round_even_def Let_def by auto
  next
    case False
    then have "\<lfloor>p\<rfloor> + 1 \<le> \<lfloor>q\<rfloor>" using fl by simp
    moreover have "round_even p \<le> \<lfloor>p\<rfloor> + 1" "\<lfloor>q\<rfloor> \<le> round_even q" by (simp_all add: round_even_def Let_def)
    ultimately show ?thesis by simp
  qed
qed

lemma ilog2_mono:
  assumes "0 < p" and "p \<le> q" shows "ilog2 p \<le> ilog2 q"
proof -
  have "(2 :: rat) powi ilog2 p < 2 powi (ilog2 q + 1)"
    using ilog2_bounds(1) [OF assms(1)] ilog2_bounds(2) [of q] assms by linarith
  from powi_less [OF this] show ?thesis by simp
qed

text \<open>A multiple of a power of two with few enough bits is a number of the format.\<close>

lemma round_mag_multiple:
  assumes q: "0 < q" "q = of_int m * 2 powi k" and m: "m \<le> 2 ^ ff_prec f" and k: "ff_emin f - int (ff_prec f) + 1 \<le> k" and p: "0 < ff_prec f"
  shows "round_mag f q = q"
proof -
  have fits: "round_mag f q = q" if q': "q = of_int n * 2 powi j" and n: "n < 2 ^ ff_prec f" and j: "ff_emin f - int (ff_prec f) + 1 \<le> j" for n j
  proof -
    have "(of_int n :: rat) < of_int (2 ^ ff_prec f)" using n unfolding of_int_less_iff .
    then have "(of_int n :: rat) < 2 powi int (ff_prec f)" by simp
    then have "q < 2 powi int (ff_prec f) * 2 powi j" unfolding q' by (rule mult_strict_right_mono) simp
    also have "\<dots> = 2 powi (int (ff_prec f) + j)" by (simp add: power_int_add)
    finally have "(2 :: rat) powi ilog2 q < 2 powi (int (ff_prec f) + j)" using ilog2_bounds(1) [OF q(1)] by simp
    from powi_less [OF this] have "max (ilog2 q) (ff_emin f) - int (ff_prec f) + 1 \<le> j" using j by simp
    then obtain i where i: "j = max (ilog2 q) (ff_emin f) - int (ff_prec f) + 1 + int i" using zle_iff_zadd by auto
    have "(2 :: rat) powi j = 2 ^ i * ulp f q" unfolding i ulp_def by (subst power_int_add) simp_all
    then have "q = of_int (n * 2 ^ i) * ulp f q" unfolding q' by simp
    then show ?thesis by (rule round_mag_exact)
  qed
  show ?thesis
  proof (cases "m = 2 ^ ff_prec f")
    case False
    then show ?thesis using fits [OF q(2) _ k] m by simp
  next
    case True
    obtain r where r: "ff_prec f = Suc r" using p by (cases "ff_prec f") auto
    have "(2 :: rat) powi (k + 1) = 2 * 2 powi k" by (simp add: power_int_add)
    then have "q = of_int (2 ^ r) * 2 powi (k + 1)" using q(2) True r by simp
    then show ?thesis using fits [of "2 ^ r" "k + 1"] k r by simp
  qed
qed

lemma scaled_below:
  assumes "0 < q" and "0 < ff_prec f" shows "0 < q / ulp f q" and "q / ulp f q < of_int (2 ^ ff_prec f)"
proof -
  show "0 < q / ulp f q" using assms(1) ulp_pos [of f q] by (rule divide_pos_pos)
  let ?e = "max (ilog2 q) (ff_emin f) - int (ff_prec f) + 1"
  have "(2 :: rat) powi (ilog2 q + 1) \<le> 2 powi (int (ff_prec f) + ?e)" by (rule power_int_increasing) auto
  also have "\<dots> = 2 powi int (ff_prec f) * 2 powi ?e" by (rule power_int_add) simp
  also have "\<dots> = 2 ^ ff_prec f * ulp f q" by (simp only: ulp_def power_int_of_nat)
  finally have "q < 2 ^ ff_prec f * ulp f q" using ilog2_bounds(2) [OF assms(1)] by simp
  then show "q / ulp f q < of_int (2 ^ ff_prec f)" using ulp_pos [of f q] by (simp add: divide_less_eq)
qed

lemma round_mag_nonneg: "0 \<le> q \<Longrightarrow> 0 \<le> round_mag f q"
  using round_even_mono [of 0 "q / ulp f q"] round_even_of_int [of 0] ulp_pos [of f q] by (simp add: round_mag_def)

lemma round_mag_idem:
  assumes "0 < q" and "0 < ff_prec f" shows "round_mag f q = 0 \<or> round_mag f (round_mag f q) = round_mag f q"
proof (cases "round_mag f q = 0")
  case False
  then have pos: "0 < round_mag f q" using round_mag_nonneg [of q f] assms(1) by simp
  have "round_even (q / ulp f q) \<le> 2 ^ ff_prec f"
    using round_even_mono [OF less_imp_le [OF scaled_below(2) [OF assms]]] unfolding round_even_of_int .
  moreover have "round_mag f q = of_int (round_even (q / ulp f q)) * 2 powi (max (ilog2 q) (ff_emin f) - int (ff_prec f) + 1)"
    by (simp add: round_mag_def ulp_def)
  ultimately show ?thesis using round_mag_multiple [OF pos] assms(2) by simp
qed simp

lemma round_mag_mono:
  assumes "0 < p" and "p \<le> q" and f: "0 < ff_prec f" shows "round_mag f p \<le> round_mag f q"
proof (cases "max (ilog2 p) (ff_emin f) = max (ilog2 q) (ff_emin f)")
  case True
  then have u: "ulp f p = ulp f q" by (simp add: ulp_def)
  have "p / ulp f q \<le> q / ulp f q" using assms(2) ulp_pos [of f q] by (intro divide_right_mono) auto
  then have "round_even (p / ulp f q) \<le> round_even (q / ulp f q)" by (rule round_even_mono)
  then show ?thesis unfolding round_mag_def u using ulp_pos [of f q] by (intro mult_right_mono) auto
next
  case False
  have q: "0 < q" using assms by simp
  have "ilog2 p \<le> ilog2 q" by (rule ilog2_mono [OF assms(1,2)])
  then have e: "ff_emin f < ilog2 q" "ilog2 p < ilog2 q" using False by (auto simp: max_def split: if_splits)
  define B where "B = (2 :: rat) powi ilog2 q"
  have lo: "p < B"
  proof -
    have "p < 2 powi (ilog2 p + 1)" by (rule ilog2_bounds(2) [OF assms(1)])
    also have "(2 :: rat) powi (ilog2 p + 1) \<le> B" unfolding B_def using e by (intro power_int_increasing) auto
    finally show ?thesis .
  qed
  have hi: "B \<le> q" unfolding B_def by (rule ilog2_bounds(1) [OF q])
  have at: "\<exists>n. B = of_int n * ulp f x" if "0 < x" "x \<le> q" for x
  proof -
    have "max (ilog2 x) (ff_emin f) - int (ff_prec f) + 1 \<le> ilog2 q" using ilog2_mono [OF that] e f by auto
    then obtain i where i: "ilog2 q = max (ilog2 x) (ff_emin f) - int (ff_prec f) + 1 + int i" using zle_iff_zadd by auto
    have "B = 2 ^ i * ulp f x" unfolding B_def i ulp_def by (subst power_int_add) simp_all
    then have "B = of_int (2 ^ i) * ulp f x" by simp
    then show ?thesis ..
  qed
  obtain n where n: "B = of_int n * ulp f p" using at assms by blast
  have "p / ulp f p \<le> of_int n" using lo n ulp_pos [of f p] by (simp add: pos_divide_le_eq)
  then have "round_even (p / ulp f p) \<le> n" using round_even_mono round_even_of_int by metis
  then have A: "round_mag f p \<le> B" unfolding n round_mag_def using ulp_pos [of f p] by (intro mult_right_mono) auto
  obtain k where k: "B = of_int k * ulp f q" using at q by blast
  have "of_int k \<le> q / ulp f q" using hi k ulp_pos [of f q] by (simp add: pos_le_divide_eq)
  then have "k \<le> round_even (q / ulp f q)" using round_even_mono round_even_of_int by metis
  then have "B \<le> round_mag f q" unfolding k round_mag_def using ulp_pos [of f q] by (intro mult_right_mono) auto
  with A show ?thesis by simp
qed

section \<open>Values\<close>

definition rnd :: "fformat \<Rightarrow> rat \<Rightarrow> rat" where
  "rnd f q = (if q = 0 then 0 else if q < 0 then - round_mag f (- q) else round_mag f q)"

lemma rnd_0 [simp]: "rnd f 0 = 0"
  by (simp add: rnd_def)

lemma rnd_neg: "rnd f (- q) = - rnd f q"
  by (auto simp: rnd_def)

lemma rnd_idem: "0 < ff_prec f \<Longrightarrow> rnd f (rnd f q) = rnd f q"
  using round_mag_idem [of q f] round_mag_idem [of "- q" f] round_mag_nonneg [of q f] round_mag_nonneg [of "- q" f]
  by (auto simp: rnd_def)

lemma rnd_mono: "0 < ff_prec f \<Longrightarrow> p \<le> q \<Longrightarrow> rnd f p \<le> rnd f q"
  using round_mag_mono [of p q f] round_mag_mono [of "- q" "- p" f] round_mag_nonneg [of q f] round_mag_nonneg [of "- p" f]
  by (auto simp: rnd_def)

definition rep :: "fformat \<Rightarrow> rat \<Rightarrow> bool" where
  \<comment> \<open>a finite number of the format\<close>
  "rep f q \<longleftrightarrow> rnd f q = q \<and> \<bar>q\<bar> < 2 powi (ff_emax f + 1)"

lemma fl_val:
  assumes "\<bar>rnd f q\<bar> < 2 powi (ff_emax f + 1)" and "q < 0 \<Longrightarrow> neg" and "0 < q \<Longrightarrow> \<not> neg"
  shows "d_fin (fl f neg \<bar>q\<bar>)" and "d_val (fl f neg \<bar>q\<bar>) = rnd f q"
proof -
  have r: "(if \<bar>q\<bar> = 0 then 0 else round_mag f \<bar>q\<bar>) = \<bar>rnd f q\<bar>"
    using round_mag_nonneg [of q f] round_mag_nonneg [of "- q" f] by (auto simp: rnd_def)
  have s: "0 \<le> rnd f q" if "0 \<le> q" using that round_mag_nonneg [of q f] by (simp add: rnd_def)
  have t: "rnd f q \<le> 0" if "q \<le> 0" using that round_mag_nonneg [of "- q" f] by (simp add: rnd_def)
  show "d_fin (fl f neg \<bar>q\<bar>)" "d_val (fl f neg \<bar>q\<bar>) = rnd f q"
    unfolding fl_def r Let_def using assms s t by (cases "q < 0"; cases "q = 0"; auto)+
qed

lemma d_add_val:
  assumes "d_fin x" "d_fin y" "\<bar>rnd f (d_val x + d_val y)\<bar> < 2 powi (ff_emax f + 1)"
  shows "d_fin (d_add f x y) \<and> d_val (d_add f x y) = rnd f (d_val x + d_val y)"
  using assms fl_val [of f "d_val x + d_val y" "d_val x + d_val y < 0"]
  by (cases x; cases y) (simp_all add: Let_def del: abs_of_nonneg abs_of_neg)

lemma d_mul_val:
  assumes "d_fin x" "d_fin y" "\<bar>rnd f (d_val x * d_val y)\<bar> < 2 powi (ff_emax f + 1)"
  shows "d_fin (d_mul f x y) \<and> d_val (d_mul f x y) = rnd f (d_val x * d_val y)"
proof -
  have nan: "\<not> d_nan x" "\<not> d_nan y" using assms by (cases x; cases y; simp)+
  have "d_val x * d_val y < 0 \<Longrightarrow> d_signbit x \<noteq> d_signbit y" "0 < d_val x * d_val y \<Longrightarrow> \<not> (d_signbit x \<noteq> d_signbit y)"
    by (cases x; cases y; auto simp: mult_less_0_iff zero_less_mult_iff)+
  from fl_val [OF assms(3) this] show ?thesis using assms nan by (simp add: d_mul_def Let_def del: abs_mult)
qed

lemma d_div_val:
  assumes "d_fin x" "d_fin y" "d_val y \<noteq> 0" "\<bar>rnd f (d_val x / d_val y)\<bar> < 2 powi (ff_emax f + 1)"
  shows "d_fin (d_div f x y) \<and> d_val (d_div f x y) = rnd f (d_val x / d_val y)"
proof -
  have nan: "\<not> d_nan x" "\<not> d_nan y" using assms by (cases x; cases y; simp)+
  have "d_val x / d_val y < 0 \<Longrightarrow> d_signbit x \<noteq> d_signbit y" "0 < d_val x / d_val y \<Longrightarrow> \<not> (d_signbit x \<noteq> d_signbit y)"
    by (cases x; cases y; auto simp: divide_less_0_iff zero_less_divide_iff)+
  from fl_val [OF assms(4) this] show ?thesis using assms nan by (simp add: d_div_def Let_def del: abs_divide)
qed

lemma d_neg_val: "d_fin x \<Longrightarrow> d_fin (d_neg x) \<and> d_val (d_neg x) = - d_val x"
  by (cases x) auto

lemma d_lt_val: "d_fin x \<Longrightarrow> d_fin y \<Longrightarrow> d_lt x y \<longleftrightarrow> d_val x < d_val y"
  by (cases x; cases y) auto

lemma d_ge_val: "d_fin x \<Longrightarrow> d_fin y \<Longrightarrow> d_ge x y \<longleftrightarrow> d_val y \<le> d_val x"
  by (cases x; cases y) (auto simp: d_ge_def)

section \<open>Ranges\<close>

definition ranged :: "fformat \<Rightarrow> rat \<Rightarrow> rat \<Rightarrow> double \<Rightarrow> bool" where
  \<comment> \<open>a finite number of the format between two values\<close>
  "ranged f lo hi x \<longleftrightarrow> d_fin x \<and> rep f (d_val x) \<and> lo \<le> d_val x \<and> d_val x \<le> hi"

lemma ranged_weaken: "ranged f a b x \<Longrightarrow> lo \<le> a \<Longrightarrow> b \<le> hi \<Longrightarrow> ranged f lo hi x"
  by (auto simp: ranged_def)

lemma rnd_between:
  assumes "0 < ff_prec f" "rep f lo" "rep f hi" "lo \<le> q" "q \<le> hi"
  shows "lo \<le> rnd f q" and "rnd f q \<le> hi" and "rep f (rnd f q)"
proof -
  show b: "lo \<le> rnd f q" "rnd f q \<le> hi"
    using rnd_mono [OF assms(1,4)] rnd_mono [OF assms(1,5)] assms(2,3) by (simp_all add: rep_def)
  then show "rep f (rnd f q)" using assms(2,3) by (auto simp: rep_def rnd_idem [OF assms(1)])
qed

lemma rep_limit: "rep f q \<Longrightarrow> \<bar>q\<bar> < 2 powi (ff_emax f + 1)"
  by (simp add: rep_def)

lemma ranged_add:
  assumes "ranged f a b x" "ranged f c d y" "0 < ff_prec f" "rep f lo" "rep f hi" "lo \<le> a + c" "b + d \<le> hi"
  shows "ranged f lo hi (d_add f x y)"
proof -
  have "lo \<le> d_val x + d_val y" "d_val x + d_val y \<le> hi" using assms by (auto simp: ranged_def)
  note r = rnd_between [OF assms(3-5) this]
  then show ?thesis using d_add_val [of x y f] rep_limit [OF r(3)] assms(1,2) by (auto simp: ranged_def)
qed

lemma rep_neg [simp]: "rep f (- q) \<longleftrightarrow> rep f q"
  by (simp add: rep_def rnd_neg)

lemma ranged_neg: "ranged f a b x \<Longrightarrow> ranged f (- b) (- a) (d_neg x)"
  using d_neg_val [of x] by (auto simp: ranged_def)

lemma ranged_sub:
  assumes "ranged f a b x" "ranged f c d y" "0 < ff_prec f" "rep f lo" "rep f hi" "lo \<le> a - d" "b - c \<le> hi"
  shows "ranged f lo hi (d_sub f x y)"
proof -
  have "\<not> d_nan y" using assms(2) by (cases y) (auto simp: ranged_def)
  then show ?thesis using ranged_add [OF assms(1) ranged_neg [OF assms(2)] assms(3-5)] assms(6,7) by (simp add: d_sub_def)
qed

lemma ranged_mul:
  assumes "ranged f 0 b x" "ranged f 0 d y" "0 < ff_prec f" "rep f hi" "b * d \<le> hi"
  shows "ranged f 0 hi (d_mul f x y)"
proof -
  have v: "0 \<le> d_val x * d_val y" "d_val x * d_val y \<le> hi"
  proof -
    show "0 \<le> d_val x * d_val y" using assms(1,2) by (auto simp: ranged_def)
    have "d_val x * d_val y \<le> b * d" using assms(1,2) by (intro mult_mono) (auto simp: ranged_def)
    then show "d_val x * d_val y \<le> hi" using assms(5) by simp
  qed
  have "rep f 0" by (simp add: rep_def)
  note r = rnd_between [OF assms(3) this assms(4) v]
  then show ?thesis using d_mul_val [of x y f] rep_limit [OF r(3)] assms(1,2) by (auto simp: ranged_def)
qed

lemma ranged_mul_signed:
  assumes "ranged f (- b) b x" "ranged f (- d) d y" "0 < ff_prec f" "rep f hi" "b * d \<le> hi"
  shows "ranged f (- hi) hi (d_mul f x y)"
proof -
  have "\<bar>d_val x * d_val y\<bar> \<le> b * d"
    unfolding abs_mult using assms(1,2) by (intro mult_mono) (auto simp: ranged_def abs_le_iff)
  then have v: "- hi \<le> d_val x * d_val y" "d_val x * d_val y \<le> hi" using assms(5) by (auto simp: abs_le_iff)
  have "rep f (- hi)" using assms(4) by simp
  note r = rnd_between [OF assms(3) this assms(4) v]
  then show ?thesis using d_mul_val [of x y f] rep_limit [OF r(3)] assms(1,2) by (auto simp: ranged_def)
qed

lemma ranged_div_unit:
  assumes "ranged f 0 b x" "ranged f c d y" "0 < ff_prec f" "rep f 1" "d_val x \<le> d_val y" "0 < c"
  shows "ranged f 0 1 (d_div f x y)"
proof -
  have y: "0 < d_val y" using assms(2,6) by (simp add: ranged_def)
  then have v: "0 \<le> d_val x / d_val y" "d_val x / d_val y \<le> 1" using assms(1,5) by (auto simp: ranged_def)
  have "rep f 0" by (simp add: rep_def)
  note r = rnd_between [OF assms(3) this assms(4) v]
  then show ?thesis using d_div_val [of x y f] rep_limit [OF r(3)] assms(1,2) y by (auto simp: ranged_def)
qed

lemma ranged_const:
  assumes "0 < ff_prec f" "rep f lo" "rep f hi" "lo \<le> q" "q \<le> hi" shows "ranged f lo hi (d_const f q)"
proof -
  note r = rnd_between [OF assms]
  show ?thesis using fl_val [of f q "q < 0"] r rep_limit [OF r(3)] by (auto simp: ranged_def d_const_def)
qed

text \<open>The numbers that bound things: fractions of small powers of two.\<close>

lemma rep_small:
  assumes "\<bar>m\<bar> \<le> 2 ^ ff_prec f" "0 < ff_prec f" "ff_emin f - int (ff_prec f) + 1 \<le> - int k" "int (ff_prec f) \<le> ff_emax f"
  shows "rep f (of_int m / 2 ^ k)"
proof -
  have "rep f (of_int n / 2 ^ k)" if n: "0 < n" "n \<le> 2 ^ ff_prec f" for n
  proof -
    let ?q = "of_int n / 2 ^ k :: rat"
    have pos: "0 < ?q" using n by simp
    have "?q = of_int n * 2 powi (- int k)" by (simp add: power_int_minus divide_inverse)
    then have "round_mag f ?q = ?q" using round_mag_multiple [OF pos] n assms by simp
    moreover have "\<bar>?q\<bar> < 2 powi (ff_emax f + 1)"
    proof -
      have "\<bar>?q\<bar> \<le> of_int n" using n by (simp add: divide_le_eq)
      also have "(of_int n :: rat) \<le> of_int (2 ^ ff_prec f)" using n unfolding of_int_le_iff by simp
      also have "\<dots> = 2 powi int (ff_prec f)" by simp
      also have "(2 :: rat) powi int (ff_prec f) < 2 powi (ff_emax f + 1)" using assms by (intro power_int_strict_increasing) simp_all
      finally show ?thesis .
    qed
    ultimately show ?thesis using pos by (simp add: rep_def rnd_def)
  qed
  from this [of m] this [of "- m"] rep_neg [of f "of_int m / 2 ^ k"] show ?thesis
    using assms(1) by (cases m "0 :: int" rule: linorder_cases) (auto simp: rep_def)
qed

lemma rep_single: "\<bar>m\<bar> \<le> 2 ^ 24 \<Longrightarrow> k \<le> 149 \<Longrightarrow> rep binary32 (of_int m / 2 ^ k)"
  by (rule rep_small) auto

lemma rep_power:
  assumes "0 < ff_prec f" "ff_emin f - int (ff_prec f) + 1 \<le> int k" "int k \<le> ff_emax f" shows "rep f (2 ^ k)"
proof -
  have "(2 :: int) ^ 0 \<le> 2 ^ ff_prec f" by (rule power_increasing) simp_all
  then have "round_mag f (2 ^ k) = 2 ^ k" using assms by (intro round_mag_multiple [of _ 1 "int k"]) simp_all
  moreover have "(2 :: rat) powi int k < 2 powi (ff_emax f + 1)" using assms(3) by (intro power_int_strict_increasing) simp_all
  ultimately show ?thesis by (simp add: rep_def rnd_def)
qed

lemma rep_single_int: "\<bar>m\<bar> \<le> 2 ^ 24 \<Longrightarrow> rep binary32 (of_int m)"
  using rep_single [of m 0] by simp

lemma rep_single_num [simp]: "numeral n \<le> (2 ^ 24 :: int) \<Longrightarrow> rep binary32 (numeral n)"
  "rep binary32 0" "rep binary32 1" "rep binary32 (1 / 2)"
  using rep_single_int [of "numeral n"] rep_single_int [of 0] rep_single_int [of 1] rep_single [of 1 1] by auto

lemma ranged_trunc:
  assumes "ranged f 0 (of_int n) x" "n < 2 ^ 31" shows "0 \<le> d_trunc x" and "d_trunc x \<le> n"
proof -
  have v: "0 \<le> d_val x" "d_val x \<le> of_int n" "d_fin x" using assms by (auto simp: ranged_def)
  then have "0 \<le> \<lfloor>d_val x\<rfloor>" "\<lfloor>d_val x\<rfloor> \<le> n" by (auto simp: floor_le_iff)
  then have "d_trunc x = \<lfloor>d_val x\<rfloor>" using v assms(2) by (simp add: d_trunc_def Let_def)
  then show "0 \<le> d_trunc x" "d_trunc x \<le> n" using \<open>0 \<le> \<lfloor>d_val x\<rfloor>\<close> \<open>\<lfloor>d_val x\<rfloor> \<le> n\<close> by simp_all
qed

end
