(* ===== verification/SyntheticLife.thy ===== *)
theory SyntheticLife
  imports FloatArith Files "HOL-Library.Signed_Division"
begin

text \<open>
  \<open>core/entity/chrono_synthetic_life.c\<close>: a population of entities with a genome of eight numbers on a torus of resources. Numbers are
  single precision, every operation rounded once. \<open>rand()\<close> is a stream of numbers: each function takes the index of the next call
  and gives back the index after its last one, so that the order of the calls is the order of the source. The population is an array of
  500 elements with the number of those in use. C leaves open in which order the arguments of the first \<open>entity_spawn\<close> are
  evaluated, three of which call \<open>rand()\<close>: the order is a parameter, \<open>spawn_order\<close>. Every sum of integers of this program is bounded (\<open>life_population_ok\<close>), so integers are
  not wrapped.
\<close>

definition WORLD_SIZE :: nat where "WORLD_SIZE = 32"
definition MAX_ENTITIES :: nat where "MAX_ENTITIES = 500"
definition NUM_GENES :: nat where "NUM_GENES = 8"
definition GEN_LOG :: string where "GEN_LOG = ''./var/logs/evolution_log.csv''"
definition RAND_MAX :: nat where "RAND_MAX = 2147483647"

abbreviation fadd :: "double \<Rightarrow> double \<Rightarrow> double" where "fadd \<equiv> d_add binary32"
abbreviation fsub :: "double \<Rightarrow> double \<Rightarrow> double" where "fsub \<equiv> d_sub binary32"
abbreviation fmul :: "double \<Rightarrow> double \<Rightarrow> double" where "fmul \<equiv> d_mul binary32"
abbreviation fdiv :: "double \<Rightarrow> double \<Rightarrow> double" where "fdiv \<equiv> d_div binary32"
abbreviation fconst :: "rat \<Rightarrow> double" where "fconst \<equiv> d_const binary32"

type_synonym rng = "nat \<Rightarrow> nat"
type_synonym world = "double list list"

record genome =
  metabolism_eff :: double
  move_speed :: double
  sensor_range :: double
  aggression :: double
  repro_threshold :: double
  lifespan_gene :: double
  mutation_rate :: double
  social_gene :: double

record life_entity =
  le_genes :: genome
  le_energy :: double
  le_x :: int
  le_y :: int
  le_age :: int
  le_alive :: bool
  le_id :: nat           \<comment> \<open>\<open>unsigned long\<close>\<close>
  le_parent :: nat
  le_generation :: int

section \<open>Numbers and the world\<close>

definition c_rand :: "rng \<Rightarrow> nat \<Rightarrow> nat" where
  "c_rand r k = r k mod (RAND_MAX + 1)"

definition randf :: "rng \<Rightarrow> nat \<Rightarrow> double" where
  "randf r k = fdiv (fconst (of_nat (c_rand r k))) (fconst (of_nat RAND_MAX))"

definition clampf :: "double \<Rightarrow> double \<Rightarrow> double \<Rightarrow> double" where
  "clampf v lo hi = (if d_lt v lo then lo else if d_gt v hi then hi else v)"

definition world_init :: "rng \<Rightarrow> nat \<Rightarrow> world \<times> nat" where
  "world_init r k =
     (map (\<lambda>i. map (\<lambda>j. fmul (randf r (k + WORLD_SIZE * i + j)) (fconst (1 / 2))) [0..<WORLD_SIZE]) [0..<WORLD_SIZE],
      k + WORLD_SIZE * WORLD_SIZE)"

definition world_regenerate :: "world \<Rightarrow> world" where
  "world_regenerate w = map (map (\<lambda>v. clampf (fadd v (fconst (1 / 100))) (fconst 0) (fconst 1))) w"

definition resource :: "world \<Rightarrow> int \<Rightarrow> int \<Rightarrow> double" where
  "resource w x y = w ! nat x ! nat y"

definition set_resource :: "world \<Rightarrow> int \<Rightarrow> int \<Rightarrow> double \<Rightarrow> world" where
  "set_resource w x y v = w[nat x := (w ! nat x)[nat y := v]]"

section \<open>Genomes\<close>

definition genome_fields :: "genome \<Rightarrow> double list" where
  \<comment> \<open>the order of the arrays of pointers\<close>
  "genome_fields g = [metabolism_eff g, move_speed g, sensor_range g, aggression g, repro_threshold g, lifespan_gene g, mutation_rate g, social_gene g]"

definition genome_of :: "double list \<Rightarrow> genome" where
  "genome_of fs = \<lparr>metabolism_eff = fs ! 0, move_speed = fs ! 1, sensor_range = fs ! 2, aggression = fs ! 3, repro_threshold = fs ! 4,
     lifespan_gene = fs ! 5, mutation_rate = fs ! 6, social_gene = fs ! 7\<rparr>"

definition genome_random :: "rng \<Rightarrow> nat \<Rightarrow> genome \<times> nat" where
  "genome_random r k =
     (\<lparr>metabolism_eff = randf r k, move_speed = randf r (k + 1), sensor_range = randf r (k + 2), aggression = randf r (k + 3),
       repro_threshold = fadd (fconst (1 / 2)) (fmul (randf r (k + 4)) (fconst (1 / 2))), lifespan_gene = randf r (k + 5),
       mutation_rate = fadd (fconst (1 / 100)) (fmul (randf r (k + 6)) (fconst (9 / 100))), social_gene = randf r (k + 7)\<rparr>,
      k + 8)"

fun mutate_fields :: "rng \<Rightarrow> double \<Rightarrow> nat \<Rightarrow> double list \<Rightarrow> double list \<times> nat" where
  "mutate_fields r rate k [] = ([], k)"
| "mutate_fields r rate k (v # vs) =
     (if d_lt (randf r k) rate then
        let v' = clampf (fadd v (fmul (fsub (randf r (k + 1)) (fconst (1 / 2))) (fconst (3 / 10)))) (fconst 0) (fconst 1);
            (vs', k') = mutate_fields r rate (k + 2) vs in (v' # vs', k')
      else
        let (vs', k') = mutate_fields r rate (k + 1) vs in (v # vs', k'))"

definition genome_mutate :: "rng \<Rightarrow> nat \<Rightarrow> genome \<Rightarrow> genome \<times> nat" where
  "genome_mutate r k parent =
     (let (fs, k') = mutate_fields r (mutation_rate parent) k (genome_fields parent) in (genome_of fs, k'))"

definition genome_crossover :: "rng \<Rightarrow> nat \<Rightarrow> genome \<Rightarrow> genome \<Rightarrow> genome \<times> nat" where
  "genome_crossover r k a b =
     (genome_of (map (\<lambda>i. if d_lt (randf r (k + i)) (fconst (1 / 2)) then genome_fields a ! i else genome_fields b ! i) [0..<NUM_GENES]),
      k + NUM_GENES)"

section \<open>Entities\<close>

definition entity_spawn :: "nat \<Rightarrow> genome \<Rightarrow> int \<Rightarrow> int \<Rightarrow> nat \<Rightarrow> int \<Rightarrow> life_entity \<times> nat" where
  \<comment> \<open>the new entity and the next value of \<open>next_id\<close>\<close>
  "entity_spawn next_id g x y parent_id gen =
     (\<lparr>le_genes = g, le_energy = fconst (1 / 2), le_x = x, le_y = y, le_age = 0, le_alive = True, le_id = next_id,
       le_parent = parent_id, le_generation = gen\<rparr>, (next_id + 1) mod 2 ^ 64)"

definition wrap_coord :: "int \<Rightarrow> int" where
  "wrap_coord v = (v smod int WORLD_SIZE + int WORLD_SIZE) smod int WORLD_SIZE"

definition look_at :: "world \<Rightarrow> life_entity \<Rightarrow> int \<times> int \<times> double \<Rightarrow> int \<times> int \<Rightarrow> int \<times> int \<times> double" where
  \<comment> \<open>the body of the two loops over \<open>dx\<close> and \<open>dy\<close>\<close>
  "look_at w e = (\<lambda>(best_x, best_y, best_val) (dx, dy).
     let nx = wrap_coord (le_x e + dx); ny = wrap_coord (le_y e + dy) in
     if d_gt (resource w nx ny) best_val then (nx, ny, resource w nx ny) else (best_x, best_y, best_val))"

definition look_around :: "life_entity \<Rightarrow> world \<Rightarrow> int \<times> int" where
  "look_around e w =
     (let range = 1 + d_trunc (fmul (sensor_range (le_genes e)) (fconst 3));
          (best_x, best_y, best_val) =
            foldl (look_at w e) (le_x e, le_y e, resource w (le_x e) (le_y e)) (List.product [- range..range] [- range..range]) in
      (best_x, best_y))"

definition entity_step :: "life_entity \<Rightarrow> world \<Rightarrow> life_entity \<times> world" where
  "entity_step e w =
     (if \<not> le_alive e then (e, w)
      else
        let (best_x, best_y) = look_around e w;
            move_cost = fadd (fconst (1 / 100)) (fmul (move_speed (le_genes e)) (fconst (2 / 100)));
            e = (if best_x \<noteq> le_x e \<or> best_y \<noteq> le_y e then e\<lparr>le_x := best_x, le_y := best_y, le_energy := fsub (le_energy e) move_cost\<rparr> else e);
            consumed = fmul (resource w (le_x e) (le_y e)) (metabolism_eff (le_genes e));
            e = e\<lparr>le_energy := fadd (le_energy e) consumed\<rparr>;
            w = set_resource w (le_x e) (le_y e) (fsub (resource w (le_x e) (le_y e)) consumed);
            e = e\<lparr>le_energy := fsub (le_energy e) (fconst (15 / 1000)), le_age := le_age e + 1\<rparr>;
            max_age = 50 + d_trunc (fmul (lifespan_gene (le_genes e)) (fconst 150)) in
        (if d_ge (fconst 0) (le_energy e) \<or> le_age e > max_age then e\<lparr>le_alive := False\<rparr> else e, w))"

definition entity_can_reproduce :: "life_entity \<Rightarrow> bool" where
  "entity_can_reproduce e \<longleftrightarrow> le_alive e \<and> d_ge (le_energy e) (repro_threshold (le_genes e))"

section \<open>One tick\<close>

record life_sim =
  ls_world :: world
  ls_pop :: "life_entity list"
  ls_size :: nat
  ls_next_id :: nat
  ls_rand :: nat

definition step_at :: "nat \<Rightarrow> life_entity list \<times> world \<Rightarrow> life_entity list \<times> world" where
  "step_at i = (\<lambda>(pop, w). let (e, w') = entity_step (pop ! i) w in (pop[i := e], w'))"

definition step_all :: "life_sim \<Rightarrow> life_sim" where
  "step_all s = (let (pop, w) = fold step_at [0..<ls_size s] (ls_pop s, ls_world s) in s\<lparr>ls_pop := pop, ls_world := w\<rparr>)"

definition child_genome :: "rng \<Rightarrow> life_sim \<Rightarrow> nat \<Rightarrow> genome \<times> nat" where
  "child_genome r s i =
     (let partner = c_rand r (ls_rand s) mod ls_size s; k = ls_rand s + 1;
          (g, k) = (if le_alive (ls_pop s ! partner) \<and> partner \<noteq> i
                    then genome_crossover r k (le_genes (ls_pop s ! i)) (le_genes (ls_pop s ! partner))
                    else (le_genes (ls_pop s ! i), k)) in
      genome_mutate r k g)"

definition birth :: "rng \<Rightarrow> life_sim \<Rightarrow> nat \<Rightarrow> life_sim \<times> life_entity" where
  "birth r s i =
     (let parent = ls_pop s ! i; (g, k) = child_genome r s i;
          (child, next_id) = entity_spawn (ls_next_id s) g (le_x parent) (le_y parent) (le_id parent) (le_generation parent + 1) in
      (s\<lparr>ls_pop := (ls_pop s)[i := parent\<lparr>le_energy := fmul (le_energy parent) (fconst (1 / 2))\<rparr>], ls_next_id := next_id, ls_rand := k\<rparr>,
       child))"

fun reproduce :: "rng \<Rightarrow> nat list \<Rightarrow> life_sim \<Rightarrow> life_entity list \<Rightarrow> life_sim \<times> life_entity list" where
  \<comment> \<open>the indices still to come, and the newborns so far\<close>
  "reproduce r [] s newborns = (s, newborns)"
| "reproduce r (i # is) s newborns =
     (if ls_size s + length newborns < MAX_ENTITIES then
        if entity_can_reproduce (ls_pop s ! i) then (let (s, child) = birth r s i in reproduce r is s (newborns @ [child]))
        else reproduce r is s newborns
      else (s, newborns))"

fun append_newborns :: "life_entity list \<Rightarrow> life_sim \<Rightarrow> life_sim" where
  "append_newborns [] s = s"
| "append_newborns (e # es) s =
     (if ls_size s < MAX_ENTITIES then append_newborns es (s\<lparr>ls_pop := (ls_pop s)[ls_size s := e], ls_size := ls_size s + 1\<rparr>) else s)"

definition keep_alive_at :: "nat \<Rightarrow> life_entity list \<times> nat \<Rightarrow> life_entity list \<times> nat" where
  "keep_alive_at i = (\<lambda>(pop, alive_idx). if le_alive (pop ! i) then (pop[alive_idx := pop ! i], alive_idx + 1) else (pop, alive_idx))"

definition compact_alive :: "life_sim \<Rightarrow> life_sim" where
  "compact_alive s = (let (pop, alive_idx) = fold keep_alive_at [0..<ls_size s] (ls_pop s, 0) in s\<lparr>ls_pop := pop, ls_size := alive_idx\<rparr>)"

definition life_tick :: "rng \<Rightarrow> life_sim \<Rightarrow> life_sim" where
  "life_tick r s =
     (let s = step_all (s\<lparr>ls_world := world_regenerate (ls_world s)\<rparr>);
          (s, newborns) = reproduce r [0..<ls_size s] s [] in
      compact_alive (append_newborns newborns s))"

section \<open>Metrics and the program\<close>

record life_metrics =
  lm_population :: nat
  lm_avg_energy :: double
  lm_avg_metabolism :: double
  lm_diversity :: double
  lm_generation_max :: int

definition compute_metrics :: "life_entity list \<Rightarrow> nat \<Rightarrow> life_metrics" where
  "compute_metrics pop n =
     (let living = filter le_alive (take n pop); count = fconst (of_nat (length living));
          generation_max = foldl (\<lambda>m e. if le_generation e > m then le_generation e else m) 0 living in
      if living = [] then \<lparr>lm_population = 0, lm_avg_energy = fconst 0, lm_avg_metabolism = fconst 0, lm_diversity = fconst 0, lm_generation_max = generation_max\<rparr>
      else
        let sum_energy = foldl (\<lambda>a e. fadd a (le_energy e)) (fconst 0) living;
            sum_meta = foldl (\<lambda>a e. fadd a (metabolism_eff (le_genes e))) (fconst 0) living;
            totals = foldl (\<lambda>ms e. map2 fadd ms (genome_fields (le_genes e))) (replicate NUM_GENES (fconst 0)) living;
            mean_genes = map (\<lambda>m. fdiv m count) totals;
            var_sum = foldl (\<lambda>v e. foldl (\<lambda>v (g, m). let d = fsub g m in fadd v (fmul d d)) v (zip (genome_fields (le_genes e)) mean_genes)) (fconst 0) living in
        \<lparr>lm_population = length living, lm_avg_energy = fdiv sum_energy count, lm_avg_metabolism = fdiv sum_meta count,
         lm_diversity = fdiv var_sum (fconst (of_nat (length living * NUM_GENES))), lm_generation_max = generation_max\<rparr>)"

definition tick_console :: "nat \<Rightarrow> life_metrics \<Rightarrow> string" where
  "tick_console tick m =
     ''[tick '' @ replicate (4 - length (nat_str tick)) (CHR '' '') @ nat_str tick @ ''] poblacion='' @ nat_str (lm_population m)
     @ '' energia_avg='' @ fmt_f 3 (lm_avg_energy m) @ '' metabolismo_avg='' @ fmt_f 3 (lm_avg_metabolism m)
     @ '' diversidad='' @ fmt_f 4 (lm_diversity m) @ '' gen_max='' @ int_str (lm_generation_max m)"

definition tick_record :: "nat \<Rightarrow> life_metrics \<Rightarrow> string" where
  "tick_record tick m =
     nat_str tick @ COMMA # nat_str (lm_population m) @ COMMA # fmt_f 4 (lm_avg_energy m) @ COMMA # fmt_f 4 (lm_avg_metabolism m)
     @ COMMA # fmt_f 4 (lm_diversity m) @ COMMA # int_str (lm_generation_max m)"

fun life_loop :: "rng \<Rightarrow> nat \<Rightarrow> nat \<Rightarrow> life_sim \<Rightarrow> string list \<times> string list \<Rightarrow> life_sim \<times> string list \<times> string list" where
  \<comment> \<open>the ticks that are left; the lines on the console and in the log\<close>
  "life_loop r TICKS 0 s out = (s, out)"
| "life_loop r TICKS (Suc n) s (con, csv) =
     (let tick = TICKS - Suc n; s = life_tick r s; m = compute_metrics (ls_pop s) (ls_size s);
          (con, csv) = (if tick mod 10 = 0 \<or> tick + 1 = TICKS then (con @ [tick_console tick m], csv @ [tick_record tick m]) else (con, csv)) in
      if ls_size s = 0 then (s, con @ [''[!] Extincion total en tick '' @ nat_str tick], csv)
      else life_loop r TICKS n s (con, csv))"

datatype spawn_order = GXY | GYX | XGY | YGX | XYG | YXG
  \<comment> \<open>when the genome (\<open>G\<close>) and the two coordinates are drawn\<close>

definition spawn_draws :: "spawn_order \<Rightarrow> rng \<Rightarrow> nat \<Rightarrow> genome \<times> nat \<times> nat \<times> nat" where
  \<comment> \<open>the genome, the numbers for both coordinates, and the index after the last call\<close>
  "spawn_draws ord r k =
     (case ord of
        GXY \<Rightarrow> let (g, k) = genome_random r k in (g, c_rand r k, c_rand r (k + 1), k + 2)
      | GYX \<Rightarrow> let (g, k) = genome_random r k in (g, c_rand r (k + 1), c_rand r k, k + 2)
      | XGY \<Rightarrow> let (g, k') = genome_random r (k + 1) in (g, c_rand r k, c_rand r k', k' + 1)
      | YGX \<Rightarrow> let (g, k') = genome_random r (k + 1) in (g, c_rand r k', c_rand r k, k' + 1)
      | XYG \<Rightarrow> let (g, k') = genome_random r (k + 2) in (g, c_rand r k, c_rand r (k + 1), k')
      | YXG \<Rightarrow> let (g, k') = genome_random r (k + 2) in (g, c_rand r (k + 1), c_rand r k, k'))"

definition first_spawn :: "spawn_order \<Rightarrow> rng \<Rightarrow> nat \<Rightarrow> life_sim \<Rightarrow> life_sim" where
  "first_spawn ord r i s =
     (let (g, x, y, k) = spawn_draws ord r (ls_rand s);
          (e, next_id) = entity_spawn (ls_next_id s) g (int (x mod WORLD_SIZE)) (int (y mod WORLD_SIZE)) 0 0 in
      s\<lparr>ls_pop := (ls_pop s)[i := e], ls_next_id := next_id, ls_rand := k\<rparr>)"

definition zero_entity :: life_entity where
  \<comment> \<open>an element of a static array\<close>
  "zero_entity = \<lparr>le_genes = genome_of (replicate NUM_GENES (DNum 0)), le_energy = DNum 0, le_x = 0, le_y = 0, le_age = 0, le_alive = False, le_id = 0,
     le_parent = 0, le_generation = 0\<rparr>"

definition life_start :: "spawn_order \<Rightarrow> rng \<Rightarrow> life_sim" where
  "life_start ord r =
     (let (w, k) = world_init r 0 in
      fold (first_spawn ord r) [0..<40] \<lparr>ls_world = w, ls_pop = replicate MAX_ENTITIES zero_entity, ls_size = 40, ls_next_id = 1, ls_rand = k\<rparr>)"

definition GEN_HEADER :: string where
  "GEN_HEADER = ''tick,population,avg_energy,avg_metabolism,genetic_diversity,max_generation''"

definition life_banner :: "int \<Rightarrow> string" where
  "life_banner TICKS = ''[chrono-synthetic-life] Iniciando simulacion: '' @ nat_str 40 @ '' entidades, '' @ int_str TICKS @ '' ticks, mundo ''
     @ nat_str WORLD_SIZE @ ''x'' @ nat_str WORLD_SIZE"

definition life_ticks :: "string list \<Rightarrow> int" where
  "life_ticks argv = (if length argv > 1 then c_atoi (argv ! 1) else 300)"

definition life_main :: "spawn_order \<Rightarrow> rng \<Rightarrow> file_env \<Rightarrow> string list \<Rightarrow> files \<Rightarrow> life_sim \<times> string list \<times> files" where
  "life_main ord r env argv fs =
     (let TICKS = life_ticks argv;
          (s, con, csv) = life_loop r (nat TICKS) (nat TICKS) (life_start ord r)
            ([life_banner TICKS], [GEN_HEADER]) in
      (s, con @ [''Simulacion terminada. Log de evolucion: '' @ GEN_LOG],
       case f_write env fs GEN_LOG (unlines csv) of None \<Rightarrow> fs | Some fs' \<Rightarrow> fs'))"

section \<open>The ranges of the numbers\<close>

abbreviation in_unit :: "double \<Rightarrow> bool" where "in_unit \<equiv> ranged binary32 0 1"

lemma fconst_in: "rep binary32 lo \<Longrightarrow> rep binary32 hi \<Longrightarrow> lo \<le> q \<Longrightarrow> q \<le> hi \<Longrightarrow> ranged binary32 lo hi (fconst q)"
  by (rule ranged_const) simp

lemma fconst_0 [simp]: "fconst 0 = DNum 0"
  by (simp add: d_const_def fl_def)

lemma randf_unit [simp, intro]: "in_unit (randf r k)"
proof -
  define n where "n = c_rand r k"
  have n: "n \<le> RAND_MAX" by (simp add: n_def c_rand_def flip: less_Suc_eq_le)
  have p: "(0 :: nat) < ff_prec binary32" by simp
  have big: "rep binary32 (2 ^ 31)" by (rule rep_power) simp_all
  have le: "(of_nat n :: rat) \<le> of_nat RAND_MAX" using n by (rule of_nat_mono)
  have x: "ranged binary32 0 (2 ^ 31) (fconst (of_nat n))" using big le by (intro fconst_in) (simp_all add: RAND_MAX_def)
  have y: "ranged binary32 1 (2 ^ 31) (fconst (of_nat RAND_MAX))" using big by (intro fconst_in) (simp_all add: RAND_MAX_def)
  have val: "d_val (fconst q) = rnd binary32 q" if "0 \<le> q" "q \<le> 2 ^ 31" for q
  proof -
    note b = rnd_between [OF p rep_single_num(2) big that]
    show ?thesis using fl_val(2) [of binary32 q "q < 0"] rep_limit [OF b(3)] by (simp add: d_const_def)
  qed
  have "d_val (fconst (of_nat n)) \<le> d_val (fconst (of_nat RAND_MAX))"
    using rnd_mono [OF p le] le by (simp add: val RAND_MAX_def)
  from ranged_div_unit [OF x y p _ this] show ?thesis by (simp add: randf_def n_def)
qed

lemma clampf_unit:
  assumes "ranged binary32 a b v" shows "in_unit (clampf v (fconst 0) (fconst 1))"
proof -
  have c: "in_unit (fconst 0)" "ranged binary32 1 1 (fconst 1)" by (rule fconst_in; simp)+
  then show ?thesis using assms by (auto simp: clampf_def d_lt_val d_gt_def ranged_def)
qed

definition genome_ok :: "genome \<Rightarrow> bool" where
  "genome_ok g \<longleftrightarrow> (\<forall>v \<in> set (genome_fields g). in_unit v)"

lemma genome_ok_simps: "genome_ok g \<longleftrightarrow> in_unit (metabolism_eff g) \<and> in_unit (move_speed g) \<and> in_unit (sensor_range g) \<and> in_unit (aggression g)
    \<and> in_unit (repro_threshold g) \<and> in_unit (lifespan_gene g) \<and> in_unit (mutation_rate g) \<and> in_unit (social_gene g)"
  by (simp add: genome_ok_def genome_fields_def)

lemma length_genome_fields [simp]: "length (genome_fields g) = NUM_GENES"
  by (simp add: genome_fields_def NUM_GENES_def)

lemma genome_fields_of [simp]: "length fs = NUM_GENES \<Longrightarrow> genome_fields (genome_of fs) = fs"
  by (simp add: NUM_GENES_def numeral_eq_Suc length_Suc_conv genome_fields_def genome_of_def) auto

lemma genome_of_fields [simp]: "genome_of (genome_fields g) = g"
  by (simp add: genome_fields_def genome_of_def)

lemma genome_random_ok: "genome_ok (fst (genome_random r k))"
proof -
  have half: "ranged binary32 0 (1 / 2) (fconst q)" if "0 \<le> q" "q \<le> 1 / 2" for q by (rule fconst_in) (use that in simp_all)
  have "in_unit (fadd (fconst c) (fmul (randf r j) (fconst d)))" if "0 \<le> c" "c \<le> 1 / 2" "0 \<le> d" "d \<le> 1 / 2" for c d j
    by (rule ranged_add [OF half [OF that(1,2)] ranged_mul [where hi = "1 / 2", OF randf_unit half [OF that(3,4)]]]) simp_all
  then show ?thesis by (simp add: genome_random_def genome_ok_simps)
qed

lemma mutated_gene_ok:
  assumes "in_unit v" shows "in_unit (clampf (fadd v (fmul (fsub (randf r j) (fconst (1 / 2))) (fconst (3 / 10)))) (fconst 0) (fconst 1))"
proof -
  have half: "in_unit (fconst (1 / 2))" by (rule fconst_in) simp_all
  have third: "ranged binary32 (- 1) 1 (fconst (3 / 10))" by (rule fconst_in) simp_all
  have "ranged binary32 (- 1) 1 (fsub (randf r j) (fconst (1 / 2)))" by (rule ranged_sub [OF randf_unit half]) simp_all
  then have "ranged binary32 (- 1) 1 (fmul (fsub (randf r j) (fconst (1 / 2))) (fconst (3 / 10)))"
    using third by (rule ranged_mul_signed) simp_all
  with assms have "ranged binary32 (- 1) 2 (fadd v (fmul (fsub (randf r j) (fconst (1 / 2))) (fconst (3 / 10))))"
    by (rule ranged_add) simp_all
  then show ?thesis by (rule clampf_unit)
qed

lemma mutate_fields_ok:
  "\<forall>v \<in> set fs. in_unit v \<Longrightarrow> length (fst (mutate_fields r rate k fs)) = length fs \<and> (\<forall>v \<in> set (fst (mutate_fields r rate k fs)). in_unit v)"
  by (induction r rate k fs rule: mutate_fields.induct) (auto simp: Let_def mutated_gene_ok simp del: fconst_0 split: prod.splits)

lemma genome_mutate_ok: "genome_ok g \<Longrightarrow> genome_ok (fst (genome_mutate r k g))"
  using mutate_fields_ok [of "genome_fields g" r "mutation_rate g" k] by (auto simp: genome_mutate_def genome_ok_def split: prod.splits)

lemma genome_crossover_ok: "genome_ok a \<Longrightarrow> genome_ok b \<Longrightarrow> genome_ok (fst (genome_crossover r k a b))"
  by (auto simp: genome_crossover_def genome_ok_def)

definition world_ok :: "world \<Rightarrow> bool" where
  "world_ok w \<longleftrightarrow> length w = WORLD_SIZE \<and> (\<forall>row \<in> set w. length row = WORLD_SIZE \<and> (\<forall>v \<in> set row. in_unit v))"

definition on_world :: "int \<Rightarrow> bool" where
  "on_world x \<longleftrightarrow> 0 \<le> x \<and> x < int WORLD_SIZE"

lemma world_init_ok: "world_ok (fst (world_init r k))"
proof -
  have "ranged binary32 0 (1 / 2) (fmul (randf r j) (fconst (1 / 2)))" for j
    by (rule ranged_mul [OF randf_unit fconst_in [of 0 "1 / 2"]]) simp_all
  then have "in_unit (fmul (randf r j) (fconst (1 / 2)))" for j by (rule ranged_weaken) simp_all
  then show ?thesis by (auto simp: world_ok_def world_init_def)
qed

lemma world_regenerate_ok: "world_ok w \<Longrightarrow> world_ok (world_regenerate w)"
proof -
  have "in_unit (clampf (fadd v (fconst (1 / 100))) (fconst 0) (fconst 1))" if "in_unit v" for v
    by (rule clampf_unit, rule ranged_add [where lo = 0 and hi = 2, OF that fconst_in [of 0 1]]) simp_all
  then show "world_ok w \<Longrightarrow> world_ok (world_regenerate w)" by (auto simp: world_ok_def world_regenerate_def simp del: fconst_0)
qed

lemma on_world_nat: "on_world x \<Longrightarrow> nat x < WORLD_SIZE"
  by (auto simp: on_world_def)

lemma resource_unit: "world_ok w \<Longrightarrow> on_world x \<Longrightarrow> on_world y \<Longrightarrow> in_unit (resource w x y)"
  unfolding world_ok_def resource_def by (metis nth_mem on_world_nat)

lemma set_resource_ok: "world_ok w \<Longrightarrow> on_world x \<Longrightarrow> on_world y \<Longrightarrow> in_unit v \<Longrightarrow> world_ok (set_resource w x y v)"
  using set_update_subset_insert [of w "nat x" "(w ! nat x)[nat y := v]"] set_update_subset_insert [of "w ! nat x" "nat y" v]
  by (fastforce simp: world_ok_def set_resource_def dest: on_world_nat)

lemma wrap_coord_mod: "wrap_coord v = v mod int WORLD_SIZE"
proof -
  let ?m = "int WORLD_SIZE"
  have m: "0 < ?m" by (simp add: WORLD_SIZE_def)
  have "0 < v smod ?m + ?m" using smod_int_range [of ?m v] m by auto
  then have "wrap_coord v = (v smod ?m + ?m) mod ?m" using m by (simp add: wrap_coord_def smod_int_alt_def)
  also have "\<dots> = v mod ?m" by (simp add: smod_int_alt_def sgn_if mod_minus_eq)
  finally show ?thesis .
qed

lemma wrap_coord_on_world [simp]: "on_world (wrap_coord v)"
  by (simp add: wrap_coord_mod on_world_def WORLD_SIZE_def)

lemma look_around_on_world:
  assumes "on_world (le_x e)" "on_world (le_y e)" shows "on_world (fst (look_around e w)) \<and> on_world (snd (look_around e w))"
proof -
  have "on_world (fst (foldl (look_at w e) b ds)) \<and> on_world (fst (snd (foldl (look_at w e) b ds)))"
    if "on_world (fst b) \<and> on_world (fst (snd b))" for b ds
    using that by (induction ds arbitrary: b) (auto simp: look_at_def Let_def split: prod.splits)
  note this [of "(le_x e, le_y e, resource w (le_x e) (le_y e))"]
  then show ?thesis using assms by (simp add: look_around_def Let_def split_def)
qed

section \<open>What every tick preserves\<close>

definition entity_ok :: "life_entity \<Rightarrow> bool" where
  "entity_ok e \<longleftrightarrow> genome_ok (le_genes e) \<and> on_world (le_x e) \<and> on_world (le_y e) \<and> 0 \<le> le_age e \<and> le_age e \<le> 201
     \<and> ranged binary32 (- 2) (of_int (le_age e + 1)) (le_energy e) \<and> (le_alive e \<longrightarrow> le_age e \<le> 200 \<and> 0 \<le> d_val (le_energy e))"

lemma small_in: "0 \<le> q \<Longrightarrow> q \<le> 1 / 2 \<Longrightarrow> ranged binary32 0 (1 / 2) (fconst q)"
  by (rule fconst_in) simp_all

lemma d_trunc_scaled:
  assumes "in_unit v" and "n \<le> 2 ^ 24" and "0 \<le> n" shows "0 \<le> d_trunc (fmul v (fconst (of_int n)))" and "d_trunc (fmul v (fconst (of_int n))) \<le> n"
proof -
  have "rep binary32 (of_int n)" using assms by (intro rep_single_int) simp
  then have "ranged binary32 0 (of_int n) (fmul v (fconst (of_int n)))"
    using assms by (intro ranged_mul [OF assms(1) fconst_in [of 0 "of_int n"]]) simp_all
  then show "0 \<le> d_trunc (fmul v (fconst (of_int n)))" "d_trunc (fmul v (fconst (of_int n))) \<le> n"
    using assms by (auto intro: ranged_trunc)
qed

text \<open>What is consumed is at most what is there, so the resources stay in their range.\<close>

lemma consumed_ok:
  assumes "in_unit v" "in_unit m" shows "in_unit (fmul v m)" and "in_unit (fsub v (fmul v m))"
proof -
  have v: "rep binary32 (d_val v)" "0 \<le> d_val v" "d_val v \<le> 1" "ranged binary32 (d_val v) (d_val v) v"
    using assms(1) by (auto simp: ranged_def)
  then have "ranged binary32 0 (d_val v) v" by (simp add: ranged_def)
  from ranged_mul [OF this assms(2) _ v(1)] have c: "ranged binary32 0 (d_val v) (fmul v m)" by simp
  then show "in_unit (fmul v m)" using v(3) by (auto intro: ranged_weaken)
  show "in_unit (fsub v (fmul v m))" by (rule ranged_sub [OF v(4) c]) (use v in simp_all)
qed

lemma entity_step_ok:
  assumes e: "entity_ok e" and w: "world_ok w"
  shows "entity_ok (fst (entity_step e w)) \<and> world_ok (snd (entity_step e w))"
proof (cases "le_alive e")
  case False
  then show ?thesis using assms by (simp add: entity_step_def)
next
  case True
  define n where "n = le_age e"
  obtain bx by' where look: "look_around e w = (bx, by')" by (cases "look_around e w")
  define move_cost where "move_cost = fadd (fconst (1 / 100)) (fmul (move_speed (le_genes e)) (fconst (2 / 100)))"
  define energy where "energy = (if bx \<noteq> le_x e \<or> by' \<noteq> le_y e then fsub (le_energy e) move_cost else le_energy e)"
  define consumed where "consumed = fmul (resource w bx by') (metabolism_eff (le_genes e))"
  define energy' where "energy' = fsub (fadd energy consumed) (fconst (15 / 1000))"
  define max_age where "max_age = 50 + d_trunc (fmul (lifespan_gene (le_genes e)) (fconst (of_int 150)))"
  have on: "on_world bx" "on_world by'" using look_around_on_world [of e w] e look by (simp_all add: entity_ok_def)
  have g: "in_unit (move_speed (le_genes e))" "in_unit (metabolism_eff (le_genes e))" "in_unit (lifespan_gene (le_genes e))"
    using e by (simp_all add: entity_ok_def genome_ok_simps)
  have n: "0 \<le> n" "n \<le> 200" using e True by (simp_all add: entity_ok_def n_def)
  have rep: "rep binary32 (of_int (n + 1))" "rep binary32 (of_int (n + 2))" using n by (intro rep_single_int; simp)+
  have start: "ranged binary32 0 (of_int (n + 1)) (le_energy e)" using e True by (auto simp: entity_ok_def ranged_def n_def)
  have cost: "ranged binary32 0 (1 / 2) (fmul (move_speed (le_genes e)) (fconst (2 / 100)))" by (rule ranged_mul [OF g(1) small_in]) simp_all
  have "in_unit move_cost" unfolding move_cost_def by (rule ranged_add [OF small_in cost]) simp_all
  from ranged_sub [OF start this, of "- 1" "of_int (n + 1)"] start have 1: "ranged binary32 (- 1) (of_int (n + 1)) energy"
    using rep by (auto simp: energy_def intro: ranged_weaken)
  have c: "in_unit consumed" "in_unit (fsub (resource w bx by') consumed)"
    unfolding consumed_def using consumed_ok [OF resource_unit [OF w on] g(2)] by simp_all
  have "ranged binary32 (- 1) (of_int (n + 2)) (fadd energy consumed)" by (rule ranged_add [OF 1 c(1)]) (use rep in simp_all)
  then have 2: "ranged binary32 (- 2) (of_int (n + 2)) energy'"
    unfolding energy'_def by (rule ranged_sub [OF _ small_in]) (use rep in simp_all)
  have age: "max_age \<le> 200" using d_trunc_scaled(2) [OF g(3), of 150] unfolding max_age_def by simp
  have fin: "d_fin energy'" using 2 by (simp add: ranged_def)
  have step: "entity_step e w =
    (e\<lparr>le_x := bx, le_y := by', le_energy := energy', le_age := n + 1, le_alive := \<not> (d_ge (DNum 0) energy' \<or> n + 1 > max_age)\<rparr>,
     set_resource w bx by' (fsub (resource w bx by') consumed))"
    using True look by (auto simp: entity_step_def Let_def move_cost_def energy_def consumed_def energy'_def max_age_def n_def)
  have "0 \<le> d_val energy'" if "\<not> d_ge (DNum 0) energy'" using that fin by (simp add: d_ge_val)
  then have "entity_ok (fst (entity_step e w))"
    using e on n age 2 unfolding step by (auto simp: entity_ok_def add.commute)
  then show ?thesis unfolding step using set_resource_ok [OF w on c(2)] by simp
qed

lemma entity_step_kept:
  "le_id (fst (entity_step e w)) = le_id e" "le_generation (fst (entity_step e w)) = le_generation e" "le_genes (fst (entity_step e w)) = le_genes e"
  by (simp_all add: entity_step_def Let_def split_def)

definition members :: "life_sim \<Rightarrow> life_entity list" where
  "members s = take (ls_size s) (ls_pop s)"

lemma members_update: "i < ls_size s \<Longrightarrow> members (s\<lparr>ls_pop := (ls_pop s)[i := e]\<rparr>) = (members s)[i := e]"
  by (simp add: members_def take_update_swap)

lemma members_nth: "i < ls_size s \<Longrightarrow> ls_size s \<le> length (ls_pop s) \<Longrightarrow> ls_pop s ! i = members s ! i \<and> members s ! i \<in> set (members s)"
  by (simp add: members_def in_set_conv_nth) (metis min.absorb2 nth_take)

definition stage_ok :: "int \<Rightarrow> life_sim \<Rightarrow> bool" where
  \<comment> \<open>between the phases of a tick\<close>
  "stage_ok t s \<longleftrightarrow> world_ok (ls_world s) \<and> length (ls_pop s) = MAX_ENTITIES \<and> ls_size s \<le> MAX_ENTITIES
     \<and> (\<forall>e \<in> set (members s). entity_ok e \<and> le_id e < ls_next_id s \<and> 0 \<le> le_generation e \<and> le_generation e \<le> t)
     \<and> distinct (map le_id (members s))"

text \<open>The phase in which everyone moves changes neither the identities nor the generations.\<close>

lemma step_all_fold:
  assumes "\<forall>i \<in> set is. i < n" "n \<le> length pop" "\<forall>e \<in> set (take n pop). entity_ok e" "world_ok w" "fold step_at is (pop, w) = (pop', w')"
  shows "length pop' = length pop \<and> map le_id pop' = map le_id pop \<and> map le_generation pop' = map le_generation pop
    \<and> (\<forall>e \<in> set (take n pop'). entity_ok e) \<and> world_ok w'"
  using assms
proof (induction "is" arbitrary: pop w)
  case (Cons i "is")
  obtain e v where ev: "entity_step (pop ! i) w = (e, v)" by (cases "entity_step (pop ! i) w")
  have i: "i < n" "n \<le> length pop" using Cons.prems by simp_all
  then have "pop ! i \<in> set (take n pop)" by (auto simp: in_set_conv_nth)
  then have ok: "entity_ok e" "world_ok v" using entity_step_ok [of "pop ! i" w] Cons.prems ev by auto
  have kept: "le_id e = le_id (pop ! i)" "le_generation e = le_generation (pop ! i)" using entity_step_kept [of "pop ! i" w] ev by simp_all
  have "set (take n (pop[i := e])) \<subseteq> insert e (set (take n pop))" using i set_update_subset_insert [of "take n pop" i e] by (simp add: take_update_swap)
  then have "\<forall>x \<in> set (take n (pop[i := e])). entity_ok x" using Cons.prems ok by auto
  moreover have "step_at i (pop, w) = (pop[i := e], v)" using ev by (simp add: step_at_def)
  then have "fold step_at is (pop[i := e], v) = (pop', w')" using Cons.prems(5) by simp
  ultimately show ?case
    using Cons.IH [of "pop[i := e]" v] Cons.prems ok kept by (simp add: map_update list_update_same_conv)
qed simp

lemma step_all_ok:
  assumes "stage_ok t s"
  shows "stage_ok t (step_all s) \<and> ls_size (step_all s) = ls_size s \<and> ls_next_id (step_all s) = ls_next_id s"
proof -
  obtain pop w where pw: "fold step_at [0..<ls_size s] (ls_pop s, ls_world s) = (pop, w)"
    by (cases "fold step_at [0..<ls_size s] (ls_pop s, ls_world s)")
  have f: "length pop = length (ls_pop s)" "map le_id pop = map le_id (ls_pop s)" "map le_generation pop = map le_generation (ls_pop s)"
    "\<forall>e \<in> set (take (ls_size s) pop). entity_ok e" "world_ok w"
    using step_all_fold [OF _ _ _ _ pw, of "ls_size s"] assms by (simp_all add: stage_ok_def members_def)
  let ?m = "take (ls_size s) pop"
  have ids: "map le_id ?m = map le_id (members s)" "map le_generation ?m = map le_generation (members s)"
    using f(2,3) by (simp_all add: members_def flip: take_map)
  have "le_id e < ls_next_id s \<and> 0 \<le> le_generation e \<and> le_generation e \<le> t" if "e \<in> set ?m" for e
  proof -
    have "le_id e \<in> set (map le_id (members s))" "le_generation e \<in> set (map le_generation (members s))"
      using that unfolding ids [symmetric] by auto
    then show ?thesis using assms by (auto simp: stage_ok_def)
  qed
  then show ?thesis using assms f ids pw by (auto simp: stage_ok_def step_all_def members_def)
qed

definition breeding_ok :: "int \<Rightarrow> nat \<Rightarrow> life_sim \<Rightarrow> life_entity list \<Rightarrow> bool" where
  \<comment> \<open>while newborns wait for their place: no identity is given twice\<close>
  "breeding_ok t N s newborns \<longleftrightarrow> stage_ok t s \<and> ls_size s + length newborns \<le> MAX_ENTITIES \<and> ls_next_id s \<le> N + length newborns
     \<and> (\<forall>e \<in> set newborns. entity_ok e \<and> le_alive e \<and> le_id e < ls_next_id s \<and> 0 \<le> le_generation e \<and> le_generation e \<le> t + 1)
     \<and> distinct (map le_id (members s @ newborns))"

lemma child_genome_ok:
  assumes "\<And>j. j < ls_size s \<Longrightarrow> genome_ok (le_genes (ls_pop s ! j))" and "i < ls_size s" shows "genome_ok (fst (child_genome r s i))"
proof -
  define partner where "partner = c_rand r (ls_rand s) mod ls_size s"
  have "partner < ls_size s" using assms(2) by (simp add: partner_def)
  note ok = assms(1) [OF this] assms(1) [OF assms(2)]
  show ?thesis
  proof (cases "le_alive (ls_pop s ! partner) \<and> partner \<noteq> i")
    case True
    obtain g k where "genome_crossover r (ls_rand s + 1) (le_genes (ls_pop s ! i)) (le_genes (ls_pop s ! partner)) = (g, k)" by fastforce
    moreover from genome_crossover_ok [OF ok(2,1), of r "ls_rand s + 1"] have "genome_ok g" unfolding calculation by simp
    ultimately show ?thesis using True genome_mutate_ok [of g r k] by (simp add: child_genome_def Let_def partner_def)
  next
    case False
    then show ?thesis using genome_mutate_ok [OF ok(2), of r "ls_rand s + 1"] by (auto simp: child_genome_def Let_def partner_def)
  qed
qed

lemma birth_ok:
  assumes b: "breeding_ok t N s newborns" and N: "N + MAX_ENTITIES < 2 ^ 64" and room: "ls_size s + length newborns < MAX_ENTITIES"
    and i: "i < ls_size s" and alive: "le_alive (ls_pop s ! i)" and birth: "birth r s i = (s', child)"
  shows "breeding_ok t N s' (newborns @ [child]) \<and> ls_size s' = ls_size s"
proof -
  define e where "e = ls_pop s ! i"
  have st: "stage_ok t s" and len: "ls_size s \<le> length (ls_pop s)" using b by (simp_all add: breeding_ok_def stage_ok_def)
  have e: "e = members s ! i" "e \<in> set (members s)" using members_nth [OF i len] by (simp_all add: e_def)
  then have ok: "entity_ok e" "0 \<le> le_generation e" "le_generation e \<le> t" "le_id e < ls_next_id s" using st by (simp_all add: stage_ok_def)
  define h where "h = e\<lparr>le_energy := fmul (le_energy e) (fconst (1 / 2))\<rparr>"
  obtain g k where gk: "child_genome r s i = (g, k)" by (cases "child_genome r s i")
  have "genome_ok (le_genes (ls_pop s ! j))" if "j < ls_size s" for j
    using members_nth [OF that len] st by (auto simp: stage_ok_def entity_ok_def)
  from child_genome_ok [OF this i, of r] have g: "genome_ok g" unfolding gk by simp
  have n: "ls_next_id s < 2 ^ 64 - 1" using b N room by (simp add: breeding_ok_def)
  have s': "s' = s\<lparr>ls_pop := (ls_pop s)[i := h], ls_next_id := ls_next_id s + 1, ls_rand := k\<rparr>"
    and child: "child = \<lparr>le_genes = g, le_energy = fconst (1 / 2), le_x = le_x e, le_y = le_y e, le_age = 0, le_alive = True, le_id = ls_next_id s,
      le_parent = le_id e, le_generation = le_generation e + 1\<rparr>"
    using birth n by (simp_all add: birth_def gk entity_spawn_def e_def h_def Let_def)
  have half: "ranged binary32 0 (1 / 2) (fconst (1 / 2))" by (rule small_in) simp_all
  have "rep binary32 (of_int (le_age e + 1))" using ok(1) by (intro rep_single_int) (simp add: entity_ok_def)
  then have "ranged binary32 0 (of_int (le_age e + 1)) (fmul (le_energy e) (fconst (1 / 2)))"
    using ok(1) alive by (intro ranged_mul [OF _ half]) (auto simp: entity_ok_def e_def ranged_def)
  then have h: "entity_ok h" using ok(1) by (auto simp: h_def entity_ok_def ranged_def)
  have c: "entity_ok child" using g ok(1) half by (auto simp: child entity_ok_def ranged_def)
  have m: "members s' = (members s)[i := h]" using i unfolding s' by (simp add: members_def take_update_swap)
  have ids: "map le_id (members s') = map le_id (members s)" unfolding m using e by (simp add: map_update h_def list_update_same_conv) (metis list_update_id map_update)
  have sub: "set (members s') \<subseteq> insert h (set (members s))" unfolding m by (rule set_update_subset_insert)
  have all: "entity_ok x \<and> le_id x < ls_next_id s \<and> 0 \<le> le_generation x \<and> le_generation x \<le> t" if "x \<in> set (members s')" for x
  proof -
    have "x = h \<or> x \<in> set (members s)" using subsetD [OF sub that] by simp
    then show ?thesis using h ok st by (auto simp: h_def stage_ok_def)
  qed
  have fields: "ls_world s' = ls_world s" "length (ls_pop s') = length (ls_pop s)" "ls_size s' = ls_size s" "ls_next_id s' = ls_next_id s + 1"
    by (simp_all add: s')
  have "stage_ok t s'" using st all ids by (auto simp: stage_ok_def fields less_SucI)
  moreover have "le_alive child" "le_id child = ls_next_id s" "le_generation child = le_generation e + 1" by (simp_all add: child)
  moreover have "distinct (map le_id (members s' @ newborns @ [child]))"
    using b st by (auto simp: ids calculation(3) breeding_ok_def stage_ok_def)
  ultimately show ?thesis using b room c ok unfolding breeding_ok_def by (auto simp: fields less_SucI)
qed

lemma reproduce_ok:
  assumes "breeding_ok t N s newborns" "N + MAX_ENTITIES < 2 ^ 64" "\<forall>i \<in> set is. i < ls_size s" "reproduce r is s newborns = (s', newborns')"
  shows "breeding_ok t N s' newborns' \<and> ls_size s' = ls_size s"
  using assms
proof (induction r "is" s newborns rule: reproduce.induct)
  case (2 r i "is" s newborns)
  show ?case
  proof (cases "ls_size s + length newborns < MAX_ENTITIES \<and> entity_can_reproduce (ls_pop s ! i)")
    case True
    obtain s1 child where b: "birth r s i = (s1, child)" by (cases "birth r s i")
    have "le_alive (ls_pop s ! i)" using True by (simp add: entity_can_reproduce_def)
    then have "breeding_ok t N s1 (newborns @ [child]) \<and> ls_size s1 = ls_size s" using birth_ok [OF _ _ _ _ _ b] 2(3-5) True by simp
    then show ?thesis using 2(1) [OF _ _ b [symmetric]] 2(4-6) True b by simp
  next
    case False
    then show ?thesis using 2 by (auto split: if_splits)
  qed
qed simp

lemma append_newborns_members:
  assumes "ls_size s + length es \<le> MAX_ENTITIES" "length (ls_pop s) = MAX_ENTITIES"
  shows "members (append_newborns es s) = members s @ es \<and> ls_size (append_newborns es s) = ls_size s + length es
    \<and> length (ls_pop (append_newborns es s)) = MAX_ENTITIES \<and> ls_world (append_newborns es s) = ls_world s
    \<and> ls_next_id (append_newborns es s) = ls_next_id s"
  using assms
proof (induction es arbitrary: s)
  case (Cons e es)
  let ?s = "s\<lparr>ls_pop := (ls_pop s)[ls_size s := e], ls_size := ls_size s + 1\<rparr>"
  have "members ?s = members s @ [e]" using Cons.prems by (simp add: members_def take_Suc_conv_app_nth)
  then show ?case using Cons.IH [of ?s] Cons.prems by simp
qed simp

text \<open>The living move to the front of the array, in their order.\<close>

lemma keep_alive_fold:
  assumes "n \<le> length pop" "fold keep_alive_at [0..<n] (pop, 0) = (pop', k)"
  shows "k \<le> n \<and> length pop' = length pop \<and> take k pop' = filter le_alive (take n pop) \<and> drop n pop' = drop n pop"
  using assms
proof (induction n arbitrary: pop' k)
  case (Suc n)
  obtain p j where pj: "fold keep_alive_at [0..<n] (pop, 0) = (p, j)" by fastforce
  have ih: "j \<le> n" "length p = length pop" "take j p = filter le_alive (take n pop)" "drop n p = drop n pop" using Suc.IH [OF _ pj] Suc.prems(1) by simp_all
  have "p ! n = drop n p ! 0" "pop ! n = drop n pop ! 0" using ih(2) Suc.prems(1) by simp_all
  then have n: "p ! n = pop ! n" using ih(4) by simp
  have step: "keep_alive_at n (p, j) = (pop', k)" using Suc.prems(2) pj by simp
  have d: "drop (Suc n) p = drop (Suc n) pop" using arg_cong [OF ih(4), of "drop 1"] by simp
  have take: "take (Suc n) pop = take n pop @ [pop ! n]" using Suc.prems(1) by (simp add: take_Suc_conv_app_nth)
  show ?case
  proof (cases "le_alive (pop ! n)")
    case True
    then have "pop' = p[j := pop ! n]" "k = j + 1" using step n by (simp_all add: keep_alive_at_def)
    moreover have "take (Suc j) (p[j := pop ! n]) = take j p @ [pop ! n]" using ih(1,2) Suc.prems(1) by (simp add: take_Suc_conv_app_nth)
    ultimately show ?thesis using ih d True by (simp add: take)
  next
    case False
    then show ?thesis using step ih d n by (simp add: keep_alive_at_def take)
  qed
qed simp

lemma members_compact:
  assumes "ls_size s \<le> length (ls_pop s)"
  shows "members (compact_alive s) = filter le_alive (members s) \<and> ls_size (compact_alive s) = length (members (compact_alive s))
    \<and> length (ls_pop (compact_alive s)) = length (ls_pop s) \<and> drop (ls_size s) (ls_pop (compact_alive s)) = drop (ls_size s) (ls_pop s)"
proof -
  obtain pop k where pk: "fold keep_alive_at [0..<ls_size s] (ls_pop s, 0) = (pop, k)" by fastforce
  have "k \<le> length pop" using keep_alive_fold [OF assms pk] assms by simp
  then have "length (take k pop) = k" by simp
  then show ?thesis using keep_alive_fold [OF assms pk] pk by (simp add: compact_alive_def members_def)
qed

definition population_ok :: "nat \<Rightarrow> life_sim \<Rightarrow> bool" where
  \<comment> \<open>after \<open>t\<close> ticks\<close>
  "population_ok t s \<longleftrightarrow> stage_ok (int t) s \<and> (\<forall>e \<in> set (members s). le_alive e) \<and> ls_next_id s \<le> 41 + MAX_ENTITIES * t"

lemma compact_stage:
  assumes "stage_ok t s"
  shows "stage_ok t (compact_alive s) \<and> (\<forall>e \<in> set (members (compact_alive s)). le_alive e) \<and> ls_next_id (compact_alive s) = ls_next_id s"
proof -
  have "ls_size s \<le> length (ls_pop s)" using assms by (simp add: stage_ok_def)
  note m = members_compact [OF this]
  have "ls_size (compact_alive s) = length (filter le_alive (members s))" using m by metis
  also have "\<dots> \<le> length (members s)" by (rule length_filter_le)
  also have "\<dots> \<le> ls_size s" by (simp add: members_def)
  finally have "ls_size (compact_alive s) \<le> ls_size s" .
  moreover have "ls_world (compact_alive s) = ls_world s" "ls_next_id (compact_alive s) = ls_next_id s"
    by (simp_all add: compact_alive_def split_def Let_def)
  ultimately show ?thesis using assms m by (auto simp: stage_ok_def distinct_map_filter)
qed

lemma life_tick_ok:
  assumes "population_ok t s" and t: "t < 2 ^ 31" shows "population_ok (t + 1) (life_tick r s)"
proof -
  let ?s0 = "s\<lparr>ls_world := world_regenerate (ls_world s)\<rparr>"
  have "stage_ok (int t) ?s0" using assms(1) world_regenerate_ok by (simp add: population_ok_def stage_ok_def members_def)
  define s1 where "s1 = step_all ?s0"
  have s1: "stage_ok (int t) s1" "ls_next_id s1 \<le> 41 + MAX_ENTITIES * t"
    using step_all_ok [OF \<open>stage_ok (int t) ?s0\<close>] assms(1) by (simp_all add: s1_def population_ok_def)
  obtain s2 nb where rep: "reproduce r [0..<ls_size s1] s1 [] = (s2, nb)" by fastforce
  have "breeding_ok (int t) (41 + MAX_ENTITIES * t) s1 []" using s1 by (simp add: breeding_ok_def stage_ok_def)
  moreover have "41 + MAX_ENTITIES * t + MAX_ENTITIES < 2 ^ 64" using t by (simp add: MAX_ENTITIES_def)
  ultimately have b: "breeding_ok (int t) (41 + MAX_ENTITIES * t) s2 nb" using reproduce_ok [OF _ _ _ rep] by simp
  define s3 where "s3 = append_newborns nb s2"
  have room: "ls_size s2 + length nb \<le> MAX_ENTITIES" "length (ls_pop s2) = MAX_ENTITIES" using b by (simp_all add: breeding_ok_def stage_ok_def)
  note m = append_newborns_members [OF room, folded s3_def]
  have "stage_ok (int t + 1) s3" using b m room by (auto simp: breeding_ok_def stage_ok_def)
  moreover have "ls_next_id s3 \<le> 41 + MAX_ENTITIES * (t + 1)" using b m room by (simp add: breeding_ok_def)
  ultimately show ?thesis
    using compact_stage [of "int t + 1" s3] rep by (simp add: population_ok_def life_tick_def Let_def s1_def s3_def add.commute)
qed

lemma spawn_draws_genome: "spawn_draws ord r k = (g, x, y, k') \<Longrightarrow> genome_ok g"
  using genome_random_ok [of r k] genome_random_ok [of r "k + 1"] genome_random_ok [of r "k + 2"]
  by (auto simp: spawn_draws_def split: spawn_order.splits prod.splits)

lemma first_spawns:
  assumes "n \<le> 40" and s: "ls_size s = 40" "length (ls_pop s) = MAX_ENTITIES" "ls_next_id s = 1"
  shows "let s' = fold (first_spawn ord r) [0..<n] s in length (ls_pop s') = MAX_ENTITIES \<and> ls_size s' = 40 \<and> ls_world s' = ls_world s \<and> ls_next_id s' = n + 1 \<and> map le_id (take n (ls_pop s')) = [1..<n + 1]
    \<and> (\<forall>e \<in> set (take n (ls_pop s')). entity_ok e \<and> le_alive e \<and> le_generation e = 0)"
  using assms(1) unfolding Let_def
proof (induction n)
  case 0
  then show ?case using s by simp
next
  case (Suc n)
  let ?s = "fold (first_spawn ord r) [0..<n] s"
  obtain g x y k where d: "spawn_draws ord r (ls_rand ?s) = (g, x, y, k)" using prod_cases4 by blast
  then have g: "genome_ok g" by (rule spawn_draws_genome)
  define e where "e = \<lparr>le_genes = g, le_energy = fconst (1 / 2), le_x = int (x mod WORLD_SIZE), le_y = int (y mod WORLD_SIZE), le_age = 0,
     le_alive = True, le_id = n + 1, le_parent = 0, le_generation = 0\<rparr>"
  have ih: "length (ls_pop ?s) = MAX_ENTITIES" "ls_size ?s = 40" "ls_world ?s = ls_world s" "ls_next_id ?s = n + 1"
    "map le_id (take n (ls_pop ?s)) = [1..<n + 1]" "\<forall>e \<in> set (take n (ls_pop ?s)). entity_ok e \<and> le_alive e \<and> le_generation e = 0"
    using Suc by simp_all
  have step: "fold (first_spawn ord r) [0..<Suc n] s = ?s\<lparr>ls_pop := (ls_pop ?s)[n := e], ls_next_id := n + 2, ls_rand := k\<rparr>"
    using Suc.prems ih by (simp add: first_spawn_def d entity_spawn_def e_def)
  have "ranged binary32 0 (1 / 2) (fconst (1 / 2))" by (rule small_in) simp_all
  then have e: "entity_ok e" "le_alive e" "le_generation e = 0" "le_id e = n + 1"
    using g by (auto simp: e_def entity_ok_def on_world_def WORLD_SIZE_def ranged_def)
  have "take (Suc n) ((ls_pop ?s)[n := e]) = take n (ls_pop ?s) @ [e]" using ih(1) Suc.prems by (simp add: take_Suc_conv_app_nth MAX_ENTITIES_def)
  then show ?case using ih e unfolding step by simp
qed

lemma life_start_ok: "population_ok 0 (life_start ord r)"
proof -
  obtain w k where wk: "world_init r 0 = (w, k)" by fastforce
  have w: "world_ok w" using world_init_ok [of r 0] wk by simp
  let ?s = "\<lparr>ls_world = w, ls_pop = replicate MAX_ENTITIES zero_entity, ls_size = 40, ls_next_id = 1, ls_rand = k\<rparr>"
  have start: "life_start ord r = fold (first_spawn ord r) [0..<40] ?s" by (simp add: life_start_def wk)
  note f = first_spawns [of 40 ?s ord r, folded start, unfolded Let_def, simplified]
  then have m: "members (life_start ord r) = take 40 (ls_pop (life_start ord r))" by (simp add: members_def)
  have "le_id e < 41" if "e \<in> set (members (life_start ord r))" for e
  proof -
    have "le_id e \<in> set (map le_id (members (life_start ord r)))" using that by simp
    then show ?thesis using f by (simp add: m)
  qed
  moreover have "distinct (map le_id (members (life_start ord r)))" using f by (simp add: m)
  ultimately show ?thesis using f w by (auto simp: population_ok_def stage_ok_def m MAX_ENTITIES_def)
qed

lemma life_loop_iterates:
  assumes "life_loop r TICKS n s out = (s', out')"
  shows "\<exists>j \<le> n. s' = (life_tick r ^^ j) s \<and> (j = n \<or> ls_size s' = 0)"
  using assms
proof (induction n arbitrary: s out)
  case (Suc n)
  show ?case
  proof (cases "ls_size (life_tick r s) = 0")
    case True
    then have "s' = (life_tick r ^^ 1) s" using Suc.prems by (cases out) (auto simp: Let_def split: if_splits)
    then show ?thesis using True by (intro exI [of _ 1]) simp
  next
    case False
    then obtain out1 where "life_loop r TICKS n (life_tick r s) out1 = (s', out')" using Suc.prems by (cases out) (auto simp: Let_def split: if_splits)
    from Suc.IH [OF this] obtain j where "j \<le> n" "s' = (life_tick r ^^ j) (life_tick r s)" "j = n \<or> ls_size s' = 0" by blast
    then show ?thesis by (intro exI [of _ "Suc j"]) (simp add: funpow_swap1)
  qed
qed simp

lemma life_ticks_ok: "t \<le> 2 ^ 31 \<Longrightarrow> population_ok t ((life_tick r ^^ t) (life_start ord r))"
proof (induction t)
  case (Suc t)
  then show ?case using life_tick_ok [of t "(life_tick r ^^ t) (life_start ord r)" r] by simp
qed (simp add: life_start_ok)

lemma life_ticks_range: "life_ticks argv < 2 ^ 31"
  by (simp add: life_ticks_def c_atoi_def wrap32_def)

text \<open>C38: whatever \<open>rand()\<close> returns, in whatever order the arguments of the first \<open>entity_spawn\<close> are evaluated and however many ticks are asked for, the program leaves the state of the ticks it has run, in
  which everything is where it belongs: at most 500 entities, all alive and none over 200 ticks old, on the world, with genes and resources
  between 0 and 1, a finite energy between 0 and the age plus one, identities that are all different, and a generation of at most
  the number of ticks. It stops early only when nobody is left.\<close>

theorem life_population_ok:
  "\<exists>t. t \<le> nat (life_ticks argv) \<and> fst (life_main ord r env argv fs) = (life_tick r ^^ t) (life_start ord r)
     \<and> population_ok t (fst (life_main ord r env argv fs)) \<and> (t = nat (life_ticks argv) \<or> ls_size (fst (life_main ord r env argv fs)) = 0)"
proof -
  let ?n = "nat (life_ticks argv)"
  obtain s' out' where loop: "life_loop r ?n ?n (life_start ord r) ([life_banner (life_ticks argv)], [GEN_HEADER]) = (s', out')"
    by (cases "life_loop r ?n ?n (life_start ord r) ([life_banner (life_ticks argv)], [GEN_HEADER])") blast
  then have main: "fst (life_main ord r env argv fs) = s'" by (cases out') (simp add: life_main_def)
  obtain j where j: "j \<le> nat (life_ticks argv)" "s' = (life_tick r ^^ j) (life_start ord r)" "j = nat (life_ticks argv) \<or> ls_size s' = 0"
    using life_loop_iterates [OF loop] by blast
  have "j \<le> 2 ^ 31" using j(1) life_ticks_range [of argv] by simp
  note ok = life_ticks_ok [OF this, of r, folded j(2)]
  show ?thesis unfolding main by (rule exI [of _ j]) (use j ok in \<open>simp only: simp_thms\<close>)
qed

section \<open>Two genes without effect\<close>

definition mask_genome :: "genome \<Rightarrow> genome" where
  "mask_genome g = g\<lparr>aggression := DNum 0, social_gene := DNum 0\<rparr>"

definition mask_entity :: "life_entity \<Rightarrow> life_entity" where
  "mask_entity e = e\<lparr>le_genes := mask_genome (le_genes e)\<rparr>"

definition mask_sim :: "life_sim \<Rightarrow> life_sim" where
  \<comment> \<open>a state without what the entities carry in the two genes\<close>
  "mask_sim s = s\<lparr>ls_pop := map mask_entity (ls_pop s)\<rparr>"

lemma mask_genome_eq: "mask_genome g = mask_genome h \<longleftrightarrow> metabolism_eff g = metabolism_eff h \<and> move_speed g = move_speed h \<and> sensor_range g = sensor_range h
    \<and> repro_threshold g = repro_threshold h \<and> lifespan_gene g = lifespan_gene h \<and> mutation_rate g = mutation_rate h"
  by (cases g; cases h) (auto simp: mask_genome_def)

lemma mask_entity_simps [simp]: "le_alive (mask_entity e) = le_alive e" "le_energy (mask_entity e) = le_energy e" "le_x (mask_entity e) = le_x e"
    "le_y (mask_entity e) = le_y e" "le_id (mask_entity e) = le_id e" "le_generation (mask_entity e) = le_generation e" "le_age (mask_entity e) = le_age e"
    "le_genes (mask_entity e) = mask_genome (le_genes e)"
  by (simp_all add: mask_entity_def)

lemma mask_genome_simps [simp]: "metabolism_eff (mask_genome g) = metabolism_eff g" "move_speed (mask_genome g) = move_speed g"
    "sensor_range (mask_genome g) = sensor_range g" "repro_threshold (mask_genome g) = repro_threshold g" "lifespan_gene (mask_genome g) = lifespan_gene g"
    "mutation_rate (mask_genome g) = mutation_rate g"
  by (simp_all add: mask_genome_def)

lemma mask_idem [simp]: "mask_genome (mask_genome g) = mask_genome g" "mask_entity (mask_entity e) = mask_entity e"
  by (simp_all add: mask_genome_def mask_entity_def)

lemma look_around_mask: "look_around (mask_entity e) w = look_around e w"
proof -
  have "look_at w (mask_entity e) = look_at w e" by (auto simp: look_at_def fun_eq_iff)
  then show ?thesis by (simp add: look_around_def)
qed

lemma entity_step_mask: "entity_step (mask_entity e) w = (mask_entity (fst (entity_step e w)), snd (entity_step e w))"
proof -
  have upd: "mask_entity (x\<lparr>le_x := a\<rparr>) = mask_entity x\<lparr>le_x := a\<rparr>" "mask_entity (x\<lparr>le_y := a\<rparr>) = mask_entity x\<lparr>le_y := a\<rparr>"
    "mask_entity (x\<lparr>le_energy := v\<rparr>) = mask_entity x\<lparr>le_energy := v\<rparr>" "mask_entity (x\<lparr>le_age := a\<rparr>) = mask_entity x\<lparr>le_age := a\<rparr>"
    "mask_entity (x\<lparr>le_alive := l\<rparr>) = mask_entity x\<lparr>le_alive := l\<rparr>" for x a v l
    by (simp_all add: mask_entity_def)
  show ?thesis by (cases "look_around e w") (simp add: entity_step_def look_around_mask Let_def upd)
qed

lemma entity_can_reproduce_mask [simp]: "entity_can_reproduce (mask_entity e) = entity_can_reproduce e"
  by (simp add: entity_can_reproduce_def)

lemma mutate_fields_pointwise:
  "length fs = length hs \<Longrightarrow> snd (mutate_fields r rate k fs) = snd (mutate_fields r rate k hs) \<and> length (fst (mutate_fields r rate k fs)) = length fs
     \<and> (\<forall>i < length fs. fs ! i = hs ! i \<longrightarrow> fst (mutate_fields r rate k fs) ! i = fst (mutate_fields r rate k hs) ! i)"
proof (induction fs hs arbitrary: k rule: list_induct2)
  case (Cons v vs u us)
  show ?case
  proof (intro conjI allI impI)
    fix i assume "i < length (v # vs)" "(v # vs) ! i = (u # us) ! i"
    then show "fst (mutate_fields r rate k (v # vs)) ! i = fst (mutate_fields r rate k (u # us)) ! i"
      using Cons by (cases i) (auto simp: Let_def split_def)
  qed (use Cons in \<open>auto simp: Let_def split_def\<close>)
qed simp

lemma mask_genome_fields:
  "mask_genome g = mask_genome h \<longleftrightarrow> (\<forall>i \<in> {0, 1, 2, 4, 5, 6}. genome_fields g ! i = genome_fields h ! i)"
  by (simp add: mask_genome_eq genome_fields_def)

lemma genome_mutate_mask:
  assumes "mask_genome g = mask_genome h"
  shows "mask_genome (fst (genome_mutate r k g)) = mask_genome (fst (genome_mutate r k h)) \<and> snd (genome_mutate r k g) = snd (genome_mutate r k h)"
proof -
  have rate: "mutation_rate g = mutation_rate h" using assms by (simp add: mask_genome_eq)
  have len: "length (genome_fields x) = 8" for x by (simp add: NUM_GENES_def)
  note p = mutate_fields_pointwise [of "genome_fields g" "genome_fields h" r "mutation_rate h" k]
  have "length (fst (mutate_fields r (mutation_rate h) k (genome_fields x))) = NUM_GENES" for x
    using mutate_fields_pointwise [of "genome_fields x" "genome_fields x"] by simp
  then show ?thesis using assms p unfolding mask_genome_fields by (simp add: genome_mutate_def split_def Let_def rate len NUM_GENES_def)
qed

lemma genome_crossover_nth:
  "i < 8 \<Longrightarrow> genome_fields (fst (genome_crossover r k a b)) ! i
     = (if d_lt (randf r (k + i)) (fconst (1 / 2)) then genome_fields a ! i else genome_fields b ! i)"
  by (simp add: genome_crossover_def NUM_GENES_def del: upt_rec_numeral)

lemma genome_crossover_mask:
  assumes "mask_genome a = mask_genome a'" "mask_genome b = mask_genome b'"
  shows "mask_genome (fst (genome_crossover r k a b)) = mask_genome (fst (genome_crossover r k a' b')) \<and> snd (genome_crossover r k a b) = snd (genome_crossover r k a' b')"
  using assms unfolding mask_genome_fields by (simp add: genome_crossover_nth) (simp add: genome_crossover_def)

text \<open>Two states that differ in the two genes only are \<open>alike\<close>; every phase keeps them so.\<close>

abbreviation alike :: "life_sim \<Rightarrow> life_sim \<Rightarrow> bool" where "alike s s' \<equiv> mask_sim s = mask_sim s'"

lemma alikeI: "map mask_entity (ls_pop s) = map mask_entity (ls_pop s') \<Longrightarrow> ls_world s = ls_world s' \<Longrightarrow> ls_size s = ls_size s' \<Longrightarrow> ls_next_id s = ls_next_id s'
    \<Longrightarrow> ls_rand s = ls_rand s' \<Longrightarrow> alike s s'"
  by (cases s; cases s') (simp add: mask_sim_def)

lemma alikeD:
  assumes "alike s s'"
  shows "map mask_entity (ls_pop s) = map mask_entity (ls_pop s')" "ls_world s = ls_world s'" "ls_size s = ls_size s'" "ls_next_id s = ls_next_id s'"
    "ls_rand s = ls_rand s'" "length (ls_pop s) = length (ls_pop s')"
    "i < length (ls_pop s) \<Longrightarrow> mask_entity (ls_pop s ! i) = mask_entity (ls_pop s' ! i)"
proof -
  show "map mask_entity (ls_pop s) = map mask_entity (ls_pop s')" "ls_world s = ls_world s'" "ls_size s = ls_size s'" "ls_next_id s = ls_next_id s'"
    "ls_rand s = ls_rand s'" using assms by (cases s; cases s'; simp add: mask_sim_def)+
  then show "length (ls_pop s) = length (ls_pop s')" "i < length (ls_pop s) \<Longrightarrow> mask_entity (ls_pop s ! i) = mask_entity (ls_pop s' ! i)"
    by (metis length_map) (metis \<open>map mask_entity (ls_pop s) = map mask_entity (ls_pop s')\<close> length_map nth_map)
qed

lemma mask_entity_eqD:
  assumes "mask_entity e = mask_entity f"
  shows "le_alive e = le_alive f" "le_energy e = le_energy f" "le_x e = le_x f" "le_y e = le_y f" "le_id e = le_id f" "le_generation e = le_generation f"
    "mask_genome (le_genes e) = mask_genome (le_genes f)" "entity_can_reproduce e = entity_can_reproduce f"
  using assms by (metis mask_entity_simps mask_idem(1) entity_can_reproduce_mask)+

lemma step_all_fold_mask:
  assumes "map mask_entity pop = map mask_entity pop'" "\<forall>i \<in> set is. i < length pop"
  shows "map mask_entity (fst (fold step_at is (pop, w))) = map mask_entity (fst (fold step_at is (pop', w)))
    \<and> snd (fold step_at is (pop, w)) = snd (fold step_at is (pop', w))"
  using assms
proof (induction "is" arbitrary: pop pop' w)
  case (Cons i "is")
  have len: "length pop = length pop'" using Cons.prems(1) by (metis length_map)
  then have m: "mask_entity (pop ! i) = mask_entity (pop' ! i)" using Cons.prems by (metis list.set_intros(1) nth_map)
  obtain e v e' v' where ev: "entity_step (pop ! i) w = (e, v)" "entity_step (pop' ! i) w = (e', v')" by (metis surj_pair)
  have eq: "mask_entity e = mask_entity e'" "v = v'" using entity_step_mask [of "pop ! i" w] entity_step_mask [of "pop' ! i" w] m ev by simp_all
  have "map mask_entity (pop[i := e]) = map mask_entity (pop'[i := e'])" using Cons.prems(1) eq by (simp add: map_update)
  from Cons.IH [OF this, of v] Cons.prems(2) show ?case by (simp add: step_at_def ev eq)
qed simp

lemma step_all_alike: "alike s s' \<Longrightarrow> ls_size s \<le> length (ls_pop s) \<Longrightarrow> alike (step_all s) (step_all s')"
  using step_all_fold_mask [of "ls_pop s" "ls_pop s'" "[0..<ls_size s]" "ls_world s"] alikeD(1-5) [of s s']
  by (intro alikeI) (simp_all add: step_all_def split_def Let_def)

lemma child_genome_alike:
  assumes "alike s s'" "i < ls_size s" "ls_size s \<le> length (ls_pop s)"
  shows "mask_genome (fst (child_genome r s i)) = mask_genome (fst (child_genome r s' i)) \<and> snd (child_genome r s i) = snd (child_genome r s' i)"
proof -
  define partner where "partner = c_rand r (ls_rand s) mod ls_size s"
  have eqs: "ls_size s' = ls_size s" "ls_rand s' = ls_rand s" using alikeD(3,5) [OF assms(1)] by simp_all
  have "partner < ls_size s" using assms(2) by (simp add: partner_def)
  then have p: "mask_entity (ls_pop s ! partner) = mask_entity (ls_pop s' ! partner)" "mask_entity (ls_pop s ! i) = mask_entity (ls_pop s' ! i)"
    using assms by (auto intro: alikeD(7))
  note genes = mask_entity_eqD(7) [OF p(1)] mask_entity_eqD(7) [OF p(2)] and alive = mask_entity_eqD(1) [OF p(1)]
  show ?thesis
    using genome_crossover_mask [OF genes(2,1), of r "ls_rand s + 1"] genes(2) alive
    by (auto simp: child_genome_def Let_def split_def eqs simp flip: partner_def intro!: genome_mutate_mask [THEN conjunct1] genome_mutate_mask [THEN conjunct2])
qed

lemma birth_alike:
  assumes "alike s s'" "i < ls_size s" "ls_size s \<le> length (ls_pop s)"
  shows "alike (fst (birth r s i)) (fst (birth r s' i)) \<and> mask_entity (snd (birth r s i)) = mask_entity (snd (birth r s' i))"
proof -
  note c = child_genome_alike [OF assms, of r] and d = alikeD [OF assms(1)]
  have p: "mask_entity (ls_pop s ! i) = mask_entity (ls_pop s' ! i)" using assms by (auto intro: d(7))
  have upd: "mask_entity (x\<lparr>le_energy := v\<rparr>) = mask_entity x\<lparr>le_energy := v\<rparr>" for x v by (simp add: mask_entity_def)
  have spawn: "mask_entity (fst (entity_spawn n g x y q t)) = mask_entity (fst (entity_spawn n g' x y q t)) \<and> snd (entity_spawn n g x y q t) = snd (entity_spawn n g' x y q t)"
    if "mask_genome g = mask_genome g'" for n g g' x y q t
    using that by (simp add: entity_spawn_def mask_entity_def)
  note sp = spawn [OF c [THEN conjunct1], of "ls_next_id s'" "le_x (ls_pop s' ! i)" "le_y (ls_pop s' ! i)" "le_id (ls_pop s' ! i)" "le_generation (ls_pop s' ! i) + 1"]
  have "alike (fst (birth r s i)) (fst (birth r s' i))"
    using c d(1-5) p sp mask_entity_eqD [OF p] by (intro alikeI) (simp_all add: birth_def Let_def split_def map_update upd)
  then show ?thesis using d(1-5) sp mask_entity_eqD [OF p] by (simp add: birth_def Let_def split_def)
qed

lemma birth_sizes [simp]: "ls_size (fst (birth r s i)) = ls_size s" "length (ls_pop (fst (birth r s i))) = length (ls_pop s)"
  by (simp_all add: birth_def Let_def split_def)

lemma reproduce_alike:
  assumes "alike s s'" "map mask_entity nb = map mask_entity nb'" "\<forall>i \<in> set is. i < ls_size s" "ls_size s \<le> length (ls_pop s)"
  shows "alike (fst (reproduce r is s nb)) (fst (reproduce r is s' nb')) \<and> map mask_entity (snd (reproduce r is s nb)) = map mask_entity (snd (reproduce r is s' nb'))"
  using assms
proof (induction "is" arbitrary: s s' nb nb')
  case (Cons i "is")
  have i: "i < ls_size s" using Cons.prems by simp
  have len: "length nb = length nb'" using Cons.prems(2) by (metis length_map)
  have can: "entity_can_reproduce (ls_pop s ! i) = entity_can_reproduce (ls_pop s' ! i)"
    using i Cons.prems by (intro mask_entity_eqD(8) alikeD(7)) auto
  note b = birth_alike [OF Cons.prems(1) i Cons.prems(4), of r]
  have "alike (fst (reproduce r is (fst (birth r s i)) (nb @ [snd (birth r s i)]))) (fst (reproduce r is (fst (birth r s' i)) (nb' @ [snd (birth r s' i)])))
    \<and> map mask_entity (snd (reproduce r is (fst (birth r s i)) (nb @ [snd (birth r s i)]))) = map mask_entity (snd (reproduce r is (fst (birth r s' i)) (nb' @ [snd (birth r s' i)])))"
    by (rule Cons.IH) (use b Cons.prems in simp_all)
  then show ?case using Cons.IH [of s s' nb nb'] Cons.prems can len alikeD(3) [OF Cons.prems(1)] by (simp add: split_def Let_def)
qed simp

lemma append_newborns_alike:
  "alike s s' \<Longrightarrow> map mask_entity es = map mask_entity es' \<Longrightarrow> alike (append_newborns es s) (append_newborns es' s')"
proof (induction es arbitrary: s s' es')
  case (Cons e es)
  obtain e' fs where es': "es' = e' # fs" "mask_entity e = mask_entity e'" "map mask_entity es = map mask_entity fs" using Cons.prems(2) by (cases es') auto
  note d = alikeD(1-5) [OF Cons.prems(1)]
  have "alike (s\<lparr>ls_pop := (ls_pop s)[ls_size s := e], ls_size := ls_size s + 1\<rparr>) (s'\<lparr>ls_pop := (ls_pop s')[ls_size s' := e'], ls_size := ls_size s' + 1\<rparr>)"
    using d es' by (intro alikeI) (simp_all add: map_update)
  from Cons.IH [OF this es'(3)] show ?case using Cons.prems d(3) es' by simp
qed simp

lemma keep_alive_fold_mask:
  assumes "map mask_entity pop = map mask_entity pop'" "\<forall>i \<in> set is. i < length pop"
  shows "map mask_entity (fst (fold keep_alive_at is (pop, k))) = map mask_entity (fst (fold keep_alive_at is (pop', k)))
    \<and> snd (fold keep_alive_at is (pop, k)) = snd (fold keep_alive_at is (pop', k))"
  using assms
proof (induction "is" arbitrary: pop pop' k)
  case (Cons i "is")
  have len: "length pop = length pop'" using Cons.prems(1) by (metis length_map)
  then have m: "mask_entity (pop ! i) = mask_entity (pop' ! i)" using Cons.prems by (metis list.set_intros(1) nth_map)
  have "map mask_entity (pop[k := pop ! i]) = map mask_entity (pop'[k := pop' ! i])" using Cons.prems(1) m by (simp add: map_update)
  note moved = Cons.IH [OF this, of "k + 1"]
  show ?case using moved Cons.IH [OF Cons.prems(1), of k] Cons.prems(2) mask_entity_eqD(1) [OF m] by (simp add: keep_alive_at_def)
qed simp

lemma compact_alive_alike: "alike s s' \<Longrightarrow> ls_size s \<le> length (ls_pop s) \<Longrightarrow> alike (compact_alive s) (compact_alive s')"
  using keep_alive_fold_mask [of "ls_pop s" "ls_pop s'" "[0..<ls_size s]" 0] alikeD(1-5) [of s s']
  by (intro alikeI) (simp_all add: compact_alive_def split_def Let_def)

definition fits :: "life_sim \<Rightarrow> bool" where
  "fits s \<longleftrightarrow> length (ls_pop s) = MAX_ENTITIES \<and> ls_size s \<le> MAX_ENTITIES"

lemma fits_step_all: "fits s \<Longrightarrow> fits (step_all s)"
proof -
  have "length (fst (fold step_at is p)) = length (fst p)" for "is" p
    by (induction "is" arbitrary: p) (auto simp: step_at_def split_def Let_def)
  then show "fits s \<Longrightarrow> fits (step_all s)" by (simp add: fits_def step_all_def split_def Let_def)
qed

lemma reproduce_sizes: "ls_size (fst (reproduce r is s nb)) = ls_size s \<and> length (ls_pop (fst (reproduce r is s nb))) = length (ls_pop s)"
  by (induction "is" arbitrary: s nb) (simp_all add: split_def Let_def)

lemma fits_append: "fits s \<Longrightarrow> fits (append_newborns es s)"
  by (induction es arbitrary: s) (simp_all add: fits_def)

lemma fits_compact: "fits s \<Longrightarrow> fits (compact_alive s)"
proof -
  assume f: "fits s"
  then have "ls_size s \<le> length (ls_pop s)" by (simp add: fits_def)
  note m = members_compact [OF this]
  have "ls_size (compact_alive s) = length (filter le_alive (members s))" using m by metis
  also have "\<dots> \<le> length (members s)" by (rule length_filter_le)
  also have "\<dots> \<le> ls_size s" by (simp add: members_def)
  finally show "fits (compact_alive s)" using m f by (simp add: fits_def)
qed

lemma life_tick_alike:
  assumes "fits s" "alike s s'" shows "alike (life_tick r s) (life_tick r s') \<and> fits (life_tick r s)"
proof -
  define s0 where "s0 = s\<lparr>ls_world := world_regenerate (ls_world s)\<rparr>"
  define u0 where "u0 = s'\<lparr>ls_world := world_regenerate (ls_world s')\<rparr>"
  have 0: "alike s0 u0" "fits s0" using assms alikeD(1-5) [OF assms(2)] by (auto intro!: alikeI simp: s0_def u0_def fits_def)
  define s1 u1 where "s1 = step_all s0" and "u1 = step_all u0"
  have 1: "alike s1 u1" "fits s1" using step_all_alike [OF 0(1)] fits_step_all [OF 0(2)] 0(2) by (simp_all add: s1_def u1_def fits_def)
  define s2 u2 where "s2 = reproduce r [0..<ls_size s1] s1 []" and "u2 = reproduce r [0..<ls_size s1] u1 []"
  have "alike (fst s2) (fst u2) \<and> map mask_entity (snd s2) = map mask_entity (snd u2)"
    unfolding s2_def u2_def by (rule reproduce_alike [OF 1(1)]) (use 1(2) in \<open>simp_all add: fits_def\<close>)
  then have 2: "alike (append_newborns (snd s2) (fst s2)) (append_newborns (snd u2) (fst u2))" using append_newborns_alike by blast
  have "fits (fst s2)" using 1(2) reproduce_sizes [of r "[0..<ls_size s1]" s1 "[]"] by (simp add: s2_def fits_def)
  then have 3: "fits (append_newborns (snd s2) (fst s2))" by (rule fits_append)
  then have "alike (compact_alive (append_newborns (snd s2) (fst s2))) (compact_alive (append_newborns (snd u2) (fst u2)))"
    using compact_alive_alike [OF 2] by (simp add: fits_def)
  then show ?thesis using fits_compact [OF 3] alikeD(3) [OF 1(1)]
    by (simp add: life_tick_def Let_def split_def s0_def u0_def s1_def u1_def s2_def u2_def)
qed

lemma fits_start: "fits (life_start ord r)"
  using life_start_ok [of ord r] by (simp add: population_ok_def stage_ok_def fits_def)

text \<open>C40: two of the eight genes, aggression and the social gene, influence nothing: populations that differ in them only remain, tick
  after tick, the same in everything else, positions, energies, births, deaths and the calls of \<open>rand()\<close> included.\<close>

theorem life_idle_genes:
  assumes "fits s" and "mask_sim s = mask_sim s'" shows "mask_sim ((life_tick r ^^ n) s) = mask_sim ((life_tick r ^^ n) s')"
proof -
  have "alike ((life_tick r ^^ n) s) ((life_tick r ^^ n) s') \<and> fits ((life_tick r ^^ n) s)"
    by (induction n) (use assms life_tick_alike in auto)
  then show ?thesis ..
qed

theorem life_idle_genes_witness:
  "let s = life_start XGY (\<lambda>k. k); s' = s\<lparr>ls_pop := map (\<lambda>e. e\<lparr>le_genes := (le_genes e)\<lparr>aggression := DNum 1\<rparr>\<rparr>) (ls_pop s)\<rparr> in
   mask_sim ((life_tick (\<lambda>k. k) ^^ 3) s) = mask_sim ((life_tick (\<lambda>k. k) ^^ 3) s')"
  unfolding Let_def by (rule life_idle_genes [OF fits_start]) (simp add: mask_sim_def mask_entity_def mask_genome_def)

text \<open>C39: the loop that moves the living to the front of the array, in place, is the filter of the population: it keeps the
  living, in their order, and what lies behind the population is not touched.\<close>

theorem life_compact_filter:
  assumes "ls_size s \<le> length (ls_pop s)"
  shows "take (ls_size (compact_alive s)) (ls_pop (compact_alive s)) = filter le_alive (take (ls_size s) (ls_pop s))
    \<and> drop (ls_size s) (ls_pop (compact_alive s)) = drop (ls_size s) (ls_pop s)"
  using members_compact [OF assms] by (simp add: members_def)

theorem life_compact_filter_witness:
  "let e = (\<lambda>n. zero_entity\<lparr>le_id := n, le_alive := odd n\<rparr>); s = \<lparr>ls_world = [], ls_pop = map e [0, 1, 2, 3, 4], ls_size = 4, ls_next_id = 5, ls_rand = 0\<rparr> in
   take (ls_size (compact_alive s)) (ls_pop (compact_alive s)) = [e 1, e 3] \<and> drop 4 (ls_pop (compact_alive s)) = [e 4]"
  using life_compact_filter [of "\<lparr>ls_world = [], ls_pop = map (\<lambda>n. zero_entity\<lparr>le_id := n, le_alive := odd n\<rparr>) [0, 1, 2, 3, 4], ls_size = 4,
    ls_next_id = 5, ls_rand = 0\<rparr>"] by (simp add: Let_def)

end
