(* ===== verification/InitMain.thy ===== *)
theory InitMain
  imports Supervisor
begin

text \<open>
  \<open>init/src/main.c\<close> with everything it writes: the signal handlers, the lines on the console and the entries of the init log, around the
  operations of \<open>Supervisor\<close>. The \<open>k\<close>th call of \<open>chrono_log\<close> meets the \<open>k\<close>th answer of a \<open>log_env\<close> (whether the log can be opened,
  and the time). A run of the supervision loop is the list of what happens: events and signals.
\<close>

definition INIT_VERSION :: string where "INIT_VERSION = ''1.1.0''"
definition SIGINT :: int where "SIGINT = 2"
definition SIG_TERM :: int where "SIG_TERM = 15"
definition SERVICES_CONF :: string where "SERVICES_CONF = ''../etc/chrono/services.conf''"

type_synonym log_env = "nat \<Rightarrow> bool \<times> tm"
type_synonym log_entry = "string \<times> string \<times> string"

definition signal_handler :: "int \<Rightarrow> bool \<Rightarrow> bool" where
  \<comment> \<open>\<open>shutdown_requested\<close> after the handler\<close>
  "signal_handler sig shutdown_requested = True"

definition install_signal_handlers :: "(int \<Rightarrow> bool) \<Rightarrow> int" where
  \<comment> \<open>the parameter: whether \<open>sigaction\<close> succeeds for a signal\<close>
  "install_signal_handlers sigaction = (if \<not> sigaction SIGINT then -1 else if \<not> sigaction SIG_TERM then -1 else 0)"

definition init_banner :: "int \<Rightarrow> string list" where
  "init_banner pid =
     [[], ''=============================================='', ''        ChronoOS Init '' @ INIT_VERSION,
      ''=============================================='', [], ''[INIT] Development mode: PID '' @ int_str pid]"

definition service_listing :: "registry \<Rightarrow> string list" where
  "service_listing reg =
     map (\<lambda>s. ''[SERVICE] '' @ s_name s @ '' | '' @ s_executable s @ '' | '' @ s_restart_policy s @ '' | max='' @ int_str (s_max_restarts s)) reg"

fun start_failure :: "fork_alloc \<Rightarrow> nat list \<Rightarrow> sup_state \<Rightarrow> string list" where
  \<comment> \<open>the line of the service that cannot be started\<close>
  "start_failure fork [] st = []"
| "start_failure fork (i # is) st =
     (let (r, st') = supervisor_start fork (int i) st in
      if r < 0 then [''[ERROR] Unable to start service: '' @ s_name (r_config (fst st ! i))] else start_failure fork is st')"

datatype init_input = Happens init_event | Signal int

fun supervise :: "init_input list \<Rightarrow> sup_state \<Rightarrow> sup_state" where
  \<comment> \<open>\<open>while (!shutdown_requested)\<close>: \<open>supervisor_poll\<close> and \<open>supervisor_handle_failures\<close> never fail\<close>
  "supervise [] st = st"
| "supervise (Happens e # inputs) st = supervise inputs (init_step st e)"
| "supervise (Signal sig # inputs) st = (if signal_handler sig False then st else supervise inputs st)"

fun log_entries :: "log_env \<Rightarrow> nat \<Rightarrow> log_entry list \<Rightarrow> string option \<Rightarrow> string option" where
  "log_entries env k [] log = log"
| "log_entries env k ((level, component, message) # es) log =
     log_entries env (Suc k) es (chrono_log (fst (env k)) (snd (env k)) level component message log)"

record init_report =
  ir_code :: int
  ir_state :: sup_state
  ir_entries :: "log_entry list"
  ir_console :: "string list"

definition init_session :: "(int \<Rightarrow> bool) \<Rightarrow> int \<Rightarrow> string option \<Rightarrow> fork_alloc \<Rightarrow> proc_table \<Rightarrow> init_input list \<Rightarrow> (nat \<Rightarrow> stop_answer) \<Rightarrow> init_report option" where
  \<comment> \<open>\<open>main\<close>; \<open>config\<close> is what \<open>SERVICES_CONF\<close> holds, \<open>None\<close> a shutdown that waits forever\<close>
  "init_session sigaction pid config fork os inputs ans =
     (let con = init_banner pid in
      if install_signal_handlers sigaction < 0 then Some \<lparr>ir_code = 1, ir_state = ([], os), ir_entries = [], ir_console = con\<rparr>
      else
        let entries = [(''INIT'', ''INIT'', ''Initializing runtime'')]; (service_count, reg) = service_registry_load config in
        if service_count < 0 then
          Some \<lparr>ir_code = 1, ir_state = ([], os), ir_entries = entries @ [(''ERROR'', ''INIT'', ''Unable to load service registry'')], ir_console = con\<rparr>
        else
          let entries = entries @ [(''OK'', ''INIT'', ''Service registry loaded''), (''OK'', ''SUPERVISOR'', ''Service supervisor initialized'')];
              con = con @ service_listing reg; st = (supervisor_init reg, os);
              (ok, st') = start_all fork [0..<length reg] st in
          if \<not> ok then
            Some \<lparr>ir_code = 1, ir_state = st', ir_entries = entries, ir_console = con @ start_failure fork [0..<length reg] st\<rparr>
          else
            let entries = entries @ [(''OK'', ''INIT'', ''ChronoOS service supervisor running'')];
                con = con @ [supervisor_status (fst st')];
                st = supervise inputs st';
                entries = entries @ [(''INIT'', ''INIT'', ''Stopping ChronoOS services'')] in
            (case stop_all ans [0..<length (fst st)] st of
               None \<Rightarrow> None
             | Some st \<Rightarrow>
                 Some \<lparr>ir_code = 0, ir_state = st, ir_entries = entries @ [(''OK'', ''INIT'', ''ChronoOS shutdown complete'')],
                   ir_console = con @ [supervisor_status (fst st)]\<rparr>))"

definition init_log :: "log_env \<Rightarrow> init_report \<Rightarrow> string option \<Rightarrow> string option" where
  \<comment> \<open>the init log after the run\<close>
  "init_log env rep log = log_entries env 0 (ir_entries rep) log"

section \<open>The session refines the supervision\<close>

fun events_before :: "init_input list \<Rightarrow> init_event list" where
  "events_before (Happens e # inputs) = e # events_before inputs"
| "events_before inputs = []"

lemma supervise_events: "supervise inputs st = foldl init_step st (events_before inputs)"
  by (induction inputs arbitrary: st rule: events_before.induct) (auto simp: signal_handler_def)

text \<open>What \<open>main\<close> prints and logs does not disturb what it does: exit code and final state are those of \<open>init_main\<close>, with the
  events before the first signal.\<close>

theorem init_session_refines:
  "map_option (\<lambda>rep. (ir_code rep, ir_state rep)) (init_session sigaction pid config fork os inputs ans)
   = init_main (0 \<le> install_signal_handlers sigaction) config fork os (events_before inputs) ans"
proof (cases "service_registry_load config")
  case (Pair n reg)
  show ?thesis
    by (cases "start_all fork [0..<length reg] (supervisor_init reg, os)")
      (auto simp: init_session_def init_main_def init_boot_def Pair Let_def supervise_events install_signal_handlers_def split: option.split)
qed

definition session_entries :: "bool \<Rightarrow> log_entry list" where
  \<comment> \<open>the entries of a run with a registry, up to the start of the services or up to the shutdown\<close>
  "session_entries complete =
     [(''INIT'', ''INIT'', ''Initializing runtime''), (''OK'', ''INIT'', ''Service registry loaded''),
      (''OK'', ''SUPERVISOR'', ''Service supervisor initialized'')]
     @ (if complete then [(''OK'', ''INIT'', ''ChronoOS service supervisor running''), (''INIT'', ''INIT'', ''Stopping ChronoOS services''),
          (''OK'', ''INIT'', ''ChronoOS shutdown complete'')] else [])"

fun entry_lines :: "(nat \<Rightarrow> tm) \<Rightarrow> nat \<Rightarrow> log_entry list \<Rightarrow> string list" where
  "entry_lines now k [] = []"
| "entry_lines now k ((level, component, message) # es) =
     (fmt_plain (now k) @ '' ['' @ level @ ''] ['' @ component @ ''] '' @ message) # entry_lines now (Suc k) es"

lemma log_entries_lines:
  "(\<And>k. fst (env k)) \<Longrightarrow> log_entries env k es (Some old) = Some (old @ unlines (entry_lines (snd \<circ> env) k es))"
proof (induction es arbitrary: k old)
  case (Cons e es)
  then show ?case by (cases e) (simp add: chrono_log_def)
qed simp

lemma session_logged:
  assumes "init_session sigaction pid config fork os inputs ans = Some rep" "0 \<le> install_signal_handlers sigaction" "config \<noteq> None"
  shows "ir_entries rep = session_entries (ir_code rep = 0)"
proof -
  obtain c where c: "config = Some c" using assms(3) by auto
  obtain reg where reg: "service_registry_load config = (int (length reg), reg)" by (simp add: c service_registry_load_def Let_def)
  show ?thesis using assms
    by (cases "start_all fork [0..<length reg] (supervisor_init reg, os)")
      (auto simp: init_session_def reg Let_def session_entries_def split: option.splits if_splits)
qed

text \<open>the init log is appended to and tells how the run ended: when the log can be opened and there is a registry, exactly three entries are written
  if a service cannot be started (the failure itself is on the console only), and three more, with the shutdown as the last, if the
  services were supervised and stopped.\<close>

theorem init_log_entries:
  assumes "init_session sigaction pid config fork os inputs ans = Some rep" "0 \<le> install_signal_handlers sigaction" "config \<noteq> None"
    and "\<And>k. fst (env k)"
  shows "init_log env rep (Some old) = Some (old @ unlines (entry_lines (snd \<circ> env) 0 (session_entries (ir_code rep = 0))))"
  unfolding init_log_def by (simp add: log_entries_lines [OF assms(4)] session_logged [OF assms(1-3)])

theorem init_log_entries_witness:
  "\<exists>rep. init_session (\<lambda>_. True) 1 (Some []) demo_alloc (\<lambda>_. None) [Signal SIG_TERM] (\<lambda>_. Ends) = Some rep
     \<and> init_log (\<lambda>_. (True, t)) rep (Some []) = Some ([] @ unlines (entry_lines (snd \<circ> (\<lambda>_. (True, t))) 0 (session_entries (ir_code rep = 0))))"
proof -
  have "init_session (\<lambda>_. True) 1 (Some []) demo_alloc (\<lambda>_. None) [Signal SIG_TERM] (\<lambda>_. Ends) \<noteq> None"
    by (simp add: init_session_def install_signal_handlers_def service_registry_load_def supervisor_init_def signal_handler_def Let_def)
  then obtain rep where rep: "init_session (\<lambda>_. True) 1 (Some []) demo_alloc (\<lambda>_. None) [Signal SIG_TERM] (\<lambda>_. Ends) = Some rep" by blast
  from init_log_entries [OF this, of "\<lambda>_. (True, t)" "[]"] show ?thesis
    using rep by (simp add: install_signal_handlers_def)
qed

end
