(* ===== verification/PanicHalt.thy ===== *)
theory PanicHalt
  imports Destruction
begin

text \<open>
  How the destruction programs end: the wiping of memory and the last step of \<open>core/chrono_secure_purge.c\<close>,
  \<open>core/chrono_panic_protocol.c\<close> and \<open>core/attestation/chrono_provable_destruction.c\<close>, as the list of what a run does, in order.
  The files are those of \<open>Destruction\<close>. \<open>ram_env\<close> says how \<open>malloc\<close> and \<open>mlock\<close> end and what a new block holds.
\<close>

record ram_env =
  ra_malloc :: bool
  ra_mlock :: bool
  ra_block :: string

datatype end_step =
    RamFreed string            \<comment> \<open>a block is given back with these bytes\<close>
  | DevicePurged
  | Shredded string int
  | Synced
  | Refused string int         \<comment> \<open>a command for the disabled shell, and what the call returns\<close>
  | KernelCrash
  | Printed string

fun secure_zero_memory :: "string \<Rightarrow> nat \<Rightarrow> string" where
  \<comment> \<open>\<open>while (n--) *p++ = 0\<close>\<close>
  "secure_zero_memory (b # bs) (Suc n) = NUL # secure_zero_memory bs n"
| "secure_zero_memory bs n = bs"

lemma secure_zero_memory_all: "length bs = n \<Longrightarrow> secure_zero_memory bs n = replicate n NUL"
  by (induction bs n rule: secure_zero_memory.induct) auto

definition wipe_ram :: "ram_env \<Rightarrow> nat \<Rightarrow> char \<Rightarrow> end_step list" where
  \<comment> \<open>allocate, lock, fill with a pattern, wipe, free\<close>
  "wipe_ram ram n pattern =
     (if \<not> ra_malloc ram then []
      else [RamFreed (if ra_mlock ram then secure_zero_memory (replicate n pattern) n else ra_block ram)])"

definition refused :: "string \<Rightarrow> end_step" where
  "refused command = Refused command (chrono_system_disabled (Some command))"

definition purge_steps :: "ram_env \<Rightarrow> shred_env \<Rightarrow> files \<Rightarrow> end_step list" where
  \<comment> \<open>\<open>execute_system_panic_purge\<close>\<close>
  "purge_steps ram env fs =
     wipe_ram ram 256 (CHR 0xAB) @ map Printed (snd (execute_system_panic_purge env fs)) @ [Synced,
       Printed ''[PURGE] Memoria RAM saneada y discos sincronizados. Ejecutando parada de emergencia...'']"

definition purge_main :: "ram_env \<Rightarrow> shred_env \<Rightarrow> files \<Rightarrow> int \<times> files \<times> end_step list" where
  "purge_main ram env fs = (0, fst (execute_system_panic_purge env fs), purge_steps ram env fs)"

definition detonate :: "bool \<Rightarrow> end_step list" where
  \<comment> \<open>\<open>sysrq_ok\<close>: \<open>/proc/sysrq-trigger\<close> can be opened\<close>
  "detonate sysrq_ok = (if sysrq_ok then [KernelCrash] else [refused ''reboot -f''])"

definition panic_steps :: "ram_env \<Rightarrow> bool \<Rightarrow> shred_env \<Rightarrow> files \<Rightarrow> end_step list" where
  \<comment> \<open>\<open>execute_total_panic_protocol\<close>; a crash of the kernel ends everything\<close>
  "panic_steps ram sysrq_ok env fs =
     (let fs1 = execute_ssd_crypto_shred env fs; (rc1, fs2, _) = forensic_shred env fs1 MESH_KEY; (rc2, _, _) = forensic_shred env fs2 PANIC_TRIGGER in
      wipe_ram ram 4096 (CHR 0xAA) @ (case ssd_fallback env fs of None \<Rightarrow> [DevicePurged]
        | Some rc \<Rightarrow> [Refused ''dd if=/dev/urandom of=./security/auth/master.key bs=1 count=32 conv=notrunc 2>/dev/null || true'' rc])
      @ [Shredded MESH_KEY rc1, Shredded PANIC_TRIGGER rc2, Synced] @ detonate sysrq_ok)"

definition panic_main :: "ram_env \<Rightarrow> bool \<Rightarrow> shred_env \<Rightarrow> files \<Rightarrow> int option \<times> files \<times> end_step list" where
  \<comment> \<open>the exit code is \<open>None\<close> when the kernel is gone\<close>
  "panic_main ram sysrq_ok env fs =
     (if sysrq_ok then None else Some 0, execute_total_panic_protocol env fs, panic_steps ram sysrq_ok env fs)"

definition KEY_LEN :: nat where "KEY_LEN = 32"

definition destruction_sha256_hex :: "(string \<Rightarrow> string) \<Rightarrow> string \<Rightarrow> string" where
  \<comment> \<open>two digits for each of the 32 bytes\<close>
  "destruction_sha256_hex H data = hex_of (take 32 (H data))"

definition wipe_master_key :: "string \<Rightarrow> string list" where
  \<comment> \<open>what the key holds in memory after each of the two loops\<close>
  "wipe_master_key key = [map (\<lambda>_. CHR 0xFF) key, map (\<lambda>_. NUL) key]"

definition destruction_steps :: "end_step list" where
  \<comment> \<open>the commands between the destruction of the key and the certificate, with the lines that follow them\<close>
  "destruction_steps =
     [Printed ''  [*] Purgando vaults...'',
      refused ''for f in ./security/vaults/*; do [ -f \"$f\" ] && dd if=/dev/urandom of=\"$f\" bs=1 count=$(stat -c%s \"$f\" 2>/dev/null) conv=notrunc 2>/dev/null; done'',
      refused ''rm -rf ./security/vaults/*'', Printed ''  Vaults purgados.'',
      Printed ''  [*] Deteniendo nucleo 5G...'', refused ''pkill -f open5gs 2>/dev/null; systemctl stop open5gs-* 2>/dev/null'',
      Printed ''  Nucleo 5G detenido.'', Printed ''  [*] Invalidando identidad de hardware...'',
      refused ''rm -f ./security/auth/device_identity.json 2>/dev/null'', Printed ''  Identidad de hardware invalidada.'',
      Synced, refused ''echo 3 > /proc/sys/vm/drop_caches 2>/dev/null'']"

definition destruction_halt :: "end_step list" where
  "destruction_halt = [refused ''echo c > /proc/sysrq-trigger 2>/dev/null || reboot -f 2>/dev/null || poweroff -f 2>/dev/null'']"

text \<open>the panic protocol stops the machine exactly when the trigger of the kernel can be opened: then the crash comes last, after
  the shredding and the flush of the disks. Otherwise its fallback, a reboot through the disabled shell, fails, the program reports
  success and the machine runs on. The purge program announces an emergency stop and has none, and the provable destruction
  tries to stop the machine through the disabled shell only.\<close>

theorem panic_halt_exact:
  "(KernelCrash \<in> set (snd (snd (panic_main ram sysrq_ok env fs))) \<longleftrightarrow> sysrq_ok) \<and>
   (fst (panic_main ram sysrq_ok env fs) = None \<longleftrightarrow> sysrq_ok) \<and>
   last (snd (snd (panic_main ram sysrq_ok env fs))) = (if sysrq_ok then KernelCrash else Refused ''reboot -f'' (-1)) \<and>
   Synced \<in> set (butlast (snd (snd (panic_main ram sysrq_ok env fs)))) \<and>
   KernelCrash \<notin> set (snd (snd (purge_main ram env fs))) \<and> KernelCrash \<notin> set (destruction_steps @ destruction_halt)"
  by (auto simp: panic_main_def panic_steps_def detonate_def refused_def chrono_system_disabled_def purge_main_def purge_steps_def
      destruction_steps_def destruction_halt_def wipe_ram_def Let_def split_def butlast_append split: option.split)

text \<open>Memory is given back as zeros, unless it could not be locked: then it is not written to at all.\<close>

theorem wipe_ram_zero:
  "wipe_ram ram n p = (if \<not> ra_malloc ram then [] else [RamFreed (if ra_mlock ram then replicate n NUL else ra_block ram)])"
  by (simp add: wipe_ram_def secure_zero_memory_all)

theorem wipe_master_key_zero: "last (wipe_master_key key) = replicate (length key) NUL"
  by (simp add: wipe_master_key_def map_replicate_const)

end
