(* ===== verification/LedgerClients.thy ===== *)
theory LedgerClients
  imports Ledger Community Subscriber5G
begin

text \<open>
  The programs around the audit ledger, put together: the community node and the 5G manager start the ledger program, each with the
  argument vectors their models record, and the program runs on the ledger file. \<open>ledger_client\<close> is what a client
  promises: while its inputs are \<open>tame\<close>, every call it makes of the ledger program has arguments that need no escaping.
\<close>

section \<open>Running what a client starts\<close>

definition start_child :: "digest \<Rightarrow> ledger_env \<Rightarrow> exec_call \<Rightarrow> string option \<Rightarrow> string option" where
  \<comment> \<open>what a started program makes of the ledger file; the other programs leave it alone\<close>
  "start_child digest env call file =
     (if fst call = LEDGER_PROGRAM then snd (ledger_main digest env (snd call) file) else file)"





section \<open>Clients\<close>












lemma remember_calls [simp]: "ledger_calls (snd (remember_nonce env n w)) = ledger_calls w"
  by (simp add: remember_nonce_def Let_def split: option.splits)

lemma parse_calls [simp]: "ledger_calls (snd (parse_and_verify_packet hmac env key p ip a b c w)) = ledger_calls w"
  by (simp add: parse_and_verify_packet_def Let_def split_def)



section \<open>The ledger of a system\<close>



text \<open>Without the condition on the datagrams it fails: the type of an authentic alert reaches the ledger with its quotes.\<close>

text \<open>C37: one authentic alert spoils the ledger for good. Let a node accept an alert whose type holds a quote or a backslash, does not end
  in a backslash, and is a text that the ledger accepts (no control character; a type with a tab, say, is accepted by the node and refused by the
  ledger, which then stays valid); let the node be able to fork and the ledger program meet no failure. Then the node's one call of the
  ledger program appends a record to a ledger that verifies, and after it no verification succeeds any more, whatever is appended
  later; the only exception is that the record escaped once and the different record escaped twice have the same digest.\<close>

theorem alert_spoils_ledger:
  assumes "listen_step hmac key w (env, data, ip) = (Some (Accepted ty origin message), w')" and "xe_fork_ok (ae_exec env)"
    and "\<not> plain_text ty" and "valid_text ty MAX_DETAILS" and "last ty \<noteq> BSLASH"
    and "ledger_verify digest True True (Some c) = 0" and "digest_total digest" and "env_good lenv"
    and "get_timestamp (env_tm lenv) = Some ts" and "get_last_hash True c = Some ph"
    and "once = record_text ts ''COMMUNITY_ALERT'' (escape_spec ty) ph"
    and "twice = record_text ts ''COMMUNITY_ALERT'' (escape_spec (escape_spec ty)) ph"
  shows "\<exists>call d. ledger_calls w' = ledger_calls w @ [call] \<and> start_child digest lenv call (Some c) = Some d
    \<and> ((\<forall>t. ledger_verify digest True True (Some (d @ t)) = 1) \<or> once \<noteq> twice \<and> digest once = digest twice)"
proof -
  let ?ev = "''COMMUNITY_ALERT''"
  have ev: "valid_text ?ev MAX_EVENT" "plain_text ?ev" "last ?ev \<noteq> BSLASH"
    by (simp_all add: valid_text_def MAX_EVENT_def code_def plain_text_def)
  have "\<not> (plain_text ?ev \<and> plain_text ty)" using assms(3) by simp
  from ledger_quote_breaks_verify [OF assms(6-8) ev(1) assms(4) this ev(3) assms(5,9,10), of once twice] ev(2) assms(11,12)
  obtain d where d: "ledger_append digest lenv ?ev ty (Some c) = (0, Some d)"
    "(\<forall>t. ledger_verify digest True True (Some (d @ t)) = 1) \<or> once \<noteq> twice \<and> digest once = digest twice" by auto
  have ty: "ty \<noteq> []" using assms(3) by (auto simp: plain_text_def)
  obtain x i where xi: "data = Some x" "ip = Some i" "x \<noteq> []" using assms(1) by (auto simp: listen_step_def split: option.splits if_splits)
  obtain res v where rv: "parse_and_verify_packet hmac env key (cstr (take 1023 x)) i MAX_TYPE MAX_LABEL MAX_ALERT w = (res, v)" by fastforce
  have v: "ledger_calls v = ledger_calls w" using parse_calls [of hmac env key "cstr (take 1023 x)" i MAX_TYPE MAX_LABEL MAX_ALERT w] rv by simp
  have "w' = log_alert env ty origin message v" using assms(1) xi rv by (cases res) (auto simp: listen_step_def)
  then have "ledger_calls w' = ledger_calls w @ [(LEDGER_PROGRAM, [LEDGER_PROGRAM, ''append'', ?ev, ty])]"
    using v ty assms(2) by (simp add: log_alert_def Let_def ledger_call_cases)
  moreover have "start_child digest lenv (LEDGER_PROGRAM, [LEDGER_PROGRAM, ''append'', ?ev, ty]) (Some c) = Some d"
    using d(1) by (simp add: start_child_def ledger_main_def)
  ultimately show ?thesis using d(2) by (intro exI [of _ "(LEDGER_PROGRAM, [LEDGER_PROGRAM, ''append'', ?ev, ty])"] exI [of _ d] conjI)
qed

definition quoted_type :: string where
  "quoted_type = [CHR ''F'', QUOTE, CHR ''E'']"

definition quoted_packet :: string where
  "quoted_packet = alert_canonical 1000 (hex_of (replicate 16 (CHR ''N''))) quoted_type ''a'' ''go'' @ BAR # hex_of (replicate 32 (CHR ''K''))"

lemma quoted_built: "build_packet demo_hmac alert_env0 demo_key quoted_type ''go'' ''a'' 1024 = Some quoted_packet"
proof -
  have i: "int_str 1000 = nat_str 1000" using int_str_of_nat [of 1000] by simp
  have n: "length (nat_str 1000) \<le> 4" by (rule nat_str_length_mono) simp_all
  let ?c = "join BAR [ALERT_VERSION, nat_str 1000, hex_of (replicate 16 (CHR ''N'')), quoted_type, ''a'', ''go'']"
  have l: "length ?c < 700" using n by (simp add: ALERT_VERSION_def quoted_type_def)
  then have "\<not> 768 \<le> length ?c" "\<not> 1024 \<le> length (?c @ BAR # hex_of (replicate 32 (CHR ''K'')))"
    by simp_all
  then show ?thesis
    by (simp add: build_packet_def alert_env0_def make_hmac_def demo_hmac_def Let_def i quoted_packet_def alert_canonical_def quoted_type_def
        del: join.simps hex_of_simps)
qed

lemma quoted_accepted:
  "\<exists>w'. listen_step demo_hmac demo_key (alert_node0 None) (alert_env0, Some quoted_packet, Some ''10.0.0.1'') = (Some (Accepted quoted_type ''a'' ''go''), w')"
proof -
  have "\<not> nonce_seen alert_env0 (alert_node0 None) (hex_of (replicate 16 (CHR ''N'')))" by (simp add: nonce_seen_def alert_node0_def)
  moreover have "quoted_type \<noteq> []" "length quoted_type < MAX_TYPE" by (simp_all add: quoted_type_def MAX_TYPE_def)
  ultimately obtain v where v: "parse_and_verify_packet demo_hmac alert_env0 demo_key quoted_packet ''10.0.0.1'' MAX_TYPE MAX_LABEL MAX_ALERT (alert_node0 None)
      = (Accepted quoted_type ''a'' ''go'', v)"
    using parse_built [OF quoted_built demo_env0(1-3) _ _ _ _ demo_env0(9,10,7) _ demo_env0(4-6)] by simp
  have "length quoted_packet < 1024" using quoted_built by (auto elim: build_packet_Some)
  moreover have "NUL \<notin> set quoted_packet" using set_join [of BAR "[ALERT_VERSION, nat_str 1000, hex_of (replicate 16 (CHR ''N'')), quoted_type, ''a'', ''go'']"]
    int_str_of_nat [of 1000] by (auto simp: quoted_packet_def alert_canonical_def ALERT_VERSION_def quoted_type_def cstr_simps simp del: join.simps hex_of_simps)
  ultimately have "cstr (take 1023 quoted_packet) = quoted_packet" by simp
  moreover have "quoted_packet \<noteq> []" by (simp add: quoted_packet_def)
  ultimately show ?thesis using v by (simp add: listen_step_def)
qed

theorem alert_spoils_ledger_witness:
  "\<exists>w' call d. listen_step demo_hmac demo_key (alert_node0 None) (alert_env0, Some quoted_packet, Some ''10.0.0.1'') = (Some (Accepted quoted_type ''a'' ''go''), w')
     \<and> ledger_calls w' = [call] \<and> start_child ledger_demo_digest ledger_demo_env call (Some []) = Some d
     \<and> (\<forall>t. ledger_verify ledger_demo_digest True True (Some (d @ t)) = 1)"
proof -
  obtain w' where acc: "listen_step demo_hmac demo_key (alert_node0 None) (alert_env0, Some quoted_packet, Some ''10.0.0.1'')
      = (Some (Accepted quoted_type ''a'' ''go''), w')" using quoted_accepted by blast
  have v: "ledger_verify ledger_demo_digest True True (Some []) = 0" by (simp add: ledger_verify_def verify_init_def)
  obtain ts where ts: "get_timestamp (env_tm ledger_demo_env) = Some ts" "length ts < 32"
    using ledger_demo_good(1) get_timestamp_plain by (auto simp: env_good_def)
  have p: "xe_fork_ok (ae_exec alert_env0)" "\<not> plain_text quoted_type" "valid_text quoted_type MAX_DETAILS" "last quoted_type \<noteq> BSLASH"
    "get_last_hash True [] = Some GENESIS_HASH"
    by (simp_all add: alert_env0_def quoted_type_def valid_text_def MAX_DETAILS_def code_def plain_text_def get_last_hash_def)
  let ?r = "\<lambda>de. record_text ts ''COMMUNITY_ALERT'' de GENESIS_HASH"
  obtain call d where cd: "ledger_calls w' = ledger_calls (alert_node0 None) @ [call]" "start_child ledger_demo_digest ledger_demo_env call (Some []) = Some d"
    "(\<forall>t. ledger_verify ledger_demo_digest True True (Some (d @ t)) = 1)
      \<or> ?r (escape_spec quoted_type) \<noteq> ?r (escape_spec (escape_spec quoted_type))
        \<and> ledger_demo_digest (?r (escape_spec quoted_type)) = ledger_demo_digest (?r (escape_spec (escape_spec quoted_type)))"
    using alert_spoils_ledger [OF acc p(1-4) v ledger_demo_good(2,1) ts(1) p(5) refl refl] by blast
  have "length GENESIS_HASH = 64" by (simp add: GENESIS_HASH_def)
  with ts(2) have "ledger_demo_digest (?r (escape_spec quoted_type)) \<noteq> ledger_demo_digest (?r (escape_spec (escape_spec quoted_type)))"
    by (simp add: ledger_demo_digest_def length_record_text quoted_type_def)
  then have sp: "\<forall>t. ledger_verify ledger_demo_digest True True (Some (d @ t)) = 1" using cd(3) by blast
  have "ledger_calls w' = [call]" using cd(1) by (simp add: alert_node0_def)
  then show ?thesis by (intro exI [of _ w'] exI [of _ call] exI [of _ d] conjI acc cd(2) sp)
qed

end
