(* ===== verification/PinVerify.thy ===== *)
theory PinVerify
  imports PinForge
begin

text \<open>
  \<open>core/chrono_pin_verify.c\<close> in its own right. The verifier has its own copies of the functions that the forge indexes with;
  here they are modelled as they are written: a static array of leaves with a counter, reading by blocks of 4096 bytes, levels of the
  tree computed by index, and \<open>qsort\<close> (a parameter, of which only its contract \<open>qsort_ok\<close> is used) with the comparison of the source.
  They are shown to compute what the list functions of \<open>Merkle\<close> and \<open>PinForge\<close> compute, so the two programs agree on every directory.
\<close>

section \<open>The index\<close>

record file_leaf =
  fl_relpath :: string
  fl_hash :: string

record leaf_array =
  la_leaves :: "file_leaf list"    \<comment> \<open>\<open>MAX_FILES\<close> elements\<close>
  la_count :: nat

definition zero_leaves :: leaf_array where
  "zero_leaves = \<lparr>la_leaves = replicate MAX_FILES \<lparr>fl_relpath = [], fl_hash = replicate 32 NUL\<rparr>, la_count = 0\<rparr>"

function digest_blocks :: "string \<Rightarrow> string \<Rightarrow> string" where
  \<comment> \<open>what the context of the digest has got after the loop over \<open>fread\<close>\<close>
  "digest_blocks ctx content = (let buf = take 4096 content in if buf = [] then ctx else digest_blocks (ctx @ buf) (drop 4096 content))"
  by auto
termination by (relation "measure (length \<circ> snd)") auto

declare digest_blocks.simps [simp del]

definition file_digest :: "(string \<Rightarrow> string) \<Rightarrow> pin_env \<Rightarrow> node \<Rightarrow> string \<Rightarrow> string option" where
  \<comment> \<open>\<open>compute_file_sha256\<close>\<close>
  "file_digest H env fs filepath = (case fopen_r env fs filepath of None \<Rightarrow> None | Some content \<Rightarrow> Some (H (digest_blocks [] content)))"

definition add_leaf :: "string \<Rightarrow> string \<Rightarrow> leaf_array \<Rightarrow> leaf_array" where
  "add_leaf childrel h st =
     \<lparr>la_leaves = (la_leaves st)[la_count st := \<lparr>fl_relpath = take (MAX_PATH - 1) childrel, fl_hash = h\<rparr>], la_count = la_count st + 1\<rparr>"

function index_dir :: "nat \<Rightarrow> (string \<Rightarrow> string) \<Rightarrow> pin_env \<Rightarrow> node \<Rightarrow> string \<Rightarrow> string \<Rightarrow> leaf_array \<Rightarrow> leaf_array option"
  and index_entries :: "nat \<Rightarrow> (string \<Rightarrow> string) \<Rightarrow> pin_env \<Rightarrow> node \<Rightarrow> string \<Rightarrow> string \<Rightarrow> string list \<Rightarrow> leaf_array \<Rightarrow> leaf_array option"
where
  "index_dir 0 H env fs base rel st = None"
| "index_dir (Suc k) H env fs base rel st =
     (let fullpath = snprintf_buf MAX_PATH (base @ SLASH # rel) in
      if \<not> pe_readable env fullpath then Some st
      else case path_node fs fullpath of
             Some (Dir es) \<Rightarrow> index_entries k H env fs base rel (readdir_names es) st
           | _ \<Rightarrow> Some st)"
| "index_entries k H env fs base rel [] st = Some st"
| "index_entries k H env fs base rel (name # names) st =
     (if name = ''.'' \<or> name = ''..'' then index_entries k H env fs base rel names st
      else if name = ''.git'' then index_entries k H env fs base rel names st
      else if rel = [] \<and> (name = ''vault'' \<or> name = ''build'') then index_entries k H env fs base rel names st
      else
        let childrel = (if length rel = 0 then snprintf_buf MAX_PATH name else snprintf_buf MAX_PATH (rel @ SLASH # name));
            childfull = snprintf_buf MAX_PATH (base @ SLASH # childrel) in
        case path_node fs childfull of
          None \<Rightarrow> index_entries k H env fs base rel names st
        | Some (Dir es) \<Rightarrow>
            (case index_dir k H env fs base childrel st of
               None \<Rightarrow> None
             | Some st \<Rightarrow> index_entries k H env fs base rel names st)
        | Some (Reg c) \<Rightarrow>
            if la_count st \<ge> MAX_FILES then index_entries k H env fs base rel names st
            else
              (case file_digest H env fs childfull of
                 None \<Rightarrow> index_entries k H env fs base rel names st
               | Some h \<Rightarrow> index_entries k H env fs base rel names (add_leaf childrel h st))
        | Some Special \<Rightarrow> index_entries k H env fs base rel names st)"
  by pat_completeness auto
termination
  by (relation "inv_image (less_than <*lex*> less_than <*lex*> less_than)
      (\<lambda>x. case x of Inl (k, _) \<Rightarrow> (k, 0 :: nat, 0) | Inr (k, _, _, _, _, _, ns, _) \<Rightarrow> (k, 1, length ns))") auto

section \<open>The tree\<close>

fun c_strcmp :: "string \<Rightarrow> string \<Rightarrow> int" where
  "c_strcmp [] [] = 0"
| "c_strcmp [] (b # bs) = -1"
| "c_strcmp (a # as) [] = 1"
| "c_strcmp (a # as) (b # bs) = (if a = b then c_strcmp as bs else int (code a) - int (code b))"

definition cmp_leaf :: "file_leaf \<Rightarrow> file_leaf \<Rightarrow> int" where
  "cmp_leaf a b = c_strcmp (fl_relpath a) (fl_relpath b)"

type_synonym qsort = "(file_leaf \<Rightarrow> file_leaf \<Rightarrow> int) \<Rightarrow> file_leaf list \<Rightarrow> file_leaf list"

definition qsort_ok :: "qsort \<Rightarrow> bool" where
  \<comment> \<open>what the C standard promises: the elements, in an order that the comparison admits\<close>
  "qsort_ok qsort \<longleftrightarrow> (\<forall>ls. mset (qsort cmp_leaf ls) = mset ls \<and> sorted_wrt (\<lambda>a b. cmp_leaf a b \<le> 0) (qsort cmp_leaf ls))"

definition hash_of_leaf :: "(string \<Rightarrow> string) \<Rightarrow> file_leaf \<Rightarrow> string" where
  "hash_of_leaf H leaf = H (fl_relpath leaf @ fl_hash leaf)"

definition next_level :: "(string \<Rightarrow> string) \<Rightarrow> string list \<Rightarrow> nat \<Rightarrow> string list" where
  \<comment> \<open>the inner loop, by the indices of the source\<close>
  "next_level H level n =
     map (\<lambda>i. let right = (if i * 2 + 1 < n then i * 2 + 1 else i * 2) in H (level ! (i * 2) @ level ! right)) [0..<(n + 1) div 2]"

function climb :: "(string \<Rightarrow> string) \<Rightarrow> string list \<Rightarrow> nat \<Rightarrow> string" where
  \<comment> \<open>\<open>while (n > 1)\<close>\<close>
  "climb H level n = (if n > 1 then climb H (next_level H level n) ((n + 1) div 2) else level ! 0)"
  by auto
termination by (relation "measure (\<lambda>(H, level, n). n)") auto

declare climb.simps [simp del]

definition root_of_array :: "(string \<Rightarrow> string) \<Rightarrow> qsort \<Rightarrow> leaf_array \<Rightarrow> string \<times> leaf_array" where
  \<comment> \<open>\<open>compute_merkle_root\<close>; the array is sorted in place\<close>
  "root_of_array H qsort st =
     (if la_count st = 0 then (replicate 32 NUL, st)
      else
        let n = la_count st; st = st\<lparr>la_leaves := qsort cmp_leaf (take n (la_leaves st)) @ drop n (la_leaves st)\<rparr>;
            level = map (\<lambda>i. hash_of_leaf H (la_leaves st ! i)) [0..<n] in
        (climb H level n, st))"

definition bytes_in_hex :: "string \<Rightarrow> nat \<Rightarrow> string" where
  \<comment> \<open>\<open>bytes_to_hex\<close>: \<open>sprintf\<close> of each byte at its place\<close>
  "bytes_in_hex bytes n = concat (map (\<lambda>i. hex2 (bytes ! i)) [0..<n])"

definition verifier_main :: "nat \<Rightarrow> pin_crypto \<Rightarrow> pin_env \<Rightarrow> qsort \<Rightarrow> (nat \<Rightarrow> char) \<Rightarrow> string list \<Rightarrow> node \<Rightarrow> int option" where
  \<comment> \<open>\<open>main\<close> over the array\<close>
  "verifier_main fuel c env qsort junk argv fs =
     (if length argv < 3 then Some 1
      else case fopen_r env fs (argv ! 2) of
        None \<Rightarrow> Some 1
      | Some content \<Rightarrow>
          let b = parse_bundle content in
          if pb_root b = [] \<or> pb_sig b = [] \<or> pb_pubkey b = [] then Some 1
          else case index_dir fuel (pc_H c) env fs (argv ! 1) [] (zero_leaves\<lparr>la_count := 0\<rparr>) of
            None \<Rightarrow> None
          | Some st \<Rightarrow>
              let current_root = fst (root_of_array (pc_H c) qsort st);
                  integrity_ok = (bytes_in_hex current_root 32 = pb_root b) in
              case fopen_r env fs (pb_pubkey b) of
                None \<Rightarrow> Some 1
              | Some pem \<Rightarrow>
                  let sig = map (hex_byte_at junk (pb_sig b)) [0..<length (pb_sig b) div 2];
                      stored_root_bytes = map (hex_byte_at junk (pb_root b)) [0..<32] in
                  (case pc_verify c pem sig stored_root_bytes of
                     None \<Rightarrow> Some 1
                   | Some sig_ok \<Rightarrow> Some (if integrity_ok \<and> sig_ok then 0 else 1)))"

section \<open>What the loops compute\<close>

lemma digest_blocks_all: "digest_blocks ctx content = ctx @ content"
proof (induction ctx content rule: digest_blocks.induct)
  case (1 ctx content)
  then show ?case by (subst digest_blocks.simps) (simp add: Let_def)
qed

lemma file_digest_eq: "file_digest H env fs p = compute_file_sha256 H env fs p"
  by (simp add: file_digest_def compute_file_sha256_def digest_blocks_all split: option.split)

lemma bytes_in_hex_eq: "n = length bs \<Longrightarrow> bytes_in_hex bs n = hex_of bs"
proof -
  assume "n = length bs"
  then have "map (\<lambda>i. hex2 (bs ! i)) [0..<n] = map hex2 bs" by (intro nth_equalityI) simp_all
  then show ?thesis by (simp only: bytes_in_hex_def hex_of_def)
qed

lemma c_strcmp_le: "c_strcmp as bs \<le> 0 \<longleftrightarrow> as \<le> bs"
  by (induction as bs rule: c_strcmp.induct) (auto simp: less_char_def code_def order_less_le)

lemma nth_merkle_pairs:
  "i < (length ls + 1) div 2 \<Longrightarrow> merkle_pairs ls ! i = ls ! (i * 2) @ ls ! (if i * 2 + 1 < length ls then i * 2 + 1 else i * 2)"
proof (induction ls arbitrary: i rule: merkle_pairs.induct)
  case (3 a b ls)
  then show ?case by (cases i) auto
qed auto

lemma next_level_eq: "next_level H level (length level) = merkle_level H level"
  by (rule nth_equalityI) (simp_all add: next_level_def merkle_level_def length_merkle_pairs nth_merkle_pairs Let_def)

lemma climb_eq: "level \<noteq> [] \<Longrightarrow> n = length level \<Longrightarrow> climb H level n = merkle_up H level"
proof (induction H level n rule: climb.induct)
  case (1 H level n)
  have "n > 1 \<Longrightarrow> merkle_level H level \<noteq> []" using 1(3) by (simp add: length_0_conv [symmetric] del: length_0_conv)
  with 1 show ?case
    by (subst climb.simps, subst merkle_up.simps) (simp add: next_level_eq hd_conv_nth)
qed

section \<open>The verifier refines the list functions\<close>

definition leaf_of :: "file_leaf \<Rightarrow> leaf" where
  "leaf_of l = (fl_relpath l, fl_hash l)"

definition holds_leaves :: "leaf_array \<Rightarrow> leaf list \<Rightarrow> bool" where
  \<comment> \<open>the array stands for the list of its first \<open>la_count\<close> elements\<close>
  "holds_leaves st ls \<longleftrightarrow> length (la_leaves st) = MAX_FILES \<and> la_count st \<le> MAX_FILES \<and> map leaf_of (take (la_count st) (la_leaves st)) = ls"

lemma holds_count: "holds_leaves st ls \<Longrightarrow> la_count st = length ls"
  by (auto simp: holds_leaves_def)

lemma holds_zero: "holds_leaves (zero_leaves\<lparr>la_count := 0\<rparr>) []"
  by (simp add: holds_leaves_def zero_leaves_def)

lemma holds_add: "holds_leaves st ls \<Longrightarrow> \<not> MAX_FILES \<le> la_count st \<Longrightarrow> holds_leaves (add_leaf p h st) (ls @ [(take (MAX_PATH - 1) p, h)])"
  by (auto simp: holds_leaves_def add_leaf_def leaf_of_def take_Suc_conv_app_nth)

definition child_path_buf :: "string \<Rightarrow> string \<Rightarrow> string" where
  "child_path_buf rel name = snprintf_buf MAX_PATH (if rel = [] then name else rel @ SLASH # name)"

lemma child_path_buf_if:
  "(if length rel = 0 then snprintf_buf MAX_PATH name else snprintf_buf MAX_PATH (rel @ SLASH # name)) = child_path_buf rel name"
  by (simp add: child_path_buf_def)

lemma index_entries_step:
  assumes g: "\<not> (name = ''.'' \<or> name = ''..'')" "name \<noteq> ''.git''" "\<not> (rel = [] \<and> (name = ''vault'' \<or> name = ''build''))"
  shows "index_entries k H env fs base rel (name # names) st =
    (case path_node fs (snprintf_buf MAX_PATH (base @ SLASH # child_path_buf rel name)) of
      None \<Rightarrow> index_entries k H env fs base rel names st
    | Some (Dir es) \<Rightarrow>
        (case index_dir k H env fs base (child_path_buf rel name) st of None \<Rightarrow> None | Some st \<Rightarrow> index_entries k H env fs base rel names st)
    | Some (Reg c) \<Rightarrow> if la_count st \<ge> MAX_FILES then index_entries k H env fs base rel names st
        else (case file_digest H env fs (snprintf_buf MAX_PATH (base @ SLASH # child_path_buf rel name)) of
            None \<Rightarrow> index_entries k H env fs base rel names st
          | Some h \<Rightarrow> index_entries k H env fs base rel names (add_leaf (child_path_buf rel name) h st))
    | Some Special \<Rightarrow> index_entries k H env fs base rel names st)"
  by (subst index_entries.simps, unfold child_path_buf_if Let_def) (simp only: g if_False)

lemma walk_entries_step:
  assumes g: "\<not> (name = ''.'' \<or> name = ''..'')" "name \<noteq> ''.git''" "\<not> (rel = [] \<and> (name = ''vault'' \<or> name = ''build''))"
  shows "walk_entries k H env fs base rel (name # names) ls =
    (case path_node fs (snprintf_buf MAX_PATH (base @ SLASH # child_path_buf rel name)) of
      None \<Rightarrow> walk_entries k H env fs base rel names ls
    | Some (Dir es) \<Rightarrow>
        (case walk_dir k H env fs base (child_path_buf rel name) ls of None \<Rightarrow> None | Some ls \<Rightarrow> walk_entries k H env fs base rel names ls)
    | Some (Reg c) \<Rightarrow> if length ls \<ge> MAX_FILES then walk_entries k H env fs base rel names ls
        else (case compute_file_sha256 H env fs (snprintf_buf MAX_PATH (base @ SLASH # child_path_buf rel name)) of
            None \<Rightarrow> walk_entries k H env fs base rel names ls
          | Some h \<Rightarrow> walk_entries k H env fs base rel names (ls @ [(take (MAX_PATH - 1) (child_path_buf rel name), h)]))
    | Some Special \<Rightarrow> walk_entries k H env fs base rel names ls)"
  by (subst walk_entries.simps, unfold child_path_buf_def Let_def) (simp only: g if_False)

lemma index_refines:
  "holds_leaves st ls \<Longrightarrow> rel_option holds_leaves (index_dir k H env fs base rel st) (walk_dir k H env fs base rel ls)"
  "holds_leaves st ls \<Longrightarrow> rel_option holds_leaves (index_entries k H env fs base rel names st) (walk_entries k H env fs base rel names ls)"
proof (induction k H env fs base rel st and k H env fs base rel names st arbitrary: ls and ls rule: index_dir_index_entries.induct)
  case (2 k H env fs base rel st)
  show ?case
    using 2(1) [OF refl] 2(2) by (auto simp: Let_def split: option.split node.split)
next
  case (4 k H env fs base rel name names st)
  let ?rel = "child_path_buf rel name"
  let ?full = "snprintf_buf MAX_PATH (base @ SLASH # ?rel)"
  note IH = 4(1-10) [unfolded child_path_buf_if]
  show ?case
  proof (cases "name = ''.'' \<or> name = ''..'' \<or> name = ''.git'' \<or> rel = [] \<and> (name = ''vault'' \<or> name = ''build'')")
    case True
    then have N: "rel_option holds_leaves (index_entries k H env fs base rel names st) (walk_entries k H env fs base rel names ls)"
      using IH(1-3) 4(11) by blast
    have "index_entries k H env fs base rel (name # names) st = index_entries k H env fs base rel names st"
      "walk_entries k H env fs base rel (name # names) ls = walk_entries k H env fs base rel names ls"
      using True by (elim disjE conjE; simp)+
    with N show ?thesis by simp
  next
    case False
    then have g: "\<not> (name = ''.'' \<or> name = ''..'')" "name \<noteq> ''.git''" "\<not> (rel = [] \<and> (name = ''vault'' \<or> name = ''build''))" by auto
    note IH = IH(4-10) [OF g refl refl]
    note i = index_entries_step [OF g, of k H env fs base names st] and w = walk_entries_step [OF g, of k H env fs base names ls]
    note prem = 4(11)
    show ?thesis
    proof (cases "path_node fs ?full")
      case None
      with IH(1) [OF None prem] show ?thesis unfolding i w by simp
    next
      case (Some n)
      show ?thesis
      proof (cases n)
        case (Dir es)
        have "rel_option holds_leaves (index_dir k H env fs base ?rel st) (walk_dir k H env fs base ?rel ls)"
          by (rule IH(2) [OF Some Dir prem])
        then show ?thesis
        proof cases
          case None
          with Some Dir show ?thesis unfolding i w by simp
        next
          case (Some st' ls')
          from IH(3) [OF \<open>path_node fs ?full = Some n\<close> Dir Some(1,3)] Some show ?thesis
            unfolding i w \<open>path_node fs ?full = Some n\<close> Dir by simp
        qed
      next
        case (Reg c)
        show ?thesis
        proof (cases "MAX_FILES \<le> la_count st")
          case True
          with IH(4) [OF Some Reg True prem] Some Reg show ?thesis unfolding i w by (simp add: holds_count [OF prem])
        next
          case False
          show ?thesis
          proof (cases "file_digest H env fs ?full")
            case None
            with IH(5) [OF Some Reg False None prem] Some Reg False show ?thesis
              unfolding i w by (simp add: holds_count [OF prem] file_digest_eq)
          next
            case (Some h)
            from IH(6) [OF \<open>path_node fs ?full = Some n\<close> Reg False Some holds_add [OF prem False]] Some Reg False show ?thesis
              unfolding i w \<open>path_node fs ?full = Some n\<close> by (simp add: holds_count [OF prem] file_digest_eq)
          qed
        qed
      next
        case Special
        with IH(7) [OF Some Special prem] Some show ?thesis unfolding i w by simp
      qed
    qed
  qed
qed auto

text \<open>The root of the array is the root of the list, whichever way \<open>qsort\<close> orders: the paths of an index are distinct.\<close>

lemma root_refines:
  assumes "qsort_ok qsort" and st: "holds_leaves st ls" and "distinct (map fst ls)"
  shows "fst (root_of_array H qsort st) = compute_merkle_root H ls"
proof (cases "la_count st = 0")
  case True
  then show ?thesis using holds_count [OF st] by (simp add: root_of_array_def compute_merkle_root_def)
next
  case False
  define n where "n = la_count st"
  define ys where "ys = qsort cmp_leaf (take n (la_leaves st))"
  have ys: "mset ys = mset (take n (la_leaves st))" "sorted_wrt (\<lambda>a b. cmp_leaf a b \<le> 0) ys"
    using assms(1) by (simp_all add: qsort_ok_def ys_def)
  have len: "length ys = n" using mset_eq_length [OF ys(1)] st by (simp add: holds_leaves_def n_def)
  have "mset ls = mset (map leaf_of ys)" using st ys(1) by (auto simp: holds_leaves_def n_def)
  moreover have "inj_on fst (set ls)" using assms(3) by (simp add: distinct_map)
  moreover have "sorted (map fst (map leaf_of ys))"
    using ys(2) by (simp add: sorted_map cmp_leaf_def c_strcmp_le leaf_of_def)
  ultimately have sorted: "sort_key fst ls = map leaf_of ys" by (rule sort_key_inj_key_eq)
  have "map (\<lambda>i. hash_of_leaf H ((ys @ drop n (la_leaves st)) ! i)) [0..<n] = map (leaf_hash H) (map leaf_of ys)"
    by (rule nth_equalityI) (simp_all add: len nth_append hash_of_leaf_def leaf_hash_def leaf_of_def)
  moreover have "ls \<noteq> []" using False holds_count [OF st] by auto
  moreover have "climb H (map (leaf_hash H) (map leaf_of ys)) n = merkle_up H (map (leaf_hash H) (map leaf_of ys))"
    by (rule climb_eq) (use False len n_def in auto)
  ultimately show ?thesis
    using False by (simp add: root_of_array_def compute_merkle_root_def sorted Let_def flip: n_def ys_def)
qed

section \<open>No path is listed twice\<close>

lemma files_below:
  "rel \<noteq> [] \<Longrightarrow> walkable env base rel n \<Longrightarrow> p \<in> fst ` set (files_of rel n) \<Longrightarrow> \<exists>t. p = rel @ t \<and> (t = [] \<or> hd t = SLASH)"
  "walkable_in env base rel es \<Longrightarrow> p \<in> fst ` set (files_in rel es)
    \<Longrightarrow> \<exists>name t. name \<in> fst ` set es \<and> p = child_rel rel name @ t \<and> (t = [] \<or> hd t = SLASH)"
proof (induction rel n and rel es rule: files_of_files_in.induct)
  case (1 rel es)
  then have "walkable_in env base rel es" "p \<in> fst ` set (files_in rel es)" by simp_all
  from 1(1) [OF this] 1(2) show ?case by (auto simp: child_rel_def)
next
  case (5 rel name n es)
  from 5(4) consider (here) "\<not> excluded rel name" "p \<in> fst ` set (files_of (child_rel rel name) n)" | (there) "p \<in> fst ` set (files_in rel es)"
    by (auto split: if_splits)
  then show ?case
  proof cases
    case here
    moreover have "child_rel rel name \<noteq> []" "walkable env base (child_rel rel name) n" using 5(3) here by (auto simp: child_rel_def)
    ultimately obtain t where "p = child_rel rel name @ t" "t = [] \<or> hd t = SLASH" using 5(1) by blast
    then show ?thesis by auto
  next
    case there
    moreover have "walkable_in env base rel es" using 5(3) by simp
    ultimately obtain nm t where "nm \<in> fst ` set es" "p = child_rel rel nm @ t" "t = [] \<or> hd t = SLASH" using 5(2) by blast
    then show ?thesis by auto
  qed
qed auto

lemma same_child:
  assumes "child_rel rel a @ t = child_rel rel b @ u" "SLASH \<notin> set a" "SLASH \<notin> set b" "t = [] \<or> hd t = SLASH" "u = [] \<or> hd u = SLASH"
  shows "a = b"
proof -
  have cut: "takeWhile (\<lambda>c. c \<noteq> SLASH) (x @ v) = x" if "SLASH \<notin> set x" "v = [] \<or> hd v = SLASH" for x v
    using that by (cases v) (auto simp: takeWhile_append takeWhile_eq_all_conv)
  from assms(1) have "a @ t = b @ u" by (auto simp: child_rel_def split: if_splits)
  with cut [of a t] cut [of b u] assms show ?thesis by metis
qed

lemma walkable_in_names: "walkable_in env base rel es \<Longrightarrow> (name, n) \<in> set es \<Longrightarrow> SLASH \<notin> set name"
proof (induction es)
  case (Cons e es)
  then show ?case by (cases e) auto
qed simp

lemma files_disjoint:
  assumes "walkable_in env base rel ((name, n) # es)" "\<not> excluded rel name" "name \<notin> fst ` set es"
  shows "fst ` set (files_of (child_rel rel name) n) \<inter> fst ` set (files_in rel es) = {}"
proof -
  have w: "walkable env base (child_rel rel name) n" "walkable_in env base rel es" "SLASH \<notin> set name" "child_rel rel name \<noteq> []"
    using assms(1,2) by (auto simp: child_rel_def)
  have False if p: "p \<in> fst ` set (files_of (child_rel rel name) n)" "p \<in> fst ` set (files_in rel es)" for p
  proof -
    obtain t where t: "p = child_rel rel name @ t" "t = [] \<or> hd t = SLASH" using files_below(1) [OF w(4,1) p(1)] by blast
    obtain b u where u: "b \<in> fst ` set es" "p = child_rel rel b @ u" "u = [] \<or> hd u = SLASH" using files_below(2) [OF w(2) p(2)] by blast
    have "SLASH \<notin> set b" using u(1) walkable_in_names [OF w(2)] by auto
    from same_child [OF t(1) [unfolded u(2), symmetric] w(3) this t(2) u(3)] u(1) assms(3) show False by simp
  qed
  then show ?thesis by blast
qed

lemma files_distinct:
  "walkable env base rel n \<Longrightarrow> distinct (map fst (files_of rel n))"
  "walkable_in env base rel es \<Longrightarrow> distinct (map fst es) \<Longrightarrow> distinct (map fst (files_in rel es))"
proof (induction rel n and rel es rule: files_of_files_in.induct)
  case (5 rel name n es)
  have d: "distinct (map fst (files_in rel es))" using 5(2-4) by simp
  show ?case
  proof (cases "excluded rel name")
    case True
    with d show ?thesis by simp
  next
    case False
    with 5(1,3) have "distinct (map fst (files_of (child_rel rel name) n))" by simp
    moreover have "name \<notin> fst ` set es" using 5(4) by simp
    note files_disjoint [OF 5(3) False this]
    ultimately show ?thesis using d False by simp
  qed
qed auto

text \<open>C12: the two programs agree: the verifier, with its own walk over a static array, its reading by blocks, its \<open>qsort\<close> and its tree
  computed by index, decides on every directory that can be indexed exactly as if it used the functions of the forge, for every bundle, every key and
  every \<open>qsort\<close> that keeps its contract.\<close>

theorem pin_verifier_refines:
  assumes "qsort_ok qsort" and "\<forall>x. length (pc_H c x) = 32"
    and "path_node fs (base @ ''/'') = Some (Dir es)" and "walkable env base [] (Dir es)"
    and "length (files_of [] (Dir es)) \<le> MAX_FILES" and "depth_of (Dir es) \<le> fuel"
  shows "verifier_main fuel c env qsort junk [a, base, bundle] fs = pin_verify_main fuel c env junk [a, base, bundle] fs"
proof -
  let ?ls = "map (\<lambda>(p, x). (p, pc_H c x)) (files_of [] (Dir es))"
  have walk: "walk_dir fuel (pc_H c) env fs base [] [] = Some ?ls"
    using walk_dir_correct [OF assms(6) refl assms(4), of fs "pc_H c"] assms(3,5) by (simp add: walks_to_def)
  with index_refines(1) [OF holds_zero, of fuel "pc_H c" env fs base "[]"]
  obtain st where st: "index_dir fuel (pc_H c) env fs base [] (zero_leaves\<lparr>la_count := 0\<rparr>) = Some st" "holds_leaves st ?ls"
    by (auto simp: option_rel_Some2)
  have "map fst ?ls = map fst (files_of [] (Dir es))" by (simp add: case_prod_beta)
  then have "distinct (map fst ?ls)" using files_distinct(1) [OF assms(4)] by presburger
  from root_refines [OF assms(1) st(2) this]
  have rt: "fst (root_of_array (pc_H c) qsort st) = compute_merkle_root (pc_H c) ?ls" .
  have "bytes_in_hex (compute_merkle_root (pc_H c) ?ls) 32 = hex_of (compute_merkle_root (pc_H c) ?ls)"
    by (rule bytes_in_hex_eq) (simp add: length_root [OF assms(2)])
  note facts = walk st(1) rt this
  have argv: "[a, base, bundle] ! 1 = base" by simp
  show ?thesis unfolding verifier_main_def pin_verify_main_def argv
    by (simp only: facts option.case(2) Let_def)
qed

lemma qsort_sort_key: "qsort_ok (\<lambda>cmp. sort_key fl_relpath)"
  unfolding qsort_ok_def
proof (intro allI conjI)
  fix ls :: "file_leaf list"
  have "sorted (map fl_relpath (sort_key fl_relpath ls))" by (rule sorted_sort_key)
  then show "sorted_wrt (\<lambda>a b. cmp_leaf a b \<le> 0) (sort_key fl_relpath ls)" by (simp only: sorted_map cmp_leaf_def c_strcmp_le)
qed simp

theorem pin_verifier_refines_witness:
  "verifier_main 2 demo_crypto demo_env (\<lambda>cmp. sort_key fl_relpath) (\<lambda>_. NUL) [''v'', ''d'', ''b'']
      (Dir [(''b'', Reg ''MERKLE_ROOT:00''), (''d'', Dir [(''s'', Dir [(''x'', Reg ''1'')]), (''a'', Reg ''22'')])])
    = pin_verify_main 2 demo_crypto demo_env (\<lambda>_. NUL) [''v'', ''d'', ''b'']
      (Dir [(''b'', Reg ''MERKLE_ROOT:00''), (''d'', Dir [(''s'', Dir [(''x'', Reg ''1'')]), (''a'', Reg ''22'')])])"
  by (rule pin_verifier_refines [OF qsort_sort_key, where es = "[(''s'', Dir [(''x'', Reg ''1'')]), (''a'', Reg ''22'')]"])
    (simp_all add: path_node_def MAX_PATH_def MAX_FILES_def excluded_def child_rel_def)

end
