(* ===== verification/RepoTests.thy ===== *)
theory RepoTests
  imports Cnem Assurance Eagle Vertical InitMain FloatArith
begin

text \<open>
  The programs that the repository tests itself with, run on the model: \<open>core/cnem/test_chrono_cnem.c\<close>,
  \<open>core/assurance/test_chrono_assurance.c\<close>, the four programs of \<open>sentinel/sovereign/tests\<close>, and the registry that the
  repository ships, \<open>etc/chrono/services.conf\<close>. Each lemma states what the test checks before it prints that it passed.
  The decimal literals of the tests are rounded to \<open>double\<close> as the compiler rounds them.
\<close>

abbreviation "lit \<equiv> d_const binary64"

section \<open>Cameras and buildings\<close>

lemma test_camera_identity:
  "identity_from_onvif (Some i) (Some ''dn:NetworkVideoTransmitter'') (Some ''http://127.0.0.1/onvif/device_service'')
   = (0, Some (camera_identity_init\<lparr>ci_onvif := 1, ci_http := 1, ci_service_url := ''http://127.0.0.1/onvif/device_service''\<rparr>))"
  by code_simp

lemma test_discovery_identity_eagle:
  "case identity_from_discovery (Some i) (Some ''dn:NetworkVideoTransmitter'') (Some ''http://127.0.0.1/onvif/device_service'') of
     (rc, identity) \<Rightarrow> rc = 0 \<and> (case identity_to_eagle identity (Some c) (Some ''EAGLE-SIM-001'') of
       (rc, camera) \<Rightarrow> rc = 0 \<and> (case eagle_verify camera of (rc, camera) \<Rightarrow> rc = 0 \<and> map_option ec_state camera = Some StWarning))"
  by code_simp

lemma test_vertical:
  "case building_init (Some b) (Some ''SUPERTALL-SIMULATOR'') (Some ''TOWER-A'') 163 of
     (rc, building) \<Rightarrow> rc = 0 \<and> (case floor_init (Some f) 37 (Some ''EAST'') of
       (rc, flr) \<Rightarrow> rc = 0 \<and> (case register_floor building (map_option (vf_cameras_update (\<lambda>_. 12) \<circ> vf_network_nodes_update (\<lambda>_. 3) \<circ>
           vf_sensors_update (\<lambda>_. 25)) flr) of
         None \<Rightarrow> False
       | Some (rc, building) \<Rightarrow> rc = 0 \<and> map_option vb_total_cameras building = Some 12 \<and>
           map_option vb_total_network_nodes building = Some 3 \<and> map_option vb_total_sensors building = Some 25))"
  by (simp add: building_init_def floor_init_def register_floor_def INT_MAX_def Let_def)

lemma test_vertical_device:
  "list_all (\<lambda>(ident, type, zone, model).
      case device_register (Some d) (Some ident) type 37 (Some zone) (Some ''Chrono-Simulator'') (Some model) (Some ''1.0'') of
        (rc, device) \<Rightarrow> rc = 0 \<and> map_option vd_type device = Some type \<and> map_option vd_floor device = Some 37
          \<and> map_option vd_status device = Some DevOnline)
     [(''CAM-037-001'', DevCamera, ''EAST'', ''Eagle-Cam-01''), (''RTR-037-001'', DevRouter, ''NETWORK'', ''Vertical-Router-01''),
      (''SNS-037-001'', DevSensor, ''MECHANICAL'', ''Vertical-Sensor-01'')]"
  by (simp add: device_register_def device_init_def)

section \<open>The telemetry engines\<close>

lemma lit_ranged: "\<bar>m\<bar> \<le> 2 ^ 53 \<Longrightarrow> \<bar>n\<bar> \<le> 2 ^ 53 \<Longrightarrow> j \<le> 10 \<Longrightarrow> k \<le> 10 \<Longrightarrow> of_int m / 2 ^ j \<le> q \<Longrightarrow> q \<le> of_int n / 2 ^ k
    \<Longrightarrow> ranged binary64 (of_int m / 2 ^ j) (of_int n / 2 ^ k) (lit q)"
  by (rule ranged_const) (auto intro!: rep_small)

lemma lits:
  "ranged binary64 31 31 (lit 31)" "ranged binary64 4 4 (lit 4)" "ranged binary64 0 1 (lit (4 / 5))"
  "ranged binary64 (1597 / 16) 100 (lit (999 / 10))" "ranged binary64 99 (399 / 4) (lit (2493 / 25))"
  using lit_ranged [of 31 31 0 0 31] lit_ranged [of 4 4 0 0 4] lit_ranged [of 0 1 0 0 "4 / 5"]
    lit_ranged [of 1597 100 4 0 "999 / 10"] lit_ranged [of 99 399 0 2 "2493 / 25"] by simp_all

lemma num_cmp:
  "ranged binary64 a b x \<Longrightarrow> b < c \<Longrightarrow> d_lt x (DNum c) \<and> \<not> d_gt x (DNum c) \<and> \<not> d_ge x (DNum c)"
  "ranged binary64 a b x \<Longrightarrow> b \<le> c \<Longrightarrow> \<not> d_gt x (DNum c)"
  "ranged binary64 a b x \<Longrightarrow> c \<le> a \<Longrightarrow> \<not> d_lt x (DNum c)"
  "ranged binary64 a b x \<Longrightarrow> c < a \<Longrightarrow> d_gt x (DNum c)"
  by (cases x; auto simp: ranged_def d_gt_def d_ge_def)+

lemma lit_below: "d_lt (lit (2493 / 25)) (lit (999 / 10))"
  using lits(4,5) by (simp add: ranged_def d_lt_val)

lemmas lit_simps = num_cmp [OF lits(1)] num_cmp [OF lits(2)] num_cmp [OF lits(3)] num_cmp [OF lits(4)] num_cmp [OF lits(5)] lit_below

definition cnem_test_observation :: cnem_observation where
  "cnem_test_observation =
     \<lparr>co_device_id = ''POP-03'', co_vendor = ''MULTIVENDOR'', co_technology = ''BGP/IPv4/IPv6'', co_site = ''BOG-POP-03'',
      co_interface_name = ''uplink0'', co_ipv4_ok = True, co_ipv6_ok = True, co_gateway_ok = True, co_dns_ok = True, co_routing_ok = False,
      co_bgp_ok = False, co_rpki_ok = True, co_pon_ok = True, co_radio_ok = True, co_latency_ms = lit 31, co_jitter_ms = lit 4,
      co_packet_loss_percent = lit (8 / 10)\<rparr>"

definition cnem_test_service :: cnem_service where
  "cnem_test_service =
     \<lparr>cs_service_id = ''INTERNET-ACCESS'', cs_service_type = ''BROADBAND'', cs_affected_customers = 1842, cs_affected_devices = 1,
      cs_sla_target_percent = lit (9990 / 100), cs_availability_percent = lit (9972 / 100)\<rparr>"

lemma test_chrono_cnem:
  "cnem_validate_observation (Some cnem_test_observation)" "cnem_validate_service (Some cnem_test_service)"
  "\<exists>incident. cnem_correlate (Some cnem_test_observation) (Some cnem_test_service) = Some incident \<and>
     ci_domain incident = DOMAIN_ROUTING \<and> ci_root_cause incident = ''ROUTING'' \<and> ci_affected_customers incident = 1842 \<and>
     ci_sla_at_risk incident \<and> length (ci_evidence incident) \<ge> 2"
  by (simp_all add: cnem_validate_observation_def cnem_validate_service_def cnem_test_observation_def cnem_test_service_def lit_simps
      cnem_correlate_def cnem_start_def cnem_initialize_incident_def cnem_diagnose_def cnem_add_evidence_def cnem_copy_text_def
      CNEM_MAX_TEXT_def CNEM_MAX_EVIDENCE_def Let_def)

definition assurance_test_observation :: assurance_observation where
  "assurance_test_observation =
     \<lparr>ao_device_id = ''POP-03'', ao_site_id = ''BOG-POP-03'', ao_service_id = ''INTERNET-ACCESS'', ao_management_ok = True,
      ao_interface_ok = True, ao_gateway_ok = True, ao_dns_ok = True, ao_ipv4_ok = True, ao_ipv6_ok = True, ao_routing_ok = False,
      ao_bgp_ok = False, ao_rpki_ok = True, ao_certificate_ok = True, ao_pon_ok = True, ao_radio_ok = True, ao_configuration_changed = True,
      ao_latency_ms = lit 31, ao_jitter_ms = lit 4, ao_packet_loss_pct = lit (8 / 10), ao_affected_customers = 1842,
      ao_affected_services = 3, ao_sla_target_pct = lit (9990 / 100), ao_current_availability_pct = lit (9972 / 100)\<rparr>"

lemma test_chrono_assurance:
  "\<exists>r. assurance_analyze (Some assurance_test_observation) = Some r \<and> ar_status r = ASSURANCE_DEGRADED \<and> ar_root_cause r = ROOT_ROUTING \<and>
     ar_affected_customers r = 1842 \<and> ar_sla_at_risk r \<and> ar_requires_operator r"
proof -
  have v: "assurance_validate (Some assurance_test_observation)"
    by (simp add: assurance_validate_def assurance_test_observation_def lit_simps)
  have "domain_texts assurance_test_observation \<noteq> []" "assurance_sla_missed assurance_test_observation"
    by (simp_all add: domain_texts_def assurance_sla_missed_def assurance_test_observation_def lit_simps)
  moreover have "\<not> ao_routing_ok assurance_test_observation" "ao_interface_ok assurance_test_observation"
    "ao_gateway_ok assurance_test_observation" "ao_management_ok assurance_test_observation"
    "ao_affected_customers assurance_test_observation = 1842"
    by (simp_all add: assurance_test_observation_def)
  ultimately show ?thesis
    by (simp add: assurance_analyze_eq [OF v] Let_def assurance_start_def assurance_root_def set_root_def assurance_advise_def)
qed

section \<open>The registry that is shipped\<close>

definition shipped_services :: string where
  "shipped_services = unlines
     [''# ChronoOS service registry'', ''# name | executable | restart policy | max restarts'', [],
      ''chronod | ../services/chronod/chronod | on-failure | 3'']"

definition shipped_chronod :: service where
  "shipped_chronod = \<lparr>s_name = ''chronod'', s_executable = ''../services/chronod/chronod'', s_restart_policy = ''on-failure'', s_max_restarts = 3\<rparr>"

lemma shipped_registry: "service_registry_load (Some shipped_services) = (1, [shipped_chronod])"
  by code_simp

definition crash :: "int \<Rightarrow> init_event list" where
  "crash p = [ChildEnds p (Signaled 11), Cycle (\<lambda>os. Some (p + 1))]"

text \<open>The daemon of the repository under its own registry, crashing again and again: it is started four times in all, then left alone.\<close>

lemma shipped_daemon_gives_up:
  assumes "snd (init_boot True (Some shipped_services) (\<lambda>os. Some 7) (\<lambda>_. None)) = st"
  shows "map (\<lambda>n. map (\<lambda>s. (r_state s, r_restart_count s)) (fst (foldl init_step st (concat (map crash (map int [7..<7 + n])))))) [0, 1, 2, 3, 4]
    = [[(RUNNING, 0)], [(RUNNING, 1)], [(RUNNING, 2)], [(RUNNING, 3)], [(FAILED, 3)]]"
  unfolding assms [symmetric]
  by (simp add: init_boot_def shipped_registry supervisor_init_def shipped_chronod_def supervisor_start_def crash_def init_step_def
      supervisor_poll_def poll_one_def supervisor_handle_failures_def handle_one_def supervisor_restart_def valid_index_def Let_def upt_rec)

end
