(* ===== verification/Spec2Isabelle.thy ===== *)
theory Spec2Isabelle
  imports Ledger Continuum Community Supervisor Subscriber5G PinForge Cnem Cumbia Assurance Isp Modbus
    CanGuard Eagle Vertical VisitorAccess DeathMemory AutonomousAgent Vault HardwareGuard Chronoctl
    ContextAuth DeviceIdentity Destruction Guarded
    CoreCrypt PowerShield IotEngine Antenna VolatileShield SyntheticEntity EarlyInit CoreServices Reports
    SyntheticLife InitMain PanicHalt LedgerClients PinVerify RepoTests
begin

text \<open>
  \<^bold>\<open>ChronoOS, a verified model of its core programs.\<close>

  ChronoOS is a set of small C programs around one audit ledger: an init process that supervises
  services, daemons and tools that watch networks, cameras, vehicles and industrial devices, and
  security tools. Nearly all of them report to the ledger by starting the ledger program with
  \<open>chrono_ledger_append\<close>. The development models the programs that carry state and decisions, each
  in its own theory, and proves what makes them correct, or shows on the model where they are not.

  \<^bold>\<open>Foundations.\<close>
  \<^item> \<open>Prelude\<close>: lists, and the interfaces several components provide. \<open>invariant_machine\<close> and
    \<open>growing_machine\<close> (a step function that keeps an invariant, and whose states only grow),
    \<open>hash_chain\<close> and \<open>binding_chain\<close> (a log whose reader accepts what its writer sealed, and
    whose lines bind their contents up to an explicit clash of two hashed texts).
  \<^item> \<open>CString\<close>: the C library functions the programs use on strings (\<open>snprintf\<close> into a buffer,
    \<open>fgets\<close> loops, \<open>strstr\<close>, \<open>strtok_r\<close>, \<open>strsep\<close>, \<open>atoi\<close>, \<open>strtoll\<close>, \<open>%d\<close>, \<open>%02x\<close>).
    A string is the list of its bytes without the terminating NUL, a file the list of its bytes.
  \<^item> \<open>CScan\<close>: \<open>sscanf\<close> for the formats in use, with what a failed conversion leaves unset.
  \<^item> \<open>CTime\<close>: \<open>struct tm\<close>, the \<open>strftime\<close> and \<open>strptime\<close> formats in use, and the \<open>clock\<close> of a program.
    \<open>CDouble\<close>: IEEE doubles with their comparisons (every ordered comparison with a NaN is false) and \<open>%.2f\<close>.
    \<open>CFloat\<close>: rounding to the binary formats and \<open>strtod\<close>, with what a rounded number is off at most.
    \<open>FloatArith\<close>: sums, products and quotients of such numbers, and the range a result stays in.
  \<^item> \<open>Files\<close>: the file system of the small programs, a map from paths to contents with a
    \<open>file_env\<close> that says what can be opened and how much of what is written reaches the disk, and their common way to report to the ledger.

  \<^bold>\<open>Components.\<close>
  \<^item> \<open>ChronoExec\<close> (\<open>core/common/chrono_exec.c\<close>, \<open>chrono_shell_guard.c\<close>): running a program
    without a shell and the client side of the ledger. \<open>fork\<close> and \<open>waitpid\<close> are an \<open>exec_env\<close>.
  \<^item> \<open>Ledger\<close> (\<open>core/chrono_ledger.c\<close>): \<open>ledger_append\<close>, \<open>ledger_verify\<close>, \<open>ledger_main\<close>. The
    state is the ledger file, a \<open>ledger_env\<close> tells how each system call ends, and every exit code
    of the source is a branch. Shown: sequences of appends verify, an append can be read back,
    ledgers with the same head have the same records or exhibit a hash collision, the file only grows;
    a text with a quote spoils the ledger for good.
  \<^item> \<open>Continuum\<close> (\<open>core/continuum/chrono_continuum.c\<close>): \<open>continuum_init\<close>, \<open>continuum_event\<close>,
    \<open>continuum_verify\<close>, \<open>continuum_state\<close>, \<open>continuum_passport\<close> over a \<open>cont_fs\<close> (files and
    directories). Shown: the same kind of facts, and the ways in which the log deceives, a full disk among them.
  \<^item> \<open>Community\<close> (\<open>core/community/chrono_community_alert.c\<close>): authenticated alerts between nodes.
    An \<open>alert_node\<close> holds the peers, the nonce file, the alert log and the ledger calls. Shown: what
    a node sends another accepts, accepted packets are authentic and fresh, replays are rejected
    while the nonce file has room (and accepted when it has none).
  \<^item> \<open>ServiceRegistry\<close> and \<open>Supervisor\<close> (\<open>init/src\<close>, \<open>init/supervisor\<close>): the parser of
    \<open>services.conf\<close> and the supervision of child processes. The state is the list of service
    runtimes with the kernel's table of children; steps are the end of a child and one turn of
    the supervision loop. Shown: every reachable state is consistent, the restart limit holds,
    a shutdown leaves no child, and three faults of the restart and start paths. \<open>InitMain\<close> adds what the main program
    (\<open>init/src/main.c\<close>) writes, to the console and to the init log, and its signal handlers.
  \<^item> \<open>Subscriber5G\<close> (\<open>core/network5g/chrono_5g_manager.c\<close>): registration and revocation of
    subscribers; the state is the local file and the programs started. Shown: only three programs
    are ever started, with clean arguments; what a registration writes; what a revocation leaves.
  \<^item> \<open>Merkle\<close> and \<open>PinForge\<close> (\<open>core/chrono_pin_forge.c\<close>, \<open>core/chrono_pin_verify.c\<close>): the signed index of a
    directory. The state is a file tree (\<open>node\<close>); hash, signature and key format are a
    \<open>pin_crypto\<close>. Shown: the walk ends and indexes exactly the files it should, the root does not depend
    on the order of directory entries, what is forged verifies, and an accepted directory holds
    the signed files or exhibits a collision; but any key named by the bundle is trusted, and leaves
    and inner nodes of the tree can be confused. \<open>PinVerify\<close> is the verifier with its own copies of these functions, over a static
    array and with \<open>qsort\<close> as a parameter; it refines the list functions.
  \<^item> \<open>Diagnosis\<close>, \<open>Cnem\<close>, \<open>Cumbia\<close>, \<open>Assurance\<close>, \<open>Isp\<close> (\<open>core/cnem\<close>, \<open>core/cumbia\<close>,
    \<open>core/assurance\<close>, \<open>core/isp\<close>): the telemetry engines, pure functions from an observation to an
    incident. Shown: the engines of priority type refine a priority list (\<open>first_match\<close>), the
    cumulative ones report exactly the failing checks, identifiers tell devices apart; and, for each,
    an observation on which the verdict is not what it means to be. \<open>Reports\<close> holds what they print.
  \<^item> \<open>Modbus\<close> (\<open>core/industrial/chrono_modbus_guard.c\<close>): the MBAP parser on 8- and 16-bit words, every
    read of the buffer being checked in the model. Shown: no read outside the buffer, frames are
    parsed back, and a second frame in the buffer is never looked at.
  \<^item> \<open>CanGuard\<close> (\<open>core/vehicle/chrono_can_guard.c\<close>): the whitelist of CAN identifiers (32-bit words) with safe
    ranges of the first byte (8-bit words). Shown: the decision refines a map from identifiers to ranges, whitelists are
    read back as written, loading is bounded and well-typed; bounds wrap around. A description that a line leaves out is \<open>None\<close>.
  \<^item> \<open>Eagle\<close> (\<open>core/eagle\<close>) and \<open>Vertical\<close> (\<open>core/vertical\<close>): from discovery to the assessment of a camera, which is
    the worst of its verdicts in an ordered type of states; buildings, whose totals are the sums of their floors.
  \<^item> \<open>VisitorAccess\<close> (\<open>core/community/chrono_visitor_access.c\<close>, \<open>chrono_lpr.c\<close>): the register of visitors and the
    plate whitelist. Shown: the gate refines a list of entries, a grant is honoured for its window, a revocation is final
    when the register can be replaced and lost when it cannot.
  \<^item> \<open>DeathMemory\<close> (\<open>core/supervisor/chrono_death_memory.c\<close>) and \<open>AutonomousAgent\<close>
    (\<open>core/autonomous/chrono_autonomous_agent.c\<close>): counting events in a window of time and reacting. Shown: the
    anomaly detection counts exactly, by local times that are late under daylight saving time, the agent runs safe actions only and decides by its table, but reads another file
    than the ledger program writes.
  \<^item> \<open>Vault\<close> (\<open>core/vault/chrono_vault.c\<close>), \<open>ContextAuth\<close> (\<open>core/auth\<close>), \<open>DeviceIdentity\<close> (\<open>core/identity\<close>),
    \<open>Destruction\<close> (\<open>core/chrono_secure_purge.c\<close>, \<open>core/chrono_panic_protocol.c\<close>, \<open>core/attestation\<close>): keys and what is
    kept under them. OpenSSL gets lengths as \<open>int\<close>, so what is stored is retrieved below 2 GiB and lost from there on. Shown besides: the first enrolment decides, what a destruction removes and
    certifies, and what it certifies without having done it. \<open>PanicHalt\<close> holds what the three programs do to memory and
    how they end.
  \<^item> \<open>HardwareGuard\<close> (\<open>core/engine/chrono_hardware_guard.c\<close>): fingerprints (64-bit words) and quarantine of devices.
    Shown: the quarantine is complete where its log can be opened, the hash extends FNV-1a, and devices without identification are one device.
  \<^item> \<open>Guarded\<close> (\<open>core/tpm\<close>, \<open>core/print\<close>, \<open>core/chrono_master_orchestrator.c\<close>, \<open>kernel/power\<close>): programs that live from commands
    for the shell. Since the shell is disabled their probes always fail, which is proved of each.
  \<^item> \<open>CoreCrypt\<close> (\<open>core/engine/chrono_core.c\<close>), \<open>PowerShield\<close> (\<open>core/engine/chrono_power_shield.c\<close>,
    \<open>core/chrono_power_shield.c\<close>) and \<open>VolatileShield\<close> (\<open>core/engine/chrono_volatile_shield.c\<close>): encryption of files, the battery
    monitor and the energy daemon, and a registry of buffers over an explicit memory. Shown: what is encrypted to another
    name is restored (below 2 GiB), the log holds exactly the changes, a purge leaves nothing that depends on what the buffers held.
  \<^item> \<open>IotEngine\<close> (\<open>core/iot\<close>) and \<open>Antenna\<close> (\<open>core/antenna\<close>): readings, limits and registries. Shown: every rule that a number
    violates raises its alarm and no other, a registration writes one record of thirteen fields; a NaN passes every limit.
  \<^item> \<open>SyntheticEntity\<close> (\<open>core/chrono_synthetic_life.c\<close>): mutations of a genome and what is stored. Shown: a run ends with the
    entity it has stored, and which genomes the mutations cannot reach.
  \<^item> \<open>SyntheticLife\<close> (\<open>core/entity/chrono_synthetic_life.c\<close>): a population of entities on a torus, in single precision floats;
    \<open>rand\<close> is the sequence of its answers, and the order in which C evaluates arguments is a parameter. Shown: after every turn the population has its bounds, its identifiers are distinct, genes, positions
    and resources are in range; the loop that removes the dead is a filter; two of the eight genes influence nothing.
  \<^item> \<open>EarlyInit\<close> (\<open>init/chrono_init.c\<close>, \<open>initramfs/init/chrono_init.c\<close>): two programs that keep a console running, as step
    relations over the children of process 1. Shown: the second never runs two shells, the first any number of them.
  \<^item> \<open>CoreServices\<close>: the logger, the daemon skeleton, the packet auditors and the initramfs core with its hash.
  \<^item> \<open>Chronoctl\<close> (\<open>cli/chronoctl/src/main.c\<close>): the front end. Shown: it signals the daemon and nothing else. The last section
    of this theory composes it with the daemon (\<open>chronod_main\<close>, which ends with 0 on the signal) and the supervisor.
  \<^item> \<open>LedgerClients\<close>: the locale \<open>ledger_client\<close> for the programs that report to the ledger, with the subscriber manager and the alert
    mesh as its instances. Shown: whatever they report, in whatever order, the ledger verifies, as long as the alerts received have plain types and no record
    is written in part; one authentic alert with a quote in its type, of the texts that the ledger accepts, spoils it.
  \<^item> \<open>RepoTests\<close>: the test programs of the repository, and the registry it ships, run on the model.

  \<^bold>\<open>What is outside.\<close> Code that is not part of the repository is a parameter: SHA-256 (\<open>digest\<close>, \<open>H\<close>)
  and HMAC (\<open>hmac\<close>) of OpenSSL, random bytes, the clock, \<open>fork\<close>, \<open>waitpid\<close>, sockets and the
  answers of the file system. Hypotheses on them are named: \<open>digest_total\<close>, \<open>hash32\<close> (32 bytes, no
  failure), \<open>qsort_ok\<close> (a sorted permutation), \<open>kernel_ok\<close> (\<open>fork\<close> returns a positive process id that is not in use), \<open>whole_writes\<close>, \<open>untorn\<close> and
  \<open>no_torn_write\<close> (a write that fails leaves not one byte of its record behind), \<open>all_room\<close> and \<open>can_write\<close> (what is written reaches
  the disk), \<open>aead_correct\<close> (decryption undoes encryption, for buffers whose length an \<open>int\<close> can hold), \<open>clock_ok\<close> (\<open>mktime\<close> undoes \<open>localtime\<close> for a
  time of standard time; \<open>dst_shift\<close> is the error at other times). No theorem assumes that the digest has no
  collisions: where tampering could only hide behind one, the conclusion exhibits it.

  \<^bold>\<open>Bounds.\<close> Line buffers have the sizes of the source (a chunk of \<open>fgets\<close> is at most 4095 bytes
  in the ledger, 8191 in the continuity log, 127 in the community files, 511 in the registry, 255 in the
  subscriber file); sequence numbers of the continuity log are read with \<open>atoi\<close> and so stay below
  \<open>2 ^ 31\<close>; counters that the source keeps in \<open>int\<close> and that grow by one per step are unbounded
  integers, since no run reaches \<open>2 ^ 31\<close> steps. Loops over files recurse on the remaining bytes, and a
  call that may wait forever returns \<open>None\<close>. Only \<open>walk_dir\<close> takes fuel: the depth of the directory is
  enough (\<open>pin_index_complete\<close>).

  A variable that C leaves uninitialised is a parameter \<open>junk\<close>; a run that dereferences \<open>NULL\<close> or overflows
  a signed counter is \<open>None\<close>.

  \<^bold>\<open>Not modelled.\<close> Console output other than the reports of the continuity log, registry, supervisor, init, front end,
  assessments and the small programs; file permissions; the order in which buffers of the heap are reused. Lines for the console are
  given without their accents and symbols. The shell, Python and GIS tooling is not in the language of the core and has no model.
\<close>

section \<open>The front end and the supervisor\<close>

definition deliver :: "(nat \<Rightarrow> tm) \<Rightarrow> (int \<times> nat) list \<Rightarrow> init_event list" where
  \<comment> \<open>what becomes of daemons that get these signals, the processes being runs of \<open>chronod\<close>: how each run ends\<close>
  "deliver t signals = concat (map (\<lambda>(pid, sig). case chronod_main t (Some sig) of
       Daemon_running out \<Rightarrow> []
     | Daemon_stopped rc out \<Rightarrow> [ChildEnds pid (Exited (nat rc))]
     | Daemon_killed s out \<Rightarrow> [ChildEnds pid (Signaled s)]) signals)"

text \<open>C34: \<open>chronoctl stop\<close> does not stop the service: it ends the process of the supervised daemon, which handles the signal and
  exits with 0, but the supervisor takes also this end for a failure, and after its next turn the service runs again in a new process, with one
  restart more on its account. The conditions: \<open>chronod\<close> is the only service of the supervisor, it runs under the policy \<open>on-failure\<close> with
  restarts left, its process is the one that the front end finds and may signal, and the next \<open>fork\<close> succeeds.\<close>

theorem ctl_stop_undone:
  assumes "find_process env SERVICE_NAME = Some (r_pid s)" and "ctl_kill env (r_pid s)"
    and "r_state s = RUNNING" and "0 < r_pid s" and "os (r_pid s) = Some Alive"
    and "s_restart_policy (r_config s) = ''on-failure''" and "r_restart_count s < s_max_restarts (r_config s)"
    and "fork (os(r_pid s := None)) = Some p"
  shows "foldl init_step ([s], os) (deliver t (run_signals (ctl_main env [prog, ''stop'', SERVICE_NAME])) @ [Cycle fork])
    = ([s\<lparr>r_state := RUNNING, r_restart_count := r_restart_count s + 1, r_pid := p\<rparr>], (os(r_pid s := None))(p \<mapsto> Alive))"
proof -
  have "run_signals (ctl_main env [prog, ''stop'', SERVICE_NAME]) = [(r_pid s, SIGTERM)]"
    using assms(1,2) by (simp add: ctl_main_def command_stop_def)
  then show ?thesis
    using assms(3-8)
    by (simp add: deliver_def chronod_main_def chronod_signals_def SIGTERM_def init_step_def supervisor_poll_def poll_one_def supervisor_handle_failures_def handle_one_def
        supervisor_restart_def supervisor_start_def valid_index_def Let_def)
qed

theorem ctl_stop_undone_witness:
  "foldl init_step ([demo_service RUNNING 0 7], (\<lambda>_. None)(7 \<mapsto> Alive))
     (deliver (\<lambda>_. demo_tm) (run_signals (ctl_main demo_ctl [''chronoctl'', ''stop'', SERVICE_NAME])) @ [Cycle demo_alloc])
   = ([(demo_service RUNNING 0 7)\<lparr>r_state := RUNNING, r_restart_count := r_restart_count (demo_service RUNNING 0 7) + 1, r_pid := 100\<rparr>],
      (((\<lambda>_. None)(7 \<mapsto> Alive))(r_pid (demo_service RUNNING 0 7) := None))(100 \<mapsto> Alive))"
proof -
  have "entry_pid demo_ctl SERVICE_NAME ''self'' = None"
    by (simp add: entry_pid_def strtol_end_def sign_of_def c_isspace_def c_isdigit_def code_def)
  moreover have "entry_pid demo_ctl SERVICE_NAME (nat_str 7) = Some 7"
    using strtol_end_nat [of 7]
    by (simp add: entry_pid_def demo_ctl_def SERVICE_NAME_def fgets_take_def fgets_len_def cstr_def wrap32_def)
  ultimately have "find_process demo_ctl SERVICE_NAME = Some 7" by (simp add: find_process_def demo_ctl_def)
  then show ?thesis
    by (intro ctl_stop_undone) (simp_all add: demo_service_def demo_alloc_def demo_ctl_def)
qed

end
